(* ===== verification/Prelude.thy ===== *)
theory Prelude
  imports Main "HOL-Library.Word" "HOL-Library.AList" "HOL-Library.Monad_Syntax"
begin

section \<open>Shared vocabulary of the server model\<close>

text \<open>
  Types, containers and generic lemmas that every component of the server uses.

  \<^item> \<open>bytes\<close> is Rust's \<open>Vec<u8>\<close> / \<open>&[u8]\<close>; \<open>u64\<close> and \<open>u8\<close> keep their width.
    A \<open>usize\<close> is a \<open>nat\<close> whose upper bound \<open>usize_limit\<close> (a 64-bit target) is written
    out at the places where the source checks it.
  \<^item> A Rust \<open>String\<close> and the name and value of an HTTP/3 header are byte strings; an
    Isabelle \<open>char\<close> is an 8-bit byte, so they are \<open>string\<close>s.
  \<^item> \<open>Result<T, E>\<close> is \<open>'e + 't\<close> with \<open>Err = Inl\<close> and \<open>Ok = Inr\<close>.
  \<^item> \<open>HashMap\<close> and \<open>DashMap\<close> are association lists with distinct keys. The list order is
    one possible iteration order; results that depend on it are stated up to \<open>set\<close>.
\<close>

type_synonym byte = "8 word"
type_synonym bytes = "byte list"
type_synonym u8 = "8 word"
type_synonym u16 = "16 word"
type_synonym u64 = "64 word"
type_synonym usize = nat
type_synonym stream_id = u64
type_synonym scid = bytes
type_synonym conn_id = string
type_synonym path_buf = string

definition usize_limit :: nat where
  "usize_limit = 2 ^ 64"

abbreviation Ok :: "'a \<Rightarrow> 'e + 'a" where
  "Ok \<equiv> Inr"

abbreviation Err :: "'e \<Rightarrow> 'e + 'a" where
  "Err \<equiv> Inl"

definition is_ok :: "'e + 'a \<Rightarrow> bool" where
  "is_ok r \<longleftrightarrow> (case r of Inl _ \<Rightarrow> False | Inr _ \<Rightarrow> True)"

lemma is_ok_simps [simp]: "is_ok (Ok x)" "\<not> is_ok (Err e)"
  by (simp_all add: is_ok_def)

text \<open>\<open>quiche::h3::Header\<close>: a name and a value, both byte strings.\<close>

record h3_header =
  hname :: string
  hvalue :: string

definition header :: "string \<Rightarrow> string \<Rightarrow> h3_header" where
  "header n v = \<lparr>hname = n, hvalue = v\<rparr>"

lemma header_sel [simp]: "hname (header n v) = n" "hvalue (header n v) = v"
  by (simp_all add: header_def)

text \<open>The bytes of an ASCII literal \<open>b"..."\<close>.\<close>

definition ascii_bytes :: "string \<Rightarrow> bytes" where
  "ascii_bytes s = map of_char s"

lemma length_ascii_bytes [simp]: "length (ascii_bytes s) = length s"
  by (simp add: ascii_bytes_def)


subsection \<open>Collections of rewrite rules\<close>

named_theorems op_defs \<open>definitions of the operations of a component\<close>
named_theorems abs_simps \<open>what an operation does to the abstract view of a state\<close>
named_theorems inv_intros \<open>an operation keeps the invariant of its component\<close>


subsection \<open>Maps with an iteration order\<close>

type_synonym ('k, 'v) dashmap = "('k \<times> 'v) list"

definition dm_wf :: "('k, 'v) dashmap \<Rightarrow> bool" where
  "dm_wf m \<longleftrightarrow> distinct (map fst m)"

definition dm_get :: "('k, 'v) dashmap \<Rightarrow> 'k \<Rightarrow> 'v option" where
  "dm_get m k = map_of m k"

definition dm_contains :: "('k, 'v) dashmap \<Rightarrow> 'k \<Rightarrow> bool" where
  "dm_contains m k \<longleftrightarrow> dm_get m k \<noteq> None"

definition dm_insert :: "'k \<Rightarrow> 'v \<Rightarrow> ('k, 'v) dashmap \<Rightarrow> ('k, 'v) dashmap" where
  "dm_insert k v m = AList.update k v m"

definition dm_remove :: "'k \<Rightarrow> ('k, 'v) dashmap \<Rightarrow> ('k, 'v) dashmap" where
  "dm_remove k m = AList.delete k m"

definition dm_modify :: "'k \<Rightarrow> ('v \<Rightarrow> 'v) \<Rightarrow> ('k, 'v) dashmap \<Rightarrow> ('k, 'v) dashmap" where
  "dm_modify k f m = (case dm_get m k of None \<Rightarrow> m | Some v \<Rightarrow> dm_insert k (f v) m)"

text \<open>\<open>entry(k).or_insert(v)\<close>: an existing value is kept.\<close>

definition dm_or_insert :: "'k \<Rightarrow> 'v \<Rightarrow> ('k, 'v) dashmap \<Rightarrow> ('k, 'v) dashmap" where
  "dm_or_insert k v m = (if dm_contains m k then m else dm_insert k v m)"

definition dm_retain :: "('k \<Rightarrow> bool) \<Rightarrow> ('k, 'v) dashmap \<Rightarrow> ('k, 'v) dashmap" where
  "dm_retain P m = filter (\<lambda>(k, v). P k) m"

lemma dm_get_Nil [simp]: "dm_get [] k = None"
  by (simp add: dm_get_def)

lemma dm_get_insert [simp]: "dm_get (dm_insert k v m) k' = (if k' = k then Some v else dm_get m k')"
  by (simp add: dm_get_def dm_insert_def update_conv')

lemma dm_get_remove [simp]: "dm_get (dm_remove k m) k' = (if k' = k then None else dm_get m k')"
  by (simp add: dm_get_def dm_remove_def delete_conv')

lemma dm_get_modify [simp]:
  "dm_get (dm_modify k f m) k' = (if k' = k then map_option f (dm_get m k) else dm_get m k')"
  by (simp add: dm_modify_def split: option.split)

lemma dm_get_or_insert [simp]:
  "dm_get (dm_or_insert k v m) k' =
     (if k' = k \<and> dm_get m k = None then Some v else dm_get m k')"
  by (auto simp: dm_or_insert_def dm_contains_def)

lemma dm_get_retain [simp]: "dm_get (dm_retain P m) k = (if P k then dm_get m k else None)"
  by (induction m) (auto simp: dm_get_def dm_retain_def)

lemma dm_contains_insert [simp]: "dm_contains (dm_insert k v m) k' \<longleftrightarrow> k' = k \<or> dm_contains m k'"
  by (simp add: dm_contains_def)

lemma dm_contains_remove [simp]: "dm_contains (dm_remove k m) k' \<longleftrightarrow> k' \<noteq> k \<and> dm_contains m k'"
  by (simp add: dm_contains_def)

lemma dm_contains_retain [simp]: "dm_contains (dm_retain P m) k \<longleftrightarrow> P k \<and> dm_contains m k"
  by (simp add: dm_contains_def)

lemma dm_contains_modify [simp]: "dm_contains (dm_modify k f m) k' \<longleftrightarrow> dm_contains m k'"
  by (auto simp: dm_contains_def)

lemma dm_contains_or_insert [simp]:
  "dm_contains (dm_or_insert k v m) k' \<longleftrightarrow> k' = k \<or> dm_contains m k'"
  by (auto simp: dm_contains_def)

lemma dm_contains_Nil [simp]: "\<not> dm_contains [] k"
  by (simp add: dm_contains_def)

lemma dm_contains_keys: "dm_contains m k \<longleftrightarrow> k \<in> set (map fst m)"
  by (simp add: dm_contains_def dm_get_def map_of_eq_None_iff)

lemma dm_wf_Nil [simp]: "dm_wf []"
  by (simp add: dm_wf_def)

lemma dm_wf_insert [simp, intro]: "dm_wf m \<Longrightarrow> dm_wf (dm_insert k v m)"
  by (simp add: dm_wf_def dm_insert_def distinct_update)

lemma dm_wf_remove [simp, intro]: "dm_wf m \<Longrightarrow> dm_wf (dm_remove k m)"
  by (simp add: dm_wf_def dm_remove_def distinct_delete)

lemma dm_wf_modify [simp, intro]: "dm_wf m \<Longrightarrow> dm_wf (dm_modify k f m)"
  by (simp add: dm_modify_def split: option.split)

lemma dm_wf_or_insert [simp, intro]: "dm_wf m \<Longrightarrow> dm_wf (dm_or_insert k v m)"
  by (simp add: dm_or_insert_def)

lemma dm_wf_retain [simp, intro]: "dm_wf m \<Longrightarrow> dm_wf (dm_retain P m)"
  unfolding dm_wf_def dm_retain_def by (rule distinct_map_filter)

lemma dm_get_entry: "dm_wf m \<Longrightarrow> dm_get m k = Some v \<longleftrightarrow> (k, v) \<in> set m"
  by (simp add: dm_get_def dm_wf_def)


subsection \<open>Tables keyed by connection and stream\<close>

text \<open>
  Three components keep per-request state keyed by a connection and a stream id: the path
  verifier, the disposition map of the response buffer and the table of partial requests.
  Each can drop one request and can drop every request of a closed connection. The locale
  states that contract once; its lemmas say that dropping a connection is the same as
  dropping its requests one by one and never touches another connection.
\<close>

locale request_scoped =
  fixes live :: "'s \<Rightarrow> 'c \<Rightarrow> stream_id \<Rightarrow> bool"
    and drop_request :: "'c \<Rightarrow> stream_id \<Rightarrow> 's \<Rightarrow> 's"
    and drop_connection :: "'c \<Rightarrow> 's \<Rightarrow> 's"
  assumes live_drop_request:
      "live (drop_request c i s) c' i' \<longleftrightarrow> live s c' i' \<and> \<not> (c' = c \<and> i' = i)"
    and live_drop_connection:
      "live (drop_connection c s) c' i' \<longleftrightarrow> live s c' i' \<and> c' \<noteq> c"
begin

lemma drop_request_others: "c' \<noteq> c \<Longrightarrow> live (drop_request c i s) c' i' = live s c' i'"
  by (simp add: live_drop_request)

lemma drop_connection_all: "\<not> live (drop_connection c s) c i"
  by (simp add: live_drop_connection)

lemma drop_connection_others: "c' \<noteq> c \<Longrightarrow> live (drop_connection c s) c' i = live s c' i"
  by (simp add: live_drop_connection)

lemma drop_requests_fold:
  "live (fold (drop_request c) is s) c' i' \<longleftrightarrow> live s c' i' \<and> \<not> (c' = c \<and> i' \<in> set is)"
  by (induction "is" arbitrary: s) (auto simp: live_drop_request)

lemma drop_connection_as_requests:
  assumes "\<And>i. live s c i \<Longrightarrow> i \<in> set is"
  shows "live (drop_connection c s) = live (fold (drop_request c) is s)"
  using assms by (auto simp: fun_eq_iff live_drop_connection drop_requests_fold)

end


subsection \<open>Byte strings\<close>

text \<open>\<open>slice.get(a..b)\<close>: None when the range does not lie in the slice.\<close>

definition slice_get :: "nat \<Rightarrow> nat \<Rightarrow> 'a list \<Rightarrow> 'a list option" where
  "slice_get a b xs = (if a \<le> b \<and> b \<le> length xs then Some (take (b - a) (drop a xs)) else None)"

lemma slice_get_Some:
  "slice_get a b xs = Some ys \<longleftrightarrow> a \<le> b \<and> b \<le> length xs \<and> ys = take (b - a) (drop a xs)"
  by (auto simp: slice_get_def)

definition list_get :: "nat \<Rightarrow> 'a list \<Rightarrow> 'a option" where
  "list_get i xs = (if i < length xs then Some (xs ! i) else None)"

text \<open>Big-endian bytes of a number and back: \<open>to_be_bytes\<close> and \<open>from_be_bytes\<close>.\<close>

primrec be_bytes :: "nat \<Rightarrow> nat \<Rightarrow> bytes" where
  "be_bytes 0 v = []"
| "be_bytes (Suc n) v = be_bytes n (v div 256) @ [of_nat v]"

definition be_value :: "bytes \<Rightarrow> nat" where
  "be_value bs = foldl (\<lambda>a b. a * 256 + unat b) 0 bs"

lemma length_be_bytes [simp]: "length (be_bytes n v) = n"
  by (induction n arbitrary: v) auto

lemma be_value_Nil [simp]: "be_value [] = 0"
  by (simp add: be_value_def)

lemma be_value_snoc [simp]: "be_value (bs @ [b]) = be_value bs * 256 + unat b"
  by (simp add: be_value_def)

lemma unat_byte_less [simp]: "unat (b :: 8 word) < 256"
  by (rule unsigned_less [where 'a = nat and 'b = 8, simplified])

lemma unat_u64_less [simp]: "unat (x :: 64 word) < 2 ^ 64"
  using unsigned_less [where 'a = nat and 'b = 64, of x] by simp

lemma unat_of_nat_byte: "unat (of_nat v :: 8 word) = v mod 256"
  by (simp add: unat_of_nat)

lemma be_value_be_bytes: "be_value (be_bytes n v) = v mod 256 ^ n"
  by (induction n arbitrary: v) (simp_all add: unat_of_nat_byte mod_mult2_eq)

lemma be_bytes_be_value: "be_bytes (length bs) (be_value bs) = bs"
proof (induction bs rule: rev_induct)
  case Nil
  then show ?case by simp
next
  case (snoc b bs)
  have "unat b < 256" by (rule unat_byte_less)
  then have "(be_value bs * 256 + unat b) div 256 = be_value bs"
    by simp
  moreover have "(of_nat (be_value bs * 256 + unat b) :: 8 word) = b"
  proof -
    have "(256 :: 8 word) = 0" by simp
    then show ?thesis by (simp only: of_nat_add of_nat_mult of_nat_numeral of_nat_unat ucast_id) simp
  qed
  ultimately show ?case
    using snoc.IH by simp
qed

lemma be_value_less: "be_value bs < 256 ^ length bs"
  by (metis be_bytes_be_value be_value_be_bytes length_be_bytes mod_less_divisor
      zero_less_numeral zero_less_power)

lemma be_bytes_inject:
  assumes "be_bytes n v = be_bytes n w" "v < 256 ^ n" "w < 256 ^ n"
  shows "v = w"
proof -
  have "v mod 256 ^ n = w mod 256 ^ n"
    using assms(1) by (metis be_value_be_bytes)
  then show ?thesis using assms(2,3) by simp
qed


subsection \<open>Lists\<close>

lemma drop_split: "drop i xs = take n (drop i xs) @ drop (i + n) xs"
  by (metis append_take_drop_id drop_drop add.commute)

lemma append_eq_same_length:
  "length a = length a' \<Longrightarrow> a @ b = a' @ b' \<longleftrightarrow> a = a' \<and> b = b'"
  by simp


subsection \<open>Running operations\<close>

text \<open>A sequence of operations with their outputs, and one operation repeated.\<close>

fun run_ops :: "('o \<Rightarrow> 's \<Rightarrow> 'b \<times> 's) \<Rightarrow> 'o list \<Rightarrow> 's \<Rightarrow> 'b list \<times> 's" where
  "run_ops step [] s = ([], s)"
| "run_ops step (x # xs) s =
     (let (out, s') = step x s; (outs, s'') = run_ops step xs s' in (out # outs, s''))"

primrec iterate :: "('s \<Rightarrow> 'b \<times> 's) \<Rightarrow> nat \<Rightarrow> 's \<Rightarrow> 'b list \<times> 's" where
  "iterate step 0 s = ([], s)"
| "iterate step (Suc n) s =
     (let (out, s') = step s; (outs, s'') = iterate step n s' in (out # outs, s''))"

lemma run_ops_Cons:
  "run_ops step (x # xs) s = (outs, s') \<longleftrightarrow>
     (\<exists>out s1 outs1. step x s = (out, s1) \<and> run_ops step xs s1 = (outs1, s') \<and> outs = out # outs1)"
  by (cases "step x s"; cases "run_ops step xs (snd (step x s))") auto

text \<open>A \<open>for\<close> loop whose body can panic.\<close>

primrec for_each :: "('a \<Rightarrow> 's \<Rightarrow> 's option) \<Rightarrow> 'a list \<Rightarrow> 's \<Rightarrow> 's option" where
  "for_each f [] s = Some s"
| "for_each f (x # xs) s = (case f x s of Some s' \<Rightarrow> for_each f xs s' | None \<Rightarrow> None)"

lemma for_each_invariant:
  "for_each f xs s = Some s' \<Longrightarrow> P s \<Longrightarrow> (\<And>x s s'. x \<in> set xs \<Longrightarrow> P s \<Longrightarrow> f x s = Some s' \<Longrightarrow> P s') \<Longrightarrow> P s'"
  by (induction xs arbitrary: s) (auto split: option.splits, metis)

lemma for_each_append:
  "for_each f (xs @ ys) s = (case for_each f xs s of Some s' \<Rightarrow> for_each f ys s' | None \<Rightarrow> None)"
  by (induction xs arbitrary: s) (auto split: option.split)

end
