(* ===== verification/HttpRequest.thy ===== *)
theory HttpRequest
  imports Prelude
begin

section \<open>Request headers and query strings\<close>

text \<open>
  Model of \<open>parse_request_headers\<close> and its two callers (\<open>src/header_queue_processing.rs\<close>),
  \<open>H3Method\<close> (\<open>src/route_manager.rs\<close>) and \<open>ReqArgs\<close>
  (\<open>src/route_handler/request_temp_table.rs\<close>), with the parts of Rust's UTF-8 decoding, string
  splitting and integer parsing they use.
\<close>

subsection \<open>UTF-8\<close>

definition is_cont :: "nat \<Rightarrow> bool" where
  "is_cont b \<longleftrightarrow> 128 \<le> b \<and> b < 192"

text \<open>
  One step of the standard library's decoder on the byte values of a string: whether the string
  starts with a well-formed character, and how many bytes that character, or else the maximal
  ill-formed prefix, has.
\<close>

fun second_ok :: "nat \<Rightarrow> nat \<Rightarrow> bool" where
  "second_ok b c =
     (if b = 224 then 160 \<le> c \<and> c < 192
      else if b = 237 then 128 \<le> c \<and> c < 160
      else if b = 240 then 144 \<le> c \<and> c < 192
      else if b = 244 then 128 \<le> c \<and> c < 144
      else is_cont c)"

definition byte_at :: "nat \<Rightarrow> string \<Rightarrow> nat" where
  "byte_at i s = (if i < length s then of_char (s ! i) else 0)"

definition utf8_step :: "string \<Rightarrow> bool \<times> nat" where
  "utf8_step s =
     (let b = byte_at 0 s in
      if b < 128 then (True, 1)
      else if 194 \<le> b \<and> b < 224 then (if is_cont (byte_at 1 s) then (True, 2) else (False, 1))
      else if 224 \<le> b \<and> b < 240 then
        (if \<not> second_ok b (byte_at 1 s) then (False, 1)
         else if \<not> is_cont (byte_at 2 s) then (False, 2) else (True, 3))
      else if 240 \<le> b \<and> b < 245 then
        (if \<not> second_ok b (byte_at 1 s) then (False, 1)
         else if \<not> is_cont (byte_at 2 s) then (False, 2)
         else if \<not> is_cont (byte_at 3 s) then (False, 3) else (True, 4))
      else (False, 1))"

definition utf8_len :: "string \<Rightarrow> nat" where
  "utf8_len s = snd (utf8_step s)"

lemma utf8_len_pos [simp]: "0 < utf8_len s"
  by (simp add: utf8_len_def utf8_step_def Let_def del: second_ok.simps)

function valid_utf8 :: "string \<Rightarrow> bool" where
  "valid_utf8 s = (if s = [] then True
     else fst (utf8_step s) \<and> valid_utf8 (drop (utf8_len s) s))"
  by auto
termination
  by (relation "measure length") auto

definition REPLACEMENT :: string where
  "REPLACEMENT = [char_of (239 :: nat), char_of (191 :: nat), char_of (189 :: nat)]"

function from_utf8_lossy :: "string \<Rightarrow> string" where
  "from_utf8_lossy s = (if s = [] then []
     else (if fst (utf8_step s) then take (utf8_len s) s else REPLACEMENT)
          @ from_utf8_lossy (drop (utf8_len s) s))"
  by auto
termination
  by (relation "measure length") auto

declare valid_utf8.simps [simp del] from_utf8_lossy.simps [simp del]

lemma valid_utf8_Nil [simp]: "valid_utf8 []"
  by (simp add: valid_utf8.simps)

definition is_ascii :: "string \<Rightarrow> bool" where
  "is_ascii s \<longleftrightarrow> list_all (\<lambda>c. of_char c < (128 :: nat)) s"

lemma utf8_step_ascii: "is_ascii (c # s) \<Longrightarrow> utf8_step (c # s) = (True, 1)"
  by (simp add: is_ascii_def utf8_step_def byte_at_def)

lemma valid_utf8_ascii: "is_ascii s \<Longrightarrow> valid_utf8 s"
proof (induction s)
  case (Cons c s)
  then have "is_ascii s" by (simp add: is_ascii_def)
  with Cons show ?case
    by (subst valid_utf8.simps) (simp add: utf8_step_ascii utf8_len_def)
qed simp

text \<open>A lossy decoding that is plain ASCII did not replace anything.\<close>

lemma from_utf8_lossy_ascii:
  "is_ascii (from_utf8_lossy s) \<Longrightarrow> from_utf8_lossy s = s"
proof (induction s rule: from_utf8_lossy.induct)
  case (1 s)
  show ?case
  proof (cases "s = []")
    case True
    then show ?thesis by (simp add: from_utf8_lossy.simps)
  next
    case False
    have eq: "from_utf8_lossy s = (if fst (utf8_step s) then take (utf8_len s) s else REPLACEMENT)
        @ from_utf8_lossy (drop (utf8_len s) s)"
      using False by (subst from_utf8_lossy.simps) simp
    have "fst (utf8_step s)"
      using "1.prems" by (rule contrapos_pp) (simp add: eq is_ascii_def REPLACEMENT_def)
    moreover have "is_ascii (from_utf8_lossy (drop (utf8_len s) s))"
      using "1.prems" by (simp add: eq is_ascii_def)
    ultimately show ?thesis
      using "1.IH" [OF False] by (simp add: eq)
  qed
qed

lemma from_utf8_lossy_of_ascii: "is_ascii s \<Longrightarrow> from_utf8_lossy s = s"
proof (induction s)
  case Nil
  then show ?case by (simp add: from_utf8_lossy.simps)
next
  case (Cons c s)
  then have "is_ascii s" by (simp add: is_ascii_def)
  with Cons show ?case
    by (subst from_utf8_lossy.simps) (simp add: utf8_step_ascii utf8_len_def)
qed


subsection \<open>Methods\<close>

datatype H3Method = GET | POST | PUT | DELETE

definition method_parse :: "string \<Rightarrow> unit + H3Method" where
  "method_parse input =
     (let s = from_utf8_lossy input in
      if s = ''GET'' then Ok GET
      else if s = ''POST'' then Ok POST
      else if s = ''PUT'' then Ok PUT
      else if s = ''DELETE'' then Ok DELETE
      else Err ())"

fun method_name :: "H3Method \<Rightarrow> string" where
  "method_name GET = ''GET''"
| "method_name POST = ''POST''"
| "method_name PUT = ''PUT''"
| "method_name DELETE = ''DELETE''"

lemma method_name_ascii: "is_ascii (method_name m)"
  by (cases m) (simp_all add: is_ascii_def)

lemma lossy_eq_ascii: "is_ascii t \<Longrightarrow> from_utf8_lossy s = t \<longleftrightarrow> s = t"
  using from_utf8_lossy_ascii from_utf8_lossy_of_ascii by metis

lemma method_parse_cases: "method_parse s = Ok m \<longleftrightarrow> from_utf8_lossy s = method_name m"
  by (cases m) (auto simp: method_parse_def Let_def)


subsection \<open>Parsing the headers of a request\<close>

definition is_ascii_digit :: "char \<Rightarrow> bool" where
  "is_ascii_digit c \<longleftrightarrow> 48 \<le> (of_char c :: nat) \<and> of_char c \<le> (57 :: nat)"

definition digits_value :: "string \<Rightarrow> nat" where
  "digits_value s = foldl (\<lambda>n c. n * 10 + (of_char c - 48)) 0 s"

text \<open>\<open>str::parse::<usize>\<close>: an optional plus sign, digits, and no overflow.\<close>

definition parse_usize :: "string \<Rightarrow> usize option" where
  "parse_usize s =
     (let t = (if 1 < length s \<and> hd s = CHR ''+'' then tl s else s) in
      if t = [] \<or> \<not> list_all is_ascii_digit t \<or> usize_limit \<le> digits_value t
      then None else Some (digits_value t))"

definition bad_path_byte :: "char \<Rightarrow> bool" where
  "bad_path_byte c \<longleftrightarrow> (of_char c :: nat) \<le> 32 \<or> of_char c = (127 :: nat)"

fun scan_headers ::
  "h3_header list \<Rightarrow> string option \<Rightarrow> string option \<Rightarrow> usize option \<Rightarrow>
     (string option \<times> string option \<times> usize option) option" where
  "scan_headers [] method path content_length = Some (method, path, content_length)"
| "scan_headers (h # hs) method path content_length =
     (if hname h = '':method'' then
        (if method \<noteq> None \<or> \<not> is_ok (method_parse (hvalue h)) then None
         else scan_headers hs (Some (hvalue h)) path content_length)
      else if hname h = '':path'' then
        (if path \<noteq> None then None
         else if \<not> valid_utf8 (hvalue h) then None
         else if hvalue h = [] \<or> list_ex bad_path_byte (hvalue h) then None
         else scan_headers hs method (Some (hvalue h)) content_length)
      else if hname h = ''content-length'' then
        (if content_length \<noteq> None \<or> hvalue h = [] \<or> \<not> list_all is_ascii_digit (hvalue h) then None
         else (case parse_usize (hvalue h) of
                 None \<Rightarrow> None
               | Some n \<Rightarrow> scan_headers hs method path (Some n)))
      else scan_headers hs method path content_length)"

definition parse_request_headers :: "h3_header list \<Rightarrow> (string \<times> string \<times> usize option) option" where
  "parse_request_headers headers =
     (case scan_headers headers None None None of
        Some (Some method, Some path, content_length) \<Rightarrow> Some (method, path, content_length)
      | _ \<Rightarrow> None)"

definition extract_path_from_hdr :: "h3_header list \<Rightarrow> string option" where
  "extract_path_from_hdr headers = map_option (\<lambda>(_, path, _). path) (parse_request_headers headers)"

definition extract_method_path_content_length ::
  "h3_header list \<Rightarrow> string option \<times> string option \<times> usize option" where
  "extract_method_path_content_length headers =
     (case parse_request_headers headers of
        Some (method, path, len) \<Rightarrow> (Some method, Some path, len)
      | None \<Rightarrow> (None, None, None))"


text \<open>The values of the headers of one name, and what makes each of the three values acceptable.\<close>

definition values_of :: "string \<Rightarrow> h3_header list \<Rightarrow> string list" where
  "values_of n hs = map hvalue (filter (\<lambda>h. hname h = n) hs)"

definition method_ok :: "string \<Rightarrow> bool" where
  "method_ok v \<longleftrightarrow> v \<in> {''GET'', ''POST'', ''PUT'', ''DELETE''}"

definition path_ok :: "string \<Rightarrow> bool" where
  "path_ok v \<longleftrightarrow> valid_utf8 v \<and> v \<noteq> [] \<and> \<not> list_ex bad_path_byte v"

definition length_ok :: "string \<Rightarrow> bool" where
  "length_ok v \<longleftrightarrow> v \<noteq> [] \<and> list_all is_ascii_digit v \<and> digits_value v < usize_limit"

lemma ex_method: "(\<exists>m. P m) \<longleftrightarrow> P GET \<or> P POST \<or> P PUT \<or> P DELETE"
  by (metis H3Method.exhaust)

lemma method_parse_ok: "is_ok (method_parse v) \<longleftrightarrow> method_ok v"
proof -
  have "is_ok (method_parse v) \<longleftrightarrow> (\<exists>m. method_parse v = Ok m)"
    by (cases "method_parse v") simp_all
  also have "\<dots> \<longleftrightarrow> (\<exists>m. v = method_name m)"
    by (simp add: method_parse_cases lossy_eq_ascii method_name_ascii)
  also have "\<dots> \<longleftrightarrow> method_ok v"
    by (simp add: ex_method method_ok_def)
  finally show ?thesis .
qed

lemma digit_not_plus: "is_ascii_digit c \<Longrightarrow> c \<noteq> CHR ''+''"
  by (auto simp: is_ascii_digit_def)

lemma parse_usize_digits:
  assumes "v \<noteq> []" "list_all is_ascii_digit v"
  shows "parse_usize v = (if digits_value v < usize_limit then Some (digits_value v) else None)"
proof -
  have "is_ascii_digit (hd v)" using assms by (cases v) simp_all
  then have "(if 1 < length v \<and> hd v = CHR ''+'' then tl v else v) = v"
    using digit_not_plus by simp
  then show ?thesis
    unfolding parse_usize_def Let_def using assms by (simp add: not_less)
qed

text \<open>Scanning keeps one slot per header name; a slot is filled at most once.\<close>

definition slot :: "string list \<Rightarrow> (string \<Rightarrow> bool) \<Rightarrow> (string \<Rightarrow> 'a) \<Rightarrow> 'a option \<Rightarrow> 'a option option" where
  "slot vs ok f old =
     (case (vs, old) of
        ([], _) \<Rightarrow> Some old
      | ([v], None) \<Rightarrow> if ok v then Some (Some (f v)) else None
      | _ \<Rightarrow> None)"

lemma slot_Nil [simp]: "slot [] ok f old = Some old"
  by (simp add: slot_def)

lemma slot_Cons: "slot (v # vs) ok f old =
    (if old = None \<and> ok v then slot vs ok f (Some (f v)) else None)"
  by (auto simp: slot_def split: option.split list.split)

lemma values_of_simps [simp]: "values_of n [] = []"
  "values_of n (h # hs) = (if hname h = n then hvalue h # values_of n hs else values_of n hs)"
  by (simp_all add: values_of_def)

lemma scan_headers_slots:
  "scan_headers hs m p l =
     do { m' \<leftarrow> slot (values_of '':method'' hs) method_ok id m;
          p' \<leftarrow> slot (values_of '':path'' hs) path_ok id p;
          l' \<leftarrow> slot (values_of ''content-length'' hs) length_ok digits_value l;
          Some (m', p', l') }"
proof (induction hs arbitrary: m p l)
  case Nil
  show ?case by simp
next
  case (Cons h hs)
  consider "hname h = '':method''" | "hname h = '':path''" | "hname h = ''content-length''"
    | "hname h \<notin> {'':method'', '':path'', ''content-length''}" by blast
  then show ?case
  proof cases
    case 1
    then show ?thesis by (simp add: Cons.IH slot_Cons method_parse_ok)
  next
    case 2
    then show ?thesis
      by (simp add: Cons.IH slot_Cons path_ok_def bind_eq_None_conv split: option.split)
  next
    case 3
    then show ?thesis
      by (simp add: Cons.IH slot_Cons length_ok_def parse_usize_digits)
  qed (simp add: Cons.IH)
qed

lemma slot_None_eq:
  "slot vs ok f None = Some r \<longleftrightarrow>
     (case r of None \<Rightarrow> vs = [] | Some x \<Rightarrow> (\<exists>v. vs = [v] \<and> ok v \<and> x = f v))"
  by (auto simp: slot_def split: list.split option.split)


subsection \<open>Query strings\<close>

fun split_once :: "char \<Rightarrow> string \<Rightarrow> (string \<times> string) option" where
  "split_once c [] = None"
| "split_once c (x # xs) = (if x = c then Some ([], xs)
     else map_option (\<lambda>(a, b). (x # a, b)) (split_once c xs))"

text \<open>\<open>str::split\<close> on one character: the pieces between separators, at least one.\<close>

fun split_on :: "char \<Rightarrow> string \<Rightarrow> string list" where
  "split_on c [] = [[]]"
| "split_on c (x # xs) = (if x = c then [] # split_on c xs
     else (case split_on c xs of p # ps \<Rightarrow> (x # p) # ps | [] \<Rightarrow> [[x]]))"

type_synonym ReqArgs = "(string, string) dashmap"

definition req_args_new :: ReqArgs where
  "req_args_new = []"

definition build_query_string :: "string \<Rightarrow> ReqArgs" where
  "build_query_string query_string =
     foldl (\<lambda>req_args s. case split_once (CHR ''='') s of
              Some (param, value) \<Rightarrow> dm_insert param value req_args
            | None \<Rightarrow> req_args)
       req_args_new (split_on (CHR ''&'') query_string)"

definition parse_args :: "string \<Rightarrow> string \<times> ReqArgs option" where
  "parse_args path =
     (case split_once (CHR ''?'') path of
        Some (path_split, query_string) \<Rightarrow> (path_split, Some (build_query_string query_string))
      | None \<Rightarrow> (path, None))"

definition args_get :: "string \<Rightarrow> ReqArgs \<Rightarrow> string option" where
  "args_get name args = dm_get args name"

lemma split_once_None: "split_once c s = None \<longleftrightarrow> c \<notin> set s"
  by (induction s) auto

lemma split_once_append: "c \<notin> set a \<Longrightarrow> split_once c (a @ c # b) = Some (a, b)"
  by (induction a) auto

lemma split_once_Some: "split_once c s = Some (a, b) \<Longrightarrow> s = a @ c # b \<and> c \<notin> set a"
  by (induction s arbitrary: a b) (auto split: if_splits)

lemma split_on_single: "c \<notin> set s \<Longrightarrow> split_on c s = [s]"
  by (induction s) auto

lemma split_on_append: "c \<notin> set a \<Longrightarrow> split_on c (a @ c # b) = a # split_on c b"
  by (induction a) auto

text \<open>Writing parameters as a query string.\<close>

fun query_of :: "(string \<times> string) list \<Rightarrow> string" where
  "query_of [] = []"
| "query_of [(k, v)] = k @ CHR ''='' # v"
| "query_of ((k, v) # kvs) = k @ CHR ''='' # v @ CHR ''&'' # query_of kvs"

definition plain_args :: "(string \<times> string) list \<Rightarrow> bool" where
  "plain_args kvs \<longleftrightarrow> list_all (\<lambda>(k, v). CHR ''='' \<notin> set k \<and> CHR ''&'' \<notin> set k \<and> CHR ''&'' \<notin> set v) kvs"

lemma split_query:
  "kvs \<noteq> [] \<Longrightarrow> plain_args kvs \<Longrightarrow>
     split_on (CHR ''&'') (query_of kvs) = map (\<lambda>(k, v). k @ CHR ''='' # v) kvs"
proof (induction kvs rule: query_of.induct)
  case (2 k v)
  then show ?case by (simp add: plain_args_def split_on_single)
next
  case (3 k v kv kvs)
  have "CHR ''&'' \<notin> set (k @ CHR ''='' # v)" "plain_args (kv # kvs)"
    using "3.prems" by (simp_all add: plain_args_def)
  with "3.IH" show ?case
    using split_on_append [of "CHR ''&''" "k @ CHR ''='' # v" "query_of (kv # kvs)"] by simp
qed simp

lemma fold_args:
  "plain_args kvs \<Longrightarrow>
     dm_get (foldl (\<lambda>req_args s. case split_once (CHR ''='') s of
              Some (param, value) \<Rightarrow> dm_insert param value req_args
            | None \<Rightarrow> req_args) m (map (\<lambda>(k, v). k @ CHR ''='' # v) kvs)) k
     = (case map_of (rev kvs) k of Some v \<Rightarrow> Some v | None \<Rightarrow> dm_get m k)"
proof (induction kvs arbitrary: m)
  case (Cons kv kvs)
  obtain a b where kv: "kv = (a, b)" by fastforce
  have p: "plain_args kvs" "CHR ''='' \<notin> set a" using Cons.prems by (simp_all add: plain_args_def kv)
  show ?case
    using Cons.IH [OF p(1)] p(2)
    by (simp add: kv split_once_append map_of_append map_add_def split: option.split)
qed simp

subsection \<open>Properties\<close>

text \<open>
  C21. Header parsing accepts exactly the requests that have one known method, one non-empty
  UTF-8 path without spaces or control bytes, and at most one content length, a decimal number
  below the word size; the order of the headers and all other headers are irrelevant.
\<close>

theorem parse_request_headers_accepts:
  "parse_request_headers hs = Some (m, p, l) \<longleftrightarrow>
     values_of '':method'' hs = [m] \<and> method_ok m
     \<and> values_of '':path'' hs = [p] \<and> path_ok p
     \<and> (case l of None \<Rightarrow> values_of ''content-length'' hs = []
        | Some n \<Rightarrow> (\<exists>v. values_of ''content-length'' hs = [v] \<and> length_ok v \<and> n = digits_value v))"
proof -
  have "parse_request_headers hs = Some (m, p, l) \<longleftrightarrow>
      scan_headers hs None None None = Some (Some m, Some p, l)"
    by (auto simp: parse_request_headers_def split: option.splits)
  also have "\<dots> \<longleftrightarrow> slot (values_of '':method'' hs) method_ok id None = Some (Some m)
      \<and> slot (values_of '':path'' hs) path_ok id None = Some (Some p)
      \<and> slot (values_of ''content-length'' hs) length_ok digits_value None = Some l"
    by (auto simp: scan_headers_slots bind_eq_Some_conv)
  finally show ?thesis
    by (simp add: slot_None_eq)
qed

text \<open>Reordering headers of different names never changes what is parsed.\<close>

theorem parse_request_headers_order:
  assumes "\<And>n. values_of n hs = values_of n hs'"
  shows "parse_request_headers hs = parse_request_headers hs'"
  using assms by (simp add: parse_request_headers_def scan_headers_slots)

theorem parse_request_headers_order_witness:
  "parse_request_headers [header ''content-length'' ''12'', header '':path'' ''/upload'', header '':method'' ''POST'']
   = parse_request_headers [header '':method'' ''POST'', header '':path'' ''/upload'', header ''content-length'' ''12'']"
  by (rule parse_request_headers_order) auto

text \<open>
  The method parser goes through a lossy UTF-8 decoding, yet recognises exactly the bytes
  of the four method names: no malformed byte string decodes to one of them.
\<close>

theorem method_parse_exact:
  "method_parse s = Ok m \<longleftrightarrow> s = method_name m"
  by (simp add: method_parse_cases lossy_eq_ascii method_name_ascii)

text \<open>
  Parsing a path with a query string gives back the path and the parameters it was written
  from, the last value winning for a repeated parameter.
\<close>

theorem query_round_trip:
  assumes "CHR ''?'' \<notin> set path" "kvs \<noteq> []" "plain_args kvs"
  shows "\<exists>args. parse_args (path @ CHR ''?'' # query_of kvs) = (path, Some args)
           \<and> (\<forall>k. args_get k args = map_of (rev kvs) k)"
  using fold_args [OF assms(3), of req_args_new]
  by (simp add: parse_args_def split_once_append assms(1) build_query_string_def
      split_query [OF assms(2,3)] args_get_def req_args_new_def split: option.split)

theorem query_round_trip_witness:
  "\<exists>args. parse_args (''/path'' @ CHR ''?'' # query_of [(''name'', ''charles''), (''age'', ''30'')])
       = (''/path'', Some args)
     \<and> (\<forall>k. args_get k args = map_of (rev [(''name'', ''charles''), (''age'', ''30'')]) k)"
  by (rule query_round_trip) (simp_all add: plain_args_def)

end
