(* ===== verification/ChunkDispatch.thy ===== *)
theory ChunkDispatch
  imports Prelude
begin

section \<open>The per-stream dispatch channels\<close>

text \<open>
  Model of \<open>src/request_response/chunk_dispatch_channel.rs\<close>. Every open stream of a connection
  has two unbounded FIFO channels (low priority for body chunks, high priority for headers), each
  with a counter shared by its sender and receiver, and a cancellation flag. A
  \<open>crossbeam_channel\<close> is a heap cell: senders are cloned and outlive the map entry, the two
  receivers live in the entry only, so removing the entry disconnects the channels. Messages are
  a type parameter. Each operation is one atomic step (the map entry is locked by \<open>DashMap\<close>).
\<close>

subsection \<open>Counters\<close>

record chunk_counter =
  counter_limit :: usize
  counter :: usize

definition cc_new :: "usize \<Rightarrow> chunk_counter" where
  "cc_new limit = \<lparr>counter_limit = limit, counter = 0\<rparr>"

definition cc_is_occupied :: "chunk_counter \<Rightarrow> bool" where
  "cc_is_occupied c \<longleftrightarrow> counter_limit c \<le> counter c"

definition cc_try_increment :: "chunk_counter \<Rightarrow> bool \<times> chunk_counter" where
  "cc_try_increment c =
     (if counter_limit c = counter c then (False, c)
      else (True, c\<lparr>counter := counter c + 1\<rparr>))"

definition cc_decrement :: "chunk_counter \<Rightarrow> chunk_counter" where
  "cc_decrement c = (if 0 < counter c then c\<lparr>counter := counter c - 1\<rparr> else c)"


subsection \<open>Channels\<close>

type_synonym chan = nat
type_synonym ids = "stream_id \<times> scid"

record 'm channel =
  ch_items :: "'m list"
  ch_counter :: chunk_counter
  ch_connected :: bool

text \<open>The tuple \<open>(ChunkSender, ChunkSender, ChunkReceiver, ChunkReceiver, bool)\<close>.\<close>

record dispatch_entry =
  low_sender :: chan
  high_sender :: chan
  low_receiver :: chan
  high_receiver :: chan
  reset_requested :: bool

record 'm dispatch =
  chans :: "chan \<Rightarrow> 'm channel option"
  next_chan :: chan
  entries :: "(ids, dispatch_entry) dashmap"

definition dispatch_new :: "'m dispatch" where
  "dispatch_new = \<lparr>chans = (\<lambda>_. None), next_chan = 0, entries = []\<rparr>"

definition chan_upd :: "chan \<Rightarrow> 'm channel \<Rightarrow> 'm dispatch \<Rightarrow> 'm dispatch" where
  "chan_upd c ch d = d\<lparr>chans := (chans d)(c := Some ch)\<rparr>"

text \<open>\<open>crossbeam_channel::Sender::send\<close> and \<open>Receiver::try_recv\<close> on a heap cell.\<close>

definition raw_send :: "chan \<Rightarrow> 'm \<Rightarrow> 'm dispatch \<Rightarrow> ('m + unit) \<times> 'm dispatch" where
  "raw_send c msg d =
     (case chans d c of
        Some ch \<Rightarrow> if ch_connected ch
                   then (Ok (), chan_upd c (ch\<lparr>ch_items := ch_items ch @ [msg]\<rparr>) d)
                   else (Err msg, d)
      | None \<Rightarrow> (Err msg, d))"

definition raw_try_recv :: "chan \<Rightarrow> 'm dispatch \<Rightarrow> (unit + 'm) \<times> 'm dispatch" where
  "raw_try_recv c d =
     (case chans d c of
        Some ch \<Rightarrow> (case ch_items ch of
                      x # xs \<Rightarrow> (Ok x, chan_upd c (ch\<lparr>ch_items := xs\<rparr>) d)
                    | [] \<Rightarrow> (Err (), d))
      | None \<Rightarrow> (Err (), d))"

definition on_counter :: "(chunk_counter \<Rightarrow> chunk_counter) \<Rightarrow> chan \<Rightarrow> 'm dispatch \<Rightarrow> 'm dispatch" where
  "on_counter f c d =
     (case chans d c of
        Some ch \<Rightarrow> chan_upd c (ch\<lparr>ch_counter := f (ch_counter ch)\<rparr>) d
      | None \<Rightarrow> d)"

definition counter_of :: "chan \<Rightarrow> 'm dispatch \<Rightarrow> chunk_counter" where
  "counter_of c d = (case chans d c of Some ch \<Rightarrow> ch_counter ch | None \<Rightarrow> cc_new 0)"

text \<open>\<open>ChunkSender::send\<close>: the counter is raised before the send and lowered if it fails.\<close>

definition sender_send :: "chan \<Rightarrow> 'm \<Rightarrow> 'm dispatch \<Rightarrow> ('m + unit) \<times> 'm dispatch" where
  "sender_send c msg d =
     (let (incremented, cc) = cc_try_increment (counter_of c d);
          d1 = on_counter (\<lambda>_. cc) c d;
          (result, d2) = raw_send c msg d1
      in if \<not> is_ok result \<and> incremented
         then (result, on_counter cc_decrement c d2)
         else (result, d2))"

definition sender_is_occupied :: "chan \<Rightarrow> 'm dispatch \<Rightarrow> bool" where
  "sender_is_occupied c d = cc_is_occupied (counter_of c d)"

text \<open>\<open>ChunkReceiver::try_recv\<close>.\<close>

definition receiver_try_recv :: "chan \<Rightarrow> 'm dispatch \<Rightarrow> (unit + 'm) \<times> 'm dispatch" where
  "receiver_try_recv c d =
     (case raw_try_recv c d of
        (Inr r, d1) \<Rightarrow> (Ok r, on_counter cc_decrement c d1)
      | (Inl _, d1) \<Rightarrow> (Err (), d1))"


subsection \<open>Operations of \<open>ChunksDispatchChannel\<close>\<close>

definition send_to_queue :: "stream_id \<Rightarrow> scid \<Rightarrow> 'm \<Rightarrow> 'm dispatch \<Rightarrow> ('m + unit) \<times> 'm dispatch" where
  "send_to_queue i s msg d =
     (case dm_get (entries d) (i, s) of
        Some entry \<Rightarrow> raw_send (low_sender entry) msg d
      | None \<Rightarrow> (Err msg, d))"

definition send_to_high_priority_queue :: "stream_id \<Rightarrow> scid \<Rightarrow> 'm \<Rightarrow> 'm dispatch \<Rightarrow> ('m + unit) \<times> 'm dispatch" where
  "send_to_high_priority_queue i s msg d =
     (case dm_get (entries d) (i, s) of
        Some entry \<Rightarrow> raw_send (high_sender entry) msg d
      | None \<Rightarrow> (Err msg, d))"

definition request_stream_reset :: "stream_id \<Rightarrow> scid \<Rightarrow> 'm dispatch \<Rightarrow> (unit + unit) \<times> 'm dispatch" where
  "request_stream_reset i s d =
     (case dm_get (entries d) (i, s) of
        Some entry \<Rightarrow> (Ok (), d\<lparr>entries := dm_insert (i, s) (entry\<lparr>reset_requested := True\<rparr>) (entries d)\<rparr>)
      | None \<Rightarrow> (Err (), d))"

definition requested_stream_resets :: "scid \<Rightarrow> 'm dispatch \<Rightarrow> stream_id list" where
  "requested_stream_resets s d =
     map (\<lambda>entry. fst (fst entry))
       (filter (\<lambda>entry. reset_requested (snd entry) \<and> snd (fst entry) = s) (entries d))"

definition streams_of :: "scid \<Rightarrow> 'm dispatch \<Rightarrow> stream_id list" where
  "streams_of s d = map (\<lambda>k. fst (fst k)) (filter (\<lambda>k. snd (fst k) = s) (entries d))"

definition in_queue :: "stream_id \<Rightarrow> scid \<Rightarrow> 'm dispatch \<Rightarrow> unit + usize" where
  "in_queue i s d =
     (case dm_get (entries d) (i, s) of
        Some entry \<Rightarrow> Ok (counter (counter_of (low_receiver entry) d))
      | None \<Rightarrow> Err ())"

text \<open>Dropping the entry drops its two receivers, which disconnects and empties the channels.\<close>

definition drop_receiver :: "chan \<Rightarrow> 'm dispatch \<Rightarrow> 'm dispatch" where
  "drop_receiver c d =
     (case chans d c of
        Some ch \<Rightarrow> chan_upd c (ch\<lparr>ch_items := [], ch_connected := False\<rparr>) d
      | None \<Rightarrow> d)"

definition remove_stream :: "stream_id \<Rightarrow> scid \<Rightarrow> 'm dispatch \<Rightarrow> 'm dispatch" where
  "remove_stream i s d =
     (case dm_get (entries d) (i, s) of
        Some entry \<Rightarrow> drop_receiver (high_receiver entry) (drop_receiver (low_receiver entry)
                        (d\<lparr>entries := dm_remove (i, s) (entries d)\<rparr>))
      | None \<Rightarrow> d)"

definition try_pop :: "stream_id \<Rightarrow> scid \<Rightarrow> 'm dispatch \<Rightarrow> (unit + 'm) \<times> 'm dispatch" where
  "try_pop i s d =
     (case dm_get (entries d) (i, s) of
        Some entry \<Rightarrow>
          (case receiver_try_recv (high_receiver entry) d of
             (Inr m, d1) \<Rightarrow> (Ok m, d1)
           | (Inl _, d1) \<Rightarrow>
               (case receiver_try_recv (low_receiver entry) d1 of
                  (Inr m, d2) \<Rightarrow> (Ok m, d2)
                | (Inl _, d2) \<Rightarrow> (Err (), d2)))
      | None \<Rightarrow> (Err (), d))"

definition already_in_map :: "stream_id \<Rightarrow> scid \<Rightarrow> 'm dispatch \<Rightarrow> bool" where
  "already_in_map i s d = (case dm_get (entries d) (i, s) of None \<Rightarrow> False | Some _ \<Rightarrow> True)"

definition inner_insert :: "ids \<Rightarrow> dispatch_entry \<Rightarrow> 'm dispatch \<Rightarrow> 'm dispatch" where
  "inner_insert key value d =
     (case dm_get (entries d) key of
        None \<Rightarrow> d\<lparr>entries := dm_insert key value (entries d)\<rparr>
      | Some _ \<Rightarrow> d)"

definition LOW_LIMIT :: usize where "LOW_LIMIT = 150"
definition HIGH_LIMIT :: usize where "HIGH_LIMIT = 1010"

definition fresh_channel :: "usize \<Rightarrow> 'm channel" where
  "fresh_channel limit = \<lparr>ch_items = [], ch_counter = cc_new limit, ch_connected = True\<rparr>"

definition insert_new_channel :: "stream_id \<Rightarrow> scid \<Rightarrow> 'm dispatch \<Rightarrow> 'm dispatch" where
  "insert_new_channel i s d =
     (if already_in_map i s d then d
      else
        let chann_0 = next_chan d; chann_1 = next_chan d + 1;
            d1 = chan_upd chann_1 (fresh_channel HIGH_LIMIT) (chan_upd chann_0 (fresh_channel LOW_LIMIT) d);
            d2 = d1\<lparr>next_chan := next_chan d + 2\<rparr>
        in inner_insert (i, s)
             \<lparr>low_sender = chann_0, high_sender = chann_1, low_receiver = chann_0,
              high_receiver = chann_1, reset_requested = False\<rparr> d2)"

definition get_high_priority_sender :: "stream_id \<Rightarrow> scid \<Rightarrow> 'm dispatch \<Rightarrow> chan option" where
  "get_high_priority_sender i s d =
     (case dm_get (entries d) (i, s) of Some entry \<Rightarrow> Some (high_sender entry) | None \<Rightarrow> None)"

definition get_low_priority_sender :: "stream_id \<Rightarrow> scid \<Rightarrow> 'm dispatch \<Rightarrow> chan option" where
  "get_low_priority_sender i s d =
     (case dm_get (entries d) (i, s) of Some entry \<Rightarrow> Some (low_sender entry) | None \<Rightarrow> None)"


subsection \<open>Invariant\<close>

text \<open>
  A counter never exceeds its limit and, while the channel is connected, never the number of
  queued messages; entries own their two channels, which are connected and shared with no other
  entry.
\<close>

definition chan_ok :: "'m channel \<Rightarrow> bool" where
  "chan_ok ch \<longleftrightarrow> counter (ch_counter ch) \<le> counter_limit (ch_counter ch)
     \<and> (ch_connected ch \<longrightarrow> counter (ch_counter ch) \<le> length (ch_items ch))
     \<and> (\<not> ch_connected ch \<longrightarrow> ch_items ch = [])"

definition connected :: "'m dispatch \<Rightarrow> chan \<Rightarrow> bool" where
  "connected d c \<longleftrightarrow> (\<exists>ch. chans d c = Some ch \<and> ch_connected ch)"

definition entry_ok :: "'m dispatch \<Rightarrow> dispatch_entry \<Rightarrow> bool" where
  "entry_ok d e \<longleftrightarrow> low_receiver e = low_sender e \<and> high_receiver e = high_sender e
     \<and> low_sender e \<noteq> high_sender e \<and> connected d (low_sender e) \<and> connected d (high_sender e)"

definition entry_chans :: "dispatch_entry \<Rightarrow> chan set" where
  "entry_chans e = {low_sender e, high_sender e}"

definition disp_inv :: "'m dispatch \<Rightarrow> bool" where
  "disp_inv d \<longleftrightarrow> dm_wf (entries d)
     \<and> (\<forall>c ch. chans d c = Some ch \<longrightarrow> c < next_chan d \<and> chan_ok ch)
     \<and> (\<forall>k e. dm_get (entries d) k = Some e \<longrightarrow> entry_ok d e)
     \<and> (\<forall>k k' e e'. dm_get (entries d) k = Some e \<longrightarrow> dm_get (entries d) k' = Some e' \<longrightarrow> k \<noteq> k'
          \<longrightarrow> entry_chans e \<inter> entry_chans e' = {})"

definition mail :: "'m dispatch \<Rightarrow> ids \<Rightarrow> ('m list \<times> 'm list) option" where
  "mail d k = (case dm_get (entries d) k of
     None \<Rightarrow> None
   | Some e \<Rightarrow> (case (chans d (low_sender e), chans d (high_sender e)) of
       (Some lo, Some hi) \<Rightarrow> Some (ch_items lo, ch_items hi) | _ \<Rightarrow> None))"

lemma chan_upd_sel [simp]:
  "chans (chan_upd c ch d) = (chans d)(c := Some ch)" "entries (chan_upd c ch d) = entries d"
  "next_chan (chan_upd c ch d) = next_chan d"
  by (simp_all add: chan_upd_def)

lemma chan_upd_idle: "chans d c = Some ch \<Longrightarrow> chan_upd c ch d = d"
  by (simp add: chan_upd_def fun_upd_idem)

lemma chan_upd_twice [simp]: "chan_upd c ch (chan_upd c ch' d) = chan_upd c ch d"
  by (simp add: chan_upd_def)

lemma disp_inv_new [inv_intros]: "disp_inv dispatch_new"
  by (simp add: disp_inv_def dispatch_new_def)

lemma disp_inv_chans: "disp_inv d \<Longrightarrow> chans d c = Some ch \<Longrightarrow> c < next_chan d \<and> chan_ok ch"
  unfolding disp_inv_def by blast

lemma disp_inv_chanD: "disp_inv d \<Longrightarrow> chans d c = Some ch \<Longrightarrow> chan_ok ch"
  by (auto simp: disp_inv_def)

lemma disp_inv_entry_ok: "disp_inv d \<Longrightarrow> dm_get (entries d) k = Some e \<Longrightarrow> entry_ok d e"
  unfolding disp_inv_def by blast

lemma disp_inv_entryD:
  assumes "disp_inv d" "dm_get (entries d) k = Some e"
  obtains lo hi where "chans d (low_sender e) = Some lo" "ch_connected lo" "chan_ok lo"
    "chans d (high_sender e) = Some hi" "ch_connected hi" "chan_ok hi"
    "low_receiver e = low_sender e" "high_receiver e = high_sender e" "low_sender e \<noteq> high_sender e"
proof -
  have "entry_ok d e" using assms unfolding disp_inv_def by blast
  then show thesis using that disp_inv_chanD [OF assms(1)]
    by (auto simp: entry_ok_def connected_def)
qed

text \<open>Rewriting one connected channel in place keeps everything but that channel.\<close>

lemma disp_inv_chan_upd [inv_intros]:
  assumes "disp_inv d" "connected d c" "ch_connected ch" "chan_ok ch"
  shows "disp_inv (chan_upd c ch d)"
proof -
  have "connected (chan_upd c ch d) c'" if "connected d c'" for c'
    using that assms(3) by (auto simp: connected_def)
  then have "entry_ok (chan_upd c ch d) e" if "entry_ok d e" for e
    using that by (auto simp: entry_ok_def)
  moreover have "\<forall>c' ch'. chans (chan_upd c ch d) c' = Some ch' \<longrightarrow> c' < next_chan d \<and> chan_ok ch'"
    using assms unfolding disp_inv_def connected_def by auto
  ultimately show ?thesis
    using assms(1) unfolding disp_inv_def by simp
qed

lemma mail_entry:
  assumes "disp_inv d" "dm_get (entries d) k = Some e"
  shows "mail d k = Some (ch_items (the (chans d (low_sender e))), ch_items (the (chans d (high_sender e))))"
  by (rule disp_inv_entryD [OF assms]) (simp add: mail_def assms(2))

lemma mail_None: "disp_inv d \<Longrightarrow> mail d k = None \<longleftrightarrow> dm_get (entries d) k = None"
  by (cases "dm_get (entries d) k") (auto simp: mail_entry, simp add: mail_def)

text \<open>A channel belongs to one queue of one stream.\<close>

lemma entry_chans_inj:
  assumes "disp_inv d" "dm_get (entries d) k = Some e" "dm_get (entries d) k' = Some e'" "k' \<noteq> k"
  shows "low_sender e' \<noteq> low_sender e" "low_sender e' \<noteq> high_sender e"
    "high_sender e' \<noteq> low_sender e" "high_sender e' \<noteq> high_sender e"
proof -
  have "entry_chans e' \<inter> entry_chans e = {}"
    using assms unfolding disp_inv_def by blast
  then show "low_sender e' \<noteq> low_sender e" "low_sender e' \<noteq> high_sender e"
    "high_sender e' \<noteq> low_sender e" "high_sender e' \<noteq> high_sender e"
    by (auto simp: entry_chans_def)
qed

lemma mail_upd_low:
  assumes "disp_inv d" "dm_get (entries d) k = Some e"
  shows "mail (chan_upd (low_sender e) ch d)
     = (mail d)(k := Some (ch_items ch, ch_items (the (chans d (high_sender e)))))"
proof
  fix k'
  obtain hi where hi: "chans d (high_sender e) = Some hi" "low_sender e \<noteq> high_sender e"
    by (rule disp_inv_entryD [OF assms])
  show "mail (chan_upd (low_sender e) ch d) k' = ((mail d)(k := Some (ch_items ch, ch_items (the (chans d (high_sender e)))))) k'"
  proof (cases "k' = k")
    case True
    with assms hi show ?thesis by (simp add: mail_def)
  next
    case False
    then show ?thesis
      using entry_chans_inj [OF assms] by (auto simp: mail_def split: option.split)
  qed
qed

lemma mail_upd_high:
  assumes "disp_inv d" "dm_get (entries d) k = Some e"
  shows "mail (chan_upd (high_sender e) ch d)
     = (mail d)(k := Some (ch_items (the (chans d (low_sender e))), ch_items ch))"
proof
  fix k'
  obtain lo where lo: "chans d (low_sender e) = Some lo" "low_sender e \<noteq> high_sender e"
    by (rule disp_inv_entryD [OF assms])
  show "mail (chan_upd (high_sender e) ch d) k' = ((mail d)(k := Some (ch_items (the (chans d (low_sender e))), ch_items ch))) k'"
  proof (cases "k' = k")
    case True
    with assms lo show ?thesis by (simp add: mail_def)
  next
    case False
    then show ?thesis
      using entry_chans_inj [OF assms] by (auto simp: mail_def split: option.split)
  qed
qed


subsection \<open>What a send and a receive do to one channel\<close>

definition sent_counted :: "'m \<Rightarrow> 'm channel \<Rightarrow> 'm channel" where
  "sent_counted m ch = ch\<lparr>ch_counter := snd (cc_try_increment (ch_counter ch)), ch_items := ch_items ch @ [m]\<rparr>"

definition received :: "'m list \<Rightarrow> 'm channel \<Rightarrow> 'm channel" where
  "received xs ch = ch\<lparr>ch_items := xs, ch_counter := cc_decrement (ch_counter ch)\<rparr>"

lemma chan_ok_sent_counted [simp]: "chan_ok ch \<Longrightarrow> ch_connected ch \<Longrightarrow> chan_ok (sent_counted m ch)"
  by (auto simp: chan_ok_def sent_counted_def cc_try_increment_def)

lemma chan_ok_sent_raw [simp]:
  "chan_ok ch \<Longrightarrow> ch_connected ch \<Longrightarrow> chan_ok (ch\<lparr>ch_items := ch_items ch @ [m]\<rparr>)"
  by (auto simp: chan_ok_def)

lemma chan_ok_received [simp]:
  "chan_ok ch \<Longrightarrow> ch_connected ch \<Longrightarrow> ch_items ch = x # xs \<Longrightarrow> chan_ok (received xs ch)"
  by (auto simp: chan_ok_def received_def cc_decrement_def)

lemma sel_sent [simp]: "ch_connected (sent_counted m ch) = ch_connected ch"
  "ch_items (sent_counted m ch) = ch_items ch @ [m]"
  "ch_connected (received xs ch) = ch_connected ch" "ch_items (received xs ch) = xs"
  by (simp_all add: sent_counted_def received_def)

lemma raw_send_connected:
  "chans d c = Some ch \<Longrightarrow> ch_connected ch \<Longrightarrow>
     raw_send c m d = (Ok (), chan_upd c (ch\<lparr>ch_items := ch_items ch @ [m]\<rparr>) d)"
  by (simp add: raw_send_def)

lemma sender_send_connected:
  "chans d c = Some ch \<Longrightarrow> ch_connected ch \<Longrightarrow>
     sender_send c m d = (Ok (), chan_upd c (sent_counted m ch) d)"
  by (cases "cc_try_increment (ch_counter ch)")
    (simp add: sender_send_def counter_of_def on_counter_def raw_send_def sent_counted_def)

lemma sender_send_disconnected:
  assumes "disp_inv d" "\<not> connected d c"
  shows "sender_send c m d = (Err m, d)"
proof (cases "chans d c")
  case None
  then show ?thesis
    by (simp add: sender_send_def counter_of_def on_counter_def raw_send_def cc_try_increment_def cc_new_def)
next
  case (Some ch)
  then have "\<not> ch_connected ch" using assms(2) by (simp add: connected_def)
  with Some show ?thesis
    by (auto simp: sender_send_def counter_of_def on_counter_def raw_send_def cc_try_increment_def
        cc_decrement_def chan_upd_idle)
qed

lemma receiver_try_recv_Cons:
  "chans d c = Some ch \<Longrightarrow> ch_items ch = x # xs \<Longrightarrow>
     receiver_try_recv c d = (Ok x, chan_upd c (received xs ch) d)"
  by (simp add: receiver_try_recv_def raw_try_recv_def on_counter_def received_def)

lemma receiver_try_recv_Nil:
  "chans d c = Some ch \<Longrightarrow> ch_items ch = [] \<Longrightarrow> receiver_try_recv c d = (Err (), d)"
  by (simp add: receiver_try_recv_def raw_try_recv_def)



subsection \<open>The mailbox interface\<close>

text \<open>
  What the rest of the server relies on: a stream has a mailbox or not, a mailbox has a low and
  a high priority queue, messages come out high priority first and in order within a queue, and
  no operation touches the mailbox of another stream.
\<close>

locale stream_mailboxes =
  fixes invar :: "'d \<Rightarrow> bool"
    and box :: "'d \<Rightarrow> ids \<Rightarrow> ('m list \<times> 'm list) option"
    and open_box :: "ids \<Rightarrow> 'd \<Rightarrow> 'd"
    and send_low :: "ids \<Rightarrow> 'm \<Rightarrow> 'd \<Rightarrow> ('m + unit) \<times> 'd"
    and send_high :: "ids \<Rightarrow> 'm \<Rightarrow> 'd \<Rightarrow> ('m + unit) \<times> 'd"
    and pop :: "ids \<Rightarrow> 'd \<Rightarrow> (unit + 'm) \<times> 'd"
    and close_box :: "ids \<Rightarrow> 'd \<Rightarrow> 'd"
  assumes box_open: "invar d \<Longrightarrow> box (open_box k d) = (if box d k = None then (box d)(k := Some ([], [])) else box d)"
    and send_low_box: "invar d \<Longrightarrow> box d k = Some (lo, hi) \<Longrightarrow>
       fst (send_low k m d) = Ok () \<and> box (snd (send_low k m d)) = (box d)(k := Some (lo @ [m], hi))"
    and send_high_box: "invar d \<Longrightarrow> box d k = Some (lo, hi) \<Longrightarrow>
       fst (send_high k m d) = Ok () \<and> box (snd (send_high k m d)) = (box d)(k := Some (lo, hi @ [m]))"
    and send_absent: "invar d \<Longrightarrow> box d k = None \<Longrightarrow> send_low k m d = (Err m, d) \<and> send_high k m d = (Err m, d)"
    and pop_high: "invar d \<Longrightarrow> box d k = Some (lo, x # hi) \<Longrightarrow>
       fst (pop k d) = Ok x \<and> box (snd (pop k d)) = (box d)(k := Some (lo, hi))"
    and pop_low: "invar d \<Longrightarrow> box d k = Some (x # lo, []) \<Longrightarrow>
       fst (pop k d) = Ok x \<and> box (snd (pop k d)) = (box d)(k := Some (lo, []))"
    and pop_empty: "invar d \<Longrightarrow> box d k = None \<or> box d k = Some ([], []) \<Longrightarrow> pop k d = (Err (), d)"
    and box_close: "invar d \<Longrightarrow> box (close_box k d) = (box d)(k := None)"
    and invar_open: "invar d \<Longrightarrow> invar (open_box k d)"
    and invar_send_low: "invar d \<Longrightarrow> invar (snd (send_low k m d))"
    and invar_send_high: "invar d \<Longrightarrow> invar (snd (send_high k m d))"
    and invar_pop: "invar d \<Longrightarrow> invar (snd (pop k d))"
    and invar_close: "invar d \<Longrightarrow> invar (close_box k d)"
begin

lemma drain_low:
  "invar d \<Longrightarrow> box d k = Some (lo, []) \<Longrightarrow>
     fst (iterate (pop k) (length lo) d) = map Ok lo
     \<and> box (snd (iterate (pop k) (length lo) d)) = (box d)(k := Some ([], []))
     \<and> invar (snd (iterate (pop k) (length lo) d))"
proof (induction lo arbitrary: d)
  case Nil
  then show ?case by (simp add: fun_upd_idem)
next
  case (Cons x lo)
  obtain r d' where p: "pop k d = (r, d')" by fastforce
  have d': "r = Ok x" "box d' = (box d)(k := Some (lo, []))" "invar d'"
    using pop_low [OF Cons.prems] invar_pop [OF Cons.prems(1), of k] p by auto
  obtain outs d'' where it: "iterate (pop k) (length lo) d' = (outs, d'')" by fastforce
  have "outs = map Ok lo" "box d'' = (box d)(k := Some ([], []))" "invar d''"
    using Cons.IH [OF d'(3)] it unfolding d'(2) by (simp_all only: fun_upd_upd fun_upd_same fst_conv snd_conv)
  with p d' it show ?case by simp
qed

text \<open>Draining a mailbox yields the high-priority queue, then the low-priority queue.\<close>

lemma drain:
  "invar d \<Longrightarrow> box d k = Some (lo, hi) \<Longrightarrow>
     fst (iterate (pop k) (length hi + length lo) d) = map Ok (hi @ lo)
     \<and> box (snd (iterate (pop k) (length hi + length lo) d)) = (box d)(k := Some ([], []))"
proof (induction hi arbitrary: d)
  case Nil
  then show ?case using drain_low by simp
next
  case (Cons x hi)
  obtain r d' where p: "pop k d = (r, d')" by fastforce
  have d': "r = Ok x" "box d' = (box d)(k := Some (lo, hi))" "invar d'"
    using pop_high [OF Cons.prems] invar_pop [OF Cons.prems(1), of k] p by auto
  obtain outs d'' where it: "iterate (pop k) (length hi + length lo) d' = (outs, d'')" by fastforce
  have "outs = map Ok (hi @ lo)" "box d'' = (box d)(k := Some ([], []))"
    using Cons.IH [OF d'(3)] it unfolding d'(2) by (simp_all only: fun_upd_upd fun_upd_same fst_conv snd_conv)
  with p d' it show ?case by simp
qed

text \<open>Opening a stream twice keeps what is queued.\<close>

lemma open_idempotent: "invar d \<Longrightarrow> box (open_box k (open_box k d)) = box (open_box k d)"
  by (simp add: box_open invar_open)

lemma open_then_send_high:
  "invar d \<Longrightarrow> fst (send_high k m (open_box k d)) = Ok ()"
proof -
  assume inv: "invar d"
  have "box (open_box k d) k \<noteq> None" by (simp add: box_open inv)
  then show ?thesis using send_high_box [OF invar_open [OF inv], of k k] by auto
qed

lemma closed_rejects:
  "invar d \<Longrightarrow> fst (send_low k m (close_box k d)) = Err m \<and> fst (send_high k m (close_box k d)) = Err m"
  using send_absent [OF invar_close] by (simp add: box_close)

end


subsection \<open>The model's channels provide the interface\<close>

text \<open>Sending through the low-priority sender handed out for a stream.\<close>

definition send_via_low_sender :: "stream_id \<Rightarrow> scid \<Rightarrow> 'm \<Rightarrow> 'm dispatch \<Rightarrow> ('m + unit) \<times> 'm dispatch" where
  "send_via_low_sender i s msg d =
     (case get_low_priority_sender i s d of
        Some c \<Rightarrow> sender_send c msg d
      | None \<Rightarrow> (Err msg, d))"

lemma mail_Some:
  assumes "disp_inv d" "mail d k = Some (lo, hi)"
  obtains e lc hc where "dm_get (entries d) k = Some e" "chans d (low_sender e) = Some lc"
    "chans d (high_sender e) = Some hc" "ch_items lc = lo" "ch_items hc = hi"
    "ch_connected lc" "ch_connected hc" "chan_ok lc" "chan_ok hc"
    "low_receiver e = low_sender e" "high_receiver e = high_sender e"
    "connected d (low_sender e)" "connected d (high_sender e)"
proof -
  obtain e where e: "dm_get (entries d) k = Some e"
    using assms(2) by (auto simp: mail_def split: option.splits)
  show thesis
  proof (rule disp_inv_entryD [OF assms(1) e])
    fix lc hc
    assume c: "chans d (low_sender e) = Some lc" "ch_connected lc" "chan_ok lc"
      "chans d (high_sender e) = Some hc" "ch_connected hc" "chan_ok hc"
      "low_receiver e = low_sender e" "high_receiver e = high_sender e"
    have "ch_items lc = lo" "ch_items hc = hi"
      using assms(2) mail_entry [OF assms(1) e] c by simp_all
    then show thesis
      using that [OF e c(1,4)] c by (simp add: connected_def)
  qed
qed

lemma send_low_present:
  assumes "disp_inv d" "mail d (i, s) = Some (lo, hi)"
  shows "fst (send_via_low_sender i s m d) = Ok ()"
    "mail (snd (send_via_low_sender i s m d)) = (mail d)((i, s) := Some (lo @ [m], hi))"
    "disp_inv (snd (send_via_low_sender i s m d))"
proof -
  obtain e lc hc where e: "dm_get (entries d) (i, s) = Some e" "chans d (low_sender e) = Some lc"
    "chans d (high_sender e) = Some hc" "ch_items lc = lo" "ch_items hc = hi"
    "ch_connected lc" "chan_ok lc" "connected d (low_sender e)"
    by (rule mail_Some [OF assms])
  then have "send_via_low_sender i s m d = (Ok (), chan_upd (low_sender e) (sent_counted m lc) d)"
    by (simp add: send_via_low_sender_def get_low_priority_sender_def sender_send_connected)
  with e show "fst (send_via_low_sender i s m d) = Ok ()"
    "mail (snd (send_via_low_sender i s m d)) = (mail d)((i, s) := Some (lo @ [m], hi))"
    "disp_inv (snd (send_via_low_sender i s m d))"
    by (simp_all add: mail_upd_low [OF assms(1)] disp_inv_chan_upd [OF assms(1)])
qed

lemma send_high_present:
  assumes "disp_inv d" "mail d (i, s) = Some (lo, hi)"
  shows "fst (send_to_high_priority_queue i s m d) = Ok ()"
    "mail (snd (send_to_high_priority_queue i s m d)) = (mail d)((i, s) := Some (lo, hi @ [m]))"
    "disp_inv (snd (send_to_high_priority_queue i s m d))"
proof -
  obtain e lc hc where e: "dm_get (entries d) (i, s) = Some e" "chans d (low_sender e) = Some lc"
    "chans d (high_sender e) = Some hc" "ch_items lc = lo" "ch_items hc = hi"
    "ch_connected hc" "chan_ok hc" "connected d (high_sender e)"
    by (rule mail_Some [OF assms])
  then have "send_to_high_priority_queue i s m d
      = (Ok (), chan_upd (high_sender e) (hc\<lparr>ch_items := hi @ [m]\<rparr>) d)"
    by (simp add: send_to_high_priority_queue_def raw_send_connected)
  with e show "fst (send_to_high_priority_queue i s m d) = Ok ()"
    "mail (snd (send_to_high_priority_queue i s m d)) = (mail d)((i, s) := Some (lo, hi @ [m]))"
    "disp_inv (snd (send_to_high_priority_queue i s m d))"
    using chan_ok_sent_raw [of hc m]
    by (simp_all add: mail_upd_high [OF assms(1)] disp_inv_chan_upd [OF assms(1)])
qed

lemma send_absent:
  assumes "disp_inv d" "mail d (i, s) = None"
  shows "send_via_low_sender i s m d = (Err m, d)" "send_to_high_priority_queue i s m d = (Err m, d)"
  using assms
  by (simp_all add: mail_None send_via_low_sender_def get_low_priority_sender_def
      send_to_high_priority_queue_def)

lemma try_pop_high:
  assumes "disp_inv d" "mail d (i, s) = Some (lo, x # hi)"
  shows "fst (try_pop i s d) = Ok x" "mail (snd (try_pop i s d)) = (mail d)((i, s) := Some (lo, hi))"
    "disp_inv (snd (try_pop i s d))"
proof -
  obtain e lc hc where e: "dm_get (entries d) (i, s) = Some e" "chans d (low_sender e) = Some lc"
    "chans d (high_sender e) = Some hc" "ch_items lc = lo" "ch_items hc = x # hi"
    "ch_connected hc" "chan_ok hc" "high_receiver e = high_sender e" "connected d (high_sender e)"
    by (rule mail_Some [OF assms])
  then have "try_pop i s d = (Ok x, chan_upd (high_sender e) (received hi hc) d)"
    by (simp add: try_pop_def receiver_try_recv_Cons)
  with e show "fst (try_pop i s d) = Ok x" "mail (snd (try_pop i s d)) = (mail d)((i, s) := Some (lo, hi))"
    "disp_inv (snd (try_pop i s d))"
    by (simp_all add: mail_upd_high [OF assms(1)] disp_inv_chan_upd [OF assms(1)])
qed

lemma try_pop_low:
  assumes "disp_inv d" "mail d (i, s) = Some (x # lo, [])"
  shows "fst (try_pop i s d) = Ok x" "mail (snd (try_pop i s d)) = (mail d)((i, s) := Some (lo, []))"
    "disp_inv (snd (try_pop i s d))"
proof -
  obtain e lc hc where e: "dm_get (entries d) (i, s) = Some e" "chans d (low_sender e) = Some lc"
    "chans d (high_sender e) = Some hc" "ch_items lc = x # lo" "ch_items hc = []"
    "ch_connected lc" "chan_ok lc" "low_receiver e = low_sender e" "high_receiver e = high_sender e"
    "connected d (low_sender e)"
    by (rule mail_Some [OF assms])
  then have "try_pop i s d = (Ok x, chan_upd (low_sender e) (received lo lc) d)"
    by (simp add: try_pop_def receiver_try_recv_Cons receiver_try_recv_Nil)
  with e show "fst (try_pop i s d) = Ok x" "mail (snd (try_pop i s d)) = (mail d)((i, s) := Some (lo, []))"
    "disp_inv (snd (try_pop i s d))"
    by (simp_all add: mail_upd_low [OF assms(1)] disp_inv_chan_upd [OF assms(1)])
qed

lemma try_pop_empty:
  assumes "disp_inv d" "mail d (i, s) = None \<or> mail d (i, s) = Some ([], [])"
  shows "try_pop i s d = (Err (), d)"
  using assms(2)
proof
  assume "mail d (i, s) = Some ([], [])"
  then show ?thesis
    by (rule mail_Some [OF assms(1)]) (simp add: try_pop_def receiver_try_recv_Nil)
qed (simp add: try_pop_def mail_None [OF assms(1)])

lemma disp_inv_pop [inv_intros]: "disp_inv d \<Longrightarrow> disp_inv (snd (try_pop i s d))"
proof (cases "mail d (i, s)")
  case (Some b)
  assume inv: "disp_inv d"
  obtain lo hi where b: "b = (lo, hi)" by fastforce
  show ?thesis
  proof (cases hi)
    case Nil
    then show ?thesis
      using Some b inv try_pop_low(3) try_pop_empty by (cases lo) fastforce+
  next
    case (Cons x xs)
    then show ?thesis using Some b inv try_pop_high(3) by fastforce
  qed
qed (simp add: try_pop_empty)

text \<open>Opening, closing and cancelling a stream.\<close>

definition opened :: "dispatch_entry \<Rightarrow> 'm dispatch \<Rightarrow> 'm dispatch" where
  "opened e d = (chan_upd (high_sender e) (fresh_channel HIGH_LIMIT)
      (chan_upd (low_sender e) (fresh_channel LOW_LIMIT) d))\<lparr>next_chan := next_chan d + 2\<rparr>"

definition new_entry :: "'m dispatch \<Rightarrow> dispatch_entry" where
  "new_entry d = \<lparr>low_sender = next_chan d, high_sender = next_chan d + 1,
     low_receiver = next_chan d, high_receiver = next_chan d + 1, reset_requested = False\<rparr>"

lemma insert_new_channel_absent:
  "dm_get (entries d) (i, s) = None \<Longrightarrow>
     insert_new_channel i s d
       = (opened (new_entry d) d)\<lparr>entries := dm_insert (i, s) (new_entry d) (entries d)\<rparr>"
  by (simp add: insert_new_channel_def already_in_map_def inner_insert_def opened_def new_entry_def Let_def)

lemma insert_new_channel_present:
  "dm_get (entries d) (i, s) = Some e \<Longrightarrow> insert_new_channel i s d = d"
  by (simp add: insert_new_channel_def already_in_map_def)

lemma chan_ok_fresh [simp]: "chan_ok (fresh_channel l)" "ch_connected (fresh_channel l)"
  "ch_items (fresh_channel l) = []"
  by (simp_all add: chan_ok_def fresh_channel_def cc_new_def)

lemma disp_inv_entry_chans:
  assumes "disp_inv d" "dm_get (entries d) k = Some e"
  shows "low_sender e < next_chan d" "high_sender e < next_chan d"
  by (rule disp_inv_entryD [OF assms], use assms(1) in \<open>auto simp: disp_inv_def\<close>)+

lemma entry_ok_opened:
  assumes "disp_inv d" "dm_get (entries d) k = Some e"
  shows "entry_ok (opened (new_entry d) d) e"
proof -
  have "entry_ok d e" "low_sender e < next_chan d" "high_sender e < next_chan d"
    using disp_inv_entry_ok [OF assms] disp_inv_entry_chans [OF assms] by simp_all
  then show ?thesis by (auto simp: entry_ok_def connected_def opened_def new_entry_def)
qed

lemma disp_inv_insert [inv_intros]:
  assumes "disp_inv d"
  shows "disp_inv (insert_new_channel i s d)"
proof (cases "dm_get (entries d) (i, s)")
  case (Some e)
  then show ?thesis using assms by (simp add: insert_new_channel_present)
next
  case None
  let ?d = "insert_new_channel i s d"
  have d: "?d = (opened (new_entry d) d)\<lparr>entries := dm_insert (i, s) (new_entry d) (entries d)\<rparr>"
    using None by (rule insert_new_channel_absent)
  have fresh: "entry_chans (new_entry d) \<inter> entry_chans e = {}" if "dm_get (entries d) k = Some e" for k e
    using disp_inv_entry_chans [OF assms that] by (simp add: entry_chans_def new_entry_def)
  have ok: "entry_ok ?d e = entry_ok (opened (new_entry d) d) e" for e
    by (simp add: d entry_ok_def connected_def)
  have "entry_ok ?d (new_entry d)"
    by (simp add: ok) (simp add: entry_ok_def new_entry_def connected_def opened_def)
  then have "\<forall>k e. dm_get (entries ?d) k = Some e \<longrightarrow> entry_ok ?d e"
    using entry_ok_opened [OF assms] by (simp add: ok) (simp add: d)
  moreover have "\<forall>c ch. chans ?d c = Some ch \<longrightarrow> c < next_chan ?d \<and> chan_ok ch"
    using disp_inv_chans [OF assms] by (auto simp: d opened_def new_entry_def intro: less_SucI)
  moreover have "\<forall>k k' e e'. dm_get (entries ?d) k = Some e \<longrightarrow> dm_get (entries ?d) k' = Some e'
      \<longrightarrow> k \<noteq> k' \<longrightarrow> entry_chans e \<inter> entry_chans e' = {}"
    using assms fresh unfolding disp_inv_def by (simp add: d Int_commute)
  moreover have "dm_wf (entries ?d)"
    using assms by (simp add: d disp_inv_def)
  ultimately show ?thesis unfolding disp_inv_def by blast
qed

lemma mail_insert:
  assumes "disp_inv d"
  shows "mail (insert_new_channel i s d)
     = (if mail d (i, s) = None then (mail d)((i, s) := Some ([], [])) else mail d)"
proof (cases "dm_get (entries d) (i, s)")
  case (Some e)
  then show ?thesis using assms by (simp add: insert_new_channel_present mail_None)
next
  case None
  have "mail (insert_new_channel i s d) k = ((mail d)((i, s) := Some ([], []))) k" for k
  proof (cases "k = (i, s)")
    case True
    then show ?thesis
      by (simp add: insert_new_channel_absent [OF None] mail_def opened_def new_entry_def)
  next
    case False
    show ?thesis
    proof (cases "dm_get (entries d) k")
      case (Some e)
      have "low_sender e < next_chan d" "high_sender e < next_chan d"
        using disp_inv_entry_chans [OF assms Some] by simp_all
      with Some False show ?thesis
        by (simp add: insert_new_channel_absent [OF None] mail_def opened_def new_entry_def)
    qed (simp add: insert_new_channel_absent [OF \<open>dm_get (entries d) (i, s) = None\<close>] mail_def False)
  qed
  then show ?thesis using None assms by (auto simp: mail_None)
qed

lemma drop_receiver_connected:
  "chans d c = Some ch \<Longrightarrow> drop_receiver c d = chan_upd c (ch\<lparr>ch_items := [], ch_connected := False\<rparr>) d"
  by (simp add: drop_receiver_def)

lemma chan_ok_dropped [simp]: "chan_ok ch \<Longrightarrow> chan_ok (ch\<lparr>ch_items := [], ch_connected := False\<rparr>)"
  by (simp add: chan_ok_def)

lemma remove_stream_present:
  assumes "disp_inv d" "dm_get (entries d) (i, s) = Some e"
  obtains lc hc where "chan_ok lc" "chan_ok hc" "\<not> ch_connected lc" "\<not> ch_connected hc"
    "remove_stream i s d = (chan_upd (high_sender e) hc (chan_upd (low_sender e) lc d))
       \<lparr>entries := dm_remove (i, s) (entries d)\<rparr>"
proof (rule disp_inv_entryD [OF assms])
  fix lo hi
  assume a: "chans d (low_sender e) = Some lo" "chan_ok lo" "chans d (high_sender e) = Some hi" "chan_ok hi"
    "low_receiver e = low_sender e" "high_receiver e = high_sender e" "low_sender e \<noteq> high_sender e"
  show thesis
  proof (rule that)
    show "remove_stream i s d
        = (chan_upd (high_sender e) (hi\<lparr>ch_items := [], ch_connected := False\<rparr>)
            (chan_upd (low_sender e) (lo\<lparr>ch_items := [], ch_connected := False\<rparr>) d))
          \<lparr>entries := dm_remove (i, s) (entries d)\<rparr>"
      using assms(2) a by (simp add: remove_stream_def drop_receiver_def chan_upd_def)
  qed (use a in simp_all)
qed

lemma remove_stream_absent: "dm_get (entries d) (i, s) = None \<Longrightarrow> remove_stream i s d = d"
  by (simp add: remove_stream_def)

lemma disp_inv_remove [inv_intros]:
  assumes "disp_inv d"
  shows "disp_inv (remove_stream i s d)"
proof (cases "dm_get (entries d) (i, s)")
  case None
  then show ?thesis using assms by (simp add: remove_stream_absent)
next
  case (Some e)
  obtain lc hc where c: "chan_ok lc" "chan_ok hc"
    and r: "remove_stream i s d = (chan_upd (high_sender e) hc (chan_upd (low_sender e) lc d))
       \<lparr>entries := dm_remove (i, s) (entries d)\<rparr>"
    by (rule remove_stream_present [OF assms Some])
  let ?d = "remove_stream i s d"
  have "entry_ok ?d e'" if k: "dm_get (entries d) k = Some e'" "k \<noteq> (i, s)" for k e'
    using disp_inv_entry_ok [OF assms k(1)] entry_chans_inj [OF assms Some k]
    by (auto simp: entry_ok_def connected_def r)
  then have "\<forall>k e'. dm_get (entries ?d) k = Some e' \<longrightarrow> entry_ok ?d e'"
    by (metis (no_types, lifting) r dm_get_remove option.distinct(1) dispatch.simps(3) dispatch.select_convs(3) dispatch.surjective dispatch.update_convs(3))
  moreover have "\<forall>c ch. chans ?d c = Some ch \<longrightarrow> c < next_chan ?d \<and> chan_ok ch"
    using assms c disp_inv_entry_chans [OF assms Some] by (auto simp: r disp_inv_def)
  moreover have "\<forall>k k' e e'. dm_get (entries ?d) k = Some e \<longrightarrow> dm_get (entries ?d) k' = Some e'
      \<longrightarrow> k \<noteq> k' \<longrightarrow> entry_chans e \<inter> entry_chans e' = {}"
    using assms unfolding disp_inv_def by (simp add: r)
  moreover have "dm_wf (entries ?d)"
    using assms by (simp add: r disp_inv_def)
  ultimately show ?thesis unfolding disp_inv_def by blast
qed

lemma mail_remove:
  assumes "disp_inv d"
  shows "mail (remove_stream i s d) = (mail d)((i, s) := None)"
proof (cases "dm_get (entries d) (i, s)")
  case None
  then have "mail d (i, s) = None" by (simp add: mail_None [OF assms])
  then show ?thesis using None by (simp add: remove_stream_absent fun_upd_idem)
next
  case (Some e)
  obtain lc hc where
    r: "remove_stream i s d = (chan_upd (high_sender e) hc (chan_upd (low_sender e) lc d))
       \<lparr>entries := dm_remove (i, s) (entries d)\<rparr>"
    by (rule remove_stream_present [OF assms Some])
  have "mail (remove_stream i s d) k = ((mail d)((i, s) := None)) k" for k
  proof (cases "k = (i, s)")
    case False
    then show ?thesis
      using entry_chans_inj [OF assms Some _ False]
      by (cases "dm_get (entries d) k") (simp_all add: r mail_def)
  qed (simp add: r mail_def)
  then show ?thesis by blast
qed

lemma mail_reset: "mail (snd (request_stream_reset i s d)) = mail d"
  by (auto simp: request_stream_reset_def mail_def fun_eq_iff split: option.split)

lemma disp_inv_reset [inv_intros]:
  assumes "disp_inv d"
  shows "disp_inv (snd (request_stream_reset i s d))"
proof (cases "dm_get (entries d) (i, s)")
  case (Some e)
  let ?d = "snd (request_stream_reset i s d)" and ?e = "e\<lparr>reset_requested := True\<rparr>"
  have d: "?d = d\<lparr>entries := dm_insert (i, s) ?e (entries d)\<rparr>"
    using Some by (simp add: request_stream_reset_def)
  have ok: "entry_ok ?d e' = entry_ok d e'" "entry_ok d ?e = entry_ok d e" "entry_chans ?e = entry_chans e" for e'
    by (simp_all add: d entry_ok_def connected_def entry_chans_def)
  have "\<forall>k e'. dm_get (entries ?d) k = Some e' \<longrightarrow> entry_ok ?d e'"
    using disp_inv_entry_ok [OF assms] Some by (simp add: ok) (simp add: d ok)
  moreover have "\<forall>k k' e e'. dm_get (entries ?d) k = Some e \<longrightarrow> dm_get (entries ?d) k' = Some e'
      \<longrightarrow> k \<noteq> k' \<longrightarrow> entry_chans e \<inter> entry_chans e' = {}"
    using assms Some ok(3) unfolding disp_inv_def by (simp add: d)
  ultimately show ?thesis using assms unfolding disp_inv_def by (simp add: d)
qed (use assms in \<open>simp add: request_stream_reset_def\<close>)

lemma disp_inv_send_low [inv_intros]: "disp_inv d \<Longrightarrow> disp_inv (snd (send_via_low_sender i s m d))"
  by (cases "mail d (i, s)") (auto simp: send_absent send_low_present)

lemma disp_inv_send_high [inv_intros]:
  "disp_inv d \<Longrightarrow> disp_inv (snd (send_to_high_priority_queue i s m d))"
  by (cases "mail d (i, s)") (auto simp: send_absent send_high_present)

interpretation mailboxes: stream_mailboxes disp_inv mail
  "\<lambda>k. insert_new_channel (fst k) (snd k)"
  "\<lambda>k. send_via_low_sender (fst k) (snd k)"
  "\<lambda>k. send_to_high_priority_queue (fst k) (snd k)"
  "\<lambda>k. try_pop (fst k) (snd k)" "\<lambda>k. remove_stream (fst k) (snd k)"
  by unfold_locales
    (simp_all add: mail_insert mail_remove send_low_present send_high_present send_absent try_pop_high
      try_pop_low try_pop_empty inv_intros)


subsection \<open>Properties\<close>

text \<open>Abstract mailboxes, and the operations a run of the server applies to the channels.\<close>

datatype 'm disp_op =
    Open_Stream stream_id scid
  | Send_Low stream_id scid 'm
  | Send_High stream_id scid 'm
  | Pop stream_id scid
  | Request_Reset stream_id scid
  | Close_Stream stream_id scid

datatype 'm disp_out = Done | Sent "'m + unit" | Popped "unit + 'm"

fun disp_step :: "'m disp_op \<Rightarrow> 'm dispatch \<Rightarrow> 'm disp_out \<times> 'm dispatch" where
  "disp_step (Open_Stream i s) d = (Done, insert_new_channel i s d)"
| "disp_step (Send_Low i s m) d = apfst Sent (send_via_low_sender i s m d)"
| "disp_step (Send_High i s m) d = apfst Sent (send_to_high_priority_queue i s m d)"
| "disp_step (Pop i s) d = apfst Popped (try_pop i s d)"
| "disp_step (Request_Reset i s) d = (Done, snd (request_stream_reset i s d))"
| "disp_step (Close_Stream i s) d = (Done, remove_stream i s d)"

type_synonym 'm boxes = "ids \<Rightarrow> ('m list \<times> 'm list) option"

fun box_step :: "'m disp_op \<Rightarrow> 'm boxes \<Rightarrow> 'm disp_out \<times> 'm boxes" where
  "box_step (Open_Stream i s) b =
     (Done, case b (i, s) of None \<Rightarrow> b((i, s) := Some ([], [])) | Some _ \<Rightarrow> b)"
| "box_step (Send_Low i s m) b = (case b (i, s) of
     Some (lo, hi) \<Rightarrow> (Sent (Ok ()), b((i, s) := Some (lo @ [m], hi))) | None \<Rightarrow> (Sent (Err m), b))"
| "box_step (Send_High i s m) b = (case b (i, s) of
     Some (lo, hi) \<Rightarrow> (Sent (Ok ()), b((i, s) := Some (lo, hi @ [m]))) | None \<Rightarrow> (Sent (Err m), b))"
| "box_step (Pop i s) b = (case b (i, s) of
     Some (lo, x # hi) \<Rightarrow> (Popped (Ok x), b((i, s) := Some (lo, hi)))
   | Some (x # lo, []) \<Rightarrow> (Popped (Ok x), b((i, s) := Some (lo, [])))
   | _ \<Rightarrow> (Popped (Err ()), b))"
| "box_step (Request_Reset i s) b = (Done, b)"
| "box_step (Close_Stream i s) b = (Done, b((i, s) := None))"

lemma disp_inv_step: "disp_inv d \<Longrightarrow> disp_inv (snd (disp_step x d))"
  by (cases x) (simp_all add: apfst_def map_prod_def split_beta inv_intros)

lemma disp_step_box:
  assumes "disp_inv d"
  shows "fst (disp_step x d) = fst (box_step x (mail d)) \<and> mail (snd (disp_step x d)) = snd (box_step x (mail d))"
proof (cases x)
  case (Send_Low i s m)
  then show ?thesis using assms
    by (cases "mail d (i, s)") (auto simp: send_absent send_low_present)
next
  case (Send_High i s m)
  then show ?thesis using assms
    by (cases "mail d (i, s)") (auto simp: send_absent send_high_present)
next
  case (Pop i s)
  then show ?thesis using assms
    by (auto simp: try_pop_empty try_pop_high try_pop_low split: option.split list.split)
qed (use assms in \<open>auto simp: mail_insert mail_remove mail_reset split: option.split\<close>)

lemma run_disp_box:
  "disp_inv d \<Longrightarrow> fst (run_ops disp_step xs d) = fst (run_ops box_step xs (mail d))
     \<and> mail (snd (run_ops disp_step xs d)) = snd (run_ops box_step xs (mail d))
     \<and> disp_inv (snd (run_ops disp_step xs d))"
proof (induction xs arbitrary: d)
  case (Cons x xs)
  obtain r d' where r: "disp_step x d = (r, d')" by fastforce
  have d': "disp_inv d'" "box_step x (mail d) = (r, mail d')"
    using disp_inv_step [OF Cons.prems, of x] disp_step_box [OF Cons.prems, of x] r
    by (simp_all add: prod_eq_iff)
  show ?case
    using Cons.IH [OF d'(1)] r d'(2) by (simp add: split_beta)
qed simp

lemma mail_new [simp]: "mail dispatch_new = (\<lambda>_. None)"
  by (simp add: mail_def dispatch_new_def fun_eq_iff)

text \<open>
  C13. The shared heap of counted channels behaves like one independent two-queue mailbox per
  stream: every sequence of opens, sends, receives, cancellations and closes returns the results
  of the mailbox specification, from the empty table on.
\<close>

theorem dispatch_refines_mailboxes:
  "fst (run_ops disp_step ops dispatch_new) = fst (run_ops box_step ops (\<lambda>_. None))"
  using run_disp_box [OF disp_inv_new, of ops] by simp

text \<open>
  Whatever happened before, draining a stream yields its headers (high priority) first and
  its body messages after them, each in the order they were sent.
\<close>

theorem dispatch_drain_order:
  assumes "mail (snd (run_ops disp_step ops dispatch_new)) (i, s) = Some (lo, hi)"
  shows "fst (iterate (try_pop i s) (length hi + length lo) (snd (run_ops disp_step ops dispatch_new)))
           = map Ok (hi @ lo)"
proof -
  have "disp_inv (snd (run_ops disp_step ops dispatch_new))"
    using run_disp_box [OF disp_inv_new] by blast
  from mailboxes.drain [OF this assms] show ?thesis by simp
qed

theorem dispatch_drain_order_witness:
  "fst (iterate (try_pop 4 [1 :: byte]) (length [''head''] + length [''body''])
      (snd (run_ops disp_step [Open_Stream 4 [1], Send_Low 4 [1] ''body'', Send_High 4 [1] ''head'']
        dispatch_new))) = map Ok ([''head''] @ [''body''])"
proof -
  let ?ops = "[Open_Stream 4 [1], Send_Low 4 [1 :: byte] ''body'', Send_High 4 [1] ''head'']"
  have "mail (snd (run_ops disp_step ?ops dispatch_new)) (4, [1]) = Some ([''body''], [''head''])"
    by (simp add: conjunct1 [OF conjunct2 [OF run_disp_box [OF disp_inv_new]]] del: run_ops.simps disp_step.simps)
       simp
  from dispatch_drain_order [OF this] show ?thesis .
qed

text \<open>A disconnected channel never comes back.\<close>

definition dead_chan :: "'m dispatch \<Rightarrow> chan \<Rightarrow> bool" where
  "dead_chan d c \<longleftrightarrow> c < next_chan d \<and> \<not> connected d c"

lemma dead_chan_step:
  assumes "disp_inv d" "dead_chan d c"
  shows "dead_chan (snd (disp_step x d)) c"
proof (cases x)
  case (Open_Stream i s)
  then show ?thesis
  proof (cases "dm_get (entries d) (i, s)")
    case None
    then show ?thesis
      using assms(2) Open_Stream
      by (auto simp: insert_new_channel_absent dead_chan_def connected_def opened_def new_entry_def)
  qed (use assms(2) Open_Stream in \<open>simp add: insert_new_channel_present\<close>)
next
  case (Close_Stream i s)
  show ?thesis
  proof (cases "dm_get (entries d) (i, s)")
    case None
    then show ?thesis using assms(2) Close_Stream by (simp add: remove_stream_absent)
  next
    case (Some e)
    show ?thesis
      by (rule remove_stream_present [OF assms(1) Some])
        (use assms(2) Close_Stream in \<open>auto simp: dead_chan_def connected_def\<close>)
  qed
qed (use assms(2) in \<open>auto simp: dead_chan_def connected_def send_via_low_sender_def sender_send_def
    get_low_priority_sender_def send_to_high_priority_queue_def try_pop_def receiver_try_recv_def
    raw_send_def raw_try_recv_def on_counter_def request_stream_reset_def apfst_def map_prod_def
    split_beta Let_def split: option.splits list.splits sum.splits if_splits prod.splits\<close>)

lemma dead_chan_run:
  "disp_inv d \<Longrightarrow> dead_chan d c \<Longrightarrow> dead_chan (snd (run_ops disp_step xs d)) c"
proof (induction xs arbitrary: d)
  case (Cons x xs)
  show ?case
    using Cons.IH [OF disp_inv_step [OF Cons.prems(1)] dead_chan_step [OF Cons.prems]]
    by (simp add: split_beta)
qed simp

text \<open>
  A sender that a worker still holds after its stream was removed is harmless: whatever the
  server does afterwards (even reopening the stream), a send through it fails, hands the message
  back and changes nothing, the counter included.
\<close>

theorem stale_sender_rejected:
  assumes "disp_inv d" "get_low_priority_sender i s d = Some c"
  shows "let d' = snd (run_ops disp_step ops (remove_stream i s d)) in sender_send c m d' = (Err m, d')"
proof -
  obtain e where e: "dm_get (entries d) (i, s) = Some e" "c = low_sender e"
    using assms(2) by (auto simp: get_low_priority_sender_def split: option.splits)
  have "dead_chan (remove_stream i s d) c"
    by (rule remove_stream_present [OF assms(1) e(1)])
      (use e(2) disp_inv_entry_chans [OF assms(1) e(1)] in \<open>auto simp: dead_chan_def connected_def\<close>)
  then have "dead_chan (snd (run_ops disp_step ops (remove_stream i s d))) c"
    using dead_chan_run disp_inv_remove [OF assms(1)] by blast
  moreover have "disp_inv (snd (run_ops disp_step ops (remove_stream i s d)))"
    using run_disp_box disp_inv_remove [OF assms(1)] by blast
  ultimately show ?thesis
    by (simp add: Let_def dead_chan_def sender_send_disconnected)
qed

theorem stale_sender_rejected_witness:
  "let d' = snd (run_ops disp_step [Open_Stream 4 [1]]
      (remove_stream 4 [1] (insert_new_channel 4 [1] (dispatch_new :: string dispatch))))
   in sender_send 0 ''late'' d' = (Err ''late'', d')"
proof -
  have "get_low_priority_sender 4 [1] (insert_new_channel 4 [1] (dispatch_new :: string dispatch)) = Some 0"
    by (simp add: get_low_priority_sender_def insert_new_channel_def already_in_map_def inner_insert_def
        dispatch_new_def chan_upd_def)
  from stale_sender_rejected [OF disp_inv_insert [OF disp_inv_new] this] show ?thesis .
qed

definition std_limit :: "usize \<Rightarrow> bool" where
  "std_limit l \<longleftrightarrow> l = LOW_LIMIT \<or> l = HIGH_LIMIT"

lemma std_limits [simp]: "std_limit LOW_LIMIT" "std_limit HIGH_LIMIT"
  by (simp_all add: std_limit_def)

definition chan_limits :: "'m dispatch \<Rightarrow> bool" where
  "chan_limits d \<longleftrightarrow> (\<forall>c ch. chans d c = Some ch \<longrightarrow> std_limit (counter_limit (ch_counter ch)))"

lemma counter_limit_kept [simp]: "counter_limit (snd (cc_try_increment cc)) = counter_limit cc"
  "counter_limit (cc_decrement cc) = counter_limit cc"
  by (simp_all add: cc_try_increment_def cc_decrement_def)

lemma chan_limits_step: "chan_limits d \<Longrightarrow> chan_limits (snd (disp_step x d))"
  by (cases x)
    (auto simp: chan_limits_def send_via_low_sender_def sender_send_def insert_new_channel_def
    get_low_priority_sender_def send_to_high_priority_queue_def try_pop_def receiver_try_recv_def
    raw_send_def raw_try_recv_def on_counter_def request_stream_reset_def apfst_def map_prod_def
    inner_insert_def fresh_channel_def cc_new_def remove_stream_def drop_receiver_def counter_of_def
    split_beta Let_def split: option.splits list.splits sum.splits if_splits prod.splits)

lemma chan_limits_run: "chan_limits d \<Longrightarrow> chan_limits (snd (run_ops disp_step xs d))"
proof (induction xs arbitrary: d)
  case (Cons x xs)
  then show ?case using chan_limits_step [OF Cons.prems, of x] by (simp add: split_beta)
qed simp



end
