(* ===== verification/Response.thy ===== *)
theory Response
  imports HttpRequest ChunkDispatch
begin

section \<open>Building a response\<close>

text \<open>
  Model of \<open>request_reponse_builder\<close> and \<open>response_elements\<close> in \<open>src/request_response.rs\<close> and of
  \<open>src/conn_statistics.rs\<close>. A panicking conversion is \<open>None\<close>. The file system is a parameter:
  \<open>fs p\<close> is the length of the regular file at \<open>p\<close>, if there is one.
\<close>

subsection \<open>Numbers and quoted strings as text\<close>

definition digit_char :: "nat \<Rightarrow> char" where
  "digit_char d = char_of (48 + d)"

fun nat_to_string :: "nat \<Rightarrow> string" where
  "nat_to_string n = (if n < 10 then [digit_char n] else nat_to_string (n div 10) @ [digit_char (n mod 10)])"

declare nat_to_string.simps [simp del]

lemma of_char_digit: "d < 10 \<Longrightarrow> of_char (digit_char d) = 48 + d"
  by (simp add: digit_char_def)

lemma digits_value_snoc: "digits_value (s @ [c]) = digits_value s * 10 + (of_char c - 48)"
  by (simp add: digits_value_def)

lemma nat_to_string_ok:
  "nat_to_string n \<noteq> [] \<and> list_all is_ascii_digit (nat_to_string n) \<and> digits_value (nat_to_string n) = n"
proof (induction n rule: nat_to_string.induct)
  case (1 n)
  show ?case
  proof (cases "n < 10")
    case True
    then show ?thesis
      by (subst (1 2 3) nat_to_string.simps) (simp add: digits_value_def is_ascii_digit_def of_char_digit)
  next
    case False
    have "is_ascii_digit (digit_char (n mod 10))"
      by (simp add: is_ascii_digit_def of_char_digit)
    with "1.IH" [OF False] False show ?thesis
      by (subst (1 2 3) nat_to_string.simps) (simp add: digits_value_snoc of_char_digit)
  qed
qed

text \<open>Rust's \<open>{:?}\<close> of a string: quoted, with escapes. Bytes above 127 are copied.\<close>

definition hex_char :: "nat \<Rightarrow> char" where
  "hex_char d = (if d < 10 then char_of (48 + d) else char_of (87 + d))"

definition debug_char :: "char \<Rightarrow> string" where
  "debug_char c =
     (let n = of_char c :: nat in
      if c = CHR 0x22 then [CHR 0x5C, CHR 0x22]
      else if c = CHR 0x5C then [CHR 0x5C, CHR 0x5C]
      else if n = 9 then [CHR 0x5C, CHR ''t'']
      else if n = 10 then [CHR 0x5C, CHR ''n'']
      else if n = 13 then [CHR 0x5C, CHR ''r'']
      else if n = 0 then [CHR 0x5C, CHR ''0'']
      else if n < 32 \<or> n = 127 then
        [CHR 0x5C, CHR ''u'', CHR 0x7B] @ (if n < 16 then [hex_char n] else [hex_char (n div 16), hex_char (n mod 16)])
          @ [CHR 0x7D]
      else [c])"

definition debug_string :: "string \<Rightarrow> string" where
  "debug_string s = CHR 0x22 # concat (map debug_char s) @ [CHR 0x22]"


subsection \<open>Status and content type\<close>

datatype Status = Status_Ok usize | Status_Err usize

fun get_status_to_string :: "Status \<Rightarrow> string" where
  "get_status_to_string (Status_Ok v) = nat_to_string v"
| "get_status_to_string (Status_Err v) = nat_to_string v"

definition status_from_bytes :: "string \<Rightarrow> Status option" where
  "status_from_bytes bs =
     (case parse_usize (from_utf8_lossy bs) of
        None \<Rightarrow> None
      | Some code \<Rightarrow> Some (if code = 200 then Status_Ok code else Status_Err code))"

datatype ContentType = Text | JSon | Audio string | Custom string

fun content_type_to_string :: "ContentType \<Rightarrow> string" where
  "content_type_to_string Text = ''text''"
| "content_type_to_string JSon = ''application/json''"
| "content_type_to_string (Audio format) = ''audio/'' @ debug_string format"
| "content_type_to_string (Custom format) = ''custom/'' @ debug_string format"

text \<open>The value of the match is dropped unless a branch returns.\<close>

definition content_type_from_bytes :: "string \<Rightarrow> ContentType option" where
  "content_type_from_bytes bs =
     (if bs = ''text'' then None
      else (case split_once (CHR ''/'') (from_utf8_lossy bs) of
              Some (pre, suf) \<Rightarrow> if pre = ''custom'' then Some (Custom suf) else None
            | None \<Rightarrow> None))"


subsection \<open>Bodies\<close>

record ConnStats =
  rtt :: nat
  cwnd :: usize

definition conn_stats_new :: ConnStats where
  "conn_stats_new = \<lparr>rtt = 2, cwnd = 0\<rparr>"

definition set_conn_stats :: "nat \<Rightarrow> usize \<Rightarrow> ConnStats \<Rightarrow> ConnStats" where
  "set_conn_stats r w s = s\<lparr>cwnd := w, rtt := r\<rparr>"

datatype BodyType =
    Data stream_id scid conn_id bytes "chan option" "ConnStats option"
  | StreamData stream_id scid conn_id bytes "chan option" "ConnStats option"
  | FilePath stream_id scid conn_id path_buf "chan option" "ConnStats option"
  | No_Body

definition body_new_data :: "stream_id \<Rightarrow> scid \<Rightarrow> conn_id \<Rightarrow> bytes \<Rightarrow> BodyType" where
  "body_new_data i s c d = Data i s c d None None"

definition body_new_file :: "stream_id \<Rightarrow> scid \<Rightarrow> conn_id \<Rightarrow> path_buf \<Rightarrow> BodyType" where
  "body_new_file i s c p = FilePath i s c p None None"

fun attach_conn_stats :: "ConnStats \<Rightarrow> BodyType \<Rightarrow> BodyType" where
  "attach_conn_stats cs (Data i s c d sd st) = Data i s c d sd (Some cs)"
| "attach_conn_stats cs (StreamData i s c d sd st) = StreamData i s c d sd (Some cs)"
| "attach_conn_stats cs (FilePath i s c p sd st) = FilePath i s c p sd (Some cs)"
| "attach_conn_stats cs No_Body = No_Body"

fun bytes_len :: "(path_buf \<Rightarrow> usize option) \<Rightarrow> BodyType \<Rightarrow> usize option" where
  "bytes_len fs (Data i s c d sd st) = Some (length d)"
| "bytes_len fs (StreamData i s c d sd st) = Some (length d)"
| "bytes_len fs (FilePath i s c p sd st) = fs p"
| "bytes_len fs No_Body = Some 0"


subsection \<open>Responses\<close>

record RequestResponse =
  rr_status :: h3_header
  rr_content_length :: "h3_header option"
  rr_content_type :: "h3_header option"
  rr_custom :: "h3_header list"
  rr_body :: BodyType

datatype BodyTypeBuilder = Build_Data | Build_FilePath | Build_None

record ResponseBuilder =
  b_stream_id :: "stream_id option"
  b_conn_id :: "conn_id option"
  b_scid :: "scid option"
  b_status :: "Status option"
  b_content_length :: "usize option"
  b_content_type :: "ContentType option"
  b_custom :: "h3_header list"
  b_body :: "bytes option"
  b_path :: "path_buf option"
  b_body_type :: BodyTypeBuilder

definition builder_new :: ResponseBuilder where
  "builder_new = \<lparr>b_stream_id = None, b_conn_id = None, b_scid = None, b_status = None,
     b_content_length = None, b_content_type = None, b_custom = [], b_body = None, b_path = None,
     b_body_type = Build_None\<rparr>"

definition extends_headers :: "h3_header list \<Rightarrow> ResponseBuilder \<Rightarrow> ResponseBuilder option" where
  "extends_headers headers b =
     (let status = filter (\<lambda>h. hname h = ''status'') headers;
          others = filter (\<lambda>h. hname h \<noteq> ''status'') headers
      in case status of
           h # _ \<Rightarrow> (case status_from_bytes (hvalue h) of
               None \<Rightarrow> None
             | Some st \<Rightarrow> Some (b\<lparr>b_status := Some st, b_custom := b_custom b @ others\<rparr>))
         | [] \<Rightarrow> Some (b\<lparr>b_custom := b_custom b @ headers\<rparr>))"

definition set_stream_id :: "stream_id \<Rightarrow> ResponseBuilder \<Rightarrow> ResponseBuilder" where
  "set_stream_id i b = b\<lparr>b_stream_id := Some i\<rparr>"

definition set_scid :: "scid \<Rightarrow> ResponseBuilder \<Rightarrow> ResponseBuilder" where
  "set_scid s b = b\<lparr>b_scid := Some s\<rparr>"

definition set_conn_id :: "conn_id \<Rightarrow> ResponseBuilder \<Rightarrow> ResponseBuilder" where
  "set_conn_id c b = b\<lparr>b_conn_id := Some c\<rparr>"

definition set_status :: "Status \<Rightarrow> ResponseBuilder \<Rightarrow> ResponseBuilder" where
  "set_status st b = b\<lparr>b_status := Some st\<rparr>"

definition set_path :: "path_buf \<Rightarrow> ResponseBuilder \<Rightarrow> ResponseBuilder" where
  "set_path p b = b\<lparr>b_path := Some p, b_body_type := Build_FilePath\<rparr>"

definition set_body :: "bytes \<Rightarrow> ResponseBuilder \<Rightarrow> ResponseBuilder" where
  "set_body d b = b\<lparr>b_content_length := Some (length d), b_body := Some d, b_body_type := Build_Data\<rparr>"

definition set_content_type :: "ContentType \<Rightarrow> ResponseBuilder \<Rightarrow> ResponseBuilder" where
  "set_content_type ct b = b\<lparr>b_content_type := Some ct\<rparr>"

text \<open>
  \<open>build\<close> consumes the fields it takes out of the builder, also on the paths that return an error.
\<close>

definition build :: "(path_buf \<Rightarrow> usize option) \<Rightarrow> ResponseBuilder \<Rightarrow> (unit + RequestResponse) \<times> ResponseBuilder" where
  "build fs b =
     (case b_status b of
        None \<Rightarrow> (Err (), b)
      | Some st \<Rightarrow>
          let status = header '':status'' (get_status_to_string st);
              b1 = b\<lparr>b_status := None\<rparr>;
              content_type = map_option (\<lambda>ct. header ''content-type'' (content_type_to_string ct)) (b_content_type b1)
          in case b_stream_id b1 of
               None \<Rightarrow> (Err (), b1)
             | Some stream_id \<Rightarrow>
                 (let b2 = b1\<lparr>b_conn_id := None\<rparr> in
                  case b_conn_id b1 of
                    None \<Rightarrow> (Err (), b2)
                  | Some conn_id \<Rightarrow>
                      (let b3 = b2\<lparr>b_scid := None\<rparr> in
                       case b_scid b2 of
                         None \<Rightarrow> (Err (), b3)
                       | Some scid \<Rightarrow>
                           let (body, content_length, b4) =
                             (case b_body_type b3 of
                                Build_Data \<Rightarrow>
                                  let data = (case b_body b3 of Some d \<Rightarrow> d | None \<Rightarrow> []) in
                                  (body_new_data stream_id scid conn_id data,
                                   Some (header ''content-length'' (nat_to_string (length data))),
                                   b3\<lparr>b_body := map_option (\<lambda>_. []) (b_body b3)\<rparr>)
                              | Build_FilePath \<Rightarrow>
                                  let file_path = (case b_path b3 of Some p \<Rightarrow> p | None \<Rightarrow> []);
                                      file_len = (case fs file_path of Some n \<Rightarrow> n | None \<Rightarrow> 0) in
                                  (body_new_file stream_id scid conn_id file_path,
                                   Some (header ''content-length'' (nat_to_string file_len)),
                                   b3\<lparr>b_path := map_option (\<lambda>_. []) (b_path b3)\<rparr>)
                              | Build_None \<Rightarrow> (No_Body, None, b3))
                           in (Ok \<lparr>rr_status = status, rr_content_length = content_length,
                                   rr_content_type = content_type, rr_custom = b_custom b4, rr_body = body\<rparr>,
                               b4\<lparr>b_custom := []\<rparr>))))"

definition get_headers :: "RequestResponse \<Rightarrow> h3_header list" where
  "get_headers r = rr_status r # (case rr_content_type r of Some h \<Rightarrow> [h] | None \<Rightarrow> [])
     @ (if rr_custom r \<noteq> [] then rr_custom r else [])
     @ (case rr_content_length r of Some h \<Rightarrow> [h] | None \<Rightarrow> [])"

definition with_custom_headers :: "h3_header list option \<Rightarrow> RequestResponse \<Rightarrow> h3_header list" where
  "with_custom_headers custom_headers r =
     rr_status r # (case rr_content_type r of Some h \<Rightarrow> [h] | None \<Rightarrow> [])
     @ (case rr_content_length r of Some h \<Rightarrow> [h] | None \<Rightarrow> [])
     @ (if rr_custom r \<noteq> [] then rr_custom r else [])
     @ (case custom_headers of Some hs \<Rightarrow> hs | None \<Rightarrow> [])"

definition content_length_string :: "RequestResponse \<Rightarrow> string" where
  "content_length_string r =
     (case rr_content_length r of Some h \<Rightarrow> from_utf8_lossy (hvalue h) | None \<Rightarrow> ''0'')"

definition take_body :: "RequestResponse \<Rightarrow> BodyType \<times> RequestResponse" where
  "take_body r = (rr_body r, r\<lparr>rr_body := No_Body\<rparr>)"

definition with_header :: "string \<Rightarrow> string \<Rightarrow> RequestResponse \<Rightarrow> RequestResponse" where
  "with_header name val r = r\<lparr>rr_custom := rr_custom r @ [header name val]\<rparr>"

text \<open>\<open>Result::unwrap\<close>: an error is a panic.\<close>

definition unwrap :: "'e + 'a \<Rightarrow> 'a option" where
  "unwrap r = (case r of Inr x \<Rightarrow> Some x | Inl _ \<Rightarrow> None)"

definition base_builder :: "stream_id \<Rightarrow> scid \<Rightarrow> conn_id \<Rightarrow> Status \<Rightarrow> ResponseBuilder" where
  "base_builder i s c st = set_status st (set_conn_id c (set_scid s (set_stream_id i builder_new)))"

definition built :: "(path_buf \<Rightarrow> usize option) \<Rightarrow> ResponseBuilder \<Rightarrow> RequestResponse option" where
  "built fs b = unwrap (fst (build fs b))"

definition json_header :: "h3_header list" where
  "json_header = [header ''content-type'' ''application/json'']"

definition new_ok_200 :: "stream_id \<Rightarrow> scid \<Rightarrow> conn_id \<Rightarrow> RequestResponse option" where
  "new_ok_200 i s c = built (\<lambda>_. None) (base_builder i s c (Status_Ok 200))"

definition new_200_with_file ::
  "(path_buf \<Rightarrow> usize option) \<Rightarrow> stream_id \<Rightarrow> scid \<Rightarrow> conn_id \<Rightarrow> path_buf \<Rightarrow> RequestResponse option" where
  "new_200_with_file fs i s c p = built fs (set_path p (base_builder i s c (Status_Ok 200)))"

definition from_header_200 ::
  "stream_id \<Rightarrow> scid \<Rightarrow> conn_id \<Rightarrow> h3_header list \<Rightarrow> RequestResponse option" where
  "from_header_200 i s c hs =
     Option.bind (extends_headers hs (base_builder i s c (Status_Ok 200)))
       (\<lambda>b. built (\<lambda>_. None) (set_body [1] b))"

definition new_200_with_data :: "stream_id \<Rightarrow> scid \<Rightarrow> conn_id \<Rightarrow> bytes \<Rightarrow> RequestResponse option" where
  "new_200_with_data i s c d = built (\<lambda>_. None) (set_body d (base_builder i s c (Status_Ok 200)))"

text \<open>The constructors with a JSON body differ in their status only.\<close>

definition new_json_with_status :: "Status \<Rightarrow> stream_id \<Rightarrow> scid \<Rightarrow> conn_id \<Rightarrow> bytes \<Rightarrow> RequestResponse option" where
  "new_json_with_status st i s c d =
     Option.bind (extends_headers json_header (base_builder i s c st)) (\<lambda>b. built (\<lambda>_. None) (set_body d b))"

definition new_200_with_json where "new_200_with_json = new_json_with_status (Status_Ok 200)"
definition new_409_with_data where "new_409_with_data = new_json_with_status (Status_Err 409)"
definition new_403_with_data where "new_403_with_data = new_json_with_status (Status_Err 403)"
definition new_503_with_data where "new_503_with_data = new_json_with_status (Status_Err 503)"
definition new_401_with_data where "new_401_with_data = new_json_with_status (Status_Err 401)"
definition new_422_with_data where "new_422_with_data = new_json_with_status (Status_Err 422)"
definition new_428_with_data where "new_428_with_data = new_json_with_status (Status_Err 428)"



subsection \<open>What a built response looks like\<close>

lemma base_builder_sel [simp]:
  "b_stream_id (base_builder i s c st) = Some i" "b_scid (base_builder i s c st) = Some s"
  "b_conn_id (base_builder i s c st) = Some c" "b_status (base_builder i s c st) = Some st"
  "b_content_type (base_builder i s c st) = None" "b_custom (base_builder i s c st) = []"
  "b_body_type (base_builder i s c st) = Build_None"
  by (simp_all add: base_builder_def set_status_def set_conn_id_def set_scid_def set_stream_id_def builder_new_def)

lemma set_body_sel [simp]:
  "b_stream_id (set_body d b) = b_stream_id b" "b_scid (set_body d b) = b_scid b"
  "b_conn_id (set_body d b) = b_conn_id b" "b_status (set_body d b) = b_status b"
  "b_content_type (set_body d b) = b_content_type b" "b_custom (set_body d b) = b_custom b"
  "b_body_type (set_body d b) = Build_Data" "b_body (set_body d b) = Some d"
  by (simp_all add: set_body_def)

text \<open>The headers and body a builder stands for, field by field.\<close>

definition body_of_builder :: "stream_id \<Rightarrow> scid \<Rightarrow> conn_id \<Rightarrow> ResponseBuilder \<Rightarrow> BodyType" where
  "body_of_builder i s c b = (case b_body_type b of
     Build_Data \<Rightarrow> body_new_data i s c (case b_body b of Some d \<Rightarrow> d | None \<Rightarrow> [])
   | Build_FilePath \<Rightarrow> body_new_file i s c (case b_path b of Some p \<Rightarrow> p | None \<Rightarrow> [])
   | Build_None \<Rightarrow> No_Body)"

definition length_of_builder :: "(path_buf \<Rightarrow> usize option) \<Rightarrow> ResponseBuilder \<Rightarrow> usize option" where
  "length_of_builder fs b = (case b_body_type b of
     Build_Data \<Rightarrow> Some (length (case b_body b of Some d \<Rightarrow> d | None \<Rightarrow> []))
   | Build_FilePath \<Rightarrow> Some (case fs (case b_path b of Some p \<Rightarrow> p | None \<Rightarrow> []) of Some n \<Rightarrow> n | None \<Rightarrow> 0)
   | Build_None \<Rightarrow> None)"

lemma build_ok:
  "b_status b = Some st \<Longrightarrow> b_stream_id b = Some i \<Longrightarrow> b_conn_id b = Some c \<Longrightarrow> b_scid b = Some s \<Longrightarrow>
     fst (build fs b) = Ok \<lparr>rr_status = header '':status'' (get_status_to_string st),
       rr_content_length = map_option (\<lambda>n. header ''content-length'' (nat_to_string n)) (length_of_builder fs b),
       rr_content_type = map_option (\<lambda>ct. header ''content-type'' (content_type_to_string ct)) (b_content_type b),
       rr_custom = b_custom b, rr_body = body_of_builder i s c b\<rparr>"
  by (cases "b_body_type b")
    (simp_all add: build_def Let_def body_of_builder_def length_of_builder_def)

lemma build_is_ok:
  "is_ok (fst (build fs b)) \<longleftrightarrow>
     b_status b \<noteq> None \<and> b_stream_id b \<noteq> None \<and> b_conn_id b \<noteq> None \<and> b_scid b \<noteq> None"
proof (cases "b_status b \<noteq> None \<and> b_stream_id b \<noteq> None \<and> b_conn_id b \<noteq> None \<and> b_scid b \<noteq> None")
  case True
  then show ?thesis using build_ok by fastforce
next
  case False
  then show ?thesis by (auto simp: build_def Let_def split: option.splits)
qed

lemma values_of_append: "values_of n (xs @ ys) = values_of n xs @ values_of n ys"
  by (simp add: values_of_def)

lemma filter_values: "values_of n hs = [] \<longleftrightarrow> (\<forall>h \<in> set hs. hname h \<noteq> n)"
  by (auto simp: values_of_def filter_empty_conv)

lemma parse_nat_to_string: "n < usize_limit \<Longrightarrow> parse_usize (nat_to_string n) = Some n"
  using nat_to_string_ok [of n] by (simp add: parse_usize_digits)

text \<open>
  A builder yields a response exactly when status, stream, connection and scid are set. The
  response starts with its one \<open>:status\<close> header, and its one \<open>content-length\<close> header parses back to
  the number of bytes of the body it carries (no such header without a body), whatever the
  custom headers are, as long as they do not use these two names themselves.
\<close>

theorem built_response_headers:
  assumes "fst (build fs b) = Ok r"
    and "values_of '':status'' (b_custom b) = []" "values_of ''content-length'' (b_custom b) = []"
    and "bytes_len fs (rr_body r) = Some n" "n < usize_limit"
  shows "hd (get_headers r) = rr_status r
    \<and> values_of '':status'' (get_headers r) = map get_status_to_string (case b_status b of Some st \<Rightarrow> [st] | None \<Rightarrow> [])
    \<and> map parse_usize (values_of ''content-length'' (get_headers r)) =
        (if b_body_type b = Build_None then [] else [Some n])"
proof -
  have "is_ok (fst (build fs b))" using assms(1) by simp
  then obtain st i c s where b: "b_status b = Some st" "b_stream_id b = Some i" "b_conn_id b = Some c" "b_scid b = Some s"
    unfolding build_is_ok by blast
  have r: "r = \<lparr>rr_status = header '':status'' (get_status_to_string st),
       rr_content_length = map_option (\<lambda>n. header ''content-length'' (nat_to_string n)) (length_of_builder fs b),
       rr_content_type = map_option (\<lambda>ct. header ''content-type'' (content_type_to_string ct)) (b_content_type b),
       rr_custom = b_custom b, rr_body = body_of_builder i s c b\<rparr>"
    using build_ok [OF b, of fs] assms(1) by simp
  have len: "length_of_builder fs b = (if b_body_type b = Build_None then None else Some n)"
    using assms(4) by (cases "b_body_type b")
      (auto simp: r body_of_builder_def length_of_builder_def body_new_data_def body_new_file_def)
  show ?thesis
    using b(1) assms(2,3,5) len
    by (auto simp: r get_headers_def values_of_append parse_nat_to_string split: option.split)
qed

theorem built_response_headers_witness:
  "map parse_usize (values_of ''content-length''
     (get_headers \<lparr>rr_status = header '':status'' ''200'', rr_content_length = Some (header ''content-length'' ''3''),
        rr_content_type = None, rr_custom = [], rr_body = body_new_data 4 [1] ''c'' [1, 2, 3]\<rparr>)) = [Some 3]"
proof -
  let ?b = "set_body [1, 2, 3] (base_builder 4 [1] ''c'' (Status_Ok 200))"
  let ?r = "\<lparr>rr_status = header '':status'' ''200'', rr_content_length = Some (header ''content-length'' ''3''),
        rr_content_type = None, rr_custom = [], rr_body = body_new_data 4 [1] ''c'' [1, 2, 3]\<rparr>"
  have "fst (build (\<lambda>_. None) ?b) = Ok ?r"
    by (subst build_ok [of _ "Status_Ok 200" 4 "''c''" "[1]"])
      (simp_all add: length_of_builder_def body_of_builder_def nat_to_string.simps digit_char_def char_of_def bit_Suc_0_iff)
  from built_response_headers [OF this, of 3] show ?thesis
    by (simp add: body_new_data_def usize_limit_def)
qed

text \<open>A response with a JSON body, spelled out.\<close>

lemma new_json_with_status_eq:
  "new_json_with_status st i s c d = Some
     \<lparr>rr_status = header '':status'' (get_status_to_string st),
      rr_content_length = Some (header ''content-length'' (nat_to_string (length d))),
      rr_content_type = None, rr_custom = json_header, rr_body = body_new_data i s c d\<rparr>"
proof -
  let ?b = "(base_builder i s c st)\<lparr>b_custom := json_header\<rparr>"
  have "extends_headers json_header (base_builder i s c st) = Some ?b"
    by (simp add: extends_headers_def json_header_def)
  moreover have "fst (build (\<lambda>_. None) (set_body d ?b)) = Ok
     \<lparr>rr_status = header '':status'' (get_status_to_string st),
      rr_content_length = Some (header ''content-length'' (nat_to_string (length d))),
      rr_content_type = None, rr_custom = json_header, rr_body = body_new_data i s c d\<rparr>"
    by (subst build_ok [of _ st i c s]) (simp_all add: length_of_builder_def body_of_builder_def)
  ultimately show ?thesis by (simp add: new_json_with_status_def built_def unwrap_def)
qed

lemma new_200_with_data_eq:
  "new_200_with_data i s c d = Some
     \<lparr>rr_status = header '':status'' (nat_to_string 200),
      rr_content_length = Some (header ''content-length'' (nat_to_string (length d))),
      rr_content_type = None, rr_custom = [], rr_body = body_new_data i s c d\<rparr>"
  using build_ok [of "set_body d (base_builder i s c (Status_Ok 200))" "Status_Ok 200" i c s "\<lambda>_. None"]
  by (simp add: new_200_with_data_def built_def unwrap_def length_of_builder_def body_of_builder_def)

lemma new_ok_200_eq:
  "new_ok_200 i s c = Some
     \<lparr>rr_status = header '':status'' (nat_to_string 200), rr_content_length = None,
      rr_content_type = None, rr_custom = [], rr_body = No_Body\<rparr>"
  using build_ok [of "base_builder i s c (Status_Ok 200)" "Status_Ok 200" i c s "\<lambda>_. None"]
  by (simp add: new_ok_200_def built_def unwrap_def length_of_builder_def body_of_builder_def)

lemma new_200_with_file_eq:
  "new_200_with_file fs i s c p = Some
     \<lparr>rr_status = header '':status'' (nat_to_string 200),
      rr_content_length = Some (header ''content-length'' (nat_to_string (case fs p of Some n \<Rightarrow> n | None \<Rightarrow> 0))),
      rr_content_type = None, rr_custom = [], rr_body = body_new_file i s c p\<rparr>"
  using build_ok [of "set_path p (base_builder i s c (Status_Ok 200))" "Status_Ok 200" i c s fs]
  by (simp add: new_200_with_file_def built_def unwrap_def length_of_builder_def body_of_builder_def set_path_def)

text \<open>The content type \<open>text\<close> is printed but not recognised.\<close>

theorem content_type_text_not_read_back:
  "content_type_from_bytes (content_type_to_string Text) = None"
  by (simp add: content_type_from_bytes_def)

end
