(* ===== verification/RouteEvents.thy ===== *)
theory RouteEvents
  imports Response
begin

section \<open>Events, handlers and the answer to a finished request\<close>

text \<open>
  Model of \<open>src/route_events.rs\<close> and \<open>src/handler_dispatcher.rs\<close>. A file writer in an event is
  named by its id. Handlers are user code: a handler is a value of type \<open>'h\<close>, and the parameter
  \<open>call\<close> says what calling it does to the event, the application's world \<open>'w\<close> and the running
  response; the code relies on nothing about it.
\<close>

subsection \<open>Events\<close>

datatype EventType = OnFinished_Type | OnData_Type | OnHeader_Type

record HeaderEvent =
  he_stream_id :: stream_id
  he_conn_id :: conn_id
  he_scid :: scid
  he_path :: string
  he_headers :: "h3_header list"
  he_method :: H3Method
  he_args :: "ReqArgs option"

record FinishedEvent =
  fe_stream_id :: stream_id
  fe_conn_id :: conn_id
  fe_scid :: scid
  fe_path :: string
  fe_headers :: "h3_header list"
  fe_method :: H3Method
  fe_args :: "ReqArgs option"
  fe_file_path :: "path_buf option"
  fe_file_writer :: "nat option"
  fe_bytes_written :: usize
  fe_body :: bytes
  fe_is_end :: bool

record DataEvent =
  de_stream_id :: stream_id
  de_conn_id :: conn_id
  de_scid :: scid
  de_packet :: bytes
  de_is_end :: bool

datatype RouteEvent = OnData DataEvent | OnFinished FinishedEvent | OnHeader HeaderEvent

definition finished_event_new ::
  "stream_id \<Rightarrow> conn_id \<Rightarrow> scid \<Rightarrow> string \<Rightarrow> H3Method \<Rightarrow> h3_header list \<Rightarrow> ReqArgs option \<Rightarrow>
   path_buf option \<Rightarrow> nat option \<Rightarrow> usize \<Rightarrow> bytes option \<Rightarrow> bool \<Rightarrow> FinishedEvent" where
  "finished_event_new i c s p m hs args file_path file_writer written body is_end =
     \<lparr>fe_stream_id = i, fe_conn_id = c, fe_scid = s, fe_path = p, fe_headers = hs, fe_method = m,
      fe_args = args, fe_file_path = file_path, fe_file_writer = file_writer, fe_bytes_written = written,
      fe_body = (case body of Some b \<Rightarrow> b | None \<Rightarrow> []), fe_is_end = is_end\<rparr>"

definition header_event_new ::
  "stream_id \<Rightarrow> conn_id \<Rightarrow> scid \<Rightarrow> string \<Rightarrow> H3Method \<Rightarrow> h3_header list \<Rightarrow> ReqArgs option \<Rightarrow> HeaderEvent" where
  "header_event_new i c s p m hs args =
     \<lparr>he_stream_id = i, he_conn_id = c, he_scid = s, he_path = p, he_headers = hs, he_method = m, he_args = args\<rparr>"

definition data_event_new :: "stream_id \<Rightarrow> scid \<Rightarrow> conn_id \<Rightarrow> bytes \<Rightarrow> bool \<Rightarrow> DataEvent" where
  "data_event_new i s c p is_end =
     \<lparr>de_stream_id = i, de_conn_id = c, de_scid = s, de_packet = p, de_is_end = is_end\<rparr>"

definition fe_take_file_writer :: "FinishedEvent \<Rightarrow> nat option \<times> FinishedEvent" where
  "fe_take_file_writer e = (fe_file_writer e, e\<lparr>fe_file_writer := None\<rparr>)"

definition fe_extend_body_data :: "bytes \<Rightarrow> FinishedEvent \<Rightarrow> FinishedEvent" where
  "fe_extend_body_data d e = e\<lparr>fe_body := fe_body e @ d\<rparr>"

definition fe_take_body :: "FinishedEvent \<Rightarrow> bytes \<times> FinishedEvent" where
  "fe_take_body e = (fe_body e, e\<lparr>fe_body := []\<rparr>)"

definition fe_copy :: "FinishedEvent \<Rightarrow> FinishedEvent" where
  "fe_copy e = e"

definition fe_copy_without_body :: "FinishedEvent \<Rightarrow> FinishedEvent" where
  "fe_copy_without_body e = e\<lparr>fe_body := []\<rparr>"

fun ev_headers :: "RouteEvent \<Rightarrow> h3_header list option" where
  "ev_headers (OnData _) = None"
| "ev_headers (OnFinished e) = Some (fe_headers e)"
| "ev_headers (OnHeader e) = Some (he_headers e)"

fun ev_scid :: "RouteEvent \<Rightarrow> scid" where
  "ev_scid (OnData e) = de_scid e"
| "ev_scid (OnFinished e) = fe_scid e"
| "ev_scid (OnHeader e) = he_scid e"

fun ev_file_path :: "RouteEvent \<Rightarrow> path_buf option" where
  "ev_file_path (OnFinished e) = fe_file_path e"
| "ev_file_path _ = None"

fun ev_as_body :: "RouteEvent \<Rightarrow> bytes option" where
  "ev_as_body (OnFinished e) = Some (fe_body e)"
| "ev_as_body _ = None"

fun ev_body_size :: "RouteEvent \<Rightarrow> usize" where
  "ev_body_size (OnData e) = length (de_packet e)"
| "ev_body_size (OnFinished e) = length (fe_body e)"
| "ev_body_size (OnHeader _) = 0"

fun ev_stream_id :: "RouteEvent \<Rightarrow> stream_id" where
  "ev_stream_id (OnData e) = de_stream_id e"
| "ev_stream_id (OnFinished e) = fe_stream_id e"
| "ev_stream_id (OnHeader e) = he_stream_id e"

fun ev_conn_id :: "RouteEvent \<Rightarrow> conn_id" where
  "ev_conn_id (OnData e) = de_conn_id e"
| "ev_conn_id (OnFinished e) = fe_conn_id e"
| "ev_conn_id (OnHeader e) = he_conn_id e"

fun ev_bytes_written :: "RouteEvent \<Rightarrow> usize" where
  "ev_bytes_written (OnData e) = length (de_packet e)"
| "ev_bytes_written (OnFinished e) = fe_bytes_written e"
| "ev_bytes_written (OnHeader _) = 0"

fun ev_is_end :: "RouteEvent \<Rightarrow> bool" where
  "ev_is_end (OnData e) = de_is_end e"
| "ev_is_end (OnFinished e) = fe_is_end e"
| "ev_is_end (OnHeader _) = True"

fun ev_method :: "RouteEvent \<Rightarrow> H3Method" where
  "ev_method (OnData _) = POST"
| "ev_method (OnFinished e) = fe_method e"
| "ev_method (OnHeader e) = he_method e"

fun ev_path :: "RouteEvent \<Rightarrow> string" where
  "ev_path (OnData _) = []"
| "ev_path (OnFinished e) = fe_path e"
| "ev_path (OnHeader e) = he_path e"


subsection \<open>The one-shot response channel\<close>

datatype RouteResponse =
    OK200
  | OK200_DATA bytes
  | OK200_JSON bytes
  | OK200_FILE path_buf
  | ERROR409 bytes
  | ERROR503 bytes
  | ERROR403 bytes
  | ERROR401 bytes
  | ERROR422 bytes
  | ERROR428 bytes

text \<open>
  A sender remembers whom to answer. The channel has capacity one and its waiter receives the
  response that is sent, so a send is modelled by that response; \<open>None\<close> is a panic while building it.
\<close>

record ResponseBuilderSender =
  rs_bytes_written :: usize
  rs_stream_id :: stream_id
  rs_conn_id :: conn_id
  rs_scid :: scid

definition response_channel_new :: "RouteEvent \<Rightarrow> ResponseBuilderSender" where
  "response_channel_new e =
     \<lparr>rs_bytes_written = ev_bytes_written e, rs_stream_id = ev_stream_id e,
      rs_conn_id = ev_conn_id e, rs_scid = ev_scid e\<rparr>"

definition received_header :: "ResponseBuilderSender \<Rightarrow> RequestResponse \<Rightarrow> RequestResponse" where
  "received_header s r = with_header ''x-received-data'' (nat_to_string (rs_bytes_written s)) r"

definition send_ok_200 :: "ResponseBuilderSender \<Rightarrow> RequestResponse option" where
  "send_ok_200 s = map_option (received_header s) (new_ok_200 (rs_stream_id s) (rs_scid s) (rs_conn_id s))"

definition send_ok_200_with_data :: "ResponseBuilderSender \<Rightarrow> bytes \<Rightarrow> RequestResponse option" where
  "send_ok_200_with_data s d =
     map_option (received_header s) (new_200_with_data (rs_stream_id s) (rs_scid s) (rs_conn_id s) d)"

definition send_ok_200_with_json_data :: "ResponseBuilderSender \<Rightarrow> bytes \<Rightarrow> RequestResponse option" where
  "send_ok_200_with_json_data s d =
     map_option (received_header s) (new_200_with_json (rs_stream_id s) (rs_scid s) (rs_conn_id s) d)"

definition send_ok_200_with_file ::
  "(path_buf \<Rightarrow> usize option) \<Rightarrow> ResponseBuilderSender \<Rightarrow> path_buf \<Rightarrow> RequestResponse option" where
  "send_ok_200_with_file fs s p =
     map_option (received_header s) (new_200_with_file fs (rs_stream_id s) (rs_scid s) (rs_conn_id s) p)"

definition send_error_401 :: "ResponseBuilderSender \<Rightarrow> bytes \<Rightarrow> RequestResponse option" where
  "send_error_401 s d = new_401_with_data (rs_stream_id s) (rs_scid s) (rs_conn_id s) d"

definition send_error_409 :: "ResponseBuilderSender \<Rightarrow> bytes \<Rightarrow> RequestResponse option" where
  "send_error_409 s d = new_409_with_data (rs_stream_id s) (rs_scid s) (rs_conn_id s) d"

definition send_error_403 :: "ResponseBuilderSender \<Rightarrow> bytes \<Rightarrow> RequestResponse option" where
  "send_error_403 s d = new_409_with_data (rs_stream_id s) (rs_scid s) (rs_conn_id s) d"

definition send_error_422 :: "ResponseBuilderSender \<Rightarrow> bytes \<Rightarrow> RequestResponse option" where
  "send_error_422 s d = new_422_with_data (rs_stream_id s) (rs_scid s) (rs_conn_id s) d"

definition send_error_428 :: "ResponseBuilderSender \<Rightarrow> bytes \<Rightarrow> RequestResponse option" where
  "send_error_428 s d = new_428_with_data (rs_stream_id s) (rs_scid s) (rs_conn_id s) d"

definition send_error_503 :: "ResponseBuilderSender \<Rightarrow> bytes \<Rightarrow> RequestResponse option" where
  "send_error_503 s d = new_503_with_data (rs_stream_id s) (rs_scid s) (rs_conn_id s) d"

fun build_response ::
  "(path_buf \<Rightarrow> usize option) \<Rightarrow> ResponseBuilderSender \<Rightarrow> RouteResponse \<Rightarrow> RequestResponse option" where
  "build_response fs s OK200 = send_ok_200 s"
| "build_response fs s (OK200_DATA d) = send_ok_200_with_data s d"
| "build_response fs s (OK200_FILE p) = send_ok_200_with_file fs s p"
| "build_response fs s (OK200_JSON d) = send_ok_200_with_json_data s d"
| "build_response fs s (ERROR409 d) = send_error_409 s d"
| "build_response fs s (ERROR403 d) = send_error_409 s d"
| "build_response fs s (ERROR503 d) = send_error_503 s d"
| "build_response fs s (ERROR401 d) = send_error_401 s d"
| "build_response fs s (ERROR422 d) = send_error_422 s d"
| "build_response fs s (ERROR428 d) = send_error_428 s d"

text \<open>The status and body the name of a response promises.\<close>

fun status_of :: "RouteResponse \<Rightarrow> nat" where
  "status_of OK200 = 200"
| "status_of (OK200_DATA _) = 200"
| "status_of (OK200_JSON _) = 200"
| "status_of (OK200_FILE _) = 200"
| "status_of (ERROR409 _) = 409"
| "status_of (ERROR503 _) = 503"
| "status_of (ERROR403 _) = 403"
| "status_of (ERROR401 _) = 401"
| "status_of (ERROR422 _) = 422"
| "status_of (ERROR428 _) = 428"

fun body_of :: "RouteResponse \<Rightarrow> stream_id \<Rightarrow> scid \<Rightarrow> conn_id \<Rightarrow> BodyType" where
  "body_of OK200 i s c = No_Body"
| "body_of (OK200_DATA d) i s c = body_new_data i s c d"
| "body_of (OK200_JSON d) i s c = body_new_data i s c d"
| "body_of (OK200_FILE p) i s c = body_new_file i s c p"
| "body_of (ERROR409 d) i s c = body_new_data i s c d"
| "body_of (ERROR503 d) i s c = body_new_data i s c d"
| "body_of (ERROR403 d) i s c = body_new_data i s c d"
| "body_of (ERROR401 d) i s c = body_new_data i s c d"
| "body_of (ERROR422 d) i s c = body_new_data i s c d"
| "body_of (ERROR428 d) i s c = body_new_data i s c d"

definition sent_status :: "RouteResponse \<Rightarrow> nat" where
  "sent_status rr = (case rr of ERROR403 _ \<Rightarrow> 409 | _ \<Rightarrow> status_of rr)"

lemmas sender_defs = send_ok_200_def send_ok_200_with_data_def send_ok_200_with_json_data_def
  send_ok_200_with_file_def send_error_401_def send_error_409_def send_error_403_def send_error_422_def
  send_error_428_def send_error_503_def received_header_def with_header_def
  new_200_with_json_def new_401_with_data_def new_409_with_data_def new_422_with_data_def
  new_428_with_data_def new_503_with_data_def

lemmas response_eqs = new_ok_200_eq new_200_with_data_eq new_200_with_file_eq new_json_with_status_eq

text \<open>
  Answering a handler's response never panics: it yields a response whose status line is the
  promised code and whose body is the handler's, addressed to the stream and connection of the
  event. The one exception is a 403, which goes out as a 409.
\<close>

theorem build_response_total:
  "\<exists>r. build_response fs (response_channel_new e) rr = Some r
     \<and> rr_status r = header '':status'' (nat_to_string (sent_status rr))
     \<and> rr_body r = body_of rr (ev_stream_id e) (ev_scid e) (ev_conn_id e)"
  by (cases rr) (simp_all add: sender_defs response_eqs response_channel_new_def sent_status_def)

text \<open>
  Every answer to a successful request reports in \<open>x-received-data\<close> the number of bytes that
  were received for it, and an error answer has no such header.
\<close>

theorem build_response_received_data:
  "\<exists>r. build_response fs (response_channel_new e) rr = Some r
     \<and> values_of ''x-received-data'' (get_headers r) =
         (if status_of rr = 200 then [nat_to_string (ev_bytes_written e)] else [])"
  by (cases rr) (auto simp: sender_defs response_eqs response_channel_new_def get_headers_def
      values_of_append json_header_def)

text \<open>A forbidden resource is answered as a conflict.\<close>

theorem forbidden_sent_as_conflict:
  "\<exists>r. build_response fs s (ERROR403 d) = Some r \<and> rr_status r = header '':status'' (nat_to_string 409)"
  by (simp add: sender_defs response_eqs)

end
