(* ===== verification/PathVerifier.thy ===== *)
theory PathVerifier
  imports Prelude
begin

section \<open>Which open streams carry a request for a known path\<close>

text \<open>
  Model of \<open>src/route_manager/inflight_streams_path_verifier.rs\<close>. A request whose headers name
  a registered path is recorded when they arrive; the record is consumed when the request is
  finished, and dropped with its connection. The mutex makes every operation atomic.
\<close>

record ConnStreamK =
  k_stream_id :: stream_id
  k_conn_id :: scid

record InFlightStreamsPathVerifier =
  accepted_route_pathes :: "string list"
  accepted_route_stream_pathes :: "string list option"
  stream_map :: "ConnStreamK set"

definition conn_stream_k :: "stream_id \<Rightarrow> scid \<Rightarrow> ConnStreamK" where
  "conn_stream_k i c = \<lparr>k_stream_id = i, k_conn_id = c\<rparr>"

definition verifier_new :: "string list \<Rightarrow> string list option \<Rightarrow> InFlightStreamsPathVerifier" where
  "verifier_new route_format stream_pathes_set =
     \<lparr>accepted_route_pathes = route_format, accepted_route_stream_pathes = stream_pathes_set,
      stream_map = {}\<rparr>"

definition is_accepted_path :: "InFlightStreamsPathVerifier \<Rightarrow> string \<Rightarrow> bool" where
  "is_accepted_path v path =
     (case accepted_route_stream_pathes v of
        Some stream_path_set \<Rightarrow>
          \<not> (\<not> List.member stream_path_set path \<and> \<not> List.member (accepted_route_pathes v) path)
      | None \<Rightarrow> List.member (accepted_route_pathes v) path)"

definition insert_stream_path_for_conn ::
  "scid \<Rightarrow> stream_id \<Rightarrow> string \<Rightarrow> InFlightStreamsPathVerifier \<Rightarrow> bool \<times> InFlightStreamsPathVerifier" where
  "insert_stream_path_for_conn c i path v =
     (if \<not> is_accepted_path v path then (False, v)
      else (True, v\<lparr>stream_map := insert (conn_stream_k i c) (stream_map v)\<rparr>))"

definition verifier_remove_connection :: "scid \<Rightarrow> InFlightStreamsPathVerifier \<Rightarrow> InFlightStreamsPathVerifier" where
  "verifier_remove_connection c v =
     v\<lparr>stream_map := Set.filter (\<lambda>key. k_conn_id key \<noteq> c) (stream_map v)\<rparr>"

definition is_finished_request_a_valid_path ::
  "scid \<Rightarrow> stream_id \<Rightarrow> InFlightStreamsPathVerifier \<Rightarrow> bool \<times> InFlightStreamsPathVerifier" where
  "is_finished_request_a_valid_path c i v =
     (conn_stream_k i c \<in> stream_map v,
      v\<lparr>stream_map := stream_map v - {conn_stream_k i c}\<rparr>)"

lemma conn_stream_k_inject [simp]:
  "conn_stream_k i c = conn_stream_k i' c' \<longleftrightarrow> i = i' \<and> c = c'"
  by (auto simp: conn_stream_k_def)

lemma conn_stream_k_sel [simp]: "k_conn_id (conn_stream_k i c) = c" "k_stream_id (conn_stream_k i c) = i"
  by (simp_all add: conn_stream_k_def)

definition in_flight :: "InFlightStreamsPathVerifier \<Rightarrow> scid \<Rightarrow> stream_id \<Rightarrow> bool" where
  "in_flight v c i \<longleftrightarrow> conn_stream_k i c \<in> stream_map v"

interpretation path_verifier: request_scoped in_flight
  "\<lambda>c i v. snd (is_finished_request_a_valid_path c i v)" verifier_remove_connection
  by unfold_locales
    (auto simp: in_flight_def is_finished_request_a_valid_path_def verifier_remove_connection_def)


subsection \<open>Histories\<close>

datatype verifier_op =
    Insert_Path scid stream_id string
  | Remove_Connection scid
  | Check_Finished scid stream_id

fun verifier_step :: "verifier_op \<Rightarrow> InFlightStreamsPathVerifier \<Rightarrow> bool \<times> InFlightStreamsPathVerifier" where
  "verifier_step (Insert_Path c i p) v = insert_stream_path_for_conn c i p v"
| "verifier_step (Remove_Connection c) v = (True, verifier_remove_connection c v)"
| "verifier_step (Check_Finished c i) v = is_finished_request_a_valid_path c i v"

text \<open>
  What a request's verdict should be, read off the history alone (latest operation last): the
  last operation that concerns the request decides.
\<close>

fun verdict :: "(string \<Rightarrow> bool) \<Rightarrow> scid \<Rightarrow> stream_id \<Rightarrow> verifier_op list \<Rightarrow> bool \<Rightarrow> bool" where
  "verdict known c i [] b = b"
| "verdict known c i (Insert_Path c' i' p # ops) b =
     verdict known c i ops (if c' = c \<and> i' = i \<and> known p then True else b)"
| "verdict known c i (Remove_Connection c' # ops) b = verdict known c i ops (if c' = c then False else b)"
| "verdict known c i (Check_Finished c' i' # ops) b =
     verdict known c i ops (if c' = c \<and> i' = i then False else b)"

lemma is_accepted_path_kept [simp]:
  "is_accepted_path (snd (verifier_step x v)) = is_accepted_path v"
  by (cases x) (simp_all add: fun_eq_iff is_accepted_path_def insert_stream_path_for_conn_def
      verifier_remove_connection_def is_finished_request_a_valid_path_def split: option.split)

lemma in_flight_insert:
  "in_flight (snd (insert_stream_path_for_conn c i p v)) c' i' \<longleftrightarrow>
     in_flight v c' i' \<or> (c' = c \<and> i' = i \<and> is_accepted_path v p)"
  by (auto simp: insert_stream_path_for_conn_def in_flight_def)

lemma in_flight_run:
  "in_flight (snd (run_ops verifier_step ops v)) c i
     = verdict (is_accepted_path v) c i ops (in_flight v c i)"
proof (induction ops arbitrary: v)
  case (Cons x ops)
  have "in_flight (snd (run_ops verifier_step (x # ops) v)) c i
      = verdict (is_accepted_path v) c i ops (in_flight (snd (verifier_step x v)) c i)"
    using Cons.IH [of "snd (verifier_step x v)"] by (simp add: split_beta)
  also have "\<dots> = verdict (is_accepted_path v) c i (x # ops) (in_flight v c i)"
    by (cases x) (simp_all add: in_flight_insert path_verifier.live_drop_connection
        path_verifier.live_drop_request, auto intro: arg_cong)
  finally show ?case .
qed simp

text \<open>
  A finished request is let through exactly when its latest relevant event was the arrival
  of headers with a registered path: it is let through at most once per arrival, never after its
  connection was removed, and never because of another stream or connection.
\<close>

theorem finished_request_verdict:
  "fst (is_finished_request_a_valid_path c i (snd (run_ops verifier_step ops (verifier_new paths stream_paths))))
     = verdict (is_accepted_path (verifier_new paths stream_paths)) c i ops False"
  using in_flight_run [of ops "verifier_new paths stream_paths" c i]
  by (simp add: is_finished_request_a_valid_path_def in_flight_def verifier_new_def)

text \<open>
  The accepted paths are the registered route paths and the registered stream paths, and
  nothing else; a path with a query string is compared as a whole.
\<close>

theorem accepted_paths_exact:
  "fst (insert_stream_path_for_conn c i path
          (snd (run_ops verifier_step ops (verifier_new paths stream_paths))))
     \<longleftrightarrow> path \<in> set paths \<or> (\<exists>ps. stream_paths = Some ps \<and> path \<in> set ps)"
proof -
  have "is_accepted_path (snd (run_ops verifier_step ops v)) = is_accepted_path v" for v
  proof (induction ops arbitrary: v)
    case (Cons x ops)
    show ?case using Cons.IH [of "snd (verifier_step x v)"] by (simp add: split_beta)
  qed simp
  then show ?thesis
    by (auto simp: insert_stream_path_for_conn_def is_accepted_path_def verifier_new_def
        split: option.split)
qed

end
