(* ===== verification/Routes.thy ===== *)
theory Routes
  imports RouteEvents PathVerifier
begin

section \<open>Registering routes and dispatching finished requests\<close>

text \<open>
  Model of \<open>route_mngr\<close> and \<open>route_config\<close> in \<open>src/route_manager.rs\<close> and of the dispatcher in
  \<open>src/handler_dispatcher.rs\<close>. Handlers \<open>'h\<close>, middlewares \<open>'m\<close> and event listeners \<open>'l\<close> are user
  values. The closure that configures a route is a function on the route builder. A failed
  \<open>assert!\<close> or \<open>unwrap\<close> is \<open>None\<close>.
\<close>

subsection \<open>Route configuration\<close>

datatype BodyStorage = InMemory | File
datatype DataManagement = Stream | Storage BodyStorage

record RouteConfig =
  data_management :: DataManagement

definition body_storage_default :: BodyStorage where "body_storage_default = InMemory"
definition data_management_default :: DataManagement where
  "data_management_default = Storage body_storage_default"
definition route_config_default :: RouteConfig where
  "route_config_default = \<lparr>data_management = data_management_default\<rparr>"

fun is_body_storage :: "DataManagement \<Rightarrow> BodyStorage option" where
  "is_body_storage (Storage s) = Some s"
| "is_body_storage Stream = None"


subsection \<open>Routes and their builder\<close>

record ('h, 'm, 'l) RouteForm =
  rf_method :: H3Method
  rf_event_subscriber :: "'l option"
  rf_handlers :: "'h list"
  rf_middlewares :: "'m list"
  rf_path :: string
  rf_config :: "RouteConfig option"
  rf_scheme :: string
  rf_authority :: "string option"

record ('h, 'm, 'l) RouteFormBuilder =
  fb_method :: "H3Method option"
  fb_event_subscriber :: "'l option"
  fb_handlers :: "'h list"
  fb_middlewares :: "'m list"
  fb_config :: "RouteConfig option"
  fb_path :: "string option"
  fb_scheme :: "string option"
  fb_authority :: "string option"

definition form_builder_new :: "('h, 'm, 'l) RouteFormBuilder" where
  "form_builder_new = \<lparr>fb_method = None, fb_event_subscriber = None, fb_handlers = [], fb_middlewares = [],
     fb_config = None, fb_path = None, fb_scheme = None, fb_authority = None\<rparr>"

definition fb_handler :: "'h \<Rightarrow> ('h, 'm, 'l) RouteFormBuilder \<Rightarrow> ('h, 'm, 'l) RouteFormBuilder" where
  "fb_handler h b = b\<lparr>fb_handlers := fb_handlers b @ [h]\<rparr>"

definition fb_subscribe_event :: "'l \<Rightarrow> ('h, 'm, 'l) RouteFormBuilder \<Rightarrow> ('h, 'm, 'l) RouteFormBuilder" where
  "fb_subscribe_event l b = b\<lparr>fb_event_subscriber := Some l\<rparr>"

definition fb_middleware :: "'m \<Rightarrow> ('h, 'm, 'l) RouteFormBuilder \<Rightarrow> ('h, 'm, 'l) RouteFormBuilder" where
  "fb_middleware m b = b\<lparr>fb_middlewares := fb_middlewares b @ [m]\<rparr>"

definition add_global_middlewares :: "'m list \<Rightarrow> ('h, 'm, 'l) RouteFormBuilder \<Rightarrow> ('h, 'm, 'l) RouteFormBuilder" where
  "add_global_middlewares mdws b = b\<lparr>fb_middlewares := mdws @ fb_middlewares b\<rparr>"

definition route_form_new :: "string \<Rightarrow> H3Method \<Rightarrow> RouteConfig \<Rightarrow> ('h, 'm, 'l) RouteFormBuilder" where
  "route_form_new path method config =
     form_builder_new\<lparr>fb_path := Some path, fb_method := Some method, fb_config := Some config,
       fb_scheme := Some ''https''\<rparr>"

definition form_build :: "('h, 'm, 'l) RouteFormBuilder \<Rightarrow> ('h, 'm, 'l) RouteForm option" where
  "form_build b =
     (case (fb_method b, fb_path b, fb_scheme b) of
        (Some m, Some p, Some sch) \<Rightarrow>
          Some \<lparr>rf_method = m, rf_event_subscriber = fb_event_subscriber b, rf_handlers = fb_handlers b,
                rf_middlewares = fb_middlewares b, rf_path = p, rf_config = fb_config b, rf_scheme = sch,
                rf_authority = fb_authority b\<rparr>
      | _ \<Rightarrow> None)"

text \<open>The comparison of routes, which compares path and scheme of the left operand with themselves.\<close>

definition route_eq :: "('h, 'm, 'l) RouteForm \<Rightarrow> ('h, 'm, 'l) RouteForm \<Rightarrow> bool" where
  "route_eq a b \<longleftrightarrow> rf_method a = rf_method b \<and> rf_path a = rf_path a \<and> rf_scheme a = rf_scheme a
     \<and> rf_authority a = rf_authority b"

definition data_management_type :: "('h, 'm, 'l) RouteForm \<Rightarrow> DataManagement option" where
  "data_management_type r = map_option data_management (rf_config r)"


subsection \<open>The manager's builder\<close>

datatype ErrorType = Error404

record ErrorForm =
  ef_error_type :: ErrorType
  ef_scheme :: string
  ef_headers :: "h3_header list"
  ef_body :: "BodyType option"

fun error_type_header :: "ErrorType \<Rightarrow> h3_header" where
  "error_type_header Error404 = header '':status'' ''404''"

text \<open>The error form, as the user's configuration (more headers) leaves it.\<close>

definition error_form :: "ErrorType \<Rightarrow> h3_header list \<Rightarrow> ErrorForm" where
  "error_form t extra = \<lparr>ef_error_type = t, ef_scheme = ''https'',
     ef_headers = error_type_header t # extra, ef_body = None\<rparr>"

record ('h, 'm, 'l) RouteManagerBuilder =
  rb_routes :: "(string, ('h, 'm, 'l) RouteForm list) dashmap"
  rb_stream_paths :: "string list option"
  rb_errors :: "(ErrorType, ErrorForm) dashmap"
  rb_global_middlewares :: "'m list"

definition manager_builder_new :: "('h, 'm, 'l) RouteManagerBuilder" where
  "manager_builder_new = \<lparr>rb_routes = [], rb_stream_paths = Some [], rb_errors = [], rb_global_middlewares = []\<rparr>"

definition add_new_route ::
  "('h, 'm, 'l) RouteForm \<Rightarrow> ('h, 'm, 'l) RouteManagerBuilder \<Rightarrow> ('h, 'm, 'l) RouteManagerBuilder option" where
  "add_new_route r b =
     (case dm_get (rb_routes b) (rf_path r) of
        None \<Rightarrow> Some (b\<lparr>rb_routes := dm_insert (rf_path r) [r] (rb_routes b)\<rparr>)
      | Some coll \<Rightarrow>
          if list_ex (\<lambda>x. route_eq x r) coll then None
          else Some (b\<lparr>rb_routes := dm_insert (rf_path r) (coll @ [r]) (rb_routes b)\<rparr>))"

definition add_route ::
  "string \<Rightarrow> H3Method \<Rightarrow> RouteConfig \<Rightarrow> (('h, 'm, 'l) RouteFormBuilder \<Rightarrow> ('h, 'm, 'l) RouteFormBuilder)
    \<Rightarrow> ('h, 'm, 'l) RouteManagerBuilder \<Rightarrow> ('h, 'm, 'l) RouteManagerBuilder option" where
  "add_route path method config route b =
     (let form = add_global_middlewares (rb_global_middlewares b) (route (route_form_new path method config))
      in case form_build form of None \<Rightarrow> None | Some r \<Rightarrow> add_new_route r b)"

definition route_get where "route_get p = add_route p GET"
definition route_post where "route_post p = add_route p POST"
definition route_delete where "route_delete p = add_route p DELETE"

definition global_middleware :: "'m \<Rightarrow> ('h, 'm, 'l) RouteManagerBuilder \<Rightarrow> ('h, 'm, 'l) RouteManagerBuilder" where
  "global_middleware m b = b\<lparr>rb_global_middlewares := rb_global_middlewares b @ [m]\<rparr>"

definition set_error_handler ::
  "ErrorType \<Rightarrow> h3_header list \<Rightarrow> ('h, 'm, 'l) RouteManagerBuilder \<Rightarrow> ('h, 'm, 'l) RouteManagerBuilder" where
  "set_error_handler t extra b = b\<lparr>rb_errors := dm_insert t (error_form t extra) (rb_errors b)\<rparr>"


subsection \<open>The dispatcher of finished requests\<close>

type_synonym 'h dispatcher = "(string \<times> H3Method, 'h list) dashmap"

definition set_route_handles :: "string \<Rightarrow> ('h, 'm, 'l) RouteForm \<Rightarrow> 'h dispatcher \<Rightarrow> 'h dispatcher" where
  "set_route_handles path r d =
     (case dm_get d (path, rf_method r) of
        Some coll \<Rightarrow> dm_insert (path, rf_method r) (coll @ rf_handlers r) d
      | None \<Rightarrow> dm_insert (path, rf_method r) (rf_handlers r) d)"

definition set_handles :: "(string, ('h, 'm, 'l) RouteForm list) dashmap \<Rightarrow> 'h dispatcher \<Rightarrow> 'h dispatcher" where
  "set_handles routes d =
     foldl (\<lambda>d (path, coll). foldl (\<lambda>d r. set_route_handles path r d) d coll) d routes"

record Response =
  finished_event :: "FinishedEvent option"
  response :: RouteResponse

definition respond :: "RouteResponse \<Rightarrow> FinishedEvent \<Rightarrow> Response" where
  "respond r e = \<lparr>finished_event = Some e, response = r\<rparr>"

fun run_handles ::
  "('h \<Rightarrow> FinishedEvent \<Rightarrow> 'w \<Rightarrow> RouteResponse \<Rightarrow> Response \<times> 'w) \<Rightarrow> 'h list \<Rightarrow> FinishedEvent \<Rightarrow> 'w \<Rightarrow>
     RouteResponse \<Rightarrow> (RouteResponse \<times> 'w) option" where
  "run_handles call [] event w status_response = Some (status_response, w)"
| "run_handles call (h # hs) event w status_response =
     (let (resp, w') = call h event w status_response in
      case finished_event resp of
        None \<Rightarrow> None
      | Some event' \<Rightarrow> run_handles call hs event' w' (response resp))"

definition dispatch_finished ::
  "('h \<Rightarrow> FinishedEvent \<Rightarrow> 'w \<Rightarrow> RouteResponse \<Rightarrow> Response \<times> 'w) \<Rightarrow> 'h dispatcher \<Rightarrow> FinishedEvent \<Rightarrow> 'w \<Rightarrow>
     (RouteResponse \<times> 'w) option" where
  "dispatch_finished call d event w =
     (case dm_get d (fe_path event, fe_method event) of
        Some entry \<Rightarrow> run_handles call entry event w OK200
      | None \<Rightarrow> Some (OK200, w))"


subsection \<open>The built manager\<close>

record ('h, 'm, 'l) RouteManager =
  rm_routes :: "(string, ('h, 'm, 'l) RouteForm list) dashmap"
  rm_verifier :: InFlightStreamsPathVerifier
  rm_errors :: "(ErrorType, ErrorForm) dashmap"
  rm_dispatcher :: "'h dispatcher"

definition manager_build :: "('h, 'm, 'l) RouteManagerBuilder \<Rightarrow> ('h, 'm, 'l) RouteManager" where
  "manager_build b =
     \<lparr>rm_routes = rb_routes b,
      rm_verifier = verifier_new (map fst (rb_routes b)) (rb_stream_paths b),
      rm_errors = rb_errors b,
      rm_dispatcher = set_handles (rb_routes b) []\<rparr>"

definition get_error_response ::
  "ErrorType \<Rightarrow> ('h, 'm, 'l) RouteManager \<Rightarrow> (h3_header list \<times> BodyType option) option" where
  "get_error_response e m = map_option (\<lambda>f. (ef_headers f, ef_body f)) (dm_get (rm_errors m) e)"

definition get_routes_from_path ::
  "string \<Rightarrow> ('h, 'm, 'l) RouteManager \<Rightarrow> ('h, 'm, 'l) RouteForm list option" where
  "get_routes_from_path p m = dm_get (rm_routes m) p"

definition get_routes_from_path_and_method_b ::
  "string \<Rightarrow> H3Method \<Rightarrow> ('h, 'm, 'l) RouteManager \<Rightarrow> ('h, 'm, 'l) RouteForm option" where
  "get_routes_from_path_and_method_b p method m =
     (case get_routes_from_path p m of
        Some coll \<Rightarrow> find (\<lambda>item. rf_method item = method) coll
      | None \<Rightarrow> None)"

definition get_routes_from_path_and_method ::
  "string \<Rightarrow> H3Method \<Rightarrow> ('h, 'm, 'l) RouteManager \<Rightarrow> (('h, 'm, 'l) RouteForm \<times> ReqArgs option) option" where
  "get_routes_from_path_and_method path method m =
     (let (p, req_args) = parse_args path in
      case get_routes_from_path p m of
        Some coll \<Rightarrow> map_option (\<lambda>r. (r, req_args)) (find (\<lambda>item. rf_method item = method) coll)
      | None \<Rightarrow> None)"


subsection \<open>Registrations keep one route per path and method\<close>

datatype ('h, 'm, 'l) registration =
    Route string H3Method RouteConfig "('h, 'm, 'l) RouteFormBuilder \<Rightarrow> ('h, 'm, 'l) RouteFormBuilder"
  | Global 'm

fun register :: "('h, 'm, 'l) registration \<Rightarrow> ('h, 'm, 'l) RouteManagerBuilder \<Rightarrow> ('h, 'm, 'l) RouteManagerBuilder option" where
  "register (Route p m c f) b = add_route p m c f b"
| "register (Global m) b = Some (global_middleware m b)"

fun register_all where
  "register_all [] b = Some b"
| "register_all (x # xs) b = Option.bind (register x b) (register_all xs)"

text \<open>
  The user's closure goes through \<open>handler\<close>, \<open>middleware\<close>, \<open>subscribe_event\<close> and
  \<open>set_route_config\<close>: it cannot set method, path, scheme or authority, which are private.
\<close>

definition keeps_identity :: "(('h, 'm, 'l) RouteFormBuilder \<Rightarrow> ('h, 'm, 'l) RouteFormBuilder) \<Rightarrow> bool" where
  "keeps_identity f \<longleftrightarrow> (\<forall>b. fb_method (f b) = fb_method b \<and> fb_path (f b) = fb_path b
     \<and> fb_scheme (f b) = fb_scheme b \<and> fb_authority (f b) = fb_authority b)"

fun registration_ok where
  "registration_ok (Route p m c f) = keeps_identity f"
| "registration_ok (Global m) = True"

definition routes_ok :: "(string, ('h, 'm, 'l) RouteForm list) dashmap \<Rightarrow> bool" where
  "routes_ok routes \<longleftrightarrow> dm_wf routes
     \<and> (\<forall>p coll. dm_get routes p = Some coll \<longrightarrow>
          distinct (map rf_method coll) \<and> (\<forall>r \<in> set coll. rf_path r = p \<and> rf_authority r = None))"

text \<open>The route a registration asks for, given the global middlewares registered before it.\<close>

definition asked_route ::
  "'m list \<Rightarrow> string \<Rightarrow> H3Method \<Rightarrow> RouteConfig \<Rightarrow> (('h, 'm, 'l) RouteFormBuilder \<Rightarrow> ('h, 'm, 'l) RouteFormBuilder)
    \<Rightarrow> ('h, 'm, 'l) RouteForm" where
  "asked_route globals p m c f =
     (let b = f (route_form_new p m c) in
      \<lparr>rf_method = m, rf_event_subscriber = fb_event_subscriber b, rf_handlers = fb_handlers b,
       rf_middlewares = globals @ fb_middlewares b, rf_path = p, rf_config = fb_config b,
       rf_scheme = ''https'', rf_authority = None\<rparr>)"

lemma add_route_eq:
  "keeps_identity f \<Longrightarrow> add_route p m c f b = add_new_route (asked_route (rb_global_middlewares b) p m c f) b"
  by (simp add: add_route_def form_build_def add_global_middlewares_def keeps_identity_def
      route_form_new_def form_builder_new_def asked_route_def Let_def)

lemma asked_route_sel [simp]:
  "rf_method (asked_route g p m c f) = m" "rf_path (asked_route g p m c f) = p"
  "rf_authority (asked_route g p m c f) = None"
  by (simp_all add: asked_route_def Let_def)

definition routes_at :: "(string, ('h, 'm, 'l) RouteForm list) dashmap \<Rightarrow> string \<Rightarrow> ('h, 'm, 'l) RouteForm list" where
  "routes_at routes p = (case dm_get routes p of Some coll \<Rightarrow> coll | None \<Rightarrow> [])"

lemma add_new_route_Some:
  assumes "add_new_route r b = Some b'"
  shows "rb_routes b' = dm_insert (rf_path r) (routes_at (rb_routes b) (rf_path r) @ [r]) (rb_routes b)"
    and "rb_global_middlewares b' = rb_global_middlewares b"
    and "\<not> list_ex (\<lambda>x. route_eq x r) (routes_at (rb_routes b) (rf_path r))"
  using assms by (auto simp: add_new_route_def routes_at_def split: option.splits if_splits)

lemma routes_ok_add:
  assumes "routes_ok (rb_routes b)" "rf_authority r = None" "add_new_route r b = Some b'"
  shows "routes_ok (rb_routes b')"
proof -
  let ?coll = "routes_at (rb_routes b) (rf_path r)"
  have old: "distinct (map rf_method ?coll)" "\<forall>x \<in> set ?coll. rf_path x = rf_path r \<and> rf_authority x = None"
    using assms(1) by (cases "dm_get (rb_routes b) (rf_path r)"; simp add: routes_ok_def routes_at_def)+
  have "rf_method r \<notin> rf_method ` set ?coll"
    using add_new_route_Some(3) [OF assms(3)] old(2) assms(2)
    by (auto simp: route_eq_def list_ex_iff)
  then show ?thesis
    using assms(1,2) old unfolding routes_ok_def add_new_route_Some(1) [OF assms(3)] by auto
qed

text \<open>The routes a sequence of registrations asks for on one path.\<close>

fun asked :: "'m list \<Rightarrow> ('h, 'm, 'l) registration list \<Rightarrow> string \<Rightarrow> ('h, 'm, 'l) RouteForm list" where
  "asked g [] p = []"
| "asked g (Route p' m c f # xs) p = (if p' = p then [asked_route g p' m c f] else []) @ asked g xs p"
| "asked g (Global m # xs) p = asked (g @ [m]) xs p"

lemma routes_at_insert [simp]:
  "routes_at (dm_insert q coll routes) p = (if p = q then coll else routes_at routes p)"
  by (simp add: routes_at_def)

lemma register_all_routes:
  "register_all regs b = Some b' \<Longrightarrow> list_all registration_ok regs \<Longrightarrow> routes_ok (rb_routes b) \<Longrightarrow>
     routes_ok (rb_routes b')
     \<and> routes_at (rb_routes b') p = routes_at (rb_routes b) p @ asked (rb_global_middlewares b) regs p"
proof (induction regs arbitrary: b)
  case (Cons x xs)
  obtain b1 where b1: "register x b = Some b1" "register_all xs b1 = Some b'"
    using Cons.prems(1) by (auto simp: bind_eq_Some_conv)
  show ?case
  proof (cases x)
    case (Route q m c f)
    then have add: "add_new_route (asked_route (rb_global_middlewares b) q m c f) b = Some b1"
      using b1(1) Cons.prems(2) by (simp add: add_route_eq)
    have "routes_ok (rb_routes b1)" by (rule routes_ok_add [OF Cons.prems(3) _ add]) simp
    then show ?thesis
      using Cons.IH [OF b1(2)] Cons.prems(2) add_new_route_Some [OF add] by (simp add: Route)
  next
    case (Global m)
    then have "rb_routes b1 = rb_routes b" "rb_global_middlewares b1 = rb_global_middlewares b @ [m]"
      using b1(1) by (auto simp: global_middleware_def)
    then show ?thesis
      using Cons.IH [OF b1(2)] Cons.prems by (simp add: Global)
  qed
qed simp

lemma routes_ok_new: "routes_ok (rb_routes manager_builder_new)"
  by (simp add: routes_ok_def manager_builder_new_def)

lemma find_distinct:
  "distinct (map f xs) \<Longrightarrow> find (\<lambda>x. f x = k) xs = Some r \<longleftrightarrow> r \<in> set xs \<and> f r = k"
  by (induction xs) auto

lemma lookup_eq:
  "get_routes_from_path_and_method_b p m (manager_build b)
     = find (\<lambda>item. rf_method item = m) (routes_at (rb_routes b) p)"
  by (simp add: get_routes_from_path_and_method_b_def get_routes_from_path_def manager_build_def
      routes_at_def split: option.split)

text \<open>Setting the handlers of the routes of one path, then of all paths.\<close>

lemma set_path_handles:
  "distinct (map rf_method coll) \<Longrightarrow> (\<And>r. r \<in> set coll \<Longrightarrow> dm_get d (path, rf_method r) = None) \<Longrightarrow>
     dm_get (foldl (\<lambda>d r. set_route_handles path r d) d coll) (p, m) =
       (case find (\<lambda>r. rf_method r = m) coll of
          Some r \<Rightarrow> if p = path then Some (rf_handlers r) else dm_get d (p, m)
        | None \<Rightarrow> dm_get d (p, m))"
proof (induction coll arbitrary: d)
  case (Cons x coll)
  have x: "dm_get d (path, rf_method x) = None" using Cons.prems(2) by simp
  have "dm_get (set_route_handles path x d) (path, rf_method r) = None" if "r \<in> set coll" for r
  proof -
    have "rf_method r \<noteq> rf_method x" using Cons.prems(1) that by (auto simp: image_iff)
    then show ?thesis using Cons.prems(2) that by (simp add: set_route_handles_def x)
  qed
  note IH = Cons.IH [OF _ this]
  have "find (\<lambda>r. rf_method r = rf_method x) coll = None"
    using Cons.prems(1) by (auto simp: find_None_iff image_iff)
  with IH Cons.prems(1) show ?case
    by (auto simp: set_route_handles_def x image_iff split: option.split)
qed simp

lemma set_handles_get:
  "distinct (map fst routes) \<Longrightarrow> (\<And>p coll. (p, coll) \<in> set routes \<Longrightarrow> distinct (map rf_method coll)) \<Longrightarrow>
   (\<And>p m. p \<in> fst ` set routes \<Longrightarrow> dm_get d (p, m) = None) \<Longrightarrow>
     dm_get (set_handles routes d) (p, m) =
       (case map_option rf_handlers (find (\<lambda>r. rf_method r = m) (routes_at routes p)) of
          Some hs \<Rightarrow> Some hs | None \<Rightarrow> dm_get d (p, m))"
proof (induction routes arbitrary: d)
  case Nil
  then show ?case by (simp add: set_handles_def routes_at_def)
next
  case (Cons x routes)
  obtain q coll where x: "x = (q, coll)" by fastforce
  let ?d = "foldl (\<lambda>d r. set_route_handles q r d) d coll"
  have dist: "distinct (map rf_method coll)" using Cons.prems(2) [of q coll] by (simp add: x)
  have none: "dm_get d (q, m') = None" for m' using Cons.prems(3) [of q m'] by (simp add: x)
  note path = set_path_handles [OF dist none]
  have rest: "dm_get ?d (p', m') = None" if "p' \<in> fst ` set routes" for p' m'
  proof -
    have "p' \<noteq> q" using Cons.prems(1) that by (force simp: x)
    then show ?thesis using Cons.prems(3) [of p' m'] that by (simp add: path split: option.split)
  qed
  have "distinct (map fst routes)" "\<And>p coll. (p, coll) \<in> set routes \<Longrightarrow> distinct (map rf_method coll)"
    using Cons.prems(1,2) by auto
  note Cons.IH [OF this rest]
  then have IH: "dm_get (set_handles routes ?d) (p, m) =
       (case map_option rf_handlers (find (\<lambda>r. rf_method r = m) (routes_at routes p)) of
          Some hs \<Rightarrow> Some hs | None \<Rightarrow> dm_get ?d (p, m))" .
  have "routes_at routes q = []"
    using Cons.prems(1) by (auto simp: x routes_at_def dm_get_def split: option.split dest: map_of_SomeD)
      (metis fst_conv image_eqI map_of_SomeD)
  moreover have "routes_at (x # routes) p = (if p = q then coll else routes_at routes p)"
    by (simp add: routes_at_def dm_get_def x)
  moreover have "set_handles (x # routes) d = set_handles routes ?d"
    by (simp add: set_handles_def x)
  ultimately show ?case
    using IH none by (auto simp: path split: option.split)
qed

lemma dispatcher_get:
  assumes "routes_ok (rb_routes b)"
  shows "dm_get (rm_dispatcher (manager_build b)) (p, m)
     = map_option rf_handlers (get_routes_from_path_and_method_b p m (manager_build b))"
proof -
  have "distinct (map rf_method coll)" if "(q, coll) \<in> set (rb_routes b)" for q coll
    using assms that dm_get_entry by (fastforce simp: routes_ok_def)
  then show ?thesis
    using set_handles_get [of "rb_routes b" "[]" p m] assms
    by (auto simp: manager_build_def lookup_eq [unfolded manager_build_def] routes_ok_def dm_wf_def split: option.split)
qed



lemma route_lookup_found:
  assumes "register_all regs manager_builder_new = Some b" "list_all registration_ok regs"
  shows "get_routes_from_path_and_method_b p m (manager_build b) = Some r
           \<longleftrightarrow> r \<in> set (asked [] regs p) \<and> rf_method r = m"
proof -
  have ok: "routes_ok (rb_routes b)" and at: "routes_at (rb_routes b) p = asked [] regs p"
    using register_all_routes [OF assms routes_ok_new]
    by (simp_all add: manager_builder_new_def routes_at_def)
  have "distinct (map rf_method (routes_at (rb_routes b) p))"
    using ok by (auto simp: routes_ok_def routes_at_def split: option.split)
  then show ?thesis by (simp add: lookup_eq find_distinct at)
qed

lemma dispatch_found:
  assumes "register_all regs manager_builder_new = Some b" "list_all registration_ok regs"
  shows "dispatch_finished call (rm_dispatcher (manager_build b)) event w =
     (case find (\<lambda>r. rf_method r = fe_method event) (asked [] regs (fe_path event)) of
        Some r \<Rightarrow> run_handles call (rf_handlers r) event w OK200
      | None \<Rightarrow> Some (OK200, w))"
proof -
  have "routes_ok (rb_routes b)" and at: "routes_at (rb_routes b) p = asked [] regs p" for p
    using register_all_routes [OF assms routes_ok_new]
    by (simp_all add: manager_builder_new_def routes_at_def)
  then show ?thesis
    by (simp add: dispatch_finished_def dispatcher_get lookup_eq at split: option.split)
qed


subsection \<open>Properties\<close>

text \<open>
  C20. After any registrations that do not panic, looking up a path and a method finds exactly
  the route that was registered for them (at most one exists), with the handlers, listener and
  configuration of its closure, and with the global middlewares registered before it in front of
  its own.
\<close>

theorem route_lookup_exact:
  assumes "register_all regs manager_builder_new = Some b" "list_all registration_ok regs"
  shows "get_routes_from_path_and_method_b p m (manager_build b) = Some r
           \<longleftrightarrow> r \<in> set (asked [] regs p) \<and> rf_method r = m"
  by (rule route_lookup_found [OF assms])

definition demo_regs :: "(nat, nat, unit) registration list" where
  "demo_regs = [Global 1, Route ''/a'' GET route_config_default (fb_handler 10),
     Global 2, Route ''/a'' POST route_config_default (fb_middleware 3)]"

definition demo_builder :: "(nat, nat, unit) RouteManagerBuilder" where
  "demo_builder = the (register_all demo_regs manager_builder_new)"

lemma demo_registered:
  "register_all demo_regs manager_builder_new = Some demo_builder" "list_all registration_ok demo_regs"
proof -
  have "register_all demo_regs manager_builder_new \<noteq> None"
    by (simp add: demo_regs_def manager_builder_new_def global_middleware_def add_route_def Let_def
        add_global_middlewares_def fb_handler_def fb_middleware_def route_form_new_def form_builder_new_def
        form_build_def add_new_route_def route_eq_def)
  then show "register_all demo_regs manager_builder_new = Some demo_builder" by (auto simp: demo_builder_def)
  show "list_all registration_ok demo_regs"
    by (simp add: demo_regs_def keeps_identity_def fb_handler_def fb_middleware_def)
qed

theorem route_lookup_exact_witness:
  "get_routes_from_path_and_method_b ''/a'' POST (manager_build demo_builder)
     = Some (asked_route [1, 2] ''/a'' POST route_config_default (fb_middleware 3))"
  using route_lookup_exact [OF demo_registered,
      of "''/a''" POST "asked_route [1, 2] ''/a'' POST route_config_default (fb_middleware 3)"]
  by (simp add: demo_regs_def)

text \<open>
  Dispatching a finished request runs exactly the handlers of the route registered for its
  path and method, in registration order, each on the event and response its predecessor left,
  starting from an empty 200; a request for which no route was registered runs nothing.
\<close>

theorem dispatch_runs_registered_handlers:
  assumes "register_all regs manager_builder_new = Some b" "list_all registration_ok regs"
  shows "dispatch_finished call (rm_dispatcher (manager_build b)) event w =
     (case find (\<lambda>r. rf_method r = fe_method event) (asked [] regs (fe_path event)) of
        Some r \<Rightarrow> run_handles call (rf_handlers r) event w OK200
      | None \<Rightarrow> Some (OK200, w))"
  by (rule dispatch_found [OF assms])

definition demo_event :: FinishedEvent where
  "demo_event = finished_event_new 4 ''c'' [1] ''/a'' GET [] None None None 3 (Some [7]) True"

definition demo_call :: "nat \<Rightarrow> FinishedEvent \<Rightarrow> nat list \<Rightarrow> RouteResponse \<Rightarrow> Response \<times> nat list" where
  "demo_call h e w r = (respond (OK200_DATA (fe_body e)) e, w @ [h])"

theorem dispatch_runs_registered_handlers_witness:
  "dispatch_finished demo_call (rm_dispatcher (manager_build demo_builder)) demo_event []
     = Some (OK200_DATA [7], [10])"
  using dispatch_runs_registered_handlers [OF demo_registered, of demo_call demo_event "[]"]
  by (simp add: demo_regs_def demo_event_def finished_event_new_def asked_route_def fb_handler_def
      route_form_new_def form_builder_new_def Let_def demo_call_def respond_def)

text \<open>
  C36. A path with a query string is routed by the part before the question mark, and carries the
  parsed parameters; but it is not among the accepted paths of the in-flight verifier unless the
  whole string was registered.
\<close>

theorem query_string_routing:
  assumes "CHR ''?'' \<notin> set p" "dm_get (rm_routes (manager_build b)) (p @ CHR ''?'' # q) = None"
    "rb_stream_paths b = Some sp" "p @ CHR ''?'' # q \<notin> set sp"
  shows "get_routes_from_path_and_method (p @ CHR ''?'' # q) m (manager_build b)
      = map_option (\<lambda>r. (r, Some (build_query_string q))) (get_routes_from_path_and_method_b p m (manager_build b))
    \<and> \<not> fst (insert_stream_path_for_conn c i (p @ CHR ''?'' # q) (rm_verifier (manager_build b)))"
proof -
  have "p @ CHR ''?'' # q \<notin> fst ` set (rb_routes b)"
    using assms(2) by (simp add: manager_build_def dm_get_def map_of_eq_None_iff)
  then show ?thesis
    using assms(1,3,4)
    by (auto simp: get_routes_from_path_and_method_def get_routes_from_path_and_method_b_def parse_args_def
        split_once_append manager_build_def insert_stream_path_for_conn_def is_accepted_path_def verifier_new_def
        split: option.split)
qed

theorem query_string_routing_witness:
  "\<not> fst (insert_stream_path_for_conn [1] 4 (''/a'' @ CHR ''?'' # ''x=1'') (rm_verifier (manager_build demo_builder)))"
proof -
  have e: "demo_builder = the (register_all demo_regs manager_builder_new)" by (simp add: demo_builder_def)
  have none: "dm_get (rm_routes (manager_build demo_builder)) (''/a'' @ CHR ''?'' # ''x=1'') = None"
    and sp: "rb_stream_paths demo_builder = Some []"
    unfolding e
    by (simp_all add: demo_regs_def manager_builder_new_def global_middleware_def add_route_def Let_def
        add_global_middlewares_def fb_handler_def fb_middleware_def route_form_new_def form_builder_new_def
        form_build_def add_new_route_def route_eq_def manager_build_def)
  have "\<not> fst (insert_stream_path_for_conn [1] 4 (''/a'' @ CHR ''?'' # ''x=1'')
      (rm_verifier (manager_build demo_builder)))"
    using query_string_routing [OF _ none sp, of GET "[1]" 4] by simp
  then show ?thesis .
qed

end
