(* ===== verification/FileWriter.thy ===== *)
theory FileWriter
  imports Prelude "HOL-Library.Multiset"
begin

section \<open>Writing request bodies to files\<close>

text \<open>
  Model of \<open>src/file_writer.rs\<close> and \<open>src/file_writer/\<close>. All clones of a \<open>FileWriterHandle\<close> share
  one cell, modelled as a record with the file it writes; the mutex \<open>inner\<close> makes each operation
  one atomic step. The outcome of every call of the operating system is an input: \<open>outcomes\<close>
  lists, in call order, whether a write or a flush fails and how many buffered bytes reach the
  file in that call (an exhausted list means success). Properties hold for every such list.
  A callback is a number; \<open>sent\<close> are the callbacks handed to the finishing queue and \<open>ran\<close>
  those run by the caller because that queue is gone.
\<close>

type_synonym uuid = nat
type_synonym callback = nat

datatype error_kind = NotFound | InvalidData | InvalidInput | OsError nat

type_synonym io_error = "error_kind \<times> string"
type_synonym outcome = "io_error option \<times> nat"

record file_cell =
  associated_worker_index :: usize
  handle_id :: uuid
  pending_map :: "uuid set"
  disk :: bytes
  outcomes :: "outcome list"
  fwriter :: "bytes option"
  can_close :: bool
  failure :: "io_error option"
  file_length :: usize
  length_known :: bool
  written :: usize
  finishing_callback :: "callback option"
  queue_open :: bool
  sent :: "callback list"
  ran :: "callback list"

subsection \<open>\<open>BufWriter<File>\<close>\<close>

definition os_next :: "file_cell \<Rightarrow> outcome \<times> file_cell" where
  "os_next c = (case outcomes c of [] \<Rightarrow> ((None, 0), c) | o1 # os \<Rightarrow> (o1, c\<lparr>outcomes := os\<rparr>))"

definition buffered :: "file_cell \<Rightarrow> bytes" where
  "buffered c = (case fwriter c of None \<Rightarrow> [] | Some b \<Rightarrow> b)"

definition bw_write_all :: "bytes \<Rightarrow> file_cell \<Rightarrow> (io_error + unit) \<times> file_cell" where
  "bw_write_all data c =
     (let ((e, n), c1) = os_next c;
          pending = buffered c @ data;
          c2 = c1\<lparr>disk := disk c @ take n pending, fwriter := Some (drop n pending)\<rparr>
      in (case e of None \<Rightarrow> Ok () | Some e \<Rightarrow> Err e, c2))"

definition bw_flush :: "file_cell \<Rightarrow> (io_error + unit) \<times> file_cell" where
  "bw_flush c =
     (let ((e, n), c1) = os_next c in
      case e of
        None \<Rightarrow> (Ok (), c1\<lparr>disk := disk c @ buffered c, fwriter := Some []\<rparr>)
      | Some e \<Rightarrow> (Err e, c1\<lparr>disk := disk c @ take n (buffered c), fwriter := Some (drop n (buffered c))\<rparr>))"

text \<open>Opening or reading the file: only the error outcome matters.\<close>

definition os_call :: "file_cell \<Rightarrow> (io_error + unit) \<times> file_cell" where
  "os_call c = (let ((e, n), c1) = os_next c in (case e of None \<Rightarrow> Ok () | Some e \<Rightarrow> Err e, c1))"


subsection \<open>State\<close>

definition state_fail :: "io_error \<Rightarrow> file_cell \<Rightarrow> io_error \<times> file_cell" where
  "state_fail e c = (case failure c of Some f \<Rightarrow> (f, c) | None \<Rightarrow> (e, c\<lparr>failure := Some e\<rparr>))"

definition failing :: "io_error \<Rightarrow> file_cell \<Rightarrow> (io_error + 'a) \<times> file_cell" where
  "failing e c = apfst Err (state_fail e c)"

definition state_flush :: "file_cell \<Rightarrow> (io_error + unit) \<times> file_cell" where
  "state_flush c =
     (case failure c of
        Some e \<Rightarrow> (Err e, c)
      | None \<Rightarrow>
          (case fwriter c of
             None \<Rightarrow> failing (NotFound, ''no bufwriter'') c
           | Some _ \<Rightarrow> (case bw_flush c of (Inr u, c1) \<Rightarrow> (Ok u, c1) | (Inl e, c1) \<Rightarrow> failing e c1)))"


subsection \<open>Operations of a handle\<close>

definition handle_new :: "uuid \<Rightarrow> uuid set \<Rightarrow> usize \<Rightarrow> usize option \<Rightarrow> bytes \<Rightarrow> outcome list \<Rightarrow> bool \<Rightarrow> file_cell" where
  "handle_new u pending worker len initial os open_queue =
     \<lparr>associated_worker_index = worker, handle_id = u, pending_map = pending, disk = initial, outcomes = os,
      fwriter = Some [], can_close = False, failure = None,
      file_length = (case len of None \<Rightarrow> 0 | Some n \<Rightarrow> n), length_known = (len \<noteq> None), written = 0,
      finishing_callback = None, queue_open = open_queue, sent = [], ran = []\<rparr>"

definition complete_if_ready :: "file_cell \<Rightarrow> (io_error + bool) \<times> file_cell" where
  "complete_if_ready c =
     (case failure c of
        Some e \<Rightarrow> (Err e, c)
      | None \<Rightarrow>
          if can_close c then (Ok True, c)
          else if \<not> length_known c then (Ok False, c)
          else if written c < file_length c then (Ok False, c)
          else if file_length c < written c then failing (InvalidData, ''file exceeds expected length'') c
          else (case state_flush c of
                  (Inl e, c1) \<Rightarrow> (Err e, c1)
                | (Inr _, c1) \<Rightarrow> (Ok True, c1\<lparr>can_close := True\<rparr>)))"

definition take_callback :: "file_cell \<Rightarrow> callback option \<times> file_cell" where
  "take_callback c = (finishing_callback c, c\<lparr>finishing_callback := None\<rparr>)"

definition completion_callback :: "io_error + bool \<Rightarrow> file_cell \<Rightarrow> callback option \<times> file_cell" where
  "completion_callback result c =
     (case result of
        Inr True \<Rightarrow> take_callback c
      | Inl _ \<Rightarrow> (None, snd (take_callback c))
      | Inr False \<Rightarrow> (None, c))"

definition settle :: "io_error + bool \<Rightarrow> callback option \<Rightarrow> file_cell \<Rightarrow> file_cell" where
  "settle result callback c =
     (let c1 = (if result \<noteq> Ok False then c\<lparr>pending_map := pending_map c - {handle_id c}\<rparr> else c)
      in case callback of
           Some cb \<Rightarrow> if queue_open c1 then c1\<lparr>sent := sent c1 @ [cb]\<rparr> else c1\<lparr>ran := ran c1 @ [cb]\<rparr>
         | None \<Rightarrow> c1)"

text \<open>The common end of the operations: choose the callback under the lock, then settle.\<close>

definition conclude :: "(io_error + bool) \<times> file_cell \<Rightarrow> (io_error + bool) \<times> file_cell" where
  "conclude rc =
     (let (result, c) = rc; (callback, c1) = completion_callback result c
      in (result, settle result callback c1))"

definition set_file_length :: "usize \<Rightarrow> file_cell \<Rightarrow> file_cell" where
  "set_file_length len c =
     snd (conclude (complete_if_ready
       (if \<not> length_known c then c\<lparr>file_length := len, length_known := True\<rparr> else c)))"

definition finish_received :: "usize \<Rightarrow> file_cell \<Rightarrow> file_cell" where
  "finish_received received c =
     (if length_known c \<and> file_length c \<noteq> received
      then let (e, c1) = state_fail (InvalidData, ''received length differs from declared length'') c;
               (callback, c2) = take_callback c1
           in settle (Err e) None c2
      else set_file_length received c)"

definition register_finishing_callback :: "callback \<Rightarrow> file_cell \<Rightarrow> file_cell" where
  "register_finishing_callback cb c =
     snd (conclude (complete_if_ready (c\<lparr>finishing_callback := Some cb\<rparr>)))"

definition is_file_written :: "file_cell \<Rightarrow> string + bool" where
  "is_file_written c =
     (case failure c of
        Some e \<Rightarrow> Err (snd e)
      | None \<Rightarrow> if \<not> length_known c then Err ''No file_length set yet'' else Ok (can_close c))"

text \<open>An error of an operation on a file that is already complete is reported but not kept.\<close>

definition keep_failure :: "(io_error + bool) \<times> file_cell \<Rightarrow> (io_error + bool) \<times> file_cell" where
  "keep_failure rc =
     (case rc of
        (Inl e, c) \<Rightarrow> if can_close c then (Err e, c) else failing e c
      | (Inr b, c) \<Rightarrow> (Ok b, c))"

definition and_then ::
  "('e + 'a) \<times> 's \<Rightarrow> ('a \<Rightarrow> 's \<Rightarrow> ('e + 'b) \<times> 's) \<Rightarrow> ('e + 'b) \<times> 's" where
  "and_then rc f = (case rc of (Inl e, c) \<Rightarrow> (Err e, c) | (Inr x, c) \<Rightarrow> f x c)"

text \<open>A new writer that fails is dropped; the cell keeps its old one.\<close>

definition dropping :: "bytes option \<Rightarrow> (io_error + unit) \<times> file_cell \<Rightarrow> (io_error + unit) \<times> file_cell" where
  "dropping old rc =
     (case rc of (Inl e, c) \<Rightarrow> (Err e, c\<lparr>fwriter := old\<rparr>) | (Inr u, c) \<Rightarrow> (Ok u, c))"

definition transfert_core :: "bytes \<Rightarrow> file_cell \<Rightarrow> (io_error + bool) \<times> file_cell" where
  "transfert_core bs c =
     (case failure c of
        Some e \<Rightarrow> (Err e, c)
      | None \<Rightarrow>
          if bs = [] then complete_if_ready c
          else if can_close c then (Err (InvalidInput, ''file already completed''), c)
          else and_then (state_flush c) (\<lambda>_ c1.
               and_then (os_call c1) (\<lambda>_ c2.
               and_then (os_call c2) (\<lambda>_ c3.
                 let prefix = bs @ disk c3 in
                 if length_known c3 \<and> file_length c3 < length prefix
                 then (Err (InvalidData, ''file exceeds expected length''), c3)
                 else and_then (os_call c3) (\<lambda>_ c4.
                      let old = fwriter c4; c5 = c4\<lparr>disk := [], fwriter := Some []\<rparr> in
                      and_then (dropping old (and_then (bw_write_all prefix c5) (\<lambda>_. bw_flush))) (\<lambda>_ c6.
                        complete_if_ready (c6\<lparr>written := length prefix\<rparr>)))))))"

definition map_ok :: "('a \<Rightarrow> 'b) \<Rightarrow> ('e + 'a) \<times> 's \<Rightarrow> ('e + 'b) \<times> 's" where
  "map_ok f rc = apfst (map_sum id f) rc"

definition transfert_bytes_from_temp_file :: "bytes \<Rightarrow> file_cell \<Rightarrow> (io_error + unit) \<times> file_cell" where
  "transfert_bytes_from_temp_file bs c = map_ok (\<lambda>_. ()) (conclude (keep_failure (transfert_core bs c)))"

definition handle_flush :: "file_cell \<Rightarrow> (io_error + unit) \<times> file_cell" where
  "handle_flush c = map_ok (\<lambda>_. ()) (conclude (and_then (state_flush c) (\<lambda>_. complete_if_ready)))"

definition close_file :: "file_cell \<Rightarrow> file_cell" where
  "close_file c = snd (handle_flush c)"

definition write_core :: "bytes \<Rightarrow> file_cell \<Rightarrow> (io_error + bool) \<times> file_cell" where
  "write_core data c =
     (case failure c of
        Some e \<Rightarrow> (Err e, c)
      | None \<Rightarrow>
          if can_close c \<and> data \<noteq> [] then (Err (InvalidInput, ''file already completed''), c)
          else if usize_limit \<le> written c + length data then (Err (InvalidData, ''file length overflow''), c)
          else let next_len = written c + length data in
            if length_known c \<and> file_length c < next_len
            then (Err (InvalidData, ''file exceeds expected length''), c)
            else (case fwriter c of
                    None \<Rightarrow> (Err (NotFound, ''no bufwriter''), c)
                  | Some _ \<Rightarrow> and_then (bw_write_all data c) (\<lambda>_ c1.
                      complete_if_ready (c1\<lparr>written := next_len\<rparr>))))"

definition write_on_disk :: "bytes \<Rightarrow> file_cell \<Rightarrow> (unit + usize) \<times> file_cell" where
  "write_on_disk data c =
     apfst (map_sum (\<lambda>_. ()) (\<lambda>_. length data)) (conclude (keep_failure (write_core data c)))"

subsection \<open>The writer keeps every accepted byte\<close>

text \<open>
  The content of a file is what is on disk and then what is buffered. Parts of the cell that the
  core of an operation (under the lock) must not touch are its frame.
\<close>

definition content :: "file_cell \<Rightarrow> bytes" where
  "content c = disk c @ buffered c"

definition same_frame :: "file_cell \<Rightarrow> file_cell \<Rightarrow> bool" where
  "same_frame c c' \<longleftrightarrow> finishing_callback c' = finishing_callback c \<and> pending_map c' = pending_map c
     \<and> handle_id c' = handle_id c \<and> queue_open c' = queue_open c \<and> sent c' = sent c \<and> ran c' = ran c
     \<and> associated_worker_index c' = associated_worker_index c
     \<and> file_length c' = file_length c \<and> length_known c' = length_known c"

definition core_inv :: "file_cell \<Rightarrow> bool" where
  "core_inv c \<longleftrightarrow> fwriter c \<noteq> None
     \<and> (failure c = None \<longrightarrow> length (content c) = written c)
     \<and> (can_close c \<longrightarrow> length_known c \<and> written c = file_length c \<and> fwriter c = Some []
          \<and> length (disk c) = file_length c)"

text \<open>What a core may return: a kept failure, or a verdict on completeness.\<close>

definition core_result :: "bool \<Rightarrow> io_error + bool \<Rightarrow> file_cell \<Rightarrow> bool" where
  "core_result was_complete r c \<longleftrightarrow> (case r of
     Inl e \<Rightarrow> failure c = Some e \<or> (was_complete \<and> can_close c) | Inr b \<Rightarrow> failure c = None \<and> can_close c = b)"

lemma same_frame_refl [simp]: "same_frame c c"
  by (simp add: same_frame_def)

lemma same_frame_trans: "same_frame a b \<Longrightarrow> same_frame b c \<Longrightarrow> same_frame a c"
  by (simp add: same_frame_def)

lemma state_fail_simps [simp]:
  "failure c = None \<Longrightarrow> state_fail e c = (e, c\<lparr>failure := Some e\<rparr>)"
  "failure c = Some f \<Longrightarrow> state_fail e c = (f, c)"
  by (simp_all add: state_fail_def)

lemma os_next_frame:
  "os_next c = (r, c') \<Longrightarrow> c' = c\<lparr>outcomes := outcomes c'\<rparr>"
  by (auto simp: os_next_def split: list.splits)

lemma take_drop_content: "(a @ take n p) @ drop n p = a @ p"
  by simp

lemma bw_write_all_spec:
  assumes "bw_write_all data c = (r, c')"
  shows "same_frame c c'" "failure c' = failure c" "can_close c' = can_close c" "written c' = written c"
    "fwriter c' \<noteq> None" "content c' = content c @ data"
    "fwriter c = Some [] \<Longrightarrow> data = [] \<Longrightarrow> fwriter c' = Some [] \<and> disk c' = disk c"
proof -
  obtain e n c1 where o1: "os_next c = ((e, n), c1)" by (metis surj_pair)
  have c1: "c1 = c\<lparr>outcomes := outcomes c1\<rparr>" by (rule os_next_frame [OF o1])
  have c': "c' = c1\<lparr>disk := disk c @ take n (buffered c @ data), fwriter := Some (drop n (buffered c @ data))\<rparr>"
    using assms by (simp add: bw_write_all_def o1)
  show "same_frame c c'" "failure c' = failure c" "can_close c' = can_close c" "written c' = written c"
    "fwriter c' \<noteq> None"
    unfolding c' by (subst c1, simp add: same_frame_def)+
  have "content c' = (disk c @ take n (buffered c @ data)) @ drop n (buffered c @ data)"
    by (simp add: c' content_def buffered_def)
  then show "content c' = content c @ data"
    unfolding take_drop_content by (simp add: content_def)
  show "fwriter c = Some [] \<Longrightarrow> data = [] \<Longrightarrow> fwriter c' = Some [] \<and> disk c' = disk c"
    by (simp add: c' buffered_def)
qed

lemma bw_flush_spec:
  assumes "bw_flush c = (r, c')"
  shows "same_frame c c'" "failure c' = failure c" "can_close c' = can_close c" "written c' = written c"
    "fwriter c' \<noteq> None" "content c' = content c"
    "r = Ok u \<Longrightarrow> fwriter c' = Some [] \<and> disk c' = content c"
    "fwriter c = Some [] \<Longrightarrow> fwriter c' = Some [] \<and> disk c' = disk c"
proof -
  obtain e n c1 where o1: "os_next c = ((e, n), c1)" by (metis surj_pair)
  have c1: "c1 = c\<lparr>outcomes := outcomes c1\<rparr>" by (rule os_next_frame [OF o1])
  have c': "c' = (case e of None \<Rightarrow> c1\<lparr>disk := disk c @ buffered c, fwriter := Some []\<rparr>
      | Some e \<Rightarrow> c1\<lparr>disk := disk c @ take n (buffered c), fwriter := Some (drop n (buffered c))\<rparr>)"
    and r: "r = (case e of None \<Rightarrow> Ok () | Some e \<Rightarrow> Err e)"
    using assms by (auto simp: bw_flush_def o1 split: option.splits)
  show "same_frame c c'" "failure c' = failure c" "can_close c' = can_close c" "written c' = written c"
    "fwriter c' \<noteq> None"
    unfolding c' by (subst c1, simp add: same_frame_def split: option.split)+
  show "content c' = content c" "r = Ok u \<Longrightarrow> fwriter c' = Some [] \<and> disk c' = content c"
    "fwriter c = Some [] \<Longrightarrow> fwriter c' = Some [] \<and> disk c' = disk c"
    by (auto simp: c' r content_def buffered_def split: option.splits)
qed

lemma os_call_spec:
  assumes "os_call c = (r, c')"
  shows "same_frame c c'" "failure c' = failure c" "can_close c' = can_close c" "written c' = written c"
    "fwriter c' = fwriter c" "disk c' = disk c"
proof -
  obtain e n c1 where o1: "os_next c = ((e, n), c1)" by (metis surj_pair)
  have "c1 = c\<lparr>outcomes := outcomes c1\<rparr>" by (rule os_next_frame [OF o1])
  moreover have "c' = c1" using assms by (simp add: os_call_def o1)
  ultimately have c': "c' = c\<lparr>outcomes := outcomes c1\<rparr>" by simp
  show "same_frame c c'" "failure c' = failure c" "can_close c' = can_close c" "written c' = written c"
    "fwriter c' = fwriter c" "disk c' = disk c"
    by (simp_all add: c' same_frame_def)
qed

lemma failing_spec:
  assumes "failing e c = (r, c')" "failure c = None"
  shows "r = Err e" "c' = c\<lparr>failure := Some e\<rparr>"
  using assms by (simp_all add: failing_def)

text \<open>A flush under the lock: it fails and the failure is kept, or everything is on disk.\<close>

lemma state_flush_spec:
  assumes "state_flush c = (r, c')" "failure c = None" "fwriter c \<noteq> None"
  shows "same_frame c c'" "can_close c' = can_close c" "written c' = written c"
    "fwriter c' \<noteq> None" "content c' = content c"
    "case r of Inl e \<Rightarrow> failure c' = Some e
     | Inr _ \<Rightarrow> failure c' = None \<and> fwriter c' = Some [] \<and> disk c' = content c"
    "fwriter c = Some [] \<Longrightarrow> fwriter c' = Some [] \<and> disk c' = disk c"
proof -
  obtain b c1 where f: "bw_flush c = (b, c1)" by fastforce
  note spec = bw_flush_spec [OF f]
  have fl: "failure c1 = None" using spec(2) assms(2) by simp
  have r: "(r, c') = (case b of Inr u \<Rightarrow> (Ok u, c1) | Inl e \<Rightarrow> (Err e, c1\<lparr>failure := Some e\<rparr>))"
    using assms fl by (auto simp: state_flush_def f failing_def split: option.splits sum.splits)
  show "same_frame c c'" "can_close c' = can_close c" "written c' = written c"
    "fwriter c' \<noteq> None" "content c' = content c"
    using r spec(1-6) by (auto simp: same_frame_def content_def buffered_def split: sum.splits)
  show "case r of Inl e \<Rightarrow> failure c' = Some e
     | Inr _ \<Rightarrow> failure c' = None \<and> fwriter c' = Some [] \<and> disk c' = content c"
    using r spec(7) fl by (auto split: sum.splits)
  show "fwriter c = Some [] \<Longrightarrow> fwriter c' = Some [] \<and> disk c' = disk c"
    using r spec(8) by (auto split: sum.splits)
qed

lemma content_sel [simp]:
  "content (c\<lparr>failure := f\<rparr>) = content c" "content (c\<lparr>can_close := b\<rparr>) = content c"
  "content (c\<lparr>written := w\<rparr>) = content c" "content (c\<lparr>finishing_callback := cb\<rparr>) = content c"
  "content (c\<lparr>pending_map := p\<rparr>) = content c" "content (c\<lparr>sent := l\<rparr>) = content c"
  "content (c\<lparr>ran := l\<rparr>) = content c" "content (c\<lparr>file_length := n, length_known := b\<rparr>) = content c"
  by (simp_all add: content_def buffered_def)

lemma complete_if_ready_failed: "failure c = Some e \<Longrightarrow> complete_if_ready c = (Err e, c)"
  by (simp add: complete_if_ready_def)

lemma complete_if_ready_spec:
  assumes "complete_if_ready c = (r, c')" "core_inv c"
  shows "core_inv c' \<and> same_frame c c' \<and> core_result (can_close c) r c' \<and> content c' = content c \<and> written c' = written c
     \<and> (can_close c \<longrightarrow> can_close c')"
proof (cases "failure c")
  case (Some e)
  then show ?thesis using assms by (auto simp: complete_if_ready_failed core_result_def)
next
  case None
  note inv = assms(2)[unfolded core_inv_def]
  consider "can_close c" | "\<not> can_close c" "\<not> length_known c \<or> written c < file_length c"
    | "\<not> can_close c" "length_known c" "file_length c < written c"
    | "\<not> can_close c" "length_known c" "written c = file_length c" by linarith
  then show ?thesis
  proof cases
    case 1
    then show ?thesis using assms None by (auto simp: complete_if_ready_def core_result_def)
  next
    case 2
    then have "complete_if_ready c = (Ok False, c)"
      using None by (auto simp: complete_if_ready_def)
    then show ?thesis using assms None 2(1) by (simp add: core_result_def)
  next
    case 3
    then show ?thesis using assms None
      by (auto simp: complete_if_ready_def core_result_def failing_def core_inv_def same_frame_def)
  next
    case 4
    obtain b c1 where f: "state_flush c = (b, c1)" by fastforce
    note spec = state_flush_spec [OF f None conjunct1 [OF inv]]
    have rc: "(r, c') = (case b of Inl e \<Rightarrow> (Err e, c1) | Inr _ \<Rightarrow> (Ok True, c1\<lparr>can_close := True\<rparr>))"
      using assms(1) None 4 by (auto simp: complete_if_ready_def f split: sum.splits)
    have len: "length (content c) = file_length c" using inv None 4 by simp
    show ?thesis
      using rc spec 4 len
      by (auto simp: core_inv_def core_result_def same_frame_def content_def buffered_def split: sum.splits)
  qed
qed

text \<open>The core of each operation keeps the invariant and the frame.\<close>

definition core_ok :: "file_cell \<Rightarrow> (io_error + bool) \<times> file_cell \<Rightarrow> bool" where
  "core_ok c rc \<longleftrightarrow> core_inv (snd rc) \<and> same_frame c (snd rc) \<and> core_result (can_close c) (fst rc) (snd rc)
     \<and> (can_close c \<longrightarrow> can_close (snd rc))"

lemma complete_if_ready_ok: "core_inv c \<Longrightarrow> core_ok c (complete_if_ready c)"
  using complete_if_ready_spec [of c] by (cases "complete_if_ready c") (auto simp: core_ok_def)

lemma core_ok_trans:
  "core_ok c1 rc \<Longrightarrow> same_frame c c1 \<Longrightarrow> can_close c1 = can_close c \<Longrightarrow> core_ok c rc"
  using same_frame_trans by (auto simp: core_ok_def)

lemma core_inv_fail: "core_inv c \<Longrightarrow> core_inv (c\<lparr>failure := Some e\<rparr>)"
  by (auto simp: core_inv_def)

lemma core_inv_D:
  "core_inv c \<Longrightarrow> fwriter c \<noteq> None"
  "core_inv c \<Longrightarrow> failure c = None \<Longrightarrow> length (content c) = written c"
  "core_inv c \<Longrightarrow> can_close c \<Longrightarrow> fwriter c = Some []"
  by (auto simp: core_inv_def)

text \<open>An error before anything was touched, with the file not complete, is kept.\<close>

lemma keep_failure_err:
  assumes "core_inv c" "failure c = None"
  shows "core_ok c (keep_failure (Err e, c)) \<and> content (snd (keep_failure (Err e, c))) = content c"
  using assms by (simp add: keep_failure_def failing_def core_ok_def core_result_def core_inv_fail same_frame_def)

lemma keep_failure_ok:
  "core_ok c rc \<Longrightarrow> core_ok c (keep_failure rc)"
  by (cases rc; cases "fst rc")
    (auto simp: keep_failure_def failing_def core_ok_def core_result_def state_fail_def split: option.split)

lemma keep_failure_content [simp]: "content (snd (keep_failure rc)) = content (snd rc)"
  by (auto simp: keep_failure_def failing_def state_fail_def split: prod.split sum.split option.split)

lemma keep_failure_failed: "failure c = Some e \<Longrightarrow> keep_failure (Err e, c) = (Err e, c)"
  by (simp add: keep_failure_def failing_def)

text \<open>An error after the file was touched: the content no longer counts.\<close>

lemma keep_failure_touched:
  assumes "same_frame c c'" "failure c' = None" "\<not> can_close c" "\<not> can_close c'" "fwriter c' \<noteq> None"
  shows "core_ok c (keep_failure (Err e, c'))" "failure (snd (keep_failure (Err e, c'))) = Some e"
  using assms by (auto simp: keep_failure_def failing_def core_ok_def core_result_def core_inv_def same_frame_def)

definition content_step :: "bytes \<Rightarrow> bytes \<Rightarrow> (io_error + bool) \<times> file_cell \<Rightarrow> bool" where
  "content_step old new rc \<longleftrightarrow>
     (failure (snd rc) = None \<longrightarrow> content (snd rc) = (case fst rc of Inl _ \<Rightarrow> old | Inr _ \<Rightarrow> new))"

lemma complete_if_ready_err:
  assumes "complete_if_ready c = (Err e, c')"
  shows "failure c' = Some e"
proof (cases "failure c")
  case None
  then show ?thesis
    using assms by (auto simp: complete_if_ready_def failing_def state_flush_def state_fail_def
        split: if_splits option.splits prod.splits sum.splits)
qed (use assms in \<open>simp add: complete_if_ready_def\<close>)

text \<open>The last step of a core: completing a state whose counter is up to date.\<close>

lemma complete_keep:
  assumes "core_inv c"
  shows "core_ok c (keep_failure (complete_if_ready c))
    \<and> content_step x (content c) (keep_failure (complete_if_ready c))"
proof -
  obtain r c' where rc: "complete_if_ready c = (r, c')" by fastforce
  have spec: "content c' = content c" using complete_if_ready_spec [OF rc assms] by blast
  have "content_step x (content c) (keep_failure (r, c'))"
  proof (cases r)
    case (Inl e)
    then have "failure c' = Some e" using rc complete_if_ready_err by blast
    with Inl show ?thesis by (simp add: keep_failure_failed content_step_def)
  qed (use spec in \<open>simp add: keep_failure_def content_step_def\<close>)
  then show ?thesis
    using keep_failure_ok [OF complete_if_ready_ok [OF assms]] by (simp add: rc)
qed

lemma write_core_spec:
  assumes inv: "core_inv c"
  shows "core_ok c (keep_failure (write_core data c))
    \<and> content_step (content c) (content c @ data) (keep_failure (write_core data c))"
proof (cases "failure c")
  case (Some e)
  then have "keep_failure (write_core data c) = (Err e, c)"
    by (simp add: write_core_def keep_failure_failed)
  then show ?thesis using inv Some by (simp add: core_ok_def core_result_def content_step_def)
next
  case None
  have early: ?thesis if "write_core data c = (Err e, c)" for e
    using keep_failure_err [OF inv None, of e]
    by (auto simp: that content_step_def keep_failure_def failing_def state_fail_def None)
  show ?thesis
  proof (cases "(can_close c \<and> data \<noteq> []) \<or> usize_limit \<le> written c + length data
      \<or> (length_known c \<and> file_length c < written c + length data)")
    case True
    then have "\<exists>e. write_core data c = (Err e, c)"
      using None by (auto simp: write_core_def Let_def)
    then show ?thesis using early by blast
  next
    case False
    obtain b c1 where w: "bw_write_all data c = (b, c1)" by fastforce
    note spec = bw_write_all_spec [OF w]
    have core: "write_core data c = and_then (b, c1) (\<lambda>_ c1. complete_if_ready (c1\<lparr>written := written c + length data\<rparr>))"
      using None False core_inv_D(1) [OF inv] by (auto simp: write_core_def Let_def w split: option.split)
    show ?thesis
    proof (cases b)
      case (Inl e)
      then have wc: "write_core data c = (Err e, c1)" by (simp add: core and_then_def)
      show ?thesis
      proof (cases "can_close c")
        case True
        then have "data = []" "fwriter c = Some []" using False core_inv_D(3) [OF inv] by auto
        with spec True inv have "core_inv c1" "content c1 = content c"
          by (auto simp: core_inv_def same_frame_def)
        then show ?thesis
          unfolding wc using spec True \<open>data = []\<close>
          by (simp add: keep_failure_def core_ok_def core_result_def content_step_def)
      next
        case open_file: False
        then show ?thesis
          using keep_failure_touched [OF spec(1), of e] spec None
          by (simp add: wc content_step_def)
      qed
    next
      case (Inr u)
      let ?c = "c1\<lparr>written := written c + length data\<rparr>"
      have wc: "write_core data c = complete_if_ready ?c" by (simp add: core and_then_def Inr)
      have frame: "same_frame c ?c" "can_close ?c = can_close c"
        using spec by (simp_all add: same_frame_def)
      have "can_close c \<Longrightarrow> data = []" using False by auto
      then have "core_inv ?c"
        using inv spec None by (auto simp: core_inv_def same_frame_def)
      from complete_keep [OF this, of "content c"] show ?thesis
        using core_ok_trans [OF _ frame] spec(6) by (auto simp: wc)
    qed
  qed
qed

lemma keep_failure_stopped:
  assumes "same_frame c c'" "failure c' = None \<or> failure c' = Some e" "\<not> can_close c" "\<not> can_close c'"
    "fwriter c' \<noteq> None"
  shows "core_ok c (keep_failure (Err e, c')) \<and> content_step x y (keep_failure (Err e, c'))"
  using assms keep_failure_touched [OF assms(1) _ assms(3,4,5), of e]
  by (auto simp: content_step_def keep_failure_failed core_ok_def core_result_def core_inv_def)

lemma transfert_core_spec:
  assumes inv: "core_inv c"
  shows "core_ok c (keep_failure (transfert_core bs c))
    \<and> content_step (content c) (bs @ content c) (keep_failure (transfert_core bs c))"
proof (cases "failure c")
  case (Some e)
  then have "keep_failure (transfert_core bs c) = (Err e, c)"
    by (simp add: transfert_core_def keep_failure_failed)
  then show ?thesis using inv Some by (simp add: core_ok_def core_result_def content_step_def)
next
  case None
  consider "bs = []" | "bs \<noteq> []" "can_close c" | "bs \<noteq> []" "\<not> can_close c" by blast
  then show ?thesis
  proof cases
    case 1
    then show ?thesis using complete_keep [OF inv] None by (simp add: transfert_core_def)
  next
    case 2
    then show ?thesis using keep_failure_err [OF inv None] None
      by (auto simp: transfert_core_def content_step_def keep_failure_def)
  next
    case 3
    obtain b1 c1 where s1: "state_flush c = (b1, c1)" by fastforce
    note f1 = state_flush_spec [OF s1 None core_inv_D(1) [OF inv]]
    obtain b2 c2 where s2: "os_call c1 = (b2, c2)" by fastforce
    note f2 = os_call_spec [OF s2]
    obtain b3 c3 where s3: "os_call c2 = (b3, c3)" by fastforce
    note f3 = os_call_spec [OF s3]
    obtain b4 c4 where s4: "os_call c3 = (b4, c4)" by fastforce
    note f4 = os_call_spec [OF s4]
    let ?p = "bs @ disk c3" let ?c5 = "c4\<lparr>disk := [], fwriter := Some []\<rparr>"
    obtain b6 c6 where s6: "bw_write_all ?p ?c5 = (b6, c6)" by fastforce
    note f6 = bw_write_all_spec [OF s6]
    obtain b7 c7 where s7: "bw_flush c6 = (b7, c7)" by fastforce
    note f7 = bw_flush_spec [OF s7]
    let ?big = "length_known c3 \<and> file_length c3 < length ?p"
      and ?res = "\<lambda>rc. core_ok c (keep_failure rc) \<and> content_step (content c) (bs @ content c) (keep_failure rc)"
    note unfold = transfert_core_def s1 s2 s3 s4 s6 s7 and_then_def dropping_def Let_def
    have fr: "same_frame c c1" "same_frame c c2" "same_frame c c3" "same_frame c c4" "same_frame c ?c5"
      "same_frame c c6" "same_frame c c7"
      using f1(1) f2(1) f3(1) f4(1) f6(1) f7(1) by (auto simp: same_frame_def)
    have op: "\<not> can_close c1" "\<not> can_close c2" "\<not> can_close c3" "\<not> can_close c4" "\<not> can_close c6" "\<not> can_close c7"
      using 3(2) f1(2) f2(3) f3(3) f4(3) f6(3) f7(3) by simp_all
    have wr: "fwriter c1 \<noteq> None" "fwriter c2 \<noteq> None" "fwriter c3 \<noteq> None" "fwriter c4 \<noteq> None" "fwriter c7 \<noteq> None"
      using f1(4) f2(5) f3(5) f4(5) f7(5) by simp_all
    show ?thesis
    proof (cases b1)
      case (Inl e)
      then have "failure c1 = Some e" using f1(6) by simp
      then show ?thesis
        using keep_failure_stopped [OF fr(1) _ 3(2) op(1) wr(1)] None 3 Inl by (simp add: unfold)
    next
      case b1: (Inr u1)
      then have fl: "failure c1 = None" "failure c2 = None" "failure c3 = None" "failure c4 = None"
          "failure c6 = None" "failure c7 = None" "disk c3 = content c"
        using f1(6) f2(2,6) f3(2,6) f4(2) f6(2) f7(2) by simp_all
      note stop2 = keep_failure_stopped [OF fr(2) disjI1 [OF fl(2)] 3(2) op(2) wr(2)]
      note stop3 = keep_failure_stopped [OF fr(3) disjI1 [OF fl(3)] 3(2) op(3) wr(3)]
      note stop4 = keep_failure_stopped [OF fr(4) disjI1 [OF fl(4)] 3(2) op(4) wr(4)]
      have "same_frame c (c6\<lparr>fwriter := fwriter c4\<rparr>)" "same_frame c (c7\<lparr>fwriter := fwriter c4\<rparr>)"
        using fr(6,7) by (simp_all add: same_frame_def)
      then have stop6: "?res (Err e, c6\<lparr>fwriter := fwriter c4\<rparr>)" and stop7: "?res (Err e, c7\<lparr>fwriter := fwriter c4\<rparr>)" for e
        using keep_failure_stopped fl op 3(2) wr(4) by simp_all
      have done1: "?res (complete_if_ready (c7\<lparr>written := length ?p\<rparr>))"
      proof -
        have cont: "content c7 = bs @ content c"
          using f7(6) f6(6) fl(7) by (simp add: content_def buffered_def)
        then have "core_inv (c7\<lparr>written := length ?p\<rparr>)"
          using wr(5) op(6) fl(7) by (simp add: core_inv_def)
        from complete_keep [OF this, of "content c"] show ?thesis
          using core_ok_trans [of "c7\<lparr>written := length ?p\<rparr>" _ c] fr(7) 3(2) op(6) cont
          by (simp add: same_frame_def)
      qed
      show ?thesis
        using None 3 b1 stop2 stop3 stop4 stop6 stop7 done1
        by (cases b2; cases b3; cases b4; cases b6; cases b7) (simp_all add: unfold)
    qed
  qed
qed

lemma flush_core_spec:
  assumes inv: "core_inv c"
  shows "core_ok c (and_then (state_flush c) (\<lambda>_. complete_if_ready))
    \<and> content_step (content c) (content c) (and_then (state_flush c) (\<lambda>_. complete_if_ready))"
proof (cases "failure c")
  case (Some e)
  then show ?thesis using inv
    by (simp add: state_flush_def and_then_def core_ok_def core_result_def content_step_def)
next
  case None
  obtain b c1 where s1: "state_flush c = (b, c1)" by fastforce
  note f1 = state_flush_spec [OF s1 None core_inv_D(1) [OF inv]]
  have inv1: "core_inv c1"
    using inv f1 None by (auto simp: core_inv_def same_frame_def split: sum.splits)
  show ?thesis
  proof (cases b)
    case (Inl e)
    then show ?thesis using inv1 f1
      by (simp add: s1 and_then_def core_ok_def core_result_def content_step_def)
  next
    case (Inr u)
    obtain r c2 where s2: "complete_if_ready c1 = (r, c2)" by fastforce
    have "content c2 = content c" using complete_if_ready_spec [OF s2 inv1] f1(5) by simp
    then show ?thesis
      using core_ok_trans [OF complete_if_ready_ok [OF inv1] f1(1)] f1(2)
      by (simp add: s1 s2 and_then_def content_step_def Inr split: sum.split)
  qed
qed


subsection \<open>Settling: the callback and the map of pending files\<close>

definition fired :: "file_cell \<Rightarrow> callback multiset" where
  "fired c = mset (sent c) + mset (ran c)"

definition waiting :: "callback option \<Rightarrow> callback multiset" where
  "waiting cb = (case cb of None \<Rightarrow> {#} | Some x \<Rightarrow> {#x#})"

definition cell_inv :: "file_cell \<Rightarrow> bool" where
  "cell_inv c \<longleftrightarrow> core_inv c
     \<and> (finishing_callback c \<noteq> None \<longrightarrow> \<not> can_close c \<and> failure c = None)
     \<and> (can_close c \<or> failure c \<noteq> None \<longrightarrow> handle_id c \<notin> pending_map c)"

text \<open>A callback stays, is fired, or is dropped because the file failed (or there was none).\<close>

definition callback_step :: "callback option \<Rightarrow> callback multiset \<Rightarrow> file_cell \<Rightarrow> bool" where
  "callback_step slot old c \<longleftrightarrow>
     (finishing_callback c = slot \<and> fired c = old)
   \<or> (finishing_callback c = None \<and> fired c = old + waiting slot)
   \<or> (finishing_callback c = None \<and> fired c = old \<and> (failure c \<noteq> None \<or> slot = None))"

lemma conclude_snd:
  "conclude (r, c) = (r, settle r (fst (completion_callback r c)) (snd (completion_callback r c)))"
  by (simp add: conclude_def split_beta)

lemma settle_sel [simp]:
  "failure (settle r cb c) = failure c" "can_close (settle r cb c) = can_close c"
  "content (settle r cb c) = content c" "disk (settle r cb c) = disk c" "fwriter (settle r cb c) = fwriter c"
  "file_length (settle r cb c) = file_length c" "length_known (settle r cb c) = length_known c"
  "written (settle r cb c) = written c" "finishing_callback (settle r cb c) = finishing_callback c"
  "core_inv (settle r cb c) = core_inv c" "handle_id (settle r cb c) = handle_id c"
  "pending_map (settle r cb c) = (if r = Ok False then pending_map c else pending_map c - {handle_id c})"
  "fired (settle r cb c) = fired c + waiting cb"
  by (auto simp: settle_def Let_def core_inv_def content_def buffered_def fired_def waiting_def split: option.split)

lemma completion_callback_sel [simp]:
  "failure (snd (completion_callback r c)) = failure c" "can_close (snd (completion_callback r c)) = can_close c"
  "content (snd (completion_callback r c)) = content c" "disk (snd (completion_callback r c)) = disk c"
  "fwriter (snd (completion_callback r c)) = fwriter c"
  "file_length (snd (completion_callback r c)) = file_length c"
  "length_known (snd (completion_callback r c)) = length_known c"
  "written (snd (completion_callback r c)) = written c"
  "core_inv (snd (completion_callback r c)) = core_inv c"
  "handle_id (snd (completion_callback r c)) = handle_id c"
  "pending_map (snd (completion_callback r c)) = pending_map c"
  "fired (snd (completion_callback r c)) = fired c"
  by (auto simp: completion_callback_def take_callback_def core_inv_def content_def buffered_def fired_def
      split: sum.split bool.split)

lemma conclude_sel [simp]:
  "fst (conclude rc) = fst rc"
  "failure (snd (conclude rc)) = failure (snd rc)" "can_close (snd (conclude rc)) = can_close (snd rc)"
  "content (snd (conclude rc)) = content (snd rc)" "disk (snd (conclude rc)) = disk (snd rc)"
  "fwriter (snd (conclude rc)) = fwriter (snd rc)"
  by (cases rc; simp add: conclude_snd)+

lemma fired_callback [simp]: "fired (c\<lparr>finishing_callback := x\<rparr>) = fired c"
  by (simp add: fired_def)

lemma core_inv_callback [simp]: "core_inv (c\<lparr>finishing_callback := x\<rparr>) = core_inv c"
  by (simp add: core_inv_def)

lemma conclude_spec:
  assumes "core_ok c rc" "\<And>e. fst rc = Err e \<Longrightarrow> failure (snd rc) \<noteq> None \<or> finishing_callback c = None"
  shows "cell_inv (snd (conclude rc)) \<and> callback_step (finishing_callback c) (fired c) (snd (conclude rc))"
proof -
  obtain r c' where rc: "rc = (r, c')" by fastforce
  have c': "core_inv c'" "same_frame c c'" "core_result (can_close c) r c'" using assms(1) by (simp_all add: rc core_ok_def)
  have f: "fired c' = fired c" "finishing_callback c' = finishing_callback c"
    using c'(2) by (simp_all add: same_frame_def fired_def)
  have inv: "cell_inv (snd (conclude rc))"
    using c'(1,3)
    by (auto simp: rc conclude_snd cell_inv_def core_result_def completion_callback_def take_callback_def
        split: sum.split bool.split)
  show ?thesis
  proof (intro conjI inv)
    show "callback_step (finishing_callback c) (fired c) (snd (conclude rc))"
    proof (cases r)
      case (Inl e)
      then show ?thesis using assms(2) f
        by (auto simp: rc conclude_snd callback_step_def completion_callback_def take_callback_def waiting_def)
    next
      case (Inr b)
      then show ?thesis using f
        by (cases b) (simp_all add: rc conclude_snd callback_step_def completion_callback_def
            take_callback_def waiting_def)
    qed
  qed
qed


subsection \<open>Sequences of operations\<close>

datatype fw_op =
    Write bytes
  | Prepend bytes
  | Flush
  | Set_Length usize
  | Fin_Received usize
  | Register callback

fun fw_step :: "fw_op \<Rightarrow> file_cell \<Rightarrow> bool \<times> file_cell" where
  "fw_step (Write d) c = apfst is_ok (write_on_disk d c)"
| "fw_step (Prepend d) c = apfst is_ok (transfert_bytes_from_temp_file d c)"
| "fw_step Flush c = apfst is_ok (handle_flush c)"
| "fw_step (Set_Length n) c = (True, set_file_length n c)"
| "fw_step (Fin_Received n) c = (True, finish_received n c)"
| "fw_step (Register cb) c = (True, register_finishing_callback cb c)"

text \<open>What the content should be after an operation that reported success or not.\<close>

fun apply_op :: "fw_op \<Rightarrow> bool \<Rightarrow> bytes \<Rightarrow> bytes" where
  "apply_op (Write d) True bs = bs @ d"
| "apply_op (Prepend d) True bs = d @ bs"
| "apply_op _ _ bs = bs"

fun next_slot :: "fw_op \<Rightarrow> callback option \<Rightarrow> callback option" where
  "next_slot (Register cb) slot = Some cb"
| "next_slot _ slot = slot"

text \<open>The three parts of what one operation does.\<close>

definition step_ok :: "fw_op \<Rightarrow> file_cell \<Rightarrow> bool" where
  "step_ok x c \<longleftrightarrow> (case fw_step x c of (r, c') \<Rightarrow>
     cell_inv c' \<and> callback_step (next_slot x (finishing_callback c)) (fired c) c'
     \<and> (failure c' = None \<longrightarrow> content c' = apply_op x r (content c)))"

lemma is_ok_map [simp]: "is_ok (map_sum f g r) = is_ok r"
  by (cases r) simp_all

lemma concluded_step:
  assumes inv: "cell_inv c" and ok: "core_ok c rc" and step: "content_step (content c) new rc"
  shows "cell_inv (snd (conclude rc)) \<and> callback_step (finishing_callback c) (fired c) (snd (conclude rc))
    \<and> (failure (snd (conclude rc)) = None \<longrightarrow>
         content (snd (conclude rc)) = (if is_ok (fst rc) then new else content c))"
proof -
  have "failure (snd rc) \<noteq> None \<or> finishing_callback c = None" if "fst rc = Err e" for e
  proof (cases "can_close c")
    case False
    then show ?thesis using ok that by (simp add: core_ok_def core_result_def)
  qed (use inv in \<open>simp add: cell_inv_def\<close>)
  from conclude_spec [OF ok this] step show ?thesis
    by (cases "fst rc") (simp_all add: content_step_def)
qed

lemma complete_step:
  assumes "core_inv c"
  shows "cell_inv (snd (conclude (complete_if_ready c)))
    \<and> callback_step (finishing_callback c) (fired c) (snd (conclude (complete_if_ready c)))
    \<and> content (snd (conclude (complete_if_ready c))) = content c"
proof -
  obtain r c' where rc: "complete_if_ready c = (r, c')" by fastforce
  have "failure (snd (complete_if_ready c)) \<noteq> None \<or> finishing_callback c = None"
    if "fst (complete_if_ready c) = Err e" for e
    using complete_if_ready_err [of c e c'] that by (simp add: rc)
  from conclude_spec [OF complete_if_ready_ok [OF assms] this] show ?thesis
    using complete_if_ready_spec [OF rc assms] by (simp add: rc)
qed

lemma cell_inv_core: "cell_inv c \<Longrightarrow> core_inv c"
  by (simp add: cell_inv_def)

lemma set_file_length_step:
  assumes "cell_inv c"
  shows "cell_inv (set_file_length n c) \<and> callback_step (finishing_callback c) (fired c) (set_file_length n c)
    \<and> content (set_file_length n c) = content c"
proof -
  let ?c = "if \<not> length_known c then c\<lparr>file_length := n, length_known := True\<rparr> else c"
  have inv: "core_inv ?c" using assms by (auto simp: cell_inv_def core_inv_def)
  have "finishing_callback ?c = finishing_callback c" "fired ?c = fired c" "content ?c = content c"
    by (simp_all add: fired_def)
  then show ?thesis using complete_step [OF inv] unfolding set_file_length_def by simp
qed

lemma finish_received_step:
  assumes "cell_inv c"
  shows "cell_inv (finish_received n c) \<and> callback_step (finishing_callback c) (fired c) (finish_received n c)
    \<and> content (finish_received n c) = content c"
proof (cases "length_known c \<and> file_length c \<noteq> n")
  case True
  obtain e c1 where f: "state_fail (InvalidData, ''received length differs from declared length'') c = (e, c1)"
    by fastforce
  have "failure c1 = Some e" "core_inv c1" "fired c1 = fired c" "content c1 = content c"
    using f cell_inv_core [OF assms]
    by (auto simp: state_fail_def core_inv_def fired_def split: option.splits)
  then show ?thesis using True
    by (auto simp: finish_received_def f take_callback_def cell_inv_def callback_step_def waiting_def)
next
  case False
  then have "finish_received n c = set_file_length n c" by (auto simp: finish_received_def)
  then show ?thesis using set_file_length_step [OF assms] by simp
qed

lemma fw_step_ok:
  assumes inv: "cell_inv c"
  shows "step_ok x c"
proof (cases x)
  case (Write d)
  note w = write_core_spec [OF cell_inv_core [OF inv], of d]
  show ?thesis
    using concluded_step [OF inv conjunct1 [OF w] conjunct2 [OF w]]
    by (simp add: step_ok_def Write write_on_disk_def split_beta)
next
  case (Prepend d)
  note w = transfert_core_spec [OF cell_inv_core [OF inv], of d]
  show ?thesis
    using concluded_step [OF inv conjunct1 [OF w] conjunct2 [OF w]]
    by (simp add: step_ok_def Prepend transfert_bytes_from_temp_file_def map_ok_def split_beta)
next
  case Flush
  note w = flush_core_spec [OF cell_inv_core [OF inv]]
  show ?thesis
    using concluded_step [OF inv conjunct1 [OF w] conjunct2 [OF w]]
    by (simp add: step_ok_def Flush handle_flush_def map_ok_def split_beta)
next
  case (Set_Length n)
  then show ?thesis using set_file_length_step [OF inv] by (simp add: step_ok_def)
next
  case (Fin_Received n)
  then show ?thesis using finish_received_step [OF inv] by (simp add: step_ok_def)
next
  case (Register cb)
  have "core_inv (c\<lparr>finishing_callback := Some cb\<rparr>)" using cell_inv_core [OF inv] by simp
  from complete_step [OF this] show ?thesis
    by (simp add: step_ok_def Register register_finishing_callback_def)
qed

lemma cell_inv_new: "cell_inv (handle_new u p w len [] os q)"
  by (simp add: cell_inv_def core_inv_def handle_new_def content_def buffered_def)

text \<open>Once an operation has failed, the file is frozen.\<close>

lemma conclude_failed:
  "failure (snd rc) = Some e \<Longrightarrow> fst rc = Err e \<Longrightarrow>
     fired (snd (conclude rc)) = fired (snd rc) \<and> finishing_callback (snd (conclude rc)) = None"
  by (cases rc) (simp add: conclude_snd completion_callback_def take_callback_def waiting_def)

definition frozen :: "file_cell \<Rightarrow> file_cell \<Rightarrow> bool" where
  "frozen c c' \<longleftrightarrow> failure c' = failure c \<and> disk c' = disk c \<and> fwriter c' = fwriter c \<and> fired c' = fired c"

fun must_fail :: "fw_op \<Rightarrow> bool" where
  "must_fail (Write d) = True"
| "must_fail (Prepend d) = True"
| "must_fail Flush = True"
| "must_fail _ = False"

lemma failed_cores:
  assumes "failure c = Some e"
  shows "keep_failure (write_core d c) = (Err e, c)" "keep_failure (transfert_core d c) = (Err e, c)"
    "and_then (state_flush c) (\<lambda>_. complete_if_ready) = (Err e, c)" "complete_if_ready c = (Err e, c)"
  using assms
  by (simp_all add: write_core_def transfert_core_def state_flush_def and_then_def keep_failure_failed
      complete_if_ready_failed)

lemma frozen_conclude: "failure c = Some e \<Longrightarrow> frozen c (snd (conclude (Err e, c)))"
  using conclude_failed [of "(Err e, c)" e] by (simp add: frozen_def)

lemma frozen_complete:
  assumes "failure c = Some e" "frozen c c0"
  shows "frozen c (snd (conclude (complete_if_ready c0)))"
proof -
  have f: "failure c0 = Some e" using assms by (simp add: frozen_def)
  show ?thesis using frozen_conclude [OF f] assms(2) unfolding failed_cores(4) [OF f] frozen_def by simp
qed

lemma frozen_set_file_length: "failure c = Some e \<Longrightarrow> frozen c (set_file_length n c)"
  unfolding set_file_length_def by (rule frozen_complete) (simp_all add: frozen_def fired_def)

lemma fw_step_failed:
  assumes f: "failure c = Some e"
  shows "frozen c (snd (fw_step x c)) \<and> (must_fail x \<longrightarrow> \<not> fst (fw_step x c))"
proof (cases x)
  case (Set_Length n)
  then show ?thesis using frozen_set_file_length [OF f] by simp
next
  case (Fin_Received n)
  show ?thesis
  proof (cases "length_known c \<and> file_length c \<noteq> n")
    case True
    then show ?thesis using f
      by (simp add: Fin_Received finish_received_def take_callback_def frozen_def waiting_def)
  next
    case False
    have "finish_received n c = set_file_length n c" using False by (auto simp: finish_received_def)
    then show ?thesis
      using frozen_set_file_length [OF f] by (simp add: Fin_Received)
  qed
next
  case (Register cb)
  then show ?thesis
    using frozen_complete [OF f] by (simp add: register_finishing_callback_def frozen_def)
qed (use frozen_conclude [OF f] f in \<open>simp_all add: write_on_disk_def transfert_bytes_from_temp_file_def
    handle_flush_def map_ok_def failed_cores\<close>)

fun apply_ops :: "fw_op list \<Rightarrow> bool list \<Rightarrow> bytes \<Rightarrow> bytes" where
  "apply_ops (x # xs) (r # rs) bs = apply_ops xs rs (apply_op x r bs)"
| "apply_ops _ _ bs = bs"

lemma run_failed:
  "failure c = Some e \<Longrightarrow> frozen c (snd (run_ops fw_step xs c))
     \<and> list_all2 (\<lambda>x r. must_fail x \<longrightarrow> \<not> r) xs (fst (run_ops fw_step xs c))"
proof (induction xs arbitrary: c)
  case (Cons x xs)
  obtain r c' where s: "fw_step x c = (r, c')" by fastforce
  have "frozen c c'" "must_fail x \<longrightarrow> \<not> r" using fw_step_failed [OF Cons.prems, of x] s by simp_all
  moreover have "failure c' = Some e" using \<open>frozen c c'\<close> Cons.prems by (simp add: frozen_def)
  ultimately show ?case using Cons.IH [of c'] by (simp add: s split_beta frozen_def)
qed (simp add: frozen_def)

lemma run_content:
  "cell_inv c \<Longrightarrow> cell_inv (snd (run_ops fw_step xs c))
     \<and> (failure (snd (run_ops fw_step xs c)) = None \<longrightarrow>
          content (snd (run_ops fw_step xs c)) = apply_ops xs (fst (run_ops fw_step xs c)) (content c))"
proof (induction xs arbitrary: c)
  case (Cons x xs)
  obtain r c' where s: "fw_step x c = (r, c')" by fastforce
  have ok: "cell_inv c'" "failure c' = None \<longrightarrow> content c' = apply_op x r (content c)"
    using fw_step_ok [OF Cons.prems, of x] by (simp_all add: step_ok_def s)
  have "failure c' = None" if "failure (snd (run_ops fw_step xs c')) = None"
    using run_failed [of c' _ xs] that by (cases "failure c'") (auto simp: frozen_def)
  then show ?case using Cons.IH [OF ok(1)] ok(2) by (auto simp: s split_beta)
qed simp


text \<open>Every registered callback is waiting, fired, or was given up with the failed file.\<close>

definition registered :: "fw_op list \<Rightarrow> callback list" where
  "registered xs = concat (map (\<lambda>x. case x of Register cb \<Rightarrow> [cb] | _ \<Rightarrow> []) xs)"

definition track :: "callback list \<Rightarrow> file_cell \<Rightarrow> bool" where
  "track cbs c \<longleftrightarrow> cell_inv c \<and> fired c + waiting (finishing_callback c) \<subseteq># mset cbs
     \<and> (cbs = [] \<or> failure c \<noteq> None \<or> last cbs \<in># fired c + waiting (finishing_callback c))"

lemma next_slot_cases:
  "next_slot x slot = slot \<and> registered [x] = [] \<or> (\<exists>cb. next_slot x slot = Some cb \<and> registered [x] = [cb])"
  by (cases x) (simp_all add: registered_def)

lemma waiting_simps [simp]: "waiting None = {#}" "waiting (Some cb) = {#cb#}"
  by (simp_all add: waiting_def)

lemma callback_step_track:
  assumes "callback_step (next_slot x slot) old c" "old + waiting slot \<subseteq># mset cbs"
  shows "fired c + waiting (finishing_callback c) \<subseteq># mset (cbs @ registered [x])"
proof -
  have "old + waiting (next_slot x slot) \<subseteq># mset (cbs @ registered [x])"
    using next_slot_cases [of x slot] assms(2)
    by (auto intro: subset_mset.order_trans [OF _ mset_subset_eq_add_left] mset_subset_eq_mono_add
        dest: subset_mset.order_trans [OF mset_subset_eq_add_left])
  moreover have "fired c + waiting (finishing_callback c) \<subseteq># old + waiting (next_slot x slot)"
    using assms(1) by (auto simp: callback_step_def)
  ultimately show ?thesis by (rule subset_mset.order_trans [rotated])
qed

lemma track_step:
  assumes "track cbs c"
  shows "track (cbs @ registered [x]) (snd (fw_step x c))"
proof -
  let ?c = "snd (fw_step x c)"
  have inv: "cell_inv c" using assms by (simp add: track_def)
  have st: "cell_inv ?c" "callback_step (next_slot x (finishing_callback c)) (fired c) ?c"
    using fw_step_ok [OF inv, of x] by (simp_all add: step_ok_def split_beta)
  have last: "last (cbs @ registered [x]) \<in># fired ?c + waiting (finishing_callback ?c)"
    if "cbs @ registered [x] \<noteq> []" "failure ?c = None"
  proof -
    have "failure c = None"
      using that(2) fw_step_failed [of c _ x] by (cases "failure c") (auto simp: frozen_def)
    then have "last (cbs @ registered [x]) \<in># fired c + waiting (next_slot x (finishing_callback c))"
      using next_slot_cases [of x "finishing_callback c"] assms that(1) by (auto simp: track_def)
    then show ?thesis using st(2) that(2) by (auto simp: callback_step_def)
  qed
  show ?thesis
    using st(1) last callback_step_track [OF st(2)] assms unfolding track_def by blast
qed

lemma track_run: "track cbs c \<Longrightarrow> track (cbs @ registered xs) (snd (run_ops fw_step xs c))"
proof (induction xs arbitrary: cbs c)
  case (Cons x xs)
  have "track ((cbs @ registered [x]) @ registered xs) (snd (run_ops fw_step xs (snd (fw_step x c))))"
    by (rule Cons.IH [OF track_step [OF Cons.prems]])
  then show ?case by (simp add: split_beta registered_def)
qed (simp add: registered_def)



subsection \<open>Properties of a file\<close>

text \<open>
  C22. As long as no failure was recorded, the file (what is on disk followed by the buffer) is
  exactly the accepted writes in order, with the accepted early packets in front; a file reported
  complete has all of it on disk, an empty buffer and exactly the announced length.
\<close>

theorem file_content_exact:
  assumes "run_ops fw_step ops (handle_new u p w len [] os q) = (outs, c)" "failure c = None"
  shows "content c = apply_ops ops outs []
    \<and> (if can_close c then length_known c \<and> fwriter c = Some [] \<and> disk c = apply_ops ops outs []
         \<and> length (disk c) = file_length c else True)"
proof -
  note run = run_content [OF cell_inv_new [of u p w len os q], of ops, unfolded assms(1) fst_conv snd_conv]
  have "content (handle_new u p w len [] os q) = []" by (simp add: handle_new_def content_def buffered_def)
  with run assms(2) have cont: "content c = apply_ops ops outs []" by simp
  have inv: "core_inv c" using run cell_inv_core by blast
  show ?thesis
  proof (cases "can_close c")
    case True
    then have "fwriter c = Some []" "length_known c" "length (disk c) = file_length c"
      using inv by (auto simp: core_inv_def)
    then show ?thesis using cont by (simp add: content_def buffered_def)
  qed (use cont in simp)
qed

definition demo_ops :: "fw_op list" where
  "demo_ops = [Register 7, Write [1, 2], Fin_Received 2]"

definition demo_cell :: file_cell where
  "demo_cell = snd (run_ops fw_step demo_ops (handle_new 0 {0} 3 None [] [] True))"

lemmas fw_eval = write_on_disk_def write_core_def transfert_bytes_from_temp_file_def transfert_core_def
  finish_received_def set_file_length_def register_finishing_callback_def handle_new_def conclude_def
  completion_callback_def settle_def take_callback_def keep_failure_def failing_def state_fail_def
  state_flush_def bw_flush_def bw_write_all_def os_call_def os_next_def buffered_def complete_if_ready_def
  and_then_def dropping_def map_ok_def usize_limit_def

lemma demo_run:
  "run_ops fw_step demo_ops (handle_new 0 {0} 3 None [] [] True) = ([True, True, True], demo_cell)"
  "failure demo_cell = None" "can_close demo_cell" "disk demo_cell = [1, 2]"
  "finishing_callback demo_cell = None"
  by (simp_all add: demo_cell_def demo_ops_def fw_eval)

theorem file_content_exact_witness:
  "content demo_cell = [1, 2] \<and> file_length demo_cell = 2"
  using file_content_exact [OF demo_run(1,2)] demo_run(3,4) by (simp add: demo_ops_def)

text \<open>
  A failure is final: after it the file, its buffer and the recorded error never change,
  every later write, prepend and flush fails, no callback is fired any more, and the status
  query keeps reporting that first error.
\<close>

theorem write_failure_is_final:
  assumes "failure c = Some e" "run_ops fw_step ops c = (outs, c')"
  shows "failure c' = Some e \<and> disk c' = disk c \<and> fwriter c' = fwriter c \<and> fired c' = fired c
    \<and> is_file_written c' = Err (snd e) \<and> list_all2 (\<lambda>x r. \<not> must_fail x \<or> \<not> r) ops outs"
proof -
  have r: "frozen c c'" "list_all2 (\<lambda>x r. must_fail x \<longrightarrow> \<not> r) ops outs"
    using run_failed [OF assms(1), of ops] unfolding assms(2) fst_conv snd_conv by blast+
  have "failure c' = Some e" using r(1) assms(1) by (simp add: frozen_def)
  then have "is_file_written c' = Err (snd e)" by (simp add: is_file_written_def)
  with r \<open>failure c' = Some e\<close> show ?thesis unfolding frozen_def imp_conv_disj by blast
qed

definition failed_cell :: file_cell where
  "failed_cell = snd (write_on_disk [5, 6] (handle_new 0 {0} 3 (Some 1) [] [] True))"

theorem write_failure_is_final_witness:
  "failure (snd (run_ops fw_step [Write [5], Register 4] failed_cell))
     = Some (InvalidData, ''file exceeds expected length'')"
proof -
  have f: "failure failed_cell = Some (InvalidData, ''file exceeds expected length'')"
    by (simp add: failed_cell_def fw_eval)
  show ?thesis by (rule conjunct1 [OF write_failure_is_final [OF f prod.collapse [symmetric]]])
qed

text \<open>
  Whatever the order of writes, end of stream and registrations: a registered callback is
  fired at most once; the latest one is fired or still waiting unless the file failed; and none
  waits on a file that is complete or has failed.
\<close>

theorem finishing_callback_exact:
  assumes "c = snd (run_ops fw_step ops (handle_new u p w len [] os q))"
  shows "fired c + waiting (finishing_callback c) \<subseteq># mset (registered ops)
    \<and> (registered ops = [] \<or> failure c \<noteq> None
         \<or> last (registered ops) \<in># fired c + waiting (finishing_callback c))
    \<and> (finishing_callback c = None \<or> (\<not> can_close c \<and> failure c = None))"
proof -
  have "track [] (handle_new u p w len [] os q)"
    by (simp add: track_def cell_inv_new) (simp add: handle_new_def fired_def)
  from track_run [OF this, of ops] have "track (registered ops) c" by (simp add: assms)
  then show ?thesis unfolding track_def cell_inv_def by blast
qed

theorem finishing_callback_exact_witness:
  "7 \<in># fired demo_cell \<and> fired demo_cell \<subseteq># {#7#}"
proof -
  have "registered demo_ops = [7]" by (simp add: demo_ops_def registered_def)
  then show ?thesis
    using finishing_callback_exact [OF demo_cell_def] demo_run(2,5) by auto
qed


subsection \<open>The pool of writer threads\<close>

record FileWriterPool =
  pool_stream_map :: "(stream_id \<times> conn_id, usize) dashmap"
  workers_amount :: usize
  current_channel_available :: u8
  worker_queues :: "(uuid \<times> usize \<times> bytes) list list"

definition pool_new :: "usize \<Rightarrow> FileWriterPool" where
  "pool_new n = \<lparr>pool_stream_map = [], workers_amount = n, current_channel_available = 0,
     worker_queues = replicate n []\<rparr>"

definition get_worker_listener_by_index :: "usize \<Rightarrow> FileWriterPool \<Rightarrow> usize option" where
  "get_worker_listener_by_index index pool =
     (case list_get index (worker_queues pool) of Some w \<Rightarrow> Some index | None \<Rightarrow> None)"

definition get_worker_index_for_this_stream :: "stream_id \<Rightarrow> conn_id \<Rightarrow> FileWriterPool \<Rightarrow> usize option" where
  "get_worker_index_for_this_stream i c pool = dm_get (pool_stream_map pool) (i, c)"

definition associate_stream_with_next_listener :: "stream_id \<Rightarrow> conn_id \<Rightarrow> FileWriterPool \<Rightarrow> FileWriterPool" where
  "associate_stream_with_next_listener i c pool =
     (if dm_contains (pool_stream_map pool) (i, c) then pool
      else let worker_index = current_channel_available pool in
        pool\<lparr>current_channel_available := (worker_index + 1) mod of_nat (workers_amount pool),
             pool_stream_map := dm_or_insert (i, c) (unat worker_index) (pool_stream_map pool)\<rparr>)"

definition remove_completed_stream_from_map :: "stream_id \<Rightarrow> conn_id \<Rightarrow> FileWriterPool \<Rightarrow> FileWriterPool" where
  "remove_completed_stream_from_map i c pool =
     pool\<lparr>pool_stream_map := dm_remove (i, c) (pool_stream_map pool)\<rparr>"

text \<open>\<open>FileWriterListener::send_writable_item\<close>: the item joins the queue of its worker.\<close>

definition send_writable_item :: "usize \<Rightarrow> uuid \<times> usize \<times> bytes \<Rightarrow> FileWriterPool \<Rightarrow> FileWriterPool" where
  "send_writable_item index item pool =
     (case get_worker_listener_by_index index pool of
        Some k \<Rightarrow> pool\<lparr>worker_queues := (worker_queues pool)[k := worker_queues pool ! k @ [item]]\<rparr>
      | None \<Rightarrow> pool)"

definition create_file_writer_handle ::
  "bytes \<Rightarrow> outcome list \<Rightarrow> uuid \<Rightarrow> uuid set \<Rightarrow> bool \<Rightarrow> stream_id \<Rightarrow> conn_id \<Rightarrow> usize option \<Rightarrow> FileWriterPool
     \<Rightarrow> (string + file_cell) \<times> uuid set" where
  "create_file_writer_handle file os file_write_uuid pending q i c len pool =
     (case get_worker_index_for_this_stream i c pool of
        Some index \<Rightarrow> (Ok (handle_new file_write_uuid (insert file_write_uuid pending) index len file os q),
                       insert file_write_uuid pending)
      | None \<Rightarrow> (Err ''faces_quic_server error ! no filewriter created '', pending))"

definition pool_inv :: "FileWriterPool \<Rightarrow> bool" where
  "pool_inv pool \<longleftrightarrow> 0 < workers_amount pool \<and> workers_amount pool < 256
     \<and> length (worker_queues pool) = workers_amount pool
     \<and> unat (current_channel_available pool) < workers_amount pool
     \<and> (\<forall>k n. dm_get (pool_stream_map pool) k = Some n \<longrightarrow> n < workers_amount pool)"

lemma pool_inv_new: "0 < n \<Longrightarrow> n < 256 \<Longrightarrow> pool_inv (pool_new n)"
  by (simp add: pool_inv_def pool_new_def)

lemma pool_inv_associate [inv_intros]:
  assumes "pool_inv pool"
  shows "pool_inv (associate_stream_with_next_listener i c pool)"
proof -
  have "unat (of_nat (workers_amount pool) :: u8) = workers_amount pool"
    using assms by (simp add: pool_inv_def unat_of_nat_byte)
  then have "unat ((w + 1) mod of_nat (workers_amount pool) :: u8) < workers_amount pool" for w
    using assms by (simp add: unat_mod pool_inv_def)
  then show ?thesis
    using assms by (auto simp: pool_inv_def associate_stream_with_next_listener_def Let_def dm_or_insert_def)
qed

lemma pool_inv_remove [inv_intros]: "pool_inv pool \<Longrightarrow> pool_inv (remove_completed_stream_from_map i c pool)"
  by (auto simp: pool_inv_def remove_completed_stream_from_map_def)

lemma pool_inv_send [inv_intros]: "pool_inv pool \<Longrightarrow> pool_inv (send_writable_item k x pool)"
  by (auto simp: pool_inv_def send_writable_item_def split: option.split)

datatype pool_op =
    Associate stream_id conn_id
  | Send_Item usize "uuid \<times> usize \<times> bytes"
  | Release stream_id conn_id

fun pool_step :: "pool_op \<Rightarrow> FileWriterPool \<Rightarrow> FileWriterPool" where
  "pool_step (Associate i c) pool = associate_stream_with_next_listener i c pool"
| "pool_step (Send_Item k x) pool = send_writable_item k x pool"
| "pool_step (Release i c) pool = remove_completed_stream_from_map i c pool"

lemma pool_step_inv: "pool_inv pool \<Longrightarrow> pool_inv (pool_step x pool)"
  by (cases x) (simp_all add: inv_intros)

lemma pool_step_amount: "workers_amount (pool_step x pool) = workers_amount pool"
  by (cases x) (simp_all add: associate_stream_with_next_listener_def Let_def send_writable_item_def
      remove_completed_stream_from_map_def split: option.split)

lemma pool_step_index:
  "x \<noteq> Release i c \<Longrightarrow> get_worker_index_for_this_stream i c pool = Some n \<Longrightarrow>
     get_worker_index_for_this_stream i c (pool_step x pool) = Some n"
  by (cases x) (auto simp: get_worker_index_for_this_stream_def associate_stream_with_next_listener_def
      Let_def send_writable_item_def remove_completed_stream_from_map_def split: option.split)

lemma pool_run:
  "pool_inv pool \<Longrightarrow> Release i c \<notin> set ops \<Longrightarrow> get_worker_index_for_this_stream i c pool = Some n \<Longrightarrow>
     pool_inv (fold pool_step ops pool) \<and> workers_amount (fold pool_step ops pool) = workers_amount pool
     \<and> get_worker_index_for_this_stream i c (fold pool_step ops pool) = Some n"
proof (induction ops arbitrary: pool)
  case (Cons x ops)
  have "x \<noteq> Release i c" "Release i c \<notin> set ops" using Cons.prems(2) by auto
  from Cons.IH [OF pool_step_inv [OF Cons.prems(1)] this(2) pool_step_index [OF this(1) Cons.prems(3)]]
  show ?case by (simp add: pool_step_amount)
qed simp

lemma pool_listener:
  "pool_inv pool \<Longrightarrow> n < workers_amount pool \<Longrightarrow> get_worker_listener_by_index n pool = Some n"
  by (simp add: pool_inv_def get_worker_listener_by_index_def list_get_def)

text \<open>
  Once a stream is associated with a writer thread, every later operation of the pool that
  does not release the stream leaves it with that same thread, whose index is in range, so all
  its packets go through one FIFO queue and none is dropped for want of a worker.
\<close>

theorem worker_binding_stable:
  assumes "pool_inv pool" "Release i c \<notin> set ops"
  shows "\<exists>n < workers_amount pool.
     get_worker_index_for_this_stream i c (pool_step (Associate i c) pool) = Some n
     \<and> get_worker_index_for_this_stream i c (fold pool_step (Associate i c # ops) pool) = Some n
     \<and> get_worker_listener_by_index n (fold pool_step (Associate i c # ops) pool) = Some n"
proof -
  let ?p = "pool_step (Associate i c) pool"
  have inv: "pool_inv ?p" by (rule pool_step_inv [OF assms(1)])
  have "\<exists>n. get_worker_index_for_this_stream i c ?p = Some n"
    by (auto simp: get_worker_index_for_this_stream_def associate_stream_with_next_listener_def
        Let_def dm_contains_def)
  then obtain n where n: "get_worker_index_for_this_stream i c ?p = Some n" ..
  then have lt: "n < workers_amount ?p"
    using inv by (auto simp: pool_inv_def get_worker_index_for_this_stream_def)
  note run = pool_run [OF inv assms(2) n]
  have "get_worker_listener_by_index n (fold pool_step ops ?p) = Some n"
    using run lt by (intro pool_listener) simp_all
  then show ?thesis using n lt run pool_step_amount [of "Associate i c" pool] by auto
qed

theorem worker_binding_stable_witness:
  "\<exists>n < workers_amount (pool_new 8).
     get_worker_index_for_this_stream 4 ''c'' (pool_step (Associate 4 ''c'') (pool_new 8)) = Some n
     \<and> get_worker_index_for_this_stream 4 ''c''
          (fold pool_step (Associate 4 ''c'' # [Associate 8 ''c'', Release 8 ''c'']) (pool_new 8)) = Some n
     \<and> get_worker_listener_by_index n
          (fold pool_step (Associate 4 ''c'' # [Associate 8 ''c'', Release 8 ''c'']) (pool_new 8)) = Some n"
  by (rule worker_binding_stable) (simp_all add: pool_inv_new)

end
