(* ===== verification/RequestsTable.thy ===== *)
theory RequestsTable
  imports Routes FileWriter
begin

section \<open>The table of requests being received\<close>

text \<open>
  Model of \<open>src/route_handler/request_temp_table.rs\<close>. The state joins the table with what its
  operations change besides: the file cells of the open file writers, the pool of writer threads
  with their queues, and the list of notifications given to event listeners. Each operation is
  one atomic step (the \<open>DashMap\<close> entry is locked). The outside world of a step is an argument:
  the fresh names, whether the file could be created and the outcomes of its system calls.
  \<open>f32\<close> arithmetic is a parameter: \<open>ratio w t\<close> is \<open>w as f32 / t as f32\<close>, \<open>percent\<close> is
  \<open>(x * 100.0) as usize\<close>.
\<close>

record ('l, 'f) PartialReq =
  pq_conn_id :: conn_id
  pq_stream_id :: stream_id
  pq_headers :: "h3_header list option"
  pq_method :: "H3Method option"
  pq_data_management_type :: "DataManagement option"
  pq_event_subscriber :: "'l option"
  pq_storage_path :: "path_buf option"
  pq_file_opened :: "uuid option"
  pq_path :: "string option"
  pq_args :: "ReqArgs option"
  pq_body_written_size :: usize
  pq_content_length :: "usize option"
  pq_precedent_percentage_written :: "'f option"
  pq_progress_header_sent :: bool
  pq_body :: bytes
  pq_is_end :: bool

type_synonym req_id = "conn_id \<times> stream_id"

record ('l, 'f) requests_state =
  table :: "(req_id, ('l, 'f) PartialReq) dashmap"
  files :: "(uuid, file_cell) dashmap"
  pool :: FileWriterPool
  notified :: "('l \<times> RouteEvent) list"

record io_env =
  env_uuid :: string
  env_handle :: uuid
  env_create_ok :: bool
  env_outcomes :: "outcome list"

definition requests_new :: "FileWriterPool \<Rightarrow> ('l, 'f) requests_state" where
  "requests_new p = \<lparr>table = [], files = [], pool = p, notified = []\<rparr>"


subsection \<open>One request\<close>

definition partial_req_new ::
  "conn_id \<Rightarrow> stream_id \<Rightarrow> H3Method option \<Rightarrow> DataManagement option \<Rightarrow> 'l option \<Rightarrow> path_buf option \<Rightarrow>
   uuid option \<Rightarrow> h3_header list option \<Rightarrow> string option \<Rightarrow> usize option \<Rightarrow> bool \<Rightarrow> ('l, 'f) PartialReq" where
  "partial_req_new c i method dm sub storage file_opened headers path len is_end =
     (case path of
        Some path \<Rightarrow>
          let (p, args) = parse_args path in
          \<lparr>pq_conn_id = c, pq_stream_id = i, pq_headers = headers, pq_method = method,
           pq_data_management_type = dm, pq_event_subscriber = sub, pq_storage_path = storage,
           pq_file_opened = file_opened, pq_path = Some p, pq_args = args, pq_body_written_size = 0,
           pq_content_length = len, pq_precedent_percentage_written = None,
           pq_progress_header_sent = False, pq_body = [], pq_is_end = is_end\<rparr>
      | None \<Rightarrow>
          \<lparr>pq_conn_id = c, pq_stream_id = i, pq_headers = None, pq_method = None,
           pq_data_management_type = dm, pq_event_subscriber = sub, pq_storage_path = storage,
           pq_file_opened = file_opened, pq_path = None, pq_args = None, pq_body_written_size = 0,
           pq_content_length = len, pq_precedent_percentage_written = None,
           pq_progress_header_sent = False, pq_body = [], pq_is_end = is_end\<rparr>)"

definition extend_data :: "bytes \<Rightarrow> bool \<Rightarrow> ('l, 'f) PartialReq \<Rightarrow> ('l, 'f) PartialReq" where
  "extend_data packet is_end r =
     r\<lparr>pq_is_end := is_end, pq_body_written_size := pq_body_written_size r + length packet,
       pq_body := pq_body r @ packet\<rparr>"

text \<open>\<open>write_file\<close>: the packet joins the queue of the writer's thread.\<close>

definition write_file ::
  "bytes \<Rightarrow> usize \<Rightarrow> bool \<Rightarrow> (uuid, file_cell) dashmap \<Rightarrow> FileWriterPool \<Rightarrow> ('l, 'f) PartialReq
     \<Rightarrow> FileWriterPool \<times> ('l, 'f) PartialReq" where
  "write_file packet packet_id is_end fs p r =
     (let r1 = r\<lparr>pq_is_end := is_end\<rparr> in
      case pq_file_opened r1 of
        Some h \<Rightarrow>
          (case dm_get fs h of
             Some cell \<Rightarrow> send_writable_item (associated_worker_index cell) (h, packet_id, packet) p
           | None \<Rightarrow> p,
           r1\<lparr>pq_body_written_size := pq_body_written_size r1 + length packet\<rparr>)
      | None \<Rightarrow> (p, r1))"

definition flush_and_prefix_with_temp_buffer_if_any_bytes ::
  "(uuid, file_cell) dashmap \<Rightarrow> ('l, 'f) PartialReq \<Rightarrow> (uuid, file_cell) dashmap \<times> ('l, 'f) PartialReq" where
  "flush_and_prefix_with_temp_buffer_if_any_bytes fs r =
     (if pq_body r = [] then (fs, r)
      else let first_bytes = pq_body r; r1 = r\<lparr>pq_body := []\<rparr> in
        case (pq_storage_path r1, pq_file_opened r1) of
          (Some storage_path, Some h) \<Rightarrow>
            (dm_modify h (\<lambda>cell. snd (transfert_bytes_from_temp_file first_bytes cell)) fs, r1)
        | _ \<Rightarrow> (fs, r1))"

definition to_route_event ::
  "stream_id \<Rightarrow> scid \<Rightarrow> conn_id \<Rightarrow> EventType \<Rightarrow> (uuid, file_cell) dashmap \<Rightarrow> ('l, 'f) PartialReq
     \<Rightarrow> RouteEvent option \<times> (uuid, file_cell) dashmap" where
  "to_route_event i s c event_type fs r =
     (case (pq_method r, pq_headers r, pq_path r) of
        (Some method, Some headers, Some path) \<Rightarrow>
          let fs1 = (case (event_type, pq_file_opened r) of
                       (OnFinished_Type, Some h) \<Rightarrow> dm_modify h (finish_received (pq_body_written_size r)) fs
                     | _ \<Rightarrow> fs)
          in (case event_type of
                OnHeader_Type \<Rightarrow> Some (OnHeader (header_event_new i c s path method headers (pq_args r)))
              | OnFinished_Type \<Rightarrow>
                  Some (OnFinished (finished_event_new i c s path method headers (pq_args r)
                    (pq_storage_path r) (pq_file_opened r) (pq_body_written_size r) (Some (pq_body r)) (pq_is_end r)))
              | OnData_Type \<Rightarrow> None, fs1)
      | _ \<Rightarrow> (None, fs))"


subsection \<open>Operations of the table\<close>

definition discard_request :: "conn_id \<Rightarrow> stream_id \<Rightarrow> ('l, 'f) requests_state \<Rightarrow> ('l, 'f) requests_state" where
  "discard_request c i st = st\<lparr>table := dm_remove (c, i) (table st)\<rparr>"

definition discard_connection :: "conn_id \<Rightarrow> ('l, 'f) requests_state \<Rightarrow> ('l, 'f) requests_state" where
  "discard_connection c st = st\<lparr>table := dm_retain (\<lambda>(connection, _). connection \<noteq> c) (table st)\<rparr>"

definition set_intermediate_headers_send ::
  "stream_id \<Rightarrow> conn_id \<Rightarrow> ('l, 'f) requests_state \<Rightarrow> ('l, 'f) requests_state" where
  "set_intermediate_headers_send i c st =
     st\<lparr>table := dm_modify (c, i) (\<lambda>e. e\<lparr>pq_progress_header_sent := True\<rparr>) (table st)\<rparr>"

definition complete_request_entry_in_table ::
  "stream_id \<Rightarrow> conn_id \<Rightarrow> H3Method \<Rightarrow> string \<Rightarrow> h3_header list \<Rightarrow> usize option \<Rightarrow> DataManagement option \<Rightarrow>
   'l option \<Rightarrow> path_buf option \<Rightarrow> uuid option \<Rightarrow> ('l, 'f) requests_state \<Rightarrow> ('l, 'f) requests_state" where
  "complete_request_entry_in_table i c method path headers len dm sub storage file_open st =
     st\<lparr>table := dm_modify (c, i)
       (\<lambda>e. e\<lparr>pq_method := Some method, pq_path := Some path, pq_event_subscriber := sub,
              pq_data_management_type := dm, pq_storage_path := storage, pq_file_opened := file_open,
              pq_content_length := len, pq_headers := Some headers\<rparr>) (table st)\<rparr>"

definition is_entry_partial_reponse_set :: "stream_id \<Rightarrow> conn_id \<Rightarrow> ('l, 'f) requests_state \<Rightarrow> bool" where
  "is_entry_partial_reponse_set i c st = (case dm_get (table st) (c, i) of Some _ \<Rightarrow> True | None \<Rightarrow> False)"

definition get_path_and_method_and_content_length ::
  "stream_id \<Rightarrow> conn_id \<Rightarrow> ('l, 'f) requests_state \<Rightarrow> (string \<times> H3Method \<times> h3_header list \<times> usize option) option" where
  "get_path_and_method_and_content_length i c st =
     (case dm_get (table st) (c, i) of
        Some e \<Rightarrow> (case (pq_path e, pq_headers e, pq_method e) of
                     (Some p, Some hs, Some m) \<Rightarrow> Some (p, m, hs, pq_content_length e)
                   | _ \<Rightarrow> None)
      | None \<Rightarrow> None)"

record 'f ReceptionStatus =
  st_percentage_written :: "'f option"
  st_written :: "usize option"
  st_total :: "usize option"

definition get_reception_status_infos ::
  "(usize \<Rightarrow> usize \<Rightarrow> 'f) \<Rightarrow> ('f \<Rightarrow> usize) \<Rightarrow> stream_id \<Rightarrow> conn_id \<Rightarrow> ('l, 'f) requests_state
     \<Rightarrow> ('f ReceptionStatus \<times> bool) option \<times> ('l, 'f) requests_state" where
  "get_reception_status_infos ratio percent i c st =
     (case dm_get (table st) (c, i) of
        Some e \<Rightarrow>
          (case pq_content_length e of
             Some len \<Rightarrow>
               let w = pq_body_written_size e; pw = ratio w len;
                   st1 = st\<lparr>table := dm_insert (c, i) (e\<lparr>pq_precedent_percentage_written := Some pw\<rparr>) (table st)\<rparr>;
                   full = \<lparr>st_percentage_written = Some pw, st_written = Some w, st_total = Some len\<rparr>;
                   none = \<lparr>st_percentage_written = None, st_written = None, st_total = None\<rparr>
               in (case pq_precedent_percentage_written e of
                     Some prec \<Rightarrow> if percent prec = percent pw
                                  then (Some (none, pq_progress_header_sent e), st1)
                                  else (Some (full, pq_progress_header_sent e), st1)
                   | None \<Rightarrow> (Some (full, pq_progress_header_sent e), st1))
           | None \<Rightarrow> (None, st))
      | None \<Rightarrow> (None, st))"

definition build_route_event ::
  "conn_id \<Rightarrow> scid \<Rightarrow> stream_id \<Rightarrow> EventType \<Rightarrow> ('l, 'f) requests_state \<Rightarrow> (unit + RouteEvent) \<times> ('l, 'f) requests_state" where
  "build_route_event c s i event_type st =
     (case dm_get (table st) (c, i) of
        Some r \<Rightarrow>
          let (fs1, r1) = (case pq_data_management_type r of
                             Some (Storage File) \<Rightarrow> flush_and_prefix_with_temp_buffer_if_any_bytes (files st) r
                           | _ \<Rightarrow> (files st, r));
              (ev, fs2) = to_route_event i s c event_type fs1 r1
          in (case ev of Some e \<Rightarrow> Ok e | None \<Rightarrow> Err (),
              st\<lparr>files := fs2, table := dm_remove (c, i) (table st)\<rparr>)
      | None \<Rightarrow> (Err (), st))"

definition notify :: "'l option \<Rightarrow> RouteEvent \<Rightarrow> ('l, 'f) requests_state \<Rightarrow> ('l, 'f) requests_state" where
  "notify sub ev st = (case sub of Some l \<Rightarrow> st\<lparr>notified := notified st @ [(l, ev)]\<rparr> | None \<Rightarrow> st)"

definition write_body_packet ::
  "conn_id \<Rightarrow> scid \<Rightarrow> stream_id \<Rightarrow> bytes \<Rightarrow> bool \<Rightarrow> ('l, 'f) requests_state
     \<Rightarrow> (unit + usize) \<times> ('l, 'f) requests_state" where
  "write_body_packet c s i packet is_end st =
     (case dm_get (table st) (c, i) of
        Some e \<Rightarrow>
          (case pq_data_management_type e of
             Some Stream \<Rightarrow>
               (Err (), notify (pq_event_subscriber e) (OnData (data_event_new i s c packet is_end)) st)
           | Some (Storage InMemory) \<Rightarrow>
               let e1 = extend_data packet is_end e in
               (Ok (pq_body_written_size e1), st\<lparr>table := dm_insert (c, i) e1 (table st)\<rparr>)
           | Some (Storage File) \<Rightarrow>
               let st1 = notify (pq_event_subscriber e) (OnData (data_event_new i s c packet is_end)) st;
                   pool1 = associate_stream_with_next_listener i c (pool st1);
                   (fs1, e1) = flush_and_prefix_with_temp_buffer_if_any_bytes (files st1) e;
                   (pool2, e2) = write_file packet 0 is_end fs1 pool1 e1
               in (Ok (pq_body_written_size e2),
                   st1\<lparr>pool := pool2, files := fs1, table := dm_insert (c, i) e2 (table st1)\<rparr>)
           | None \<Rightarrow> (Err (), st))
      | None \<Rightarrow> (Err (), st))"

text \<open>\<open>PathBuf::push\<close> of a relative name.\<close>

definition path_push :: "path_buf \<Rightarrow> string \<Rightarrow> path_buf" where
  "path_push p n = (if p = [] \<or> last p = CHR ''/'' then p @ n else p @ CHR ''/'' # n)"

text \<open>
  Creating the storage file: the outer option is \<open>None\<close> when the operation returns early because
  no writer handle could be made.
\<close>

definition open_storage ::
  "path_buf \<Rightarrow> io_env \<Rightarrow> string \<Rightarrow> stream_id \<Rightarrow> conn_id \<Rightarrow> usize option \<Rightarrow> ('l, 'f) requests_state
     \<Rightarrow> (path_buf \<times> uuid option) option \<times> ('l, 'f) requests_state" where
  "open_storage storage env extension i c len st =
     (let path = path_push storage (env_uuid env @ extension);
          st1 = st\<lparr>pool := associate_stream_with_next_listener i c (pool st)\<rparr>
      in if env_create_ok env
         then (case fst (create_file_writer_handle [] (env_outcomes env) (env_handle env) {} True i c len (pool st1)) of
                 Inr cell \<Rightarrow> (Some (path, Some (env_handle env)),
                              st1\<lparr>files := dm_insert (env_handle env) cell (files st1)\<rparr>)
               | Inl _ \<Rightarrow> (None, st1))
         else (Some (path, None), st1))"

definition add_partial_request_before_header_treatment ::
  "path_buf \<Rightarrow> io_env \<Rightarrow> conn_id \<Rightarrow> stream_id \<Rightarrow> DataManagement option \<Rightarrow> 'l option \<Rightarrow> bool
     \<Rightarrow> ('l, 'f) requests_state \<Rightarrow> ('l, 'f) requests_state" where
  "add_partial_request_before_header_treatment storage env c i dm sub is_end st =
     (case dm_get (table st) (c, i) of
        Some _ \<Rightarrow> st
      | None \<Rightarrow>
          let (opened, st1) =
            (case dm of
               Some (Storage File) \<Rightarrow>
                 (case open_storage storage env [] i c None st of
                    (Some (p, h), st1) \<Rightarrow> (Some (Some p, h), st1)
                  | (None, st1) \<Rightarrow> (None, st1))
             | _ \<Rightarrow> (Some (None, None), st))
          in case opened of
               None \<Rightarrow> st1
             | Some (storage_path, file_opened) \<Rightarrow>
                 st1\<lparr>table := dm_or_insert (c, i)
                   (partial_req_new c i None dm sub storage_path file_opened None None None is_end) (table st1)\<rparr>)"

definition storage_extension :: "h3_header list \<Rightarrow> string" where
  "storage_extension headers =
     (case find (\<lambda>h. hname h = ''content-type'') headers of
        Some h \<Rightarrow> if hvalue h = ''text/plain'' then ''.txt'' else []
      | None \<Rightarrow> [])"

definition add_partial_request ::
  "path_buf \<Rightarrow> io_env \<Rightarrow> conn_id \<Rightarrow> stream_id \<Rightarrow> H3Method \<Rightarrow> DataManagement option \<Rightarrow> 'l option \<Rightarrow> h3_header list
     \<Rightarrow> string \<Rightarrow> usize option \<Rightarrow> bool \<Rightarrow> ('l, 'f) requests_state \<Rightarrow> ('l, 'f) requests_state" where
  "add_partial_request storage env c i method dm sub headers path len is_end st =
     (case dm_get (table st) (c, i) of
        Some e \<Rightarrow>
          st\<lparr>table := dm_insert (c, i)
            (e\<lparr>pq_headers := Some headers, pq_path := Some path, pq_content_length := len, pq_method := Some method\<rparr>)
            (table st)\<rparr>
      | None \<Rightarrow>
          let (opened, st1) =
            (case dm of
               Some (Storage File) \<Rightarrow>
                 (case open_storage storage env (storage_extension headers) i c len st of
                    (Some (p, h), st1) \<Rightarrow> (Some (Some p, h), st1)
                  | (None, st1) \<Rightarrow> (None, st1))
             | _ \<Rightarrow> (Some (None, None), st))
          in case opened of
               None \<Rightarrow> st1
             | Some (storage_path, file_opened) \<Rightarrow>
                 st1\<lparr>table := dm_or_insert (c, i)
                   (partial_req_new c i (Some method) dm sub storage_path file_opened (Some headers) (Some path) len is_end)
                   (table st1)\<rparr>)"



subsection \<open>Entries live and die independently\<close>

definition req_live :: "('l, 'f) requests_state \<Rightarrow> conn_id \<Rightarrow> stream_id \<Rightarrow> bool" where
  "req_live st c i \<longleftrightarrow> dm_contains (table st) (c, i)"

interpretation requests: request_scoped req_live discard_request discard_connection
  by unfold_locales (auto simp: req_live_def discard_request_def discard_connection_def)

lemma notify_sel [simp]: "table (notify sub ev st) = table st" "files (notify sub ev st) = files st"
  "pool (notify sub ev st) = pool st"
  by (simp_all add: notify_def split: option.split)

text \<open>The operations that a packet, a late header or an answer runs on the table.\<close>

datatype 'l req_op =
    Write_Packet conn_id scid stream_id bytes bool
  | Complete_Entry stream_id conn_id H3Method string "h3_header list" "usize option" "DataManagement option"
      "'l option" "path_buf option" "uuid option"
  | Header_Sent stream_id conn_id
  | Build_Event conn_id scid stream_id EventType
  | Reception_Status stream_id conn_id
  | Discard_Request conn_id stream_id
  | Discard_Connection conn_id

fun req_step ::
  "(usize \<Rightarrow> usize \<Rightarrow> 'f) \<Rightarrow> ('f \<Rightarrow> usize) \<Rightarrow> 'l req_op \<Rightarrow> ('l, 'f) requests_state \<Rightarrow> ('l, 'f) requests_state" where
  "req_step ratio percent (Write_Packet c s i p e) st = snd (write_body_packet c s i p e st)"
| "req_step ratio percent (Complete_Entry i c m p hs len dm sub sp h) st
     = complete_request_entry_in_table i c m p hs len dm sub sp h st"
| "req_step ratio percent (Header_Sent i c) st = set_intermediate_headers_send i c st"
| "req_step ratio percent (Build_Event c s i et) st = snd (build_route_event c s i et st)"
| "req_step ratio percent (Reception_Status i c) st = snd (get_reception_status_infos ratio percent i c st)"
| "req_step ratio percent (Discard_Request c i) st = discard_request c i st"
| "req_step ratio percent (Discard_Connection c) st = discard_connection c st"

lemma write_body_packet_live:
  "req_live (snd (write_body_packet c s i p e st)) c' i' = req_live st c' i'"
proof (cases "dm_get (table st) (c, i)")
  case (Some r)
  have "dm_contains (table st) (c, i)" by (simp add: dm_contains_def Some)
  then show ?thesis
    by (auto simp: write_body_packet_def req_live_def Some Let_def
        split: option.splits DataManagement.splits BodyStorage.splits prod.splits)
qed (simp add: write_body_packet_def)

lemma build_route_event_live:
  "req_live (snd (build_route_event c s i et st)) c' i' \<Longrightarrow> req_live st c' i'"
  by (auto simp: build_route_event_def req_live_def Let_def split: option.splits prod.splits)

lemma reception_status_live:
  "req_live (snd (get_reception_status_infos ratio percent i c st)) c' i' = req_live st c' i'"
  by (auto simp: get_reception_status_infos_def req_live_def Let_def dm_contains_def
      split: option.splits if_splits)

lemma req_step_live:
  "req_live (req_step ratio percent x st) c i \<Longrightarrow> req_live st c i"
proof (cases x)
  case (Complete_Entry i c m p hs len dm sub sp h)
  then show "req_live (req_step ratio percent x st) c' i' \<Longrightarrow> req_live st c' i'" for c' i'
    by (simp add: complete_request_entry_in_table_def req_live_def)
next
  case (Header_Sent i c)
  then show "req_live (req_step ratio percent x st) c' i' \<Longrightarrow> req_live st c' i'" for c' i'
    by (simp add: set_intermediate_headers_send_def req_live_def)
qed (auto simp: write_body_packet_live reception_status_live requests.live_drop_request
    requests.live_drop_connection dest: build_route_event_live)

lemma req_run_live:
  "req_live (fold (req_step ratio percent) xs st) c i \<Longrightarrow> req_live st c i"
  by (induction xs arbitrary: st) (auto dest: req_step_live)

text \<open>
  A discarded connection stays gone: packets, late headers, status queries and answers that
  are still under way never bring one of its requests back into the table.
\<close>

theorem discarded_connection_stays_gone:
  "\<not> req_live (fold (req_step ratio percent) ops (discard_connection c st)) c i"
  using req_run_live [of ratio percent ops "discard_connection c st" c i]
  by (auto simp: requests.live_drop_connection)


subsection \<open>The body of a request kept in memory\<close>

type_synonym packet_in = "conn_id \<times> scid \<times> stream_id \<times> bytes \<times> bool"

definition write_in :: "packet_in \<Rightarrow> ('l, 'f) requests_state \<Rightarrow> ('l, 'f) requests_state" where
  "write_in w st = (case w of (c, s, i, p, e) \<Rightarrow> snd (write_body_packet c s i p e st))"

definition packets_of :: "conn_id \<Rightarrow> stream_id \<Rightarrow> packet_in list \<Rightarrow> bytes" where
  "packets_of c i ws = concat (map (\<lambda>(_, _, _, p, _). p) (filter (\<lambda>(c', _, i', _, _). c' = c \<and> i' = i) ws))"

lemma write_other:
  "(c', i') \<noteq> (c, i) \<Longrightarrow>
     dm_get (table (snd (write_body_packet c' s i' p e st))) (c, i) = dm_get (table st) (c, i)"
  by (auto simp: write_body_packet_def Let_def
      split: option.splits DataManagement.splits BodyStorage.splits prod.splits)

lemma write_in_memory:
  "dm_get (table st) (c, i) = Some r \<Longrightarrow> pq_data_management_type r = Some (Storage InMemory) \<Longrightarrow>
     dm_get (table (snd (write_body_packet c s i p e st))) (c, i) = Some (extend_data p e r)"
  by (simp add: write_body_packet_def Let_def)

text \<open>What the packets of a request add to its entry, whatever else arrives in between.\<close>

definition grown :: "bytes \<Rightarrow> ('l, 'f) PartialReq \<Rightarrow> ('l, 'f) PartialReq \<Rightarrow> bool" where
  "grown bs r r' \<longleftrightarrow> pq_body r' = pq_body r @ bs \<and> pq_body_written_size r' = pq_body_written_size r + length bs
     \<and> pq_path r' = pq_path r \<and> pq_method r' = pq_method r \<and> pq_headers r' = pq_headers r \<and> pq_args r' = pq_args r
     \<and> pq_data_management_type r' = pq_data_management_type r \<and> pq_storage_path r' = pq_storage_path r
     \<and> pq_file_opened r' = pq_file_opened r"

lemma writes_in_memory:
  "dm_get (table st) (c, i) = Some r \<Longrightarrow> pq_data_management_type r = Some (Storage InMemory) \<Longrightarrow>
     \<exists>r'. dm_get (table (fold write_in ws st)) (c, i) = Some r' \<and> grown (packets_of c i ws) r r'"
proof (induction ws arbitrary: st r)
  case Nil
  then show ?case by (simp add: packets_of_def grown_def)
next
  case (Cons w ws)
  obtain c' s' i' p e where w: "w = (c', s', i', p, e)" by (cases w)
  show ?case
  proof (cases "(c', i') = (c, i)")
    case True
    let ?r = "extend_data p e r"
    have get: "dm_get (table (write_in w st)) (c, i) = Some ?r"
      using write_in_memory [OF Cons.prems] True by (simp add: w write_in_def)
    have dm: "pq_data_management_type ?r = Some (Storage InMemory)"
      using Cons.prems(2) by (simp add: extend_data_def)
    have "packets_of c i (w # ws) = p @ packets_of c i ws"
      using True by (simp add: packets_of_def w)
    then show ?thesis
      using Cons.IH [OF get dm] by (auto simp: grown_def extend_data_def)
  next
    case False
    have get: "dm_get (table (write_in w st)) (c, i) = Some r"
      using write_other [OF False, of s' p e st] Cons.prems(1) by (simp add: w write_in_def)
    have "packets_of c i (w # ws) = packets_of c i ws"
      using False by (auto simp: packets_of_def w)
    then show ?thesis using Cons.IH [OF get Cons.prems(2)] by simp
  qed
qed

lemma build_in_memory:
  assumes "dm_get (table st) (c, i) = Some r" "pq_data_management_type r = Some (Storage InMemory)"
    "pq_method r = Some m" "pq_headers r = Some hs" "pq_path r = Some p"
  shows "fst (build_route_event c s i OnFinished_Type st) = Ok (OnFinished (finished_event_new i c s p m hs
     (pq_args r) (pq_storage_path r) (pq_file_opened r) (pq_body_written_size r) (Some (pq_body r)) (pq_is_end r)))"
    and "\<not> req_live (snd (build_route_event c s i OnFinished_Type st)) c i"
  using assms by (simp_all add: build_route_event_def to_route_event_def req_live_def)


definition demo_env :: io_env where
  "demo_env = \<lparr>env_uuid = ''u'', env_handle = 0, env_create_ok = True, env_outcomes = []\<rparr>"


text \<open>
  Body packets that overtake the headers are kept: when the headers arrive later, the event
  still has the whole body. But the path is then stored as received, query string included, and
  no parameters are parsed, so that a request with a query string reaches no handler.
\<close>

theorem early_packets_kept_query_lost:
  assumes "\<not> req_live st c i"
    and st': "st' = fold write_in late (complete_request_entry_in_table i c m path hs len (Some (Storage InMemory)) sub None None
           (fold write_in early
             (add_partial_request_before_header_treatment storage env c i (Some data_management_default) None e st)))"
  shows "\<exists>ev. fst (build_route_event c s i OnFinished_Type st') = Ok (OnFinished ev)
    \<and> fe_body ev = packets_of c i early @ packets_of c i late
    \<and> fe_path ev = path \<and> fe_args ev = None
    \<and> (dm_get d (path, m) \<noteq> None \<or> dispatch_finished call d ev w = Some (OK200, w))"
proof -
  let ?r = "partial_req_new c i None (Some (Storage InMemory)) None None None None None None e :: ('a, 'b) PartialReq"
  have none: "dm_get (table st) (c, i) = None" using assms(1) by (simp add: req_live_def dm_contains_def)
  have "dm_get (table (add_partial_request_before_header_treatment storage env c i (Some data_management_default) None e st))
      (c, i) = Some ?r"
    by (simp add: add_partial_request_before_header_treatment_def none data_management_default_def body_storage_default_def)
  moreover have "pq_data_management_type ?r = Some (Storage InMemory)" by (simp add: partial_req_new_def)
  ultimately obtain r1 where r1: "dm_get (table (fold write_in early
        (add_partial_request_before_header_treatment storage env c i (Some data_management_default) None e st))) (c, i) = Some r1"
      "grown (packets_of c i early) ?r r1"
    using writes_in_memory by blast
  let ?r2 = "r1\<lparr>pq_method := Some m, pq_path := Some path, pq_event_subscriber := sub,
              pq_data_management_type := Some (Storage InMemory), pq_storage_path := None, pq_file_opened := None,
              pq_content_length := len, pq_headers := Some hs\<rparr>"
  have r2: "dm_get (table (complete_request_entry_in_table i c m path hs len (Some (Storage InMemory)) sub None None
           (fold write_in early
             (add_partial_request_before_header_treatment storage env c i (Some data_management_default) None e st))))
        (c, i) = Some ?r2"
    using r1(1) by (simp add: complete_request_entry_in_table_def)
  obtain r3 where r3: "dm_get (table st') (c, i) = Some r3" "grown (packets_of c i late) ?r2 r3"
    using writes_in_memory [OF r2, of late] unfolding st' by auto
  have sel: "pq_data_management_type r3 = Some (Storage InMemory)" "pq_method r3 = Some m" "pq_headers r3 = Some hs"
    "pq_path r3 = Some path" "pq_args r3 = None" "pq_body r3 = packets_of c i early @ packets_of c i late"
    using r1(2) r3(2) by (simp_all add: grown_def partial_req_new_def)
  show ?thesis
    using build_in_memory(1) [OF r3(1) sel(1-4), of s] sel(5,6)
    by (auto simp: finished_event_new_def dispatch_finished_def split: option.splits)
qed

theorem early_packets_kept_query_lost_witness:
  "\<exists>ev. fst (build_route_event ''c'' [1] 4 OnFinished_Type
     (fold write_in [(''c'', [1], 4, [3], True)]
       (complete_request_entry_in_table 4 ''c'' POST ''/a?x=1'' [] None (Some (Storage InMemory)) None None None
         (fold write_in [(''c'', [1], 4, [1, 2], False)]
           (add_partial_request_before_header_treatment [] demo_env ''c'' 4 (Some data_management_default) None False
             (requests_new (pool_new 8) :: (unit, unit) requests_state)))))) = Ok (OnFinished ev)
     \<and> fe_body ev = [1, 2, 3] \<and> fe_path ev = ''/a?x=1''"
proof -
  have "\<not> req_live (requests_new (pool_new 8) :: (unit, unit) requests_state) ''c'' 4"
    by (simp add: requests_new_def req_live_def)
  from early_packets_kept_query_lost [OF this refl, where late = "[(''c'', [1], 4, [3], True)]"
        and early = "[(''c'', [1], 4, [1, 2], False)]" and storage = "[]" and env = demo_env and m = POST and sub = None
        and hs = "[]" and path = "''/a?x=1''" and len = None and e = False and s = "[1]" and d = "[]"
        and call = demo_call and w = "[]"]
  show ?thesis by (auto simp: packets_of_def)
qed

text \<open>
  Once such a request is stored in a file, its early packets are written in front of the file
  before the next packet joins the queue of the writer thread, and are not written again.
\<close>

theorem early_packets_prefix_file:
  assumes "dm_get (table st) (c, i) = Some r" "pq_data_management_type r = Some (Storage File)"
    and "pq_storage_path r = Some sp" "pq_file_opened r = Some h" "dm_get (files st) h = Some cell"
    and "pq_body r \<noteq> []"
  shows "let st' = snd (write_body_packet c s i packet is_end st) in
    dm_get (files st') h = Some (snd (transfert_bytes_from_temp_file (pq_body r) cell))
    \<and> map_option pq_body (dm_get (table st') (c, i)) = Some []
    \<and> pool st' = send_writable_item
        (associated_worker_index (snd (transfert_bytes_from_temp_file (pq_body r) cell))) (h, 0, packet)
        (associate_stream_with_next_listener i c (pool st))"
  using assms
  by (simp add: write_body_packet_def flush_and_prefix_with_temp_buffer_if_any_bytes_def write_file_def Let_def)

definition demo_early :: "(unit, unit) requests_state" where
  "demo_early = \<lparr>table = [((''c'', 4),
       (partial_req_new ''c'' 4 None (Some (Storage File)) None (Some ''f'') (Some 0) None None None False)
         \<lparr>pq_body := [9]\<rparr>)],
     files = [(0, handle_new 0 {} 3 None [] [] True)], pool = pool_new 8, notified = []\<rparr>"

theorem early_packets_prefix_file_witness:
  "map_option pq_body (dm_get (table (snd (write_body_packet ''c'' [1] 4 [2] True demo_early))) (''c'', 4)) = Some []"
proof -
  let ?r = "(partial_req_new ''c'' 4 None (Some (Storage File)) None (Some ''f'') (Some 0) None None None False)
         \<lparr>pq_body := [9]\<rparr> :: (unit, unit) PartialReq"
  have "dm_get (table demo_early) (''c'', 4) = Some ?r" "dm_get (files demo_early) 0 = Some (handle_new 0 {} 3 None [] [] True)"
    by (simp_all add: demo_early_def dm_get_def)
  from early_packets_prefix_file [OF this(1) _ _ _ this(2), of "''f''" "[1]" "[2]" True] show ?thesis
    by (simp add: partial_req_new_def Let_def)
qed

end
