(* ===== verification/Chunking.thy ===== *)
theory Chunking
  imports Response
begin

section \<open>Queued messages and the chunking of bodies\<close>

text \<open>
  Model of the modules \<open>chunking_implementation\<close> and \<open>response_queue\<close> of
  \<open>src/request_response.rs\<close>: the messages that travel to the network loop, the station that
  holds the bodies still to be sent, and the worker thread that cuts each body into packets and
  sends them through the body's channel (theory \<open>ChunkDispatch\<close>).

  A reader is the bytes that are still to be read. A \<open>Cursor\<close> over a vector hands out as much as
  fits the buffer; a read of a file may be short and may fail, which is the argument \<open>outcome\<close> of
  a worker step (the buffer is as large as the one of \<open>BufReader\<close>, so every read goes to the
  file). The waker, the sleep and the log output have no state in the model. The confirmation
  channel of a header request has no sender in use and is left out.
\<close>

subsection \<open>Messages\<close>

record BodyRequest =
  br_packet_id :: usize
  br_stream_id :: stream_id
  br_scid :: scid
  br_conn_id :: conn_id
  br_packet :: bytes
  br_is_end :: bool

definition body_request_new ::
  "stream_id \<Rightarrow> conn_id \<Rightarrow> scid \<Rightarrow> usize \<Rightarrow> bytes \<Rightarrow> bool \<Rightarrow> BodyRequest" where
  "body_request_new i c s packet_id packet is_end =
     \<lparr>br_packet_id = packet_id, br_stream_id = i, br_scid = s, br_conn_id = c, br_packet = packet,
      br_is_end = is_end\<rparr>"

definition take_data :: "BodyRequest \<Rightarrow> bytes \<times> BodyRequest" where
  "take_data r = (br_packet r, r\<lparr>br_packet := []\<rparr>)"

definition br_len :: "BodyRequest \<Rightarrow> usize" where
  "br_len r = length (br_packet r)"

datatype HeaderPriority =
  SendHeader | SendHeader100 | SendAdditionnalHeader | SendWithPriority | OpenStream

record HeaderRequest =
  hr_stream_id :: stream_id
  hr_scid :: scid
  hr_headers :: "h3_header list"
  hr_headers_size :: usize
  hr_is_end :: bool
  hr_priority_mode :: HeaderPriority
  hr_chunk_sender :: "chan option"
  hr_attached_body :: "BodyType option"

definition AVERAGE_HEADERS_SIZE :: usize where "AVERAGE_HEADERS_SIZE = 700"

definition header_request_new ::
  "stream_id \<Rightarrow> scid \<Rightarrow> h3_header list \<Rightarrow> bool \<Rightarrow> BodyType option \<Rightarrow> chan option \<Rightarrow> HeaderPriority
     \<Rightarrow> HeaderRequest" where
  "header_request_new i s headers is_end body chunk_sender priority_mode =
     \<lparr>hr_stream_id = i, hr_scid = s, hr_headers = headers, hr_headers_size = AVERAGE_HEADERS_SIZE,
      hr_is_end = is_end, hr_priority_mode = priority_mode, hr_chunk_sender = chunk_sender,
      hr_attached_body = body\<rparr>"

definition attached_body_len :: "(path_buf \<Rightarrow> usize option) \<Rightarrow> HeaderRequest \<Rightarrow> usize option option" where
  "attached_body_len fs h = (case hr_attached_body h of
     Some attached_body \<Rightarrow> map_option Some (bytes_len fs attached_body) | None \<Rightarrow> Some None)"

datatype QueuedRequest =
    Q_Header HeaderRequest
  | Q_Body BodyRequest
  | Q_BodyProgression BodyRequest
  | Q_StreamData BodyRequest

fun qr_packet_id :: "QueuedRequest \<Rightarrow> usize" where
  "qr_packet_id (Q_Header h) = 0"
| "qr_packet_id (Q_Body b) = br_packet_id b"
| "qr_packet_id (Q_BodyProgression b) = br_packet_id b"
| "qr_packet_id (Q_StreamData b) = br_packet_id b"

text \<open>The trait \<open>QueueTrackableItem\<close>.\<close>

fun qr_stream_id :: "QueuedRequest \<Rightarrow> stream_id" where
  "qr_stream_id (Q_Header h) = hr_stream_id h"
| "qr_stream_id (Q_Body b) = br_stream_id b"
| "qr_stream_id (Q_BodyProgression b) = br_stream_id b"
| "qr_stream_id (Q_StreamData b) = br_stream_id b"

fun qr_is_last_item :: "QueuedRequest \<Rightarrow> bool" where
  "qr_is_last_item (Q_Header h) = hr_is_end h"
| "qr_is_last_item (Q_Body b) = br_is_end b"
| "qr_is_last_item (Q_BodyProgression b) = br_is_end b"
| "qr_is_last_item (Q_StreamData b) = br_is_end b"

fun qr_scid :: "QueuedRequest \<Rightarrow> scid" where
  "qr_scid (Q_Header h) = hr_scid h"
| "qr_scid (Q_Body b) = br_scid b"
| "qr_scid (Q_BodyProgression b) = br_scid b"
| "qr_scid (Q_StreamData b) = br_scid b"

fun qr_len :: "QueuedRequest \<Rightarrow> usize" where
  "qr_len (Q_Header h) = hr_headers_size h"
| "qr_len (Q_Body b) = br_len b"
| "qr_len (Q_BodyProgression b) = br_len b"
| "qr_len (Q_StreamData b) = br_len b"


subsection \<open>Bodies to be chunked\<close>

datatype reader = Cursor bytes | File_Reader bytes

record ChunkableBody =
  cb_stream_id :: stream_id
  cb_scid :: scid
  cb_conn_id :: conn_id
  cb_reader :: reader
  cb_sender :: chan
  cb_body_len :: usize
  cb_packet_id :: usize
  cb_bytes_written :: usize
  cb_conn_stats :: "ConnStats option"

definition new_data ::
  "chan \<Rightarrow> stream_id \<Rightarrow> scid \<Rightarrow> conn_id \<Rightarrow> bytes \<Rightarrow> ConnStats option \<Rightarrow> unit + ChunkableBody" where
  "new_data sender i s c data conn_stats =
     Ok \<lparr>cb_stream_id = i, cb_scid = s, cb_conn_id = c, cb_reader = Cursor data, cb_sender = sender,
         cb_body_len = length data, cb_packet_id = 0, cb_bytes_written = 0, cb_conn_stats = conn_stats\<rparr>"

text \<open>
  Opening a file gives its content and, when the metadata can be read, its length at that moment;
  None is a failed open.
\<close>

type_synonym file_opener = "path_buf \<Rightarrow> (bytes \<times> usize option) option"

definition new_file ::
  "file_opener \<Rightarrow> chan \<Rightarrow> scid \<Rightarrow> stream_id \<Rightarrow> conn_id \<Rightarrow> path_buf \<Rightarrow> ConnStats option
     \<Rightarrow> unit + ChunkableBody" where
  "new_file fs sender s i c path conn_stats =
     (case fs path of
        Some (content, metadata) \<Rightarrow>
          let body_len = (case metadata of Some len \<Rightarrow> len | None \<Rightarrow> 0) in
          Ok \<lparr>cb_stream_id = i, cb_scid = s, cb_conn_id = c, cb_reader = File_Reader content,
              cb_sender = sender, cb_body_len = body_len, cb_packet_id = 0, cb_bytes_written = 0,
              cb_conn_stats = conn_stats\<rparr>
      | None \<Rightarrow> Err ())"

definition CHUNK_SIZE :: usize where "CHUNK_SIZE = 8192"

text \<open>
  \<open>read\<close> into a buffer of \<open>CHUNK_SIZE\<close> bytes. For a file, \<open>Some k\<close> is a read that gives at most
  \<open>k + 1\<close> bytes (no byte at the end of the file only) and None a failed read.
\<close>

fun reader_read :: "usize option \<Rightarrow> reader \<Rightarrow> (bytes \<times> reader) option" where
  "reader_read outcome (Cursor rest) = Some (take CHUNK_SIZE rest, Cursor (drop CHUNK_SIZE rest))"
| "reader_read None (File_Reader rest) = None"
| "reader_read (Some k) (File_Reader rest) =
     Some (take (min (Suc k) CHUNK_SIZE) rest, File_Reader (drop (min (Suc k) CHUNK_SIZE) rest))"


subsection \<open>The station and its worker\<close>

record station =
  station_channel :: "ChunkableBody list"
  chunk_dispatch_channel :: "QueuedRequest dispatch"

definition station_new :: station where
  "station_new = \<lparr>station_channel = [], chunk_dispatch_channel = dispatch_new\<rparr>"

definition station_push :: "unit + ChunkableBody \<Rightarrow> station \<Rightarrow> station" where
  "station_push r st = (case r of
     Ok b \<Rightarrow> st\<lparr>station_channel := station_channel st @ [b]\<rparr> | Err _ \<Rightarrow> st)"

definition get_body_sender :: "scid \<times> stream_id \<Rightarrow> station \<Rightarrow> chan option" where
  "get_body_sender conn_ids st =
     get_low_priority_sender (snd conn_ids) (fst conn_ids) (chunk_dispatch_channel st)"

text \<open>\<open>send_response\<close>; None is the panic on a body without a sender.\<close>

fun send_response :: "file_opener \<Rightarrow> BodyType \<Rightarrow> station \<Rightarrow> station option" where
  "send_response fs (Data i s c data sender stats) st =
     map_option (\<lambda>ch. station_push (new_data ch i s c data stats) st) sender"
| "send_response fs (StreamData i s c data sender stats) st =
     map_option (\<lambda>ch. station_push (new_data ch i s c data stats) st) sender"
| "send_response fs (FilePath i s c path sender stats) st =
     map_option (\<lambda>ch. station_push (new_file fs ch s i c path stats) st) sender"
| "send_response fs No_Body st = Some st"

definition send_body_to_chunking_station ::
  "file_opener \<Rightarrow> ConnStats \<Rightarrow> HeaderRequest \<Rightarrow> station \<Rightarrow> (HeaderRequest \<times> station) option" where
  "send_body_to_chunking_station fs conn_stats h st =
     (let body_option = hr_attached_body h; h1 = h\<lparr>hr_attached_body := None\<rparr> in
      case body_option of
        Some body \<Rightarrow> map_option (Pair h1) (send_response fs (attach_conn_stats conn_stats body) st)
      | None \<Rightarrow> Some (h1, st))"

text \<open>One turn of the worker's loop, with what it did.\<close>

datatype chunk_log =
    Idle
  | Requeued
  | Read_Failed chan
  | Chunk_Sent chan BodyRequest bool
  | Other

definition run_worker :: "usize option \<Rightarrow> station \<Rightarrow> chunk_log \<times> station" where
  "run_worker outcome st =
     (case station_channel st of
        [] \<Rightarrow> (Idle, st)
      | chunkable # waiting \<Rightarrow>
          if sender_is_occupied (cb_sender chunkable) (chunk_dispatch_channel st)
          then (Requeued, st\<lparr>station_channel := waiting @ [chunkable]\<rparr>)
          else (case reader_read outcome (cb_reader chunkable) of
             None \<Rightarrow> (Read_Failed (cb_sender chunkable), st\<lparr>station_channel := waiting\<rparr>)
           | Some (packet, rd) \<Rightarrow>
               let n = length packet;
                   is_end = (n + cb_bytes_written chunkable = cb_body_len chunkable);
                   item = body_request_new (cb_stream_id chunkable) (cb_conn_id chunkable)
                            (cb_scid chunkable) (cb_packet_id chunkable) packet is_end;
                   (result, d) = sender_send (cb_sender chunkable) (Q_Body item) (chunk_dispatch_channel st);
                   chunkable1 = chunkable\<lparr>cb_reader := rd, cb_packet_id := cb_packet_id chunkable + 1,
                                  cb_bytes_written := cb_bytes_written chunkable + n\<rparr>
               in (Chunk_Sent (cb_sender chunkable) item (is_ok result),
                   st\<lparr>station_channel := (if is_end then waiting else waiting @ [chunkable1]),
                      chunk_dispatch_channel := d\<rparr>)))"


subsection \<open>The response queue\<close>

text \<open>The two channels of \<open>ResponseQueue\<close>, high priority first.\<close>

record 'm ResponseQueue =
  low_priority_channel :: "'m list"
  high_priority_channel :: "'m list"

definition response_queue_new :: "'m ResponseQueue" where
  "response_queue_new = \<lparr>low_priority_channel = [], high_priority_channel = []\<rparr>"

definition pop_request :: "'m ResponseQueue \<Rightarrow> (unit + 'm) \<times> 'm ResponseQueue" where
  "pop_request q =
     (case high_priority_channel q of
        r # rs \<Rightarrow> (Ok r, q\<lparr>high_priority_channel := rs\<rparr>)
      | [] \<Rightarrow> (case low_priority_channel q of
                 l # ls \<Rightarrow> (Ok l, q\<lparr>low_priority_channel := ls\<rparr>)
               | [] \<Rightarrow> (Err (), q)))"


subsection \<open>Runs of the station\<close>

text \<open>
  A run interleaves turns of the worker (with the outcome of a file read), bodies that arrive, and
  operations on the dispatch channels by the network loop and the handlers.
\<close>

datatype station_op =
    Work "usize option"
  | Queue_Body ChunkableBody
  | Channel_Op "QueuedRequest disp_op"

fun station_step :: "station_op \<Rightarrow> station \<Rightarrow> chunk_log \<times> station" where
  "station_step (Work outcome) st = run_worker outcome st"
| "station_step (Queue_Body b) st = (Other, station_push (Ok b) st)"
| "station_step (Channel_Op x) st =
     (Other, st\<lparr>chunk_dispatch_channel := snd (disp_step x (chunk_dispatch_channel st))\<rparr>)"

fun sent_of :: "chan \<Rightarrow> chunk_log \<Rightarrow> BodyRequest list" where
  "sent_of c (Chunk_Sent c' p delivered) = (if c' = c then [p] else [])"
| "sent_of c _ = []"

definition sent_on :: "chan \<Rightarrow> chunk_log list \<Rightarrow> BodyRequest list" where
  "sent_on c outs = concat (map (sent_of c) outs)"

definition waiting_on :: "chan \<Rightarrow> station \<Rightarrow> ChunkableBody list" where
  "waiting_on c st = filter (\<lambda>b. cb_sender b = c) (station_channel st)"

text \<open>No other body is queued for the channel.\<close>

fun leaves_channel :: "chan \<Rightarrow> station_op \<Rightarrow> bool" where
  "leaves_channel c (Queue_Body b) \<longleftrightarrow> cb_sender b \<noteq> c"
| "leaves_channel c _ \<longleftrightarrow> True"

definition chunk_item :: "ChunkableBody \<Rightarrow> bytes \<Rightarrow> BodyRequest" where
  "chunk_item b packet = body_request_new (cb_stream_id b) (cb_conn_id b) (cb_scid b) (cb_packet_id b)
     packet (length packet + cb_bytes_written b = cb_body_len b)"

definition chunk_advance :: "reader \<Rightarrow> usize \<Rightarrow> ChunkableBody \<Rightarrow> ChunkableBody" where
  "chunk_advance rd n b = b\<lparr>cb_reader := rd, cb_packet_id := cb_packet_id b + 1,
     cb_bytes_written := cb_bytes_written b + n\<rparr>"

lemma chunk_item_sel [simp]:
  "br_packet (chunk_item b p) = p" "br_packet_id (chunk_item b p) = cb_packet_id b"
  "br_is_end (chunk_item b p) \<longleftrightarrow> length p + cb_bytes_written b = cb_body_len b"
  by (simp_all add: chunk_item_def body_request_new_def)

lemma chunk_advance_sel [simp]:
  "cb_sender (chunk_advance rd n b) = cb_sender b" "cb_reader (chunk_advance rd n b) = rd"
  "cb_body_len (chunk_advance rd n b) = cb_body_len b"
  "cb_packet_id (chunk_advance rd n b) = Suc (cb_packet_id b)"
  "cb_bytes_written (chunk_advance rd n b) = cb_bytes_written b + n"
  by (simp_all add: chunk_advance_def)

lemma sent_on_simps [simp]: "sent_on c [] = []" "sent_on c (out # outs) = sent_of c out @ sent_on c outs"
  by (simp_all add: sent_on_def)

text \<open>What one step does to the only body of a channel.\<close>

lemma run_worker_cases:
  assumes "station_channel st = b # q"
  obtains "run_worker outcome st = (Requeued, st\<lparr>station_channel := q @ [b]\<rparr>)"
  | "reader_read outcome (cb_reader b) = None"
    "run_worker outcome st = (Read_Failed (cb_sender b), st\<lparr>station_channel := q\<rparr>)"
  | packet rd delivered d where "reader_read outcome (cb_reader b) = Some (packet, rd)"
    "run_worker outcome st = (Chunk_Sent (cb_sender b) (chunk_item b packet) delivered,
       st\<lparr>station_channel := (if br_is_end (chunk_item b packet) then q
                              else q @ [chunk_advance rd (length packet) b]),
          chunk_dispatch_channel := d\<rparr>)"
proof (cases "sender_is_occupied (cb_sender b) (chunk_dispatch_channel st)")
  case True
  then show ?thesis using assms that(1) by (simp add: run_worker_def)
next
  case False
  show ?thesis
  proof (cases "reader_read outcome (cb_reader b)")
    case None
    then show ?thesis using assms False that(2) by (simp add: run_worker_def)
  next
    case (Some r)
    then obtain packet rd where r: "reader_read outcome (cb_reader b) = Some (packet, rd)"
      by (cases r) auto
    let ?send = "sender_send (cb_sender b) (Q_Body (chunk_item b packet)) (chunk_dispatch_channel st)"
    show ?thesis
      by (rule that(3) [OF r, where delivered = "is_ok (fst ?send)" and d = "snd ?send"])
        (use assms False r in \<open>simp add: run_worker_def split_beta Let_def chunk_item_def chunk_advance_def
          body_request_new_def\<close>)
  qed
qed

lemma station_step_none:
  assumes "waiting_on c st = []" "leaves_channel c x" "station_step x st = (out, st')"
  shows "sent_of c out = []" "out \<noteq> Read_Failed c" "waiting_on c st' = []"
proof -
  have "sent_of c out = [] \<and> out \<noteq> Read_Failed c \<and> waiting_on c st' = []"
  proof (cases x)
    case (Work outcome)
    show ?thesis
    proof (cases "station_channel st")
      case Nil
      then show ?thesis using assms(3) Work by (auto simp: run_worker_def waiting_on_def)
    next
      case (Cons b q)
      show ?thesis
        by (rule run_worker_cases [OF Cons, of outcome])
          (use assms Work Cons in \<open>auto simp: waiting_on_def split: if_splits\<close>)
    qed
  qed (use assms in \<open>auto simp: waiting_on_def station_push_def\<close>)
  then show "sent_of c out = []" "out \<noteq> Read_Failed c" "waiting_on c st' = []" by simp_all
qed

lemma station_step_single:
  assumes "waiting_on c st = [b]" "leaves_channel c x" "station_step x st = (out, st')"
  obtains "sent_of c out = []" "out \<noteq> Read_Failed c" "waiting_on c st' = [b]"
  | outcome where "reader_read outcome (cb_reader b) = None" "out = Read_Failed c" "waiting_on c st' = []"
  | outcome packet rd where "reader_read outcome (cb_reader b) = Some (packet, rd)"
    "sent_of c out = [chunk_item b packet]" "out \<noteq> Read_Failed c"
    "waiting_on c st' = (if br_is_end (chunk_item b packet) then []
                         else [chunk_advance rd (length packet) b])"
proof (cases x)
  case (Work outcome)
  obtain b' q where q: "station_channel st = b' # q"
    using assms(1) by (cases "station_channel st") (auto simp: waiting_on_def)
  show ?thesis
  proof (cases "cb_sender b' = c")
    case True
    then have b: "b' = b" "cb_sender b = c" "filter (\<lambda>b. cb_sender b = c) q = []"
      using assms(1) q by (auto simp: waiting_on_def)
    show ?thesis
      by (rule run_worker_cases [OF q, of outcome])
        (use assms(3) Work b q in \<open>auto simp: waiting_on_def intro: that\<close>)
  next
    case False
    show ?thesis
      by (rule that(1); rule run_worker_cases [OF q, of outcome])
        (use assms Work q False in \<open>auto simp: waiting_on_def split: if_splits\<close>)
  qed
qed (use assms that(1) in \<open>auto simp: waiting_on_def station_push_def\<close>)


subsection \<open>In-memory bodies\<close>

text \<open>The packets of a body given as a whole: \<open>CHUNK_SIZE\<close> bytes each, the rest in the last.\<close>

definition chunk_count :: "bytes \<Rightarrow> nat" where
  "chunk_count data = max 1 ((length data + (CHUNK_SIZE - 1)) div CHUNK_SIZE)"

definition data_chunk :: "bytes \<Rightarrow> nat \<Rightarrow> bytes" where
  "data_chunk data k = take CHUNK_SIZE (drop (k * CHUNK_SIZE) data)"

definition data_packets :: "ChunkableBody \<Rightarrow> bytes \<Rightarrow> BodyRequest list" where
  "data_packets b data = map (\<lambda>k. body_request_new (cb_stream_id b) (cb_conn_id b) (cb_scid b) k
     (data_chunk data k) (Suc k = chunk_count data)) [0..<chunk_count data]"

definition data_at :: "ChunkableBody \<Rightarrow> bytes \<Rightarrow> nat \<Rightarrow> ChunkableBody" where
  "data_at b data k = b\<lparr>cb_reader := Cursor (drop (k * CHUNK_SIZE) data), cb_packet_id := k,
     cb_bytes_written := k * CHUNK_SIZE, cb_body_len := length data\<rparr>"

lemma chunk_size_pos [simp]: "0 < CHUNK_SIZE"
  by (simp add: CHUNK_SIZE_def)

lemma chunk_count_le: "chunk_count data \<le> Suc k \<longleftrightarrow> length data \<le> Suc k * CHUNK_SIZE"
proof -
  have "(length data + (CHUNK_SIZE - 1)) div CHUNK_SIZE < Suc (Suc k)
      \<longleftrightarrow> length data + (CHUNK_SIZE - 1) < Suc (Suc k) * CHUNK_SIZE"
    by (rule div_less_iff_less_mult) simp
  also have "\<dots> \<longleftrightarrow> length data \<le> Suc k * CHUNK_SIZE"
    using chunk_size_pos by (simp only: mult_Suc) linarith
  finally show ?thesis by (auto simp: chunk_count_def)
qed

lemma chunk_count_gr: "k < chunk_count data \<longleftrightarrow> k = 0 \<or> k * CHUNK_SIZE < length data"
proof (cases k)
  case (Suc j)
  have "k < chunk_count data \<longleftrightarrow> \<not> chunk_count data \<le> Suc j" using Suc by auto
  then show ?thesis using chunk_count_le [of data j] Suc by auto
qed (simp add: chunk_count_def)

text \<open>A packet is the last one exactly when it takes the rest of the data.\<close>

lemma data_chunk_last:
  assumes "k < chunk_count data"
  shows "length (data_chunk data k) + k * CHUNK_SIZE = length data \<longleftrightarrow> Suc k = chunk_count data"
proof -
  have "k * CHUNK_SIZE \<le> length data" using assms chunk_count_gr [of k data] by auto
  then have "length (data_chunk data k) + k * CHUNK_SIZE = length data
      \<longleftrightarrow> length data \<le> Suc k * CHUNK_SIZE"
    by (auto simp: data_chunk_def min_def)
  also have "\<dots> \<longleftrightarrow> Suc k = chunk_count data" using chunk_count_le [of data k] assms by auto
  finally show ?thesis .
qed

lemma data_chunk_full:
  assumes "Suc k < chunk_count data"
  shows "length (data_chunk data k) = CHUNK_SIZE"
  using assms chunk_count_gr [of "Suc k" data] by (simp add: data_chunk_def)

lemma concat_data_chunks: "concat (map (data_chunk data) [0..<k]) = take (k * CHUNK_SIZE) data"
proof (induction k)
  case (Suc k)
  have "Suc k * CHUNK_SIZE = k * CHUNK_SIZE + CHUNK_SIZE" by simp
  then show ?case using Suc by (simp only: take_add) (simp add: data_chunk_def)
qed simp

lemma concat_data_packets: "concat (map br_packet (data_packets b data)) = data"
proof -
  have "length data \<le> chunk_count data * CHUNK_SIZE"
    using chunk_count_le [of data "chunk_count data - 1"] by (simp add: chunk_count_def)
  then show ?thesis
    by (simp add: data_packets_def body_request_new_def comp_def concat_data_chunks)
qed

lemma length_data_packets [simp]: "length (data_packets b data) = chunk_count data"
  by (simp add: data_packets_def)

lemma data_packets_rest:
  "k < chunk_count data \<Longrightarrow> drop k (data_packets b data)
     = chunk_item (data_at b data k) (data_chunk data k) # drop (Suc k) (data_packets b data)"
  by (simp add: Cons_nth_drop_Suc [symmetric])
    (simp add: data_packets_def chunk_item_def data_at_def data_chunk_last)

lemma data_at_read:
  "reader_read outcome (cb_reader (data_at b data k))
     = Some (data_chunk data k, Cursor (drop (Suc k * CHUNK_SIZE) data))"
  by (simp add: data_at_def data_chunk_def add.commute)

lemma data_at_advance:
  assumes "Suc k < chunk_count data"
  shows "chunk_advance (Cursor (drop (Suc k * CHUNK_SIZE) data)) (length (data_chunk data k)) (data_at b data k)
     = data_at b data (Suc k)"
  using data_chunk_full [OF assms] by (simp add: chunk_advance_def data_at_def)

lemma data_at_sel [simp]: "cb_sender (data_at b data k) = cb_sender b"
  "cb_packet_id (data_at b data k) = k" "cb_bytes_written (data_at b data k) = k * CHUNK_SIZE"
  "cb_body_len (data_at b data k) = length data"
  by (simp_all add: data_at_def)

lemma run_station_idle:
  "waiting_on c st = [] \<Longrightarrow> list_all (leaves_channel c) ops \<Longrightarrow> run_ops station_step ops st = (outs, st') \<Longrightarrow>
     sent_on c outs = [] \<and> Read_Failed c \<notin> set outs \<and> waiting_on c st' = []"
proof (induction ops arbitrary: st outs)
  case (Cons x ops)
  obtain out st1 outs1 where x: "station_step x st = (out, st1)"
    and r: "run_ops station_step ops st1 = (outs1, st')" "outs = out # outs1"
    using Cons.prems(3) unfolding run_ops_Cons by blast
  note step = station_step_none [OF Cons.prems(1) _ x]
  show ?case using Cons.IH [OF step(3) _ r(1)] step(1,2) Cons.prems(2) r(2) by auto
qed simp

lemma run_station_data:
  "waiting_on c st = [data_at b data k] \<Longrightarrow> k < chunk_count data \<Longrightarrow>
   list_all (leaves_channel c) ops \<Longrightarrow> run_ops station_step ops st = (outs, st') \<Longrightarrow>
     Read_Failed c \<notin> set outs
   \<and> sent_on c outs = take (length (sent_on c outs)) (drop k (data_packets b data))
   \<and> k + length (sent_on c outs) \<le> chunk_count data
   \<and> waiting_on c st' = (if k + length (sent_on c outs) < chunk_count data
        then [data_at b data (k + length (sent_on c outs))] else [])"
proof (induction ops arbitrary: st outs k)
  case (Cons x ops)
  obtain out st1 outs1 where x: "station_step x st = (out, st1)"
    and r: "run_ops station_step ops st1 = (outs1, st')" "outs = out # outs1"
    using Cons.prems(4) unfolding run_ops_Cons by blast
  have l: "leaves_channel c x" "list_all (leaves_channel c) ops" using Cons.prems(3) by simp_all
  show ?case
  proof (rule station_step_single [OF Cons.prems(1) l(1) x], goal_cases)
    case 1
    then show ?case using Cons.IH [OF 1(3) Cons.prems(2) l(2) r(1)] r(2) by simp
  next
    case 2
    then show ?case by (simp add: data_at_read)
  next
    case (3 outcome packet rd)
    then have p: "packet = data_chunk data k" "rd = Cursor (drop (Suc k * CHUNK_SIZE) data)"
      by (simp_all add: data_at_read)
    have rest: "drop k (data_packets b data)
        = chunk_item (data_at b data k) packet # drop (Suc k) (data_packets b data)"
      using data_packets_rest [OF Cons.prems(2)] p(1) by simp
    show ?case
    proof (cases "Suc k = chunk_count data")
      case True
      then have "waiting_on c st1 = []"
        using 3(4) p data_chunk_last [OF Cons.prems(2)] by simp
      from run_station_idle [OF this l(2) r(1)] show ?thesis
        using 3(2,3) r(2) rest True by simp
    next
      case False
      then have k: "Suc k < chunk_count data" using Cons.prems(2) by simp
      then have "waiting_on c st1 = [data_at b data (Suc k)]"
        using 3(4) p data_chunk_last [OF Cons.prems(2)] data_at_advance [OF k] by simp
      from Cons.IH [OF this k l(2) r(1)] show ?thesis
        using 3(2,3) r(2) rest by simp
    qed
  qed
qed simp



definition demo_station :: station where
  "demo_station = \<lparr>station_channel = [], chunk_dispatch_channel = insert_new_channel 4 [1] dispatch_new\<rparr>"

definition demo_body :: ChunkableBody where
  "demo_body = \<lparr>cb_stream_id = 4, cb_scid = [1], cb_conn_id = ''c'', cb_reader = Cursor [7, 8], cb_sender = 0,
     cb_body_len = 2, cb_packet_id = 0, cb_bytes_written = 0, cb_conn_stats = None\<rparr>"


text \<open>One turn of the worker on a body whose channel has room.\<close>

lemma run_worker_room:
  assumes "chans d c = Some ch" "ch_connected ch" "counter (ch_counter ch) < counter_limit (ch_counter ch)"
    and "k < chunk_count data" "cb_sender b = c"
  shows "snd (run_worker outcome \<lparr>station_channel = [data_at b data k], chunk_dispatch_channel = d\<rparr>)
     = \<lparr>station_channel = (if Suc k = chunk_count data then [] else [data_at b data (Suc k)]),
        chunk_dispatch_channel =
          chan_upd c (sent_counted (Q_Body (chunk_item (data_at b data k) (data_chunk data k))) ch) d\<rparr>"
proof -
  have free: "\<not> sender_is_occupied c d"
    using assms(1,3) by (simp add: sender_is_occupied_def counter_of_def cc_is_occupied_def)
  have adv: "data_at b data k\<lparr>cb_reader := Cursor (drop (Suc k * CHUNK_SIZE) data), cb_packet_id := k + 1,
       cb_bytes_written := k * CHUNK_SIZE + length (data_chunk data k)\<rparr> = data_at b data (Suc k)"
    if "Suc k \<noteq> chunk_count data"
  proof -
    have "Suc k < chunk_count data" using that assms(4) by simp
    from data_at_advance [OF this, of b] show ?thesis by (simp add: chunk_advance_def)
  qed
  show ?thesis
    using free adv assms data_chunk_last [OF assms(4)]
    by (simp add: run_worker_def data_at_read Let_def sender_send_connected chunk_item_def split_beta)
qed

lemma run_worker_delivers:
  "chans d c = Some ch \<Longrightarrow> ch_connected ch \<Longrightarrow> chan_ok ch \<Longrightarrow> k + n = chunk_count data \<Longrightarrow> 0 < n \<Longrightarrow>
   counter (ch_counter ch) + n \<le> counter_limit (ch_counter ch) \<Longrightarrow> cb_sender b = c \<Longrightarrow>
   \<exists>ch'. snd (iterate (run_worker outcome) n \<lparr>station_channel = [data_at b data k], chunk_dispatch_channel = d\<rparr>)
           = \<lparr>station_channel = [], chunk_dispatch_channel = chan_upd c ch' d\<rparr>
       \<and> ch_items ch' = ch_items ch @ map Q_Body (drop k (data_packets b data)) \<and> ch_connected ch' \<and> chan_ok ch'"
proof (induction n arbitrary: k d ch)
  case (Suc n)
  have k: "k < chunk_count data" using Suc.prems(4) by simp
  let ?m = "Q_Body (chunk_item (data_at b data k) (data_chunk data k))"
  let ?ch = "sent_counted ?m ch"
  note step = run_worker_room [OF Suc.prems(1,2) _ k Suc.prems(7), where outcome = outcome]
  have room: "counter (ch_counter ch) < counter_limit (ch_counter ch)" using Suc.prems(6) by simp
  show ?case
  proof (cases n)
    case 0
    then have "Suc k = chunk_count data" using Suc.prems(4) by simp
    then show ?thesis
      using step [OF room] data_packets_rest [OF k] Suc.prems(2,3) 0
      by (intro exI [of _ ?ch]) (simp add: split_beta)
  next
    case (Suc n')
    have "counter (ch_counter ?ch) + n \<le> counter_limit (ch_counter ?ch)"
      using Suc.prems(6) by (simp add: sent_counted_def cc_try_increment_def)
    then obtain ch' where "snd (iterate (run_worker outcome) n \<lparr>station_channel = [data_at b data (Suc k)],
           chunk_dispatch_channel = chan_upd c ?ch d\<rparr>)
         = \<lparr>station_channel = [], chunk_dispatch_channel = chan_upd c ch' (chan_upd c ?ch d)\<rparr>"
      "ch_items ch' = ch_items ?ch @ map Q_Body (drop (Suc k) (data_packets b data))" "ch_connected ch'" "chan_ok ch'"
      using Suc.IH [of "chan_upd c ?ch d" ?ch "Suc k"] Suc.prems Suc by auto
    moreover have "Suc k \<noteq> chunk_count data" using Suc.prems(4) Suc by simp
    ultimately show ?thesis
      using step [OF room] data_packets_rest [OF k] by (auto simp: split_beta)
  qed
qed simp





subsection \<open>Files\<close>

text \<open>What was sent of a file and what the worker still holds of it.\<close>

definition file_progress :: "chan \<Rightarrow> bytes \<Rightarrow> usize \<Rightarrow> BodyRequest list \<Rightarrow> ChunkableBody \<Rightarrow> bool" where
  "file_progress c content len ps b \<longleftrightarrow>
     (\<exists>rest. cb_reader b = File_Reader rest \<and> concat (map br_packet ps) @ rest = content)
     \<and> cb_sender b = c \<and> cb_body_len b = len \<and> cb_packet_id b = length ps
     \<and> cb_bytes_written b = length (concat (map br_packet ps))
     \<and> map br_packet_id ps = [0..<length ps] \<and> (\<forall>p \<in> set ps. \<not> br_is_end p)"

definition file_done :: "bytes \<Rightarrow> usize \<Rightarrow> BodyRequest list \<Rightarrow> bool" where
  "file_done content len ps \<longleftrightarrow>
     (\<exists>rest. concat (map br_packet ps) @ rest = content)
     \<and> length (concat (map br_packet ps)) = len \<and> map br_packet_id ps = [0..<length ps]
     \<and> (\<exists>qs p. ps = qs @ [p] \<and> br_is_end p \<and> (\<forall>q \<in> set qs. \<not> br_is_end q))"

lemma file_read_split:
  "reader_read outcome (File_Reader rest) = Some (packet, rd) \<Longrightarrow>
     \<exists>rest'. rd = File_Reader rest' \<and> rest = packet @ rest'"
  by (cases outcome) auto

lemma file_progress_read:
  assumes "file_progress c content len ps b" "reader_read outcome (cb_reader b) = Some (packet, rd)"
  shows "if br_is_end (chunk_item b packet) then file_done content len (ps @ [chunk_item b packet])
         else file_progress c content len (ps @ [chunk_item b packet]) (chunk_advance rd (length packet) b)"
proof -
  obtain rest where rest: "cb_reader b = File_Reader rest" "concat (map br_packet ps) @ rest = content"
    using assms(1) by (auto simp: file_progress_def)
  moreover obtain rest' where "rd = File_Reader rest'" "rest = packet @ rest'"
    using file_read_split [of outcome rest packet rd] assms(2) rest(1) by auto
  ultimately show ?thesis
    using assms(1) by (auto simp: file_progress_def file_done_def add.commute)
qed

lemma run_station_file:
  "waiting_on c st = [b] \<Longrightarrow> file_progress c content len ps b \<Longrightarrow>
   list_all (leaves_channel c) ops \<Longrightarrow> run_ops station_step ops st = (outs, st') \<Longrightarrow>
   Read_Failed c \<notin> set outs \<Longrightarrow>
     (\<exists>b'. waiting_on c st' = [b'] \<and> file_progress c content len (ps @ sent_on c outs) b')
     \<or> waiting_on c st' = [] \<and> file_done content len (ps @ sent_on c outs)"
proof (induction ops arbitrary: st outs b ps)
  case (Cons x ops)
  obtain out st1 outs1 where x: "station_step x st = (out, st1)"
    and r: "run_ops station_step ops st1 = (outs1, st')" "outs = out # outs1"
    using Cons.prems(4) unfolding run_ops_Cons by blast
  have l: "leaves_channel c x" "list_all (leaves_channel c) ops" using Cons.prems(3) by simp_all
  have f: "Read_Failed c \<notin> set outs1" using Cons.prems(5) r(2) by simp
  show ?case
  proof (rule station_step_single [OF Cons.prems(1) l(1) x], goal_cases)
    case 1
    then show ?case using Cons.IH [OF 1(3) Cons.prems(2) l(2) r(1) f] r(2) by simp
  next
    case 2
    then show ?case using Cons.prems(5) r(2) by simp
  next
    case (3 outcome packet rd)
    note read = file_progress_read [OF Cons.prems(2) 3(1)]
    show ?case
    proof (cases "br_is_end (chunk_item b packet)")
      case True
      then have "waiting_on c st1 = []" using 3(4) by simp
      from run_station_idle [OF this l(2) r(1)] show ?thesis
        using read True 3(2) r(2) by simp
    next
      case False
      then have w: "waiting_on c st1 = [chunk_advance rd (length packet) b]" using 3(4) by simp
      have "file_progress c content len (ps @ [chunk_item b packet]) (chunk_advance rd (length packet) b)"
        using read False by simp
      from Cons.IH [OF w this l(2) r(1) f] show ?thesis using 3(2) r(2) by simp
    qed
  qed
qed simp


lemma new_file_progress:
  assumes "new_file fs c s i conn path stats = Ok b" "fs path = Some (content, Some len)"
  shows "file_progress c content len [] b"
  using assms by (auto simp: new_file_def file_progress_def)


definition demo_fs :: file_opener where
  "demo_fs path = (if path = ''ok'' then Some ([7, 8, 9], Some 3)
                   else if path = ''shrunk'' then Some ([7, 8, 9], Some 5) else None)"

definition demo_file_body :: "usize \<Rightarrow> ChunkableBody" where
  "demo_file_body len = \<lparr>cb_stream_id = 4, cb_scid = [1], cb_conn_id = ''c'', cb_reader = File_Reader [7, 8, 9],
     cb_sender = 0, cb_body_len = len, cb_packet_id = 0, cb_bytes_written = 0, cb_conn_stats = None\<rparr>"

definition demo_file_run :: "usize \<Rightarrow> chunk_log list \<times> station" where
  "demo_file_run len = run_ops station_step [Work (Some 1), Work (Some 0)]
     (station_push (Ok (demo_file_body len)) demo_station)"

lemma demo_file_new:
  "new_file demo_fs 0 [1] 4 ''c'' ''ok'' None = Ok (demo_file_body 3)"
  "new_file demo_fs 0 [1] 4 ''c'' ''shrunk'' None = Ok (demo_file_body 5)"
  "waiting_on 0 (station_push (Ok (demo_file_body len)) demo_station) = [demo_file_body len]"
  by (simp_all add: new_file_def demo_fs_def demo_file_body_def waiting_on_def station_push_def demo_station_def)

lemma demo_file_reads: "Read_Failed 0 \<notin> set (fst (demo_file_run 3))" "Read_Failed 0 \<notin> set (fst (demo_file_run 5))"
  by code_simp+


text \<open>
  C38. If the file is shorter than its metadata said when it was opened, the body never leaves the
  station: in every run without read errors it is still queued at the end and no packet was
  flagged as the last, so the worker keeps sending empty packets and the response never ends.
\<close>

theorem shrunk_file_never_ends:
  assumes "new_file fs c s i conn path stats = Ok b" "fs path = Some (content, Some len)"
    and "length content < len"
    and "waiting_on c st = [b]" "list_all (leaves_channel c) ops"
    and "run_ops station_step ops st = (outs, st')" "Read_Failed c \<notin> set outs"
  shows "waiting_on c st' \<noteq> [] \<and> (\<forall>p \<in> set (sent_on c outs). \<not> br_is_end p)"
proof -
  have "\<not> file_done content len ([] @ sent_on c outs)"
    using assms(3) by (auto simp: file_done_def)
  then show ?thesis
    using run_station_file [OF assms(4) new_file_progress [OF assms(1,2)] assms(5,6,7)]
    by (auto simp: file_progress_def)
qed

theorem shrunk_file_never_ends_witness: "waiting_on 0 (snd (demo_file_run 5)) \<noteq> []"
proof -
  have "run_ops station_step [Work (Some 1), Work (Some 0)] (station_push (Ok (demo_file_body 5)) demo_station)
      = (fst (demo_file_run 5), snd (demo_file_run 5))"
    by (simp add: demo_file_run_def del: run_ops.simps)
  from shrunk_file_never_ends [OF demo_file_new(2) _ _ demo_file_new(3) _ this demo_file_reads(2)]
  show ?thesis by (simp add: demo_fs_def)
qed

end
