(* ===== verification/RouteHandler.thy ===== *)
theory RouteHandler
  imports RequestsTable Chunking
begin

section \<open>The route handler: from a finished request to a queued response\<close>

text \<open>
  Model of \<open>src/route_handler.rs\<close> and of \<open>build_temp_stage_file_storage_path\<close> in
  \<open>src/response_queue_processing/utils.rs\<close>. A server state joins the table of requests (with the
  file writers), the chunking station (with the dispatch channels) and the application state. What
  is fixed while the server runs is an environment: the built route manager, the user's handlers
  and stream callbacks, and the file system's answer for the length of a file. A Rust panic is
  None. The waker has no counterpart.
\<close>

record ('l, 'f, 'w) server =
  sv_requests :: "('l, 'f) requests_state"
  sv_station :: station
  sv_app :: 'w

text \<open>
  A stream callback is user code: it may change the application state and send through the
  dispatch channels that its stream sessions hold.
\<close>

type_synonym 'w stream_callback =
  "FinishedEvent \<Rightarrow> 'w \<times> QueuedRequest dispatch \<Rightarrow> (unit + unit) \<times> ('w \<times> QueuedRequest dispatch)"

text \<open>A registered stream (\<open>Stream\<close> in \<open>src/stream_sessions.rs\<close>): its middlewares and its handler.\<close>

record ('m, 'w) stream_form =
  sf_middlewares :: "'m list"
  sf_handler :: "'w stream_callback"

record ('h, 'm, 'l, 'w) handler_env =
  he_manager :: "('h, 'm, 'l) RouteManager"
  he_call :: "'h \<Rightarrow> FinishedEvent \<Rightarrow> 'w \<Rightarrow> RouteResponse \<Rightarrow> Response \<times> 'w"
  he_files :: "path_buf \<Rightarrow> usize option"
  he_streams :: "(string, ('m, 'w) stream_form) dashmap option"

abbreviation sv_dispatch :: "('l, 'f, 'w) server \<Rightarrow> QueuedRequest dispatch" where
  "sv_dispatch sv \<equiv> chunk_dispatch_channel (sv_station sv)"

definition set_dispatch :: "QueuedRequest dispatch \<Rightarrow> ('l, 'f, 'w) server \<Rightarrow> ('l, 'f, 'w) server" where
  "set_dispatch d sv = sv\<lparr>sv_station := (sv_station sv)\<lparr>chunk_dispatch_channel := d\<rparr>\<rparr>"

lemma set_dispatch_sel [simp]:
  "sv_dispatch (set_dispatch d sv) = d" "sv_requests (set_dispatch d sv) = sv_requests sv"
  "sv_app (set_dispatch d sv) = sv_app sv" "station_channel (sv_station (set_dispatch d sv)) = station_channel (sv_station sv)"
  "set_dispatch d (set_dispatch d' sv) = set_dispatch d sv"
  by (simp_all add: set_dispatch_def)


subsection \<open>Responses\<close>

definition rh_get_routes_from_path_and_method ::
  "string \<Rightarrow> H3Method \<Rightarrow> ('h, 'm, 'l) RouteManager \<Rightarrow> (('h, 'm, 'l) RouteForm \<times> ReqArgs option) option" where
  "rh_get_routes_from_path_and_method p methode m =
     (let (path, req_args) = parse_args p in
      case get_routes_from_path path m of
        Some route_coll \<Rightarrow>
          (case find (\<lambda>item. rf_method item = methode) route_coll of
             Some found_route \<Rightarrow> Some (found_route, req_args)
           | None \<Rightarrow> None)
      | None \<Rightarrow> None)"

fun response_for ::
  "(path_buf \<Rightarrow> usize option) \<Rightarrow> stream_id \<Rightarrow> scid \<Rightarrow> conn_id \<Rightarrow> RouteResponse \<Rightarrow> RequestResponse option" where
  "response_for fs i s c OK200 = new_ok_200 i s c"
| "response_for fs i s c (OK200_FILE path) = new_200_with_file fs i s c path"
| "response_for fs i s c (OK200_DATA buf) = new_200_with_data i s c buf"
| "response_for fs i s c (OK200_JSON buf) = new_200_with_json i s c buf"
| "response_for fs i s c (ERROR409 buf) = new_409_with_data i s c buf"
| "response_for fs i s c (ERROR503 buf) = new_503_with_data i s c buf"
| "response_for fs i s c (ERROR401 buf) = new_401_with_data i s c buf"
| "response_for fs i s c (ERROR422 buf) = new_422_with_data i s c buf"
| "response_for fs i s c (ERROR428 buf) = new_428_with_data i s c buf"
| "response_for fs i s c (ERROR403 buf) = new_403_with_data i s c buf"

definition process_handler ::
  "('h, 'm, 'l, 'w) handler_env \<Rightarrow> stream_id \<Rightarrow> conn_id \<Rightarrow> scid \<Rightarrow> FinishedEvent \<Rightarrow> 'w
     \<Rightarrow> (RequestResponse \<times> 'w) option" where
  "process_handler env i c s event w =
     do {
       (status_response, w') \<leftarrow> dispatch_finished (he_call env) (rm_dispatcher (he_manager env)) event w;
       resp \<leftarrow> response_for (he_files env) i s c status_response;
       Some (resp, w')
     }"

fun body_with_sender :: "chan \<Rightarrow> BodyType \<Rightarrow> BodyType" where
  "body_with_sender sndr (Data i s c d sender st) = Data i s c d (Some sndr) st"
| "body_with_sender sndr (StreamData i s c d sender st) = StreamData i s c d (Some sndr) st"
| "body_with_sender sndr (FilePath i s c p sender st) = FilePath i s c p (Some sndr) st"
| "body_with_sender sndr No_Body = No_Body"

definition attach_chunk_sender :: "chan \<Rightarrow> RequestResponse \<Rightarrow> RequestResponse" where
  "attach_chunk_sender sndr r = r\<lparr>rr_body := body_with_sender sndr (rr_body r)\<rparr>"

text \<open>\<open>RouteForm::build_response\<close>; its result is always \<open>Ok\<close>.\<close>

definition rf_build_response ::
  "stream_id \<Rightarrow> scid \<Rightarrow> conn_id \<Rightarrow> RequestResponse option \<Rightarrow> (h3_header list \<times> BodyType option) option" where
  "rf_build_response i s c resp =
     (case resp of
        Some request_response \<Rightarrow>
          let headers = get_headers request_response;
              body = fst (take_body request_response)
          in Some (headers, case body of No_Body \<Rightarrow> None | _ \<Rightarrow> Some body)
      | None \<Rightarrow> map_option (\<lambda>default. (get_headers default, None)) (new_ok_200 i s c))"


subsection \<open>Sending headers\<close>

definition send_headers ::
  "h3_header list \<Rightarrow> stream_id \<Rightarrow> scid \<Rightarrow> bool \<Rightarrow> BodyType option \<Rightarrow> chan option \<Rightarrow> HeaderPriority
     \<Rightarrow> ('l, 'f, 'w) server \<Rightarrow> ('l, 'f, 'w) server" where
  "send_headers headers i s is_end body header_sender header_priority sv =
     set_dispatch (snd (send_to_high_priority_queue i s
       (Q_Header (header_request_new i s headers is_end body header_sender header_priority)) (sv_dispatch sv))) sv"

datatype ErrorResponse = Error401 "bytes option" | Error403 "bytes option" | Error415 "bytes option"

fun error_parts :: "ErrorResponse \<Rightarrow> string \<times> bytes option" where
  "error_parts (Error401 given) = (''401'', given)"
| "error_parts (Error403 given) = (''403'', given)"
| "error_parts (Error415 given) = (''415'', given)"

definition send_error ::
  "ErrorResponse \<Rightarrow> scid \<Rightarrow> stream_id \<Rightarrow> HeaderPriority \<Rightarrow> ('l, 'f, 'w) server \<Rightarrow> ('l, 'f, 'w) server" where
  "send_error error_type s i header_priority sv =
     (let d = insert_new_channel i s (sv_dispatch sv);
          sv1 = set_dispatch d sv;
          header_sender = get_high_priority_sender i s d;
          (status, given) = error_parts error_type;
          send = (\<lambda>body. send_headers [header '':status'' status] i s (body = None) body header_sender
                           header_priority sv1)
      in case given of
           Some data \<Rightarrow>
             if data = [] then send None
             else (case get_low_priority_sender i s d of
                     None \<Rightarrow> sv1
                   | Some sender \<Rightarrow> send (Some (Data i s [] data (Some sender) None)))
         | None \<Rightarrow> send None)"

definition send_404 ::
  "('h, 'm, 'l, 'w) handler_env \<Rightarrow> string \<Rightarrow> scid \<Rightarrow> stream_id \<Rightarrow> HeaderPriority \<Rightarrow> ('l, 'f, 'w) server
     \<Rightarrow> ('l, 'f, 'w) server" where
  "send_404 env req_path s i header_priority sv =
     (let d = insert_new_channel i s (sv_dispatch sv);
          sv1 = set_dispatch d sv;
          header_sender = get_high_priority_sender i s d
      in case get_error_response Error404 (he_manager env) of
           Some (headers, body) \<Rightarrow>
             let headers1 = headers @ [header ''x-wrong-path'' req_path] in
             (case body of
                Some b \<Rightarrow> send_headers headers1 i s False (Some b) header_sender header_priority sv1
              | None \<Rightarrow> send_headers headers1 i s True None header_sender header_priority sv1)
         | None \<Rightarrow> send_headers [header '':status'' ''404''] i s True None header_sender header_priority sv1)"

definition send_reception_status_first ::
  "stream_id \<Rightarrow> scid \<Rightarrow> ('l, 'f, 'w) server \<Rightarrow> (unit + usize) \<times> ('l, 'f, 'w) server" where
  "send_reception_status_first i s sv =
     (let sv1 = set_dispatch (insert_new_channel i s (sv_dispatch sv)) sv;
          headers = [header '':status'' ''100'', header ''x-for'' (nat_to_string (unat i)),
                     header ''x-progress'' ''0'']
      in (Ok 0, send_headers headers i s False None None SendHeader100 sv1))"

text \<open>
  \<open>open_stream_then_call\<close>: the 200 header is queued before the callback runs; a failing callback
  asks for a reset of the stream.
\<close>

definition open_stream_then_call ::
  "stream_id \<Rightarrow> scid \<Rightarrow> ('w \<times> QueuedRequest dispatch \<Rightarrow> (unit + unit) \<times> ('w \<times> QueuedRequest dispatch))
     \<Rightarrow> ('l, 'f, 'w) server \<Rightarrow> (unit + unit) \<times> ('l, 'f, 'w) server" where
  "open_stream_then_call i s callback sv =
     (let h = header_request_new i s [header '':status'' ''200''] False None None OpenStream;
          (sent, d1) = send_to_high_priority_queue i s (Q_Header h) (sv_dispatch sv);
          sv1 = set_dispatch d1 sv
      in case sent of
           Inl _ \<Rightarrow> (Err (), sv1)
         | Inr _ \<Rightarrow>
             (let (r, w, d2) = callback (sv_app sv1, sv_dispatch sv1);
                  sv2 = (set_dispatch d2 sv1)\<lparr>sv_app := w\<rparr>
              in case r of
                   Inr _ \<Rightarrow> (Ok (), sv2)
                 | Inl _ \<Rightarrow> (Err (), set_dispatch (snd (request_stream_reset i s (sv_dispatch sv2))) sv2)))"


subsection \<open>Preparing the response of a finished request\<close>

text \<open>
  Sending the built response of a route. For GET the caller's header priority and the event's
  end flag are used, for POST and DELETE fixed ones, and PUT sends nothing.
\<close>

definition answer_route ::
  "H3Method \<Rightarrow> stream_id \<Rightarrow> scid \<Rightarrow> conn_id \<Rightarrow> HeaderPriority \<Rightarrow> bool \<Rightarrow> RequestResponse option
     \<Rightarrow> ('l, 'f, 'w) server \<Rightarrow> ('l, 'f, 'w) server option" where
  "answer_route method i s c header_priority is_end resp sv =
     (let send = (\<lambda>priority end_without_body sv.
            do {
              resp1 \<leftarrow> (case resp of
                 Some r \<Rightarrow> map_option (\<lambda>sender. Some (attach_chunk_sender sender r))
                            (get_low_priority_sender i s (sv_dispatch sv))
               | None \<Rightarrow> Some None);
              (headers, body) \<leftarrow> rf_build_response i s c resp1;
              Some (case body of
                 Some b \<Rightarrow> send_headers headers i s False (Some b)
                   (get_high_priority_sender i s (sv_dispatch sv)) priority sv
               | None \<Rightarrow> send_headers headers i s end_without_body None
                   (get_high_priority_sender i s (sv_dispatch sv)) priority sv)
            });
          opened = set_dispatch (insert_new_channel i s (sv_dispatch sv)) sv
      in case method of
           GET \<Rightarrow> send header_priority is_end sv
         | POST \<Rightarrow> send SendAdditionnalHeader True opened
         | DELETE \<Rightarrow> send SendAdditionnalHeader True opened
         | PUT \<Rightarrow> Some sv)"

definition response_preparation_with_route_handler ::
  "('h, 'm, 'l, 'w) handler_env \<Rightarrow> conn_id \<Rightarrow> scid \<Rightarrow> stream_id \<Rightarrow> EventType \<Rightarrow> HeaderPriority
     \<Rightarrow> ('l, 'f, 'w) server \<Rightarrow> ('l, 'f, 'w) server option" where
  "response_preparation_with_route_handler env c s i event_type header_priority sv =
     (let (built_event, rq) = build_route_event c s i event_type (sv_requests sv);
          route_event = (case built_event of Inr ev \<Rightarrow> Some ev | Inl _ \<Rightarrow> None);
          sv1 = set_dispatch (insert_new_channel i s (sv_dispatch sv)) (sv\<lparr>sv_requests := rq\<rparr>);
          route_form = (case route_event of
             Some ev \<Rightarrow> map_option fst (rh_get_routes_from_path_and_method (ev_path ev) (ev_method ev) (he_manager env))
           | None \<Rightarrow> None)
      in case route_form of
           None \<Rightarrow>
             (case (he_streams env, route_event) of
                (Some stream_sessions, Some ev) \<Rightarrow>
                  (case (dm_get stream_sessions (ev_path ev), ev) of
                     (Some stream, OnFinished event) \<Rightarrow>
                       Some (snd (open_stream_then_call i s (sf_handler stream event) sv1))
                   | _ \<Rightarrow> Some sv1)
              | _ \<Rightarrow> Some sv1)
         | Some form \<Rightarrow>
             (case route_event of
                Some (OnFinished event) \<Rightarrow>
                  do {
                    (resp, w) \<leftarrow> process_handler env i c s event (sv_app sv1);
                    answer_route (rf_method form) i s c header_priority (fe_is_end event) (Some resp) (sv1\<lparr>sv_app := w\<rparr>)
                  }
              | _ \<Rightarrow> answer_route (rf_method form) i s c header_priority True None sv1))"


subsection \<open>Filling the table\<close>

definition get_additionnal_attributes ::
  "('h, 'm, 'l, 'w) handler_env \<Rightarrow> string \<Rightarrow> H3Method \<Rightarrow> DataManagement option \<times> 'l option" where
  "get_additionnal_attributes env path method =
     (case get_routes_from_path_and_method path method (he_manager env) of
        Some (route_form, _) \<Rightarrow> (data_management_type route_form, rf_event_subscriber route_form)
      | None \<Rightarrow> (None, None))"

definition build_temp_stage_file_storage_path ::
  "path_buf \<Rightarrow> io_env \<Rightarrow> h3_header list \<Rightarrow> stream_id \<Rightarrow> conn_id \<Rightarrow> usize option \<Rightarrow> DataManagement option
     \<Rightarrow> ('l, 'f) requests_state \<Rightarrow> (path_buf \<times> uuid) option \<times> ('l, 'f) requests_state" where
  "build_temp_stage_file_storage_path storage env headers i c len dm st =
     (case dm of
        Some (Storage File) \<Rightarrow>
          let path = path_push storage (env_uuid env @ storage_extension headers);
              st1 = st\<lparr>pool := associate_stream_with_next_listener i c (pool st)\<rparr>
          in if env_create_ok env
             then (case fst (create_file_writer_handle [] (env_outcomes env) (env_handle env) {} True i c len (pool st1)) of
                     Inr cell \<Rightarrow> (Some (path, env_handle env),
                                  st1\<lparr>files := dm_insert (env_handle env) cell (files st1)\<rparr>)
                   | Inl _ \<Rightarrow> (None, st1))
             else (None, st1)
      | _ \<Rightarrow> (None, st))"

definition rh_complete_request_entry_in_table ::
  "path_buf \<Rightarrow> io_env \<Rightarrow> stream_id \<Rightarrow> conn_id \<Rightarrow> H3Method \<Rightarrow> string \<Rightarrow> h3_header list \<Rightarrow> usize option
     \<Rightarrow> DataManagement option \<Rightarrow> 'l option \<Rightarrow> ('l, 'f) requests_state \<Rightarrow> ('l, 'f) requests_state" where
  "rh_complete_request_entry_in_table storage env i c method path headers len dm sub st =
     (let (file_s, st1) = build_temp_stage_file_storage_path storage env headers i c len dm st in
      complete_request_entry_in_table i c method path headers len dm sub
        (map_option fst file_s) (map_option snd file_s) st1)"

definition create_new_request_in_table ::
  "('h, 'm, 'l, 'w) handler_env \<Rightarrow> path_buf \<Rightarrow> io_env \<Rightarrow> string \<Rightarrow> stream_id \<Rightarrow> conn_id \<Rightarrow> H3Method
     \<Rightarrow> h3_header list \<Rightarrow> usize option \<Rightarrow> bool \<Rightarrow> ('l, 'f) requests_state \<Rightarrow> ('l, 'f) requests_state" where
  "create_new_request_in_table he storage env path i c method headers len more_frames st =
     (let (dm, sub) =
        (case get_routes_from_path_and_method path method (he_manager he) of
           Some (route_form, _) \<Rightarrow> (data_management_type route_form, rf_event_subscriber route_form)
         | None \<Rightarrow> (Some (Storage InMemory), None))
      in add_partial_request storage env c i method dm sub headers path len (\<not> more_frames) st)"

definition is_request_set_in_table :: "stream_id \<Rightarrow> conn_id \<Rightarrow> ('l, 'f) requests_state \<Rightarrow> bool" where
  "is_request_set_in_table i c st = is_entry_partial_reponse_set i c st"


subsection \<open>What sending a header does\<close>

lemma get_senders_open:
  assumes "disp_inv d" "mail d (i, s) \<noteq> None"
  obtains low high where "get_low_priority_sender i s d = Some low" "get_high_priority_sender i s d = Some high"
  using assms
  by (auto simp: mail_None get_low_priority_sender_def get_high_priority_sender_def split: option.splits)

lemma entries_send_high [simp]: "entries (snd (send_to_high_priority_queue i s m d)) = entries d"
  by (auto simp: send_to_high_priority_queue_def raw_send_def split: option.split)

lemma get_low_send_high [simp]:
  "get_low_priority_sender i' s' (snd (send_to_high_priority_queue i s m d)) = get_low_priority_sender i' s' d"
  by (simp add: get_low_priority_sender_def)

lemma send_headers_mail:
  assumes "disp_inv (sv_dispatch sv)" "mail (sv_dispatch sv) (i, s) = Some (lo, hi)"
  shows "mail (sv_dispatch (send_headers hs i s e b sender pr sv))
      = (mail (sv_dispatch sv))((i, s) := Some (lo, hi @ [Q_Header (header_request_new i s hs e b sender pr)]))"
    and "disp_inv (sv_dispatch (send_headers hs i s e b sender pr sv))"
  using send_high_present [OF assms] by (simp_all add: send_headers_def)

lemma send_headers_sel [simp]:
  "sv_requests (send_headers hs i s e b sender pr sv) = sv_requests sv"
  "sv_app (send_headers hs i s e b sender pr sv) = sv_app sv"
  "station_channel (sv_station (send_headers hs i s e b sender pr sv)) = station_channel (sv_station sv)"
  "get_low_priority_sender i' s' (sv_dispatch (send_headers hs i s e b sender pr sv))
     = get_low_priority_sender i' s' (sv_dispatch sv)"
  by (simp_all add: send_headers_def)

text \<open>The mailbox of a stream once its channels exist.\<close>

definition box_of :: "'m dispatch \<Rightarrow> stream_id \<Rightarrow> scid \<Rightarrow> 'm list \<times> 'm list" where
  "box_of d i s = (case mail d (i, s) of Some b \<Rightarrow> b | None \<Rightarrow> ([], []))"

lemma mail_opened:
  "disp_inv d \<Longrightarrow> mail (insert_new_channel i s d) = (mail d)((i, s) := Some (box_of d i s))"
  by (auto simp: mail_insert box_of_def split: option.split)

lemma get_headers_body [simp]: "get_headers (r\<lparr>rr_body := b\<rparr>) = get_headers r"
  by (simp add: get_headers_def)

lemma rf_build_response_attached:
  "rf_build_response i s c (Some (attach_chunk_sender low r))
     = Some (get_headers r, if rr_body r = No_Body then None else Some (body_with_sender low (rr_body r)))"
  by (cases "rr_body r") (simp_all add: rf_build_response_def take_body_def attach_chunk_sender_def)

text \<open>The one header that answers a request with a response.\<close>

definition answer_header ::
  "H3Method \<Rightarrow> stream_id \<Rightarrow> scid \<Rightarrow> HeaderPriority \<Rightarrow> bool \<Rightarrow> chan \<Rightarrow> chan option \<Rightarrow> RequestResponse \<Rightarrow> HeaderRequest" where
  "answer_header method i s header_priority is_end low high r =
     header_request_new i s (get_headers r)
       (rr_body r = No_Body \<and> (if method = GET then is_end else True))
       (if rr_body r = No_Body then None else Some (body_with_sender low (rr_body r))) high
       (if method = GET then header_priority else SendAdditionnalHeader)"

lemma answer_route_present:
  assumes "disp_inv (sv_dispatch sv)" "mail (sv_dispatch sv) (i, s) = Some (lo, hi)" "method \<noteq> PUT"
    and "get_low_priority_sender i s (sv_dispatch sv) = Some low" "get_high_priority_sender i s (sv_dispatch sv) = high"
  obtains sv' where "answer_route method i s c pr e (Some r) sv = Some sv'"
    "mail (sv_dispatch sv')
       = (mail (sv_dispatch sv))((i, s) := Some (lo, hi @ [Q_Header (answer_header method i s pr e low high r)]))"
    "sv_requests sv' = sv_requests sv" "sv_app sv' = sv_app sv"
    "station_channel (sv_station sv') = station_channel (sv_station sv)"
    "disp_inv (sv_dispatch sv')" "get_low_priority_sender i s (sv_dispatch sv') = Some low"
proof -
  obtain en where en: "dm_get (entries (sv_dispatch sv)) (i, s) = Some en"
    using assms(1,2) by (metis mail_None not_None_eq option.distinct(1))
  have same: "set_dispatch (insert_new_channel i s (sv_dispatch sv)) sv = sv"
    using insert_new_channel_present [OF en] by (simp add: set_dispatch_def)
  let ?h = "answer_header method i s pr e low high r"
  let ?sv = "set_dispatch (snd (send_to_high_priority_queue i s (Q_Header ?h) (sv_dispatch sv))) sv"
  have "answer_route method i s c pr e (Some r) sv = Some ?sv"
    using assms(3-5) same
    by (cases "method") (simp_all add: answer_route_def rf_build_response_attached answer_header_def send_headers_def)
  then show thesis
    by (rule that) (use send_high_present [OF assms(1,2), of "Q_Header ?h"] assms(4) in simp_all)
qed

lemma rh_lookup_eq: "rh_get_routes_from_path_and_method = get_routes_from_path_and_method"
  by (auto simp: fun_eq_iff rh_get_routes_from_path_and_method_def get_routes_from_path_and_method_def
      split: prod.split option.split)

lemma rh_lookup_method:
  "rh_get_routes_from_path_and_method p m mgr = Some (form, args) \<Longrightarrow> rf_method form = m"
  by (auto simp: rh_get_routes_from_path_and_method_def find_Some_iff split: prod.splits option.splits)

lemma response_for_total: "\<exists>r. response_for fs i s c answer = Some r"
  by (cases answer)
    (simp_all add: new_ok_200_eq new_200_with_data_eq new_200_with_file_eq new_json_with_status_eq
      new_200_with_json_def new_409_with_data_def new_403_with_data_def new_503_with_data_def
      new_401_with_data_def new_422_with_data_def new_428_with_data_def)

lemma answer_finished_request:
  assumes "disp_inv (sv_dispatch sv)"
    and "build_route_event c s i OnFinished_Type (sv_requests sv) = (Ok (OnFinished event), rq)"
    and "rh_get_routes_from_path_and_method (fe_path event) (fe_method event) (he_manager env) = Some (form, args)"
    and "fe_method event \<noteq> PUT"
    and "dispatch_finished (he_call env) (rm_dispatcher (he_manager env)) event (sv_app sv) = Some (answer, w)"
  shows "\<exists>sv' resp low high.
    response_preparation_with_route_handler env c s i OnFinished_Type pr sv = Some sv'
    \<and> response_for (he_files env) i s c answer = Some resp
    \<and> mail (sv_dispatch sv') = (mail (sv_dispatch sv))((i, s) := Some (fst (box_of (sv_dispatch sv) i s),
         snd (box_of (sv_dispatch sv) i s)
         @ [Q_Header (answer_header (fe_method event) i s pr (fe_is_end event) low high resp)]))
    \<and> get_low_priority_sender i s (sv_dispatch sv') = Some low
    \<and> sv_requests sv' = rq \<and> sv_app sv' = w
    \<and> station_channel (sv_station sv') = station_channel (sv_station sv)"
proof -
  obtain resp where resp: "response_for (he_files env) i s c answer = Some resp"
    using response_for_total by blast
  then have handled: "process_handler env i c s event (sv_app sv) = Some (resp, w)"
    using assms(5) by (simp add: process_handler_def)
  let ?d = "insert_new_channel i s (sv_dispatch sv)"
  let ?sv = "(set_dispatch ?d (sv\<lparr>sv_requests := rq\<rparr>))\<lparr>sv_app := w\<rparr>"
  have inv: "disp_inv ?d" using assms(1) by (rule disp_inv_insert)
  have mail: "mail ?d = (mail (sv_dispatch sv))((i, s) := Some (box_of (sv_dispatch sv) i s))"
    by (rule mail_opened [OF assms(1)])
  then obtain low high where senders: "get_low_priority_sender i s ?d = Some low"
    "get_high_priority_sender i s ?d = Some high"
    using get_senders_open [OF inv, of i s] by auto
  have sel: "sv_dispatch ?sv = ?d" "sv_requests ?sv = rq" "sv_app ?sv = w"
    "station_channel (sv_station ?sv) = station_channel (sv_station sv)"
    by (simp_all add: set_dispatch_def)
  have app: "sv_app (set_dispatch ?d (sv\<lparr>sv_requests := rq\<rparr>)) = sv_app sv" by simp
  have "response_preparation_with_route_handler env c s i OnFinished_Type pr sv
      = answer_route (rf_method form) i s c pr (fe_is_end event) (Some resp) ?sv"
    using assms(2,3) handled app by (simp add: response_preparation_with_route_handler_def Let_def)
  moreover have "rf_method form = fe_method event" by (rule rh_lookup_method [OF assms(3)])
  moreover obtain lo hi where box: "box_of (sv_dispatch sv) i s = (lo, hi)" by fastforce
  ultimately show ?thesis
    by (rule_tac answer_route_present [of ?sv i s lo hi "fe_method event" low "Some high" c pr "fe_is_end event" resp])
      (use inv mail senders assms(4) sel resp in \<open>auto simp: box\<close>)
qed

text \<open>
  A finished request for a registered GET, POST or DELETE route is answered by exactly one
  header, at the end of its stream's high priority queue and nowhere else. It carries the headers
  of the response the registered handlers built, and the response's body ready to be chunked
  through the stream's own channel. A response without body ends the stream with the header (for
  GET if the request had ended). The request is consumed from the table, the application state is
  the one the handlers left, and nothing is handed to the chunking station yet.
\<close>

theorem finished_request_answered:
  assumes "disp_inv (sv_dispatch sv)"
    and "build_route_event c s i OnFinished_Type (sv_requests sv) = (Ok (OnFinished event), rq)"
    and "rh_get_routes_from_path_and_method (fe_path event) (fe_method event) (he_manager env) = Some (form, args)"
    and "fe_method event \<noteq> PUT"
    and "dispatch_finished (he_call env) (rm_dispatcher (he_manager env)) event (sv_app sv) = Some (answer, w)"
  shows "\<exists>sv' resp low high.
    response_preparation_with_route_handler env c s i OnFinished_Type pr sv = Some sv'
    \<and> response_for (he_files env) i s c answer = Some resp
    \<and> mail (sv_dispatch sv') = (mail (sv_dispatch sv))((i, s) := Some (fst (box_of (sv_dispatch sv) i s),
         snd (box_of (sv_dispatch sv) i s)
         @ [Q_Header (answer_header (fe_method event) i s pr (fe_is_end event) low high resp)]))
    \<and> get_low_priority_sender i s (sv_dispatch sv') = Some low
    \<and> sv_requests sv' = rq \<and> sv_app sv' = w
    \<and> station_channel (sv_station sv') = station_channel (sv_station sv)"
  using answer_finished_request [OF assms, of pr] .


definition demo_requests :: "H3Method \<Rightarrow> (unit, unit) requests_state" where
  "demo_requests m = add_partial_request [] demo_env ''c'' 4 m (Some (Storage InMemory)) None [] ''/a'' None True
     (requests_new (pool_new 8))"

definition demo_server :: "H3Method \<Rightarrow> (unit, unit, nat list) server" where
  "demo_server m = \<lparr>sv_requests = demo_requests m, sv_station = station_new, sv_app = []\<rparr>"

definition demo_he :: "(nat, nat, unit) RouteManager \<Rightarrow> (nat, nat, unit, nat list) handler_env" where
  "demo_he mgr = \<lparr>he_manager = mgr, he_call = demo_call, he_files = (\<lambda>_. None), he_streams = None\<rparr>"

definition demo_finished :: "H3Method \<Rightarrow> FinishedEvent" where
  "demo_finished m = finished_event_new 4 ''c'' [1] ''/a'' m [] None None None 0 (Some []) True"

lemma demo_request_built:
  "build_route_event ''c'' [1] 4 OnFinished_Type (sv_requests (demo_server m))
     = (Ok (OnFinished (demo_finished m)), requests_new (pool_new 8))"
  by (simp add: demo_server_def demo_requests_def add_partial_request_def requests_new_def partial_req_new_def
      parse_args_def dm_or_insert_def dm_insert_def dm_remove_def dm_get_def dm_contains_def build_route_event_def
      to_route_event_def demo_finished_def)

lemma demo_server_inv: "disp_inv (sv_dispatch (demo_server m))"
  by (simp add: demo_server_def station_new_def disp_inv_new)

theorem finished_request_answered_witness:
  "\<exists>sv' h. response_preparation_with_route_handler (demo_he (manager_build demo_builder)) ''c'' [1] 4 OnFinished_Type
       SendAdditionnalHeader (demo_server GET) = Some sv'
     \<and> mail (sv_dispatch sv') (4, [1]) = Some ([], [Q_Header h]) \<and> sv_app sv' = [10]"
proof -
  let ?he = "demo_he (manager_build demo_builder)"
  have "get_routes_from_path_and_method_b ''/a'' GET (manager_build demo_builder)
      = Some (asked_route [1] ''/a'' GET route_config_default (fb_handler 10))"
    using route_lookup_found [OF demo_registered, of "''/a''" GET
        "asked_route [1] ''/a'' GET route_config_default (fb_handler 10)"]
    by (simp add: demo_regs_def)
  then have form: "rh_get_routes_from_path_and_method (fe_path (demo_finished GET)) (fe_method (demo_finished GET))
        (he_manager ?he) = Some (asked_route [1] ''/a'' GET route_config_default (fb_handler 10), None)"
    by (auto simp: rh_get_routes_from_path_and_method_def get_routes_from_path_and_method_b_def demo_finished_def
        finished_event_new_def parse_args_def demo_he_def split: option.splits)
  have run: "dispatch_finished (he_call ?he) (rm_dispatcher (he_manager ?he)) (demo_finished GET) (sv_app (demo_server GET))
      = Some (OK200_DATA [], [10])"
    by (simp add: demo_he_def demo_server_def dispatch_found [OF demo_registered])
      (simp add: demo_regs_def demo_finished_def finished_event_new_def asked_route_def fb_handler_def
        route_form_new_def form_builder_new_def Let_def demo_call_def respond_def)
  have "fe_method (demo_finished GET) \<noteq> PUT" by (simp add: demo_finished_def finished_event_new_def)
  from finished_request_answered [OF demo_server_inv demo_request_built form this run, of SendAdditionnalHeader]
  show ?thesis by (auto simp: box_of_def demo_server_def station_new_def)
qed

definition open_header :: "stream_id \<Rightarrow> scid \<Rightarrow> HeaderRequest" where
  "open_header i s = header_request_new i s [header '':status'' ''200''] False None None OpenStream"

text \<open>
  C29. A finished request whose path is no route but a registered stream opens the stream: the 200
  header is in the stream's queue, behind what was there, before the user's callback runs on the
  finished event, so nothing the callback publishes can overtake it; if the callback fails the
  stream is marked for reset and no second header is sent.
\<close>

theorem stream_opened_before_callback:
  assumes "disp_inv (sv_dispatch sv)"
    and "build_route_event c s i OnFinished_Type (sv_requests sv) = (Ok (OnFinished event), rq)"
    and "rh_get_routes_from_path_and_method (fe_path event) (fe_method event) (he_manager env) = None"
    and "he_streams env = Some sessions" "dm_get sessions (fe_path event) = Some stream"
  shows "\<exists>d. mail d = (mail (sv_dispatch sv))((i, s) := Some (fst (box_of (sv_dispatch sv) i s),
         snd (box_of (sv_dispatch sv) i s) @ [Q_Header (open_header i s)]))
    \<and> response_preparation_with_route_handler env c s i OnFinished_Type pr sv =
       (let (r, w, d') = sf_handler stream event (sv_app sv, d);
            d'' = (if is_ok r then d' else snd (request_stream_reset i s d'))
        in Some ((set_dispatch d'' (sv\<lparr>sv_requests := rq\<rparr>))\<lparr>sv_app := w\<rparr>))"
proof -
  let ?d = "insert_new_channel i s (sv_dispatch sv)"
  let ?q = "send_to_high_priority_queue i s (Q_Header (open_header i s)) ?d"
  have inv: "disp_inv ?d" using assms(1) by (rule disp_inv_insert)
  have mail: "mail ?d = (mail (sv_dispatch sv))((i, s) := Some (box_of (sv_dispatch sv) i s))"
    by (rule mail_opened [OF assms(1)])
  obtain lo hi where box: "box_of (sv_dispatch sv) i s = (lo, hi)" by fastforce
  note sent = send_high_present [OF inv, of i s lo hi "Q_Header (open_header i s)"]
  have q: "fst ?q = Ok ()" using sent(1) mail box by simp
  have "response_preparation_with_route_handler env c s i OnFinished_Type pr sv =
       (let (r, w, d') = sf_handler stream event (sv_app sv, snd ?q);
            d'' = (if is_ok r then d' else snd (request_stream_reset i s d'))
        in Some ((set_dispatch d'' (sv\<lparr>sv_requests := rq\<rparr>))\<lparr>sv_app := w\<rparr>))"
    using assms(2-5) q
    by (auto simp: response_preparation_with_route_handler_def open_stream_then_call_def open_header_def Let_def
        split_beta set_dispatch_def split: sum.split option.split)
  then show ?thesis using sent(2) mail box by (intro exI [of _ "snd ?q"]) simp
qed

definition demo_callback :: "nat list stream_callback" where
  "demo_callback event wd = (Err (), fst wd @ [99], snd wd)"

definition demo_stream :: "(nat, nat list) stream_form" where
  "demo_stream = \<lparr>sf_middlewares = [], sf_handler = demo_callback\<rparr>"

theorem stream_opened_before_callback_witness:
  "\<exists>sv'. response_preparation_with_route_handler
     ((demo_he (manager_build manager_builder_new))\<lparr>he_streams := Some [(''/a'', demo_stream)]\<rparr>) ''c'' [1] 4
     OnFinished_Type SendAdditionnalHeader (demo_server GET) = Some sv' \<and> sv_app sv' = [99]"
proof -
  let ?he = "(demo_he (manager_build manager_builder_new))\<lparr>he_streams := Some [(''/a'', demo_stream)]\<rparr>"
  have none: "rh_get_routes_from_path_and_method (fe_path (demo_finished GET)) (fe_method (demo_finished GET)) (he_manager ?he) = None"
    by (simp add: rh_get_routes_from_path_and_method_def demo_finished_def finished_event_new_def parse_args_def
        demo_he_def get_routes_from_path_def manager_build_def manager_builder_new_def)
  have streams: "he_streams ?he = Some [(''/a'', demo_stream)]"
    "dm_get [(''/a'', demo_stream)] (fe_path (demo_finished GET)) = Some demo_stream"
    by (simp_all add: demo_finished_def finished_event_new_def dm_get_def)
  from stream_opened_before_callback [OF demo_server_inv demo_request_built none streams, of SendAdditionnalHeader]
  show ?thesis by (auto simp: demo_stream_def demo_callback_def demo_server_def)
qed

end
