(* ===== verification/FifoBody.thy ===== *)
theory FifoBody
  imports Prelude
begin

section \<open>The per-stream retry queue of a connection\<close>

text \<open>
  Model of \<open>src/server_init/quiche_http3_server/fifo_body.rs\<close>: \<open>BodyReqQueue<T>\<close> keeps, for one
  connection, a queue of items per stream and the list of streams in registration order with a
  cursor into it. The trait method \<open>QueueTrackableItem::stream_id\<close> is the parameter \<open>sid\<close>.
  The queue of a stream is the abstract view; the locale \<open>stream_fifo\<close> states its laws.
\<close>

subsection \<open>The interface\<close>

locale stream_fifo =
  fixes invar :: "'q \<Rightarrow> bool"
    and pending :: "'q \<Rightarrow> stream_id \<Rightarrow> 'a list"
    and push_back :: "stream_id \<Rightarrow> 'a \<Rightarrow> 'q \<Rightarrow> 'q"
    and push_front :: "stream_id \<Rightarrow> 'a \<Rightarrow> 'q \<Rightarrow> 'q"
    and pop :: "stream_id \<Rightarrow> 'q \<Rightarrow> 'a option \<times> 'q"
    and clear :: "stream_id \<Rightarrow> 'q \<Rightarrow> 'q"
  assumes pending_push_back:
      "invar q \<Longrightarrow> pending (push_back i x q) = (pending q)(i := pending q i @ [x])"
    and pending_push_front:
      "invar q \<Longrightarrow> pending (push_front i x q) = (pending q)(i := x # pending q i)"
    and pop_empty: "invar q \<Longrightarrow> pending q i = [] \<Longrightarrow> fst (pop i q) = None \<and> pending (snd (pop i q)) = pending q"
    and pop_Cons: "invar q \<Longrightarrow> pending q i = x # xs \<Longrightarrow>
       fst (pop i q) = Some x \<and> pending (snd (pop i q)) = (pending q)(i := xs)"
    and pending_clear: "invar q \<Longrightarrow> pending (clear i q) = (pending q)(i := [])"
    and invar_ops: "invar q \<Longrightarrow> invar (push_back i x q)" "invar q \<Longrightarrow> invar (push_front i x q)"
      "invar q \<Longrightarrow> invar (snd (pop i q))" "invar q \<Longrightarrow> invar (clear i q)"
begin

lemma pending_push_list:
  "invar q \<Longrightarrow> invar (fold (push_back i) xs q)
     \<and> pending (fold (push_back i) xs q) = (pending q)(i := pending q i @ xs)"
  by (induction xs arbitrary: q) (simp_all add: pending_push_back invar_ops fun_upd_idem)

text \<open>An item that was taken out and could not be sent goes back where it was.\<close>

lemma requeue_restores:
  assumes "invar q" "fst (pop i q) = Some x"
  shows "pending (push_front i x (snd (pop i q))) = pending q"
proof (cases "pending q i")
  case Nil
  then show ?thesis using assms pop_empty by force
next
  case (Cons y ys)
  then have "fst (pop i q) = Some y" "pending (snd (pop i q)) = (pending q)(i := ys)"
    using assms(1) pop_Cons by auto
  with Cons assms show ?thesis
    by (simp add: pending_push_front invar_ops fun_upd_idem)
qed

lemma other_streams_untouched:
  assumes "invar q" "j \<noteq> i"
  shows "pending (push_back i x q) j = pending q j" "pending (push_front i x q) j = pending q j"
    "pending (clear i q) j = pending q j" "pending (snd (pop i q)) j = pending q j"
proof -
  show "pending (snd (pop i q)) j = pending q j"
    using assms pop_empty [OF assms(1)] pop_Cons [OF assms(1)] by (cases "pending q i") auto
qed (use assms in \<open>simp_all add: pending_push_back pending_push_front pending_clear\<close>)

end


subsection \<open>State and operations\<close>

record 'a BodyReqQueue =
  fifo_conn :: bytes
  streams :: "stream_id list"
  current_stream_index :: usize
  queue :: "(stream_id, 'a list) dashmap"

definition fifo_new :: "bytes \<Rightarrow> 'a BodyReqQueue" where
  "fifo_new cid = \<lparr>fifo_conn = cid, streams = [], current_stream_index = 0, queue = []\<rparr>"

definition buffer_size_per_stream :: "'a BodyReqQueue \<Rightarrow> (stream_id, usize) dashmap" where
  "buffer_size_per_stream q = foldl (\<lambda>m (k, xs). dm_insert k (length xs) m) [] (queue q)"

text \<open>\<open>Iterator::max_by_key\<close> keeps the last of several maximal elements.\<close>

definition max_by_key :: "('b \<Rightarrow> nat) \<Rightarrow> 'b list \<Rightarrow> 'b option" where
  "max_by_key f xs = foldl (\<lambda>acc x. case acc of None \<Rightarrow> Some x
                              | Some y \<Rightarrow> if f x < f y then Some y else Some x) None xs"

definition max_pending_queue :: "'a BodyReqQueue \<Rightarrow> (stream_id \<times> usize) option" where
  "max_pending_queue q =
     (case max_by_key (\<lambda>item. length (snd item)) (queue q) of
        Some item \<Rightarrow> Some (fst item, length (snd item))
      | None \<Rightarrow> None)"

definition register_stream :: "stream_id \<Rightarrow> stream_id list \<Rightarrow> stream_id list" where
  "register_stream i ss = (if i \<in> set ss then ss else ss @ [i])"

definition push_item_on_stream :: "'a \<Rightarrow> stream_id \<Rightarrow> 'a BodyReqQueue \<Rightarrow> 'a BodyReqQueue" where
  "push_item_on_stream item i q =
     (case dm_get (queue q) i of
        Some entry \<Rightarrow> q\<lparr>queue := dm_insert i (entry @ [item]) (queue q)\<rparr>
      | None \<Rightarrow> q\<lparr>streams := register_stream i (streams q), queue := dm_insert i [item] (queue q)\<rparr>)"

definition push_item :: "('a \<Rightarrow> stream_id) \<Rightarrow> 'a \<Rightarrow> 'a BodyReqQueue \<Rightarrow> 'a BodyReqQueue" where
  "push_item sid item q =
     (case dm_get (queue q) (sid item) of
        Some entry \<Rightarrow> q\<lparr>queue := dm_insert (sid item) (entry @ [item]) (queue q)\<rparr>
      | None \<Rightarrow> q\<lparr>streams := register_stream (sid item) (streams q),
                  queue := dm_insert (sid item) [item] (queue q)\<rparr>)"

definition push_item_on_front :: "('a \<Rightarrow> stream_id) \<Rightarrow> 'a \<Rightarrow> 'a BodyReqQueue \<Rightarrow> 'a BodyReqQueue" where
  "push_item_on_front sid item q =
     (case dm_get (queue q) (sid item) of
        Some entry \<Rightarrow> q\<lparr>queue := dm_insert (sid item) (item # entry) (queue q)\<rparr>
      | None \<Rightarrow> q\<lparr>streams := register_stream (sid item) (streams q),
                  queue := dm_insert (sid item) [item] (queue q)\<rparr>)"

definition remove_stream_queue :: "stream_id \<Rightarrow> 'a BodyReqQueue \<Rightarrow> 'a BodyReqQueue" where
  "remove_stream_queue i q = q\<lparr>queue := dm_remove i (queue q)\<rparr>"

text \<open>
  \<open>get_queue_mut\<close> lends the stored queue to the caller; the only use in the server is
  \<open>get_queue_mut(id).and_then(|queue| queue.pop_front())\<close>.
\<close>

definition get_queue_mut :: "stream_id \<Rightarrow> 'a BodyReqQueue \<Rightarrow> 'a list option" where
  "get_queue_mut i q = dm_get (queue q) i"

definition pop_front_of :: "stream_id \<Rightarrow> 'a BodyReqQueue \<Rightarrow> 'a option \<times> 'a BodyReqQueue" where
  "pop_front_of i q =
     (case get_queue_mut i q of
        Some (x # xs) \<Rightarrow> (Some x, q\<lparr>queue := dm_insert i xs (queue q)\<rparr>)
      | _ \<Rightarrow> (None, q))"

definition next_stream :: "'a BodyReqQueue \<Rightarrow> (stream_id \<times> 'a list option) option \<times> 'a BodyReqQueue" where
  "next_stream q =
     (if streams q = [] then (None, q)
      else if current_stream_index q < length (streams q)
      then let i = streams q ! current_stream_index q in
           (Some (i, dm_get (queue q) i), q\<lparr>current_stream_index := current_stream_index q + 1\<rparr>)
      else (None, q\<lparr>current_stream_index := 0\<rparr>))"

definition stream_vec :: "'a BodyReqQueue \<Rightarrow> stream_id list" where
  "stream_vec q = streams q"

definition for_stream :: "'a BodyReqQueue \<Rightarrow> (stream_id \<times> 'a list) list option" where
  "for_stream q = (if streams q = [] then None else Some (queue q))"

definition fifo_remove :: "stream_id \<Rightarrow> 'a BodyReqQueue \<Rightarrow> 'a BodyReqQueue" where
  "fifo_remove i q =
     (let q' = (if i \<in> set (streams q)
                then q\<lparr>streams := remove1 i (streams q), current_stream_index := 0\<rparr> else q)
      in q'\<lparr>queue := dm_remove i (queue q')\<rparr>)"

definition is_stream_queue_empty :: "stream_id \<Rightarrow> 'a BodyReqQueue \<Rightarrow> bool" where
  "is_stream_queue_empty i q =
     (case dm_get (queue q) i of
        Some entry \<Rightarrow> \<not> 0 < length entry
      | None \<Rightarrow> True)"

declare fifo_new_def [op_defs] push_item_on_stream_def [op_defs] push_item_def [op_defs]
  push_item_on_front_def [op_defs] remove_stream_queue_def [op_defs] pop_front_of_def [op_defs]
  get_queue_mut_def [op_defs] next_stream_def [op_defs] fifo_remove_def [op_defs]
  register_stream_def [op_defs]


subsection \<open>Invariant and abstract view\<close>

definition pending_of :: "'a BodyReqQueue \<Rightarrow> stream_id \<Rightarrow> 'a list" where
  "pending_of q i = (case dm_get (queue q) i of None \<Rightarrow> [] | Some xs \<Rightarrow> xs)"

definition fifo_inv :: "'a BodyReqQueue \<Rightarrow> bool" where
  "fifo_inv q \<longleftrightarrow> dm_wf (queue q) \<and> distinct (streams q)
     \<and> (\<forall>i. dm_contains (queue q) i \<longrightarrow> i \<in> set (streams q))
     \<and> current_stream_index q \<le> length (streams q)"

lemma fifo_inv_new [inv_intros]: "fifo_inv (fifo_new cid)"
  by (simp add: fifo_inv_def op_defs)

lemma fifo_inv_push_stream [inv_intros]: "fifo_inv q \<Longrightarrow> fifo_inv (push_item_on_stream x i q)"
  by (auto simp: fifo_inv_def op_defs dm_contains_def split: option.splits)

lemma push_item_alt: "push_item sid x q = push_item_on_stream x (sid x) q"
  by (simp add: push_item_def push_item_on_stream_def)

lemma fifo_inv_push_front [inv_intros]: "fifo_inv q \<Longrightarrow> fifo_inv (push_item_on_front sid x q)"
  by (auto simp: fifo_inv_def op_defs dm_contains_def split: option.splits)

lemma fifo_inv_remove_queue [inv_intros]: "fifo_inv q \<Longrightarrow> fifo_inv (remove_stream_queue i q)"
  by (auto simp: fifo_inv_def op_defs)

lemma fifo_inv_pop [inv_intros]: "fifo_inv q \<Longrightarrow> fifo_inv (snd (pop_front_of i q))"
  by (auto simp: fifo_inv_def op_defs dm_contains_def split: option.splits list.splits)

lemma fifo_inv_next [inv_intros]: "fifo_inv q \<Longrightarrow> fifo_inv (snd (next_stream q))"
  by (auto simp: fifo_inv_def op_defs Let_def)

lemma fifo_inv_remove [inv_intros]: "fifo_inv q \<Longrightarrow> fifo_inv (fifo_remove i q)"
  by (auto simp: fifo_inv_def op_defs Let_def distinct_remove1)

lemma pending_new [abs_simps]: "pending_of (fifo_new cid) = (\<lambda>_. [])"
  by (simp add: fun_eq_iff pending_of_def fifo_new_def)

lemma pending_push_stream [abs_simps]:
  "pending_of (push_item_on_stream x i q) = (pending_of q)(i := pending_of q i @ [x])"
  by (auto simp: fun_eq_iff pending_of_def push_item_on_stream_def split: option.splits)

lemma pending_push_front [abs_simps]:
  "pending_of (push_item_on_front sid x q) = (pending_of q)(sid x := x # pending_of q (sid x))"
  by (auto simp: fun_eq_iff pending_of_def push_item_on_front_def split: option.splits)

lemma pending_remove_queue [abs_simps]:
  "pending_of (remove_stream_queue i q) = (pending_of q)(i := [])"
  by (auto simp: fun_eq_iff pending_of_def remove_stream_queue_def)

lemma pending_remove [abs_simps]: "pending_of (fifo_remove i q) = (pending_of q)(i := [])"
  by (auto simp: fun_eq_iff pending_of_def fifo_remove_def Let_def)

lemma pending_next [abs_simps]: "pending_of (snd (next_stream q)) = pending_of q"
  by (auto simp: fun_eq_iff pending_of_def next_stream_def Let_def)

lemma pop_front_of_pending:
  "pop_front_of i q = (case pending_of q i of
     [] \<Rightarrow> (None, q) | x # xs \<Rightarrow> (Some x, q\<lparr>queue := dm_insert i xs (queue q)\<rparr>))"
  by (auto simp: pop_front_of_def get_queue_mut_def pending_of_def split: option.splits list.splits)

lemma pending_insert: "pending_of (q\<lparr>queue := dm_insert i xs (queue q)\<rparr>) = (pending_of q)(i := xs)"
  by (auto simp: fun_eq_iff pending_of_def)

lemma is_empty_pending: "is_stream_queue_empty i q \<longleftrightarrow> pending_of q i = []"
  by (simp add: is_stream_queue_empty_def pending_of_def split: option.splits)

lemma fifo_inv_store [inv_intros]:
  "fifo_inv q \<Longrightarrow> pending_of q i = x # ys \<Longrightarrow> fifo_inv (q\<lparr>queue := dm_insert i xs (queue q)\<rparr>)"
  by (auto simp: fifo_inv_def pending_of_def dm_contains_def split: option.splits)

text \<open>The model's queue provides the interface.\<close>

interpretation retry_queue: stream_fifo fifo_inv pending_of "\<lambda>i x. push_item_on_stream x i"
    "\<lambda>i x. push_item_on_front (\<lambda>_. i) x" pop_front_of remove_stream_queue
  by unfold_locales
    (auto simp: abs_simps pop_front_of_pending pending_insert
      intro: inv_intros split: list.splits)

lemma push_item_on_front_sid: "push_item_on_front sid x q = push_item_on_front (\<lambda>_. sid x) x q"
  by (simp add: push_item_on_front_def)


subsection \<open>Runs of the queue and its abstract specification\<close>

text \<open>
  The specification of a run is a function from streams to lists: what the server relies on is
  only which items wait for which stream and in which order.
\<close>

datatype 'a fifo_op =
    PushItem 'a | PushItemOnFront 'a | PushItemOnStream 'a stream_id
  | PopFront stream_id | NextStream | RemoveStreamQueue stream_id | Remove stream_id

fun fifo_step :: "('a \<Rightarrow> stream_id) \<Rightarrow> 'a fifo_op \<Rightarrow> 'a BodyReqQueue \<Rightarrow> 'a option \<times> 'a BodyReqQueue" where
  "fifo_step sid (PushItem x) q = (None, push_item sid x q)"
| "fifo_step sid (PushItemOnFront x) q = (None, push_item_on_front sid x q)"
| "fifo_step sid (PushItemOnStream x i) q = (None, push_item_on_stream x i q)"
| "fifo_step sid (PopFront i) q = pop_front_of i q"
| "fifo_step sid NextStream q = (None, snd (next_stream q))"
| "fifo_step sid (RemoveStreamQueue i) q = (None, remove_stream_queue i q)"
| "fifo_step sid (Remove i) q = (None, fifo_remove i q)"

fun spec_step :: "('a \<Rightarrow> stream_id) \<Rightarrow> 'a fifo_op \<Rightarrow> (stream_id \<Rightarrow> 'a list) \<Rightarrow> 'a option \<times> (stream_id \<Rightarrow> 'a list)" where
  "spec_step sid (PushItem x) p = (None, p(sid x := p (sid x) @ [x]))"
| "spec_step sid (PushItemOnFront x) p = (None, p(sid x := x # p (sid x)))"
| "spec_step sid (PushItemOnStream x i) p = (None, p(i := p i @ [x]))"
| "spec_step sid (PopFront i) p = (case p i of [] \<Rightarrow> (None, p) | x # xs \<Rightarrow> (Some x, p(i := xs)))"
| "spec_step sid NextStream p = (None, p)"
| "spec_step sid (RemoveStreamQueue i) p = (None, p(i := []))"
| "spec_step sid (Remove i) p = (None, p(i := []))"

lemma fifo_step_refines:
  "fifo_inv q \<Longrightarrow> fifo_inv (snd (fifo_step sid op q))
     \<and> spec_step sid op (pending_of q) = (fst (fifo_step sid op q), pending_of (snd (fifo_step sid op q)))"
  by (cases op)
    (auto simp: abs_simps push_item_alt pop_front_of_pending pending_insert
      intro: inv_intros split: list.splits)

lemma fifo_run_refines:
  "fifo_inv q \<Longrightarrow> fifo_inv (snd (run_ops (fifo_step sid) ops q))
     \<and> run_ops (spec_step sid) ops (pending_of q)
         = (fst (run_ops (fifo_step sid) ops q), pending_of (snd (run_ops (fifo_step sid) ops q)))"
proof (induction ops arbitrary: q)
  case Nil
  then show ?case by simp
next
  case (Cons op ops)
  obtain out q' where step: "fifo_step sid op q = (out, q')" by fastforce
  with fifo_step_refines [OF Cons.prems, of sid op] have "fifo_inv q'"
    "spec_step sid op (pending_of q) = (out, pending_of q')" by auto
  with Cons.IH [of q'] step show ?case
    by (auto simp: Let_def split: prod.splits)
qed

text \<open>
  C34. Refinement: over any sequence of operations on a new queue, the items handed out and the
  items waiting per stream are those of the specification, and the queue stays well formed
  (every stream with a queue is registered exactly once and the cursor is in range).
\<close>

theorem body_queue_refines_streams:
  "run_ops (spec_step sid) ops (\<lambda>_. [])
     = (fst (run_ops (fifo_step sid) ops (fifo_new cid)), pending_of (snd (run_ops (fifo_step sid) ops (fifo_new cid))))
   \<and> fifo_inv (snd (run_ops (fifo_step sid) ops (fifo_new cid)))"
  using fifo_run_refines [OF fifo_inv_new, of sid ops cid] by (simp add: pending_new)

text \<open>
  A retried item keeps its place: an item popped from the front of a stream and pushed back
  on the front because sending it failed leaves every stream's pending items as they were.
\<close>

theorem failed_send_keeps_order:
  assumes "fifo_inv q" "fst (pop_front_of i q) = Some x" "sid x = i"
  shows "pending_of (push_item_on_front sid x (snd (pop_front_of i q))) = pending_of q"
  using retry_queue.requeue_restores [OF assms(1,2)] assms(3)
  by (simp add: push_item_on_front_sid [of sid])

theorem failed_send_keeps_order_witness:
  "pending_of (push_item_on_front (\<lambda>x. 4) (7::nat)
      (snd (pop_front_of 4 (push_item (\<lambda>x. 4) 8 (push_item (\<lambda>x. 4) 7 (fifo_new [1])))))) 4 = [7, 8]"
proof -
  let ?q = "push_item (\<lambda>x. 4) (8::nat) (push_item (\<lambda>x. 4) 7 (fifo_new [1]))"
  have inv: "fifo_inv ?q" by (simp add: push_item_alt inv_intros)
  have p: "pending_of ?q = (\<lambda>_. [])(4 := [7, 8])" by (simp add: push_item_alt abs_simps)
  then have "fst (pop_front_of 4 ?q) = Some 7" by (simp add: pop_front_of_pending)
  from failed_send_keeps_order [OF inv this refl] p show ?thesis by simp
qed


subsection \<open>The cursor over the streams\<close>

text \<open>The loop \<open>while let Some((id, _)) = queue.next_stream()\<close>, with fuel for its rounds.\<close>

fun visit_streams :: "nat \<Rightarrow> 'a BodyReqQueue \<Rightarrow> (stream_id list \<times> 'a BodyReqQueue) option" where
  "visit_streams 0 q = None"
| "visit_streams (Suc fuel) q =
     (case next_stream q of
        (None, q') \<Rightarrow> Some ([], q')
      | (Some (i, _), q') \<Rightarrow> map_option (\<lambda>(is, q''). (i # is, q'')) (visit_streams fuel q'))"

lemma visit_streams_from:
  assumes "streams q \<noteq> []" "current_stream_index q \<le> length (streams q)"
    and "length (streams q) - current_stream_index q < fuel"
  shows "visit_streams fuel q
     = Some (drop (current_stream_index q) (streams q), q\<lparr>current_stream_index := 0\<rparr>)"
  using assms
proof (induction fuel arbitrary: q)
  case 0
  then show ?case by simp
next
  case (Suc fuel)
  show ?case
  proof (cases "current_stream_index q < length (streams q)")
    case True
    let ?q = "q\<lparr>current_stream_index := current_stream_index q + 1\<rparr>"
    have "visit_streams fuel ?q
        = Some (drop (current_stream_index q + 1) (streams q), q\<lparr>current_stream_index := 0\<rparr>)"
      using Suc.IH [of ?q] Suc.prems True by simp
    with True Suc.prems show ?thesis
      by (simp add: next_stream_def Let_def Cons_nth_drop_Suc)
  next
    case False
    with Suc.prems show ?thesis by (simp add: next_stream_def)
  qed
qed

text \<open>
  Repeated \<open>next_stream\<close> ends after one more call than there are unvisited streams, has
  then returned each of them exactly once in registration order, and rewinds the cursor, so the
  next round visits all of them again.
\<close>

theorem next_stream_visits_all:
  assumes "fifo_inv q" "streams q \<noteq> []"
  shows "visit_streams (Suc (length (streams q) - current_stream_index q)) q
       = Some (drop (current_stream_index q) (streams q), q\<lparr>current_stream_index := 0\<rparr>)
     \<and> visit_streams (Suc (length (streams q))) (q\<lparr>current_stream_index := 0\<rparr>)
       = Some (streams q, q\<lparr>current_stream_index := 0\<rparr>)"
  using assms visit_streams_from [of q] visit_streams_from [of "q\<lparr>current_stream_index := 0\<rparr>"]
  by (simp add: fifo_inv_def del: visit_streams.simps)

definition demo_queue :: "nat BodyReqQueue" where
  "demo_queue = \<lparr>fifo_conn = [1], streams = [4, 8], current_stream_index = 1, queue = [(4, [7]), (8, [9])]\<rparr>"

theorem next_stream_visits_all_witness:
  "demo_queue = demo_queue\<lparr>current_stream_index := 1\<rparr>
   \<and> visit_streams 2 demo_queue = Some ([8], demo_queue\<lparr>current_stream_index := 0\<rparr>)
   \<and> visit_streams 3 (demo_queue\<lparr>current_stream_index := 0\<rparr>)
       = Some ([4, 8], demo_queue\<lparr>current_stream_index := 0\<rparr>)"
proof -
  have inv: "fifo_inv demo_queue"
    by (auto simp: fifo_inv_def demo_queue_def dm_wf_def dm_contains_keys)
  have ne: "streams demo_queue \<noteq> []" by (simp add: demo_queue_def)
  have n: "Suc (length (streams demo_queue) - current_stream_index demo_queue) = 2"
    "Suc (length (streams demo_queue)) = 3" by (simp_all add: demo_queue_def)
  show ?thesis
    using next_stream_visits_all [OF inv ne] unfolding n by (simp add: demo_queue_def)
qed

text \<open>\<open>max_by_key\<close> finds a maximal element of a non-empty list.\<close>

lemma max_by_key_snoc:
  "max_by_key f (xs @ [x]) = (case max_by_key f xs of None \<Rightarrow> Some x
     | Some y \<Rightarrow> if f x < f y then Some y else Some x)"
  by (simp add: max_by_key_def)

lemma max_by_key_None: "max_by_key f xs = None \<longleftrightarrow> xs = []"
  by (induction xs rule: rev_induct) (auto simp: max_by_key_snoc max_by_key_def split: option.splits)

lemma max_by_key_Some:
  "max_by_key f xs = Some y \<Longrightarrow> y \<in> set xs \<and> (\<forall>x \<in> set xs. f x \<le> f y)"
proof (induction xs arbitrary: y rule: rev_induct)
  case Nil
  then show ?case by (simp add: max_by_key_def)
next
  case (snoc x xs)
  show ?case
  proof (cases "max_by_key f xs")
    case None
    with snoc.prems show ?thesis by (auto simp: max_by_key_snoc max_by_key_None)
  next
    case (Some z)
    with snoc.IH [OF Some] snoc.prems show ?thesis
      by (auto simp: max_by_key_snoc split: if_splits)
  qed
qed

text \<open>
  \<open>max_pending_queue\<close>, from which the server derives back-pressure, reports a stream with
  its real backlog, and no stream of the connection has a longer one.
\<close>

theorem max_pending_queue_is_longest:
  assumes "fifo_inv q" "max_pending_queue q = Some (i, n)"
  shows "dm_contains (queue q) i \<and> n = length (pending_of q i) \<and> (\<forall>j. length (pending_of q j) \<le> n)"
proof -
  obtain xs where m: "max_by_key (\<lambda>item. length (snd item)) (queue q) = Some (i, xs)" and n: "n = length xs"
    using assms(2) by (auto simp: max_pending_queue_def split: option.splits)
  have wf: "dm_wf (queue q)" using assms(1) by (simp add: fifo_inv_def)
  from max_by_key_Some [OF m] have "dm_get (queue q) i = Some xs"
    "\<And>j ys. dm_get (queue q) j = Some ys \<Longrightarrow> length ys \<le> length xs"
    using dm_get_entry [OF wf] by auto
  then show ?thesis
    using n by (auto simp: pending_of_def dm_contains_def split: option.splits)
qed

theorem max_pending_queue_is_longest_witness:
  "max_pending_queue \<lparr>fifo_conn = [], streams = [4, 8], current_stream_index = 0, queue = [(4, [7::nat]), (8, [])]\<rparr>
     = Some (4, 1)
   \<and> length (pending_of \<lparr>fifo_conn = [], streams = [4, 8], current_stream_index = 0, queue = [(4, [7::nat]), (8, [])]\<rparr> 8) \<le> 1"
proof -
  let ?q = "\<lparr>fifo_conn = [], streams = [4, 8], current_stream_index = 0, queue = [(4, [7::nat]), (8, [])]\<rparr>"
  have inv: "fifo_inv ?q" by (auto simp: fifo_inv_def dm_wf_def dm_contains_keys)
  have m: "max_pending_queue ?q = Some (4, 1)" by (simp add: max_pending_queue_def max_by_key_def)
  show ?thesis using max_pending_queue_is_longest [OF inv m] m by blast
qed

end
