(* ===== verification/NetworkSend.thy ===== *)
theory NetworkSend
  imports RouteHandler FifoBody
begin

section \<open>The sending side of the network loop\<close>

text \<open>
  Model of the sending half of \<open>src/server_init/quiche_http3_server.rs\<close>: the per-connection state
  \<open>Client\<close>, the functions that hand headers and body bytes to the HTTP/3 library, and one pass of
  the loop over a connection: the requested resets, the flush of unsent remainders, and one message
  per writable stream taken from the dispatch channels.

  The QUIC and HTTP/3 connections of the library \<open>quiche\<close> are the type variables \<open>'c\<close> and \<open>'h\<close>;
  its calls are the fields of the record \<open>transport\<close>, a parameter of every definition. A panic
  (\<open>unwrap\<close> of a missing HTTP/3 connection or of a failed \<open>stream_writable\<close>) is None.
\<close>

subsection \<open>The library's calls\<close>

datatype h3_error = H3_Done | H3_StreamBlocked | H3_TransportDone | H3_Error string

datatype shutdown = Shutdown_Read | Shutdown_Write

record ('c, 'h) transport =
  tr_source_id :: "'c \<Rightarrow> scid"
  tr_trace_id :: "'c \<Rightarrow> conn_id"
  tr_writable :: "'c \<Rightarrow> stream_id list"
  tr_stream_writable :: "stream_id \<Rightarrow> usize \<Rightarrow> 'c \<Rightarrow> bool option \<times> 'c"
  tr_stream_shutdown :: "stream_id \<Rightarrow> shutdown \<Rightarrow> u64 \<Rightarrow> 'c \<Rightarrow> 'c"
  tr_send_response_with_priority ::
    "stream_id \<Rightarrow> h3_header list \<Rightarrow> u8 \<times> bool \<Rightarrow> bool \<Rightarrow> 'h \<times> 'c \<Rightarrow> (h3_error + unit) \<times> 'h \<times> 'c"
  tr_send_response ::
    "stream_id \<Rightarrow> h3_header list \<Rightarrow> bool \<Rightarrow> 'h \<times> 'c \<Rightarrow> (h3_error + unit) \<times> 'h \<times> 'c"
  tr_send_additional_headers ::
    "stream_id \<Rightarrow> h3_header list \<Rightarrow> bool \<Rightarrow> bool \<Rightarrow> 'h \<times> 'c \<Rightarrow> (h3_error + unit) \<times> 'h \<times> 'c"
  tr_send_body :: "stream_id \<Rightarrow> bytes \<Rightarrow> bool \<Rightarrow> 'h \<times> 'c \<Rightarrow> (h3_error + usize) \<times> 'h \<times> 'c"

text \<open>What the loop needs of the file system when a file becomes a body.\<close>

record files_env =
  fe_open :: file_opener
  fe_length :: "path_buf \<Rightarrow> usize option"


subsection \<open>\<open>Client\<close>\<close>

record PartialResponse =
  pr_headers :: "h3_header list option"
  pr_body :: bytes
  pr_written :: usize

record ('c, 'h) Client =
  conn :: 'c
  http3_conn :: "'h option"
  partial_responses :: "(stream_id, PartialResponse) dashmap"
  progress_status_requests :: "(stream_id, u64) dashmap"
  headers_sending_tracker :: "(stream_id, bool) dashmap"
  body_sending_tracker :: "(stream_id, usize \<times> usize) dashmap"
  pending_body_queue :: "QueuedRequest BodyReqQueue"
  conn_stats :: ConnStats

definition set_headers_send :: "stream_id \<Rightarrow> bool \<Rightarrow> ('c, 'h) Client \<Rightarrow> ('c, 'h) Client" where
  "set_headers_send i v cl = cl\<lparr>headers_sending_tracker := dm_insert i v (headers_sending_tracker cl)\<rparr>"

definition headers_send :: "stream_id \<Rightarrow> ('c, 'h) Client \<Rightarrow> bool" where
  "headers_send i cl = (case dm_get (headers_sending_tracker cl) i of Some entry \<Rightarrow> entry | None \<Rightarrow> False)"

definition check_writable_packet_for_stream :: "stream_id \<Rightarrow> ('c, 'h) Client \<Rightarrow> bool" where
  "check_writable_packet_for_stream i cl =
     (case dm_get (partial_responses cl) i of Some _ \<Rightarrow> True | None \<Rightarrow> False)"

definition set_body_size_to_body_sending_tracker ::
  "stream_id \<Rightarrow> usize \<Rightarrow> ('c, 'h) Client \<Rightarrow> ('c, 'h) Client" where
  "set_body_size_to_body_sending_tracker i body_size cl =
     cl\<lparr>body_sending_tracker := dm_insert i (0, body_size) (body_sending_tracker cl)\<rparr>"

definition set_written_to_body_sending_tracker ::
  "stream_id \<Rightarrow> usize \<Rightarrow> ('c, 'h) Client \<Rightarrow> ('c, 'h) Client" where
  "set_written_to_body_sending_tracker i wrote cl =
     cl\<lparr>body_sending_tracker := dm_modify i (\<lambda>e. (fst e + wrote, snd e)) (body_sending_tracker cl)\<rparr>"

definition get_written :: "stream_id \<Rightarrow> ('c, 'h) Client \<Rightarrow> usize \<times> usize" where
  "get_written i cl = (case dm_get (body_sending_tracker cl) i of Some entry \<Rightarrow> entry | None \<Rightarrow> (0, 0))"

definition is_body_totally_written :: "stream_id \<Rightarrow> ('c, 'h) Client \<Rightarrow> bool" where
  "is_body_totally_written i cl =
     (case dm_get (body_sending_tracker cl) i of Some entry \<Rightarrow> fst entry = snd entry | None \<Rightarrow> False)"

definition get_max_pending_queue_size :: "('c, 'h) Client \<Rightarrow> (stream_id \<times> usize) option" where
  "get_max_pending_queue_size cl = max_pending_queue (pending_body_queue cl)"

definition clean_client :: "stream_id \<Rightarrow> ('c, 'h) Client \<Rightarrow> ('c, 'h) Client" where
  "clean_client i cl = cl\<lparr>headers_sending_tracker := dm_remove i (headers_sending_tracker cl),
     partial_responses := dm_remove i (partial_responses cl),
     progress_status_requests := dm_remove i (progress_status_requests cl)\<rparr>"

text \<open>A call of the HTTP/3 connection, which must exist.\<close>

definition with_h3 :: "('h \<times> 'c \<Rightarrow> 'r \<times> 'h \<times> 'c) \<Rightarrow> ('c, 'h) Client \<Rightarrow> ('r \<times> ('c, 'h) Client) option" where
  "with_h3 f cl =
     (case http3_conn cl of
        Some h \<Rightarrow> (let (r, h', c') = f (h, conn cl) in Some (r, cl\<lparr>conn := c', http3_conn := Some h'\<rparr>))
      | None \<Rightarrow> None)"

definition store_partial :: "stream_id \<Rightarrow> PartialResponse \<Rightarrow> ('c, 'h) Client \<Rightarrow> ('c, 'h) Client" where
  "store_partial i p cl = cl\<lparr>partial_responses := dm_insert i p (partial_responses cl)\<rparr>"

definition drop_partial :: "stream_id \<Rightarrow> ('c, 'h) Client \<Rightarrow> ('c, 'h) Client" where
  "drop_partial i cl = cl\<lparr>partial_responses := dm_remove i (partial_responses cl)\<rparr>"

text \<open>\<open>Done\<close> counts as nothing written; any other error is final.\<close>

definition body_outcome :: "h3_error + usize \<Rightarrow> usize option" where
  "body_outcome r = (case r of Inr v \<Rightarrow> Some v | Inl H3_Done \<Rightarrow> Some 0 | Inl _ \<Rightarrow> None)"

definition keep_unsent :: "stream_id \<Rightarrow> bytes \<Rightarrow> usize \<Rightarrow> ('c, 'h) Client \<Rightarrow> ('c, 'h) Client" where
  "keep_unsent i body wrote cl =
     (if wrote < length body
      then store_partial i \<lparr>pr_headers = None, pr_body = body, pr_written = wrote\<rparr> cl
      else cl)"


subsection \<open>Sending headers and bodies\<close>

definition response_ends_on_headers :: "bool \<Rightarrow> usize option \<Rightarrow> bool" where
  "response_ends_on_headers is_end body_len \<longleftrightarrow> is_end \<or> body_len = Some 0"

definition non_empty_attached_body :: "usize option \<Rightarrow> usize option" where
  "non_empty_attached_body body_len =
     (case body_len of Some n \<Rightarrow> if 0 < n then Some n else None | None \<Rightarrow> None)"

definition send_stream_opening ::
  "('c, 'h) transport \<Rightarrow> stream_id \<Rightarrow> h3_header list \<Rightarrow> ('c, 'h) Client
     \<Rightarrow> ((h3_error + unit) \<times> ('c, 'h) Client) option" where
  "send_stream_opening tr i headers cl = with_h3 (tr_send_additional_headers tr i headers False False) cl"

definition reset_failed_stream ::
  "('c, 'h) transport \<Rightarrow> stream_id \<Rightarrow> ('c, 'h) Client \<times> QueuedRequest dispatch
     \<Rightarrow> ('c, 'h) Client \<times> QueuedRequest dispatch" where
  "reset_failed_stream tr i = (\<lambda>(cl, queues).
     let c = tr_stream_shutdown tr i Shutdown_Write 0x102 (tr_stream_shutdown tr i Shutdown_Read 0x102 (conn cl));
         cl1 = clean_client i (cl\<lparr>conn := c\<rparr>);
         cl2 = cl1\<lparr>pending_body_queue := remove_stream_queue i (pending_body_queue cl1)\<rparr>
     in (cl2, remove_stream i (tr_source_id tr (conn cl2)) queues))"

definition send_header ::
  "('c, 'h) transport \<Rightarrow> stream_id \<Rightarrow> h3_header list \<Rightarrow> bool \<Rightarrow> ('c, 'h) Client
     \<Rightarrow> ((unit + usize) \<times> ('c, 'h) Client) option" where
  "send_header tr i headers is_end cl =
     do {
       (r, cl1) \<leftarrow> with_h3 (tr_send_response_with_priority tr i headers (7, True) is_end) cl;
       Some (case r of Inl _ \<Rightarrow> Err () | Inr _ \<Rightarrow> Ok 1, cl1)
     }"

definition send_more_header ::
  "('c, 'h) transport \<Rightarrow> stream_id \<Rightarrow> h3_header list \<Rightarrow> bool \<Rightarrow> ('c, 'h) Client
     \<Rightarrow> ((unit + usize) \<times> ('c, 'h) Client) option" where
  "send_more_header tr i headers is_end cl =
     do {
       (r, cl1) \<leftarrow> with_h3 (tr_send_additional_headers tr i headers False is_end) cl;
       Some (case r of Inl _ \<Rightarrow> Err () | Inr _ \<Rightarrow> Ok 1, cl1)
     }"

definition send_body ::
  "('c, 'h) transport \<Rightarrow> stream_id \<Rightarrow> bytes \<Rightarrow> bool \<Rightarrow> ('c, 'h) Client
     \<Rightarrow> ((unit + usize) \<times> ('c, 'h) Client) option" where
  "send_body tr i body is_end cl =
     (if length body = 0 then Some (Ok 0, cl)
      else do {
        (r, cl1) \<leftarrow> with_h3 (tr_send_body tr i body is_end) cl;
        Some (case body_outcome r of
                None \<Rightarrow> (Err (), cl1)
              | Some wrote \<Rightarrow> (Ok wrote, keep_unsent i body wrote cl1))
      })"

definition send_response_when_finished ::
  "('c, 'h) transport \<Rightarrow> stream_id \<Rightarrow> h3_header list \<Rightarrow> bytes \<Rightarrow> bool \<Rightarrow> ('c, 'h) Client
     \<Rightarrow> ((unit + usize) \<times> ('c, 'h) Client) option" where
  "send_response_when_finished tr i headers body is_end cl =
     do {
       (r, cl1) \<leftarrow> with_h3 (tr_send_additional_headers tr i headers False (length body = 0)) cl;
       case r of
         Inl H3_StreamBlocked \<Rightarrow>
           Some (Ok 0, store_partial i \<lparr>pr_headers = Some headers, pr_body = body, pr_written = 0\<rparr> cl1)
       | Inl _ \<Rightarrow> Some (Err (), cl1)
       | Inr _ \<Rightarrow>
           if length body = 0 then Some (Ok 0, cl1)
           else do {
             (sent, cl2) \<leftarrow> with_h3 (tr_send_body tr i body True) cl1;
             Some (case body_outcome sent of
                     None \<Rightarrow> (Err (), cl2)
                   | Some wrote \<Rightarrow> (Ok wrote, keep_unsent i body wrote cl2))
           }
     }"

text \<open>\<open>Priority::default()\<close> is urgency 3, not incremental.\<close>

definition net_send_response ::
  "('c, 'h) transport \<Rightarrow> stream_id \<Rightarrow> h3_header list \<Rightarrow> bytes \<Rightarrow> bool \<Rightarrow> ('c, 'h) Client
     \<Rightarrow> ((unit + usize) \<times> ('c, 'h) Client) option" where
  "net_send_response tr i headers body is_end cl =
     do {
       (r, cl1) \<leftarrow> with_h3 (tr_send_response_with_priority tr i headers (3, False) is_end) cl;
       case r of
         Inl H3_StreamBlocked \<Rightarrow>
           Some (Err (), store_partial i \<lparr>pr_headers = Some headers, pr_body = body, pr_written = 0\<rparr> cl1)
       | Inl _ \<Rightarrow> Some (Err (), cl1)
       | Inr _ \<Rightarrow>
           if length body = 0 then Some (Ok 0, cl1)
           else do {
             (sent, cl2) \<leftarrow> with_h3 (tr_send_body tr i body True) cl1;
             Some (case body_outcome sent of
                     None \<Rightarrow> (Err (), cl2)
                   | Some wrote \<Rightarrow> (Ok wrote, keep_unsent i body wrote cl2))
           }
     }"

definition send_body_response_progression ::
  "('c, 'h) transport \<Rightarrow> stream_id \<Rightarrow> bytes \<Rightarrow> bool \<Rightarrow> ('c, 'h) Client
     \<Rightarrow> ((unit + usize) \<times> ('c, 'h) Client) option" where
  "send_body_response_progression tr i data is_end cl =
     do {
       (r, cl1) \<leftarrow> with_h3 (tr_send_body tr i data False) cl;
       Some (case body_outcome r of
               None \<Rightarrow> (Err (), cl1)
             | Some wrote \<Rightarrow>
                 (Ok wrote, set_written_to_body_sending_tracker i wrote (keep_unsent i data wrote cl1)))
     }"

definition send_body_response ::
  "('c, 'h) transport \<Rightarrow> stream_id \<Rightarrow> bytes \<Rightarrow> bool \<Rightarrow> ('c, 'h) Client
     \<Rightarrow> ((unit + usize) \<times> ('c, 'h) Client) option" where
  "send_body_response tr i data is_end cl =
     (let (already_written, total_len) = get_written i cl in
      do {
        (r, cl1) \<leftarrow> with_h3 (tr_send_body tr i data (already_written = total_len)) cl;
        Some (case body_outcome r of
                None \<Rightarrow> (Err (), cl1)
              | Some wrote \<Rightarrow>
                  (Ok wrote, set_written_to_body_sending_tracker i wrote (keep_unsent i data wrote cl1)))
      })"

text \<open>
  \<open>handle_writable\<close>. \<open>Some None\<close> is its result \<open>None\<close>. The end of the stream is sent as an empty
  body with the end flag.
\<close>

definition send_stream_end ::
  "('c, 'h) transport \<Rightarrow> stream_id \<Rightarrow> ('c, 'h) Client \<Rightarrow> (bool \<times> ('c, 'h) Client) option" where
  "send_stream_end tr i cl =
     do {
       (r, cl1) \<leftarrow> with_h3 (tr_send_body tr i [] True) cl;
       Some (body_outcome r \<noteq> None, cl1)
     }"

definition end_if :: "bool \<Rightarrow> ('c, 'h) transport \<Rightarrow> stream_id \<Rightarrow> ('c, 'h) Client \<Rightarrow> (bool \<times> ('c, 'h) Client) option" where
  "end_if complete tr i cl = (if complete then send_stream_end tr i cl else Some (True, cl))"

definition write_remainder ::
  "('c, 'h) transport \<Rightarrow> stream_id \<Rightarrow> PartialResponse \<Rightarrow> usize \<Rightarrow> usize \<Rightarrow> ('c, 'h) Client
     \<Rightarrow> (bool option \<times> ('c, 'h) Client) option" where
  "write_remainder tr i resp amount_written total_to_write cl =
     do {
       body \<leftarrow> slice_get (pr_written resp) (length (pr_body resp)) (pr_body resp);
       (r, cl2) \<leftarrow> with_h3 (tr_send_body tr i body False) cl;
       case body_outcome r of
         None \<Rightarrow> Some (None, drop_partial i cl2)
       | Some wrote \<Rightarrow>
           let resp1 = resp\<lparr>pr_headers := None, pr_written := pr_written resp + wrote\<rparr>;
               cl3 = store_partial i resp1 cl2
           in if pr_written resp1 = length (pr_body resp1)
              then do {
                (ended, cl4) \<leftarrow> end_if (wrote + amount_written = total_to_write) tr i cl3;
                if ended
                then Some (Some True, drop_partial i (set_written_to_body_sending_tracker i wrote cl4))
                else Some (None, cl4)
              }
              else if 0 < wrote
              then Some (Some False, set_written_to_body_sending_tracker i wrote cl3)
              else do {
                (ended, cl4) \<leftarrow> end_if (pr_written resp1 + amount_written = total_to_write) tr i cl3;
                if ended
                then Some (Some False, set_written_to_body_sending_tracker i wrote cl4)
                else Some (None, drop_partial i cl4)
              }
     }"

definition handle_writable ::
  "('c, 'h) transport \<Rightarrow> stream_id \<Rightarrow> ('c, 'h) Client \<Rightarrow> (bool option \<times> ('c, 'h) Client) option" where
  "handle_writable tr i cl =
     (let (amount_written, total_to_write) = get_written i cl in
      if http3_conn cl = None then None
      else case dm_get (partial_responses cl) i of
        None \<Rightarrow> Some (None, cl)
      | Some resp \<Rightarrow>
          do {
            (blocked, cl1) \<leftarrow> (case pr_headers resp of
               Some headers \<Rightarrow>
                 do {
                   (r, cl1) \<leftarrow> with_h3 (tr_send_response tr i headers False) cl;
                   Some (\<not> is_ok r, cl1)
                 }
             | None \<Rightarrow> Some (False, cl));
            if blocked then Some (None, cl1)
            else write_remainder tr i resp amount_written total_to_write cl1
          })"

end
