(* ===== verification/NetworkRound.thy ===== *)
theory NetworkRound
  imports NetworkSend
begin

section \<open>One pass of the network loop over a connection\<close>

text \<open>
  The three phases of the loop body of \<open>run\<close> in \<open>src/server_init/quiche_http3_server.rs\<close> for one
  connection: the requested resets, the flush of the remainders that could not be sent, and for
  every writable stream at most one message from the stream's retry queue or dispatch channels.
  The state is the connection's \<open>Client\<close> and the \<open>server\<close> (requests table, chunking station with
  the dispatch channels, application). The flush loop of a stream has fuel; running out of it and a
  panic are both None, and theorem \<open>flush_terminates\<close> gives the fuel that is enough.
\<close>

subsection \<open>Flushing\<close>

fun flush_stream :: "nat \<Rightarrow> ('c, 'h) transport \<Rightarrow> stream_id \<Rightarrow> ('c, 'h) Client \<Rightarrow> ('c, 'h) Client option" where
  "flush_stream 0 tr i cl = None"
| "flush_stream (Suc fuel) tr i cl =
     (let (w, c) = tr_stream_writable tr i 512 (conn cl); cl1 = cl\<lparr>conn := c\<rparr>
      in case w of
           None \<Rightarrow> None
         | Some False \<Rightarrow> Some cl1
         | Some True \<Rightarrow>
             (case dm_get (partial_responses cl1) i of
                Some _ \<Rightarrow> (case handle_writable tr i cl1 of
                   Some (_, cl2) \<Rightarrow> flush_stream fuel tr i cl2 | None \<Rightarrow> None)
              | None \<Rightarrow> Some cl1))"

definition flush_if_open :: "nat \<Rightarrow> ('c, 'h) transport \<Rightarrow> stream_id \<Rightarrow> ('c, 'h) Client \<Rightarrow> ('c, 'h) Client option" where
  "flush_if_open fuel tr i cl = (if \<not> headers_send i cl then Some cl else flush_stream fuel tr i cl)"

definition flush_phase :: "nat \<Rightarrow> ('c, 'h) transport \<Rightarrow> ('c, 'h) Client \<Rightarrow> ('c, 'h) Client option" where
  "flush_phase fuel tr cl = for_each (flush_if_open fuel tr) (tr_writable tr (conn cl)) cl"


subsection \<open>Sending one message\<close>

type_synonym ('c, 'h, 'l, 'f, 'w) loop_state = "('c, 'h) Client \<times> ('l, 'f, 'w) server"

text \<open>An item that could not be sent goes to the front of its stream's retry queue.\<close>

definition push_back_item :: "QueuedRequest \<Rightarrow> ('c, 'h) Client \<Rightarrow> ('c, 'h) Client" where
  "push_back_item item cl =
     cl\<lparr>pending_body_queue := push_item_on_front qr_stream_id item (pending_body_queue cl)\<rparr>"

text \<open>
  A body packet. Its data is taken out of the message before the send, so a message that is pushed
  back has none.
\<close>

definition send_popped_body ::
  "('c, 'h) transport \<Rightarrow> scid \<Rightarrow> stream_id \<Rightarrow> BodyRequest \<Rightarrow> ('c, 'h, 'l, 'f, 'w) loop_state
     \<Rightarrow> ('c, 'h, 'l, 'f, 'w) loop_state option" where
  "send_popped_body tr s i chunk = (\<lambda>(cl, sv).
     (let (cl1, chunk1) =
            (if \<not> headers_send i cl
             then (let (data, rest) = take_data chunk
                   in (store_partial i \<lparr>pr_headers = None, pr_body = data, pr_written = 0\<rparr> cl, rest))
             else (cl, chunk));
          (data, chunk2) = take_data chunk1
      in do {
           (r, cl2) \<leftarrow> send_body_response tr (br_stream_id chunk2) data (br_is_end chunk2) cl1;
           if \<not> is_ok r then Some (push_back_item (Q_Body chunk2) cl2, sv)
           else if is_body_totally_written i cl2
           then do {
             (_, cl3) \<leftarrow> send_body_response tr i [] True cl2;
             Some (cl3\<lparr>pending_body_queue := remove_stream_queue i (pending_body_queue cl3)\<rparr>,
                   set_dispatch (remove_stream i s (sv_dispatch sv)) sv)
           }
           else Some (cl2, sv)
         }))"

text \<open>A stream-session chunk or a progress message.\<close>

definition send_popped_progress ::
  "('c, 'h) transport \<Rightarrow> (BodyRequest \<Rightarrow> QueuedRequest) \<Rightarrow> BodyRequest \<Rightarrow> ('c, 'h) Client \<Rightarrow> ('c, 'h) Client option" where
  "send_popped_progress tr message chunk cl =
     (let (data, chunk1) = take_data chunk in
      do {
        (r, cl1) \<leftarrow> send_body_response_progression tr (br_stream_id chunk1) data False cl;
        Some (if is_ok r then cl1 else push_back_item (message chunk1) cl1)
      })"

definition send_popped_opening ::
  "('c, 'h) transport \<Rightarrow> stream_id \<Rightarrow> HeaderRequest \<Rightarrow> ('c, 'h, 'l, 'f, 'w) loop_state
     \<Rightarrow> ('c, 'h, 'l, 'f, 'w) loop_state option" where
  "send_popped_opening tr i h = (\<lambda>(cl, sv).
     do {
       (r, cl1) \<leftarrow> send_stream_opening tr i (hr_headers h) cl;
       Some (case r of
         Inr _ \<Rightarrow> (set_headers_send i True cl1, sv)
       | Inl (H3_Error _) \<Rightarrow>
           (let (cl2, d) = reset_failed_stream tr i (cl1, sv_dispatch sv) in (cl2, set_dispatch d sv))
       | Inl _ \<Rightarrow> (push_back_item (Q_Header h) cl1, sv))
     })"

text \<open>Once its header is sent, a non-empty body goes to the chunking station and is tracked.\<close>

definition start_attached_body ::
  "files_env \<Rightarrow> stream_id \<Rightarrow> HeaderRequest \<Rightarrow> usize option \<Rightarrow> ('c, 'h, 'l, 'f, 'w) loop_state
     \<Rightarrow> ('c, 'h, 'l, 'f, 'w) loop_state option" where
  "start_attached_body fe i h body_len = (\<lambda>(cl, sv).
     (case non_empty_attached_body body_len of
        Some n \<Rightarrow>
          (let cl1 = set_body_size_to_body_sending_tracker i n cl in
           map_option (\<lambda>(_, st). (cl1, sv\<lparr>sv_station := st\<rparr>))
             (send_body_to_chunking_station (fe_open fe) (conn_stats cl1) h (sv_station sv)))
      | None \<Rightarrow> Some (cl, sv)))"

definition send_popped_response ::
  "('c, 'h) transport \<Rightarrow> files_env \<Rightarrow> stream_id \<Rightarrow> HeaderRequest \<Rightarrow> usize option
     \<Rightarrow> ('c, 'h, 'l, 'f, 'w) loop_state \<Rightarrow> ('c, 'h, 'l, 'f, 'w) loop_state option" where
  "send_popped_response tr fe i h body_len = (\<lambda>(cl, sv).
     do {
       (r, cl1) \<leftarrow> send_header tr i (hr_headers h) (response_ends_on_headers (hr_is_end h) body_len) cl;
       if is_ok r then start_attached_body fe i h body_len (set_headers_send i True cl1, sv)
       else Some (push_back_item (Q_Header h) cl1, sv)
     })"

definition send_popped_status ::
  "('c, 'h) transport \<Rightarrow> stream_id \<Rightarrow> HeaderRequest \<Rightarrow> ('c, 'h, 'l, 'f, 'w) loop_state
     \<Rightarrow> ('c, 'h, 'l, 'f, 'w) loop_state option" where
  "send_popped_status tr i h = (\<lambda>(cl, sv).
     do {
       (r, cl1) \<leftarrow> send_header tr i (hr_headers h) (hr_is_end h) cl;
       Some (if is_ok r
             then (cl1, sv\<lparr>sv_requests :=
                     set_intermediate_headers_send i (tr_trace_id tr (conn cl1)) (sv_requests sv)\<rparr>)
             else (push_back_item (Q_Header h) cl1, sv))
     })"

definition send_popped_additional ::
  "('c, 'h) transport \<Rightarrow> files_env \<Rightarrow> stream_id \<Rightarrow> HeaderRequest \<Rightarrow> usize option
     \<Rightarrow> ('c, 'h, 'l, 'f, 'w) loop_state \<Rightarrow> ('c, 'h, 'l, 'f, 'w) loop_state option" where
  "send_popped_additional tr fe i h body_len = (\<lambda>(cl, sv).
     do {
       (r, cl1) \<leftarrow> send_more_header tr i (hr_headers h) (response_ends_on_headers (hr_is_end h) body_len) cl;
       if is_ok r
       then start_attached_body fe i h body_len
              (if body_len \<noteq> None then set_headers_send i True cl1 else cl1, sv)
       else Some (push_back_item (Q_Header h) cl1, sv)
     })"

definition send_popped_header ::
  "('c, 'h) transport \<Rightarrow> files_env \<Rightarrow> stream_id \<Rightarrow> HeaderRequest \<Rightarrow> ('c, 'h, 'l, 'f, 'w) loop_state
     \<Rightarrow> ('c, 'h, 'l, 'f, 'w) loop_state option" where
  "send_popped_header tr fe i h state =
     do {
       body_len \<leftarrow> attached_body_len (fe_length fe) h;
       case hr_priority_mode h of
         OpenStream \<Rightarrow> send_popped_opening tr i h state
       | SendHeader \<Rightarrow> send_popped_response tr fe i h body_len state
       | SendHeader100 \<Rightarrow> send_popped_status tr i h state
       | SendAdditionnalHeader \<Rightarrow> send_popped_additional tr fe i h body_len state
       | SendWithPriority \<Rightarrow> Some state
     }"

fun send_popped ::
  "('c, 'h) transport \<Rightarrow> files_env \<Rightarrow> scid \<Rightarrow> stream_id \<Rightarrow> QueuedRequest \<Rightarrow> ('c, 'h, 'l, 'f, 'w) loop_state
     \<Rightarrow> ('c, 'h, 'l, 'f, 'w) loop_state option" where
  "send_popped tr fe s i (Q_Body chunk) state = send_popped_body tr s i chunk state"
| "send_popped tr fe s i (Q_StreamData chunk) state =
     map_option (\<lambda>cl. (cl, snd state)) (send_popped_progress tr Q_StreamData chunk (fst state))"
| "send_popped tr fe s i (Q_BodyProgression chunk) state =
     map_option (\<lambda>cl. (cl, snd state)) (send_popped_progress tr Q_BodyProgression chunk (fst state))"
| "send_popped tr fe s i (Q_Header h) state = send_popped_header tr fe i h state"

text \<open>Of the retry queue only an opening header is taken again.\<close>

definition opening_retry :: "stream_id \<Rightarrow> ('c, 'h) Client \<Rightarrow> QueuedRequest option \<times> ('c, 'h) Client" where
  "opening_retry i cl =
     (case get_queue_mut i (pending_body_queue cl) of
        Some (Q_Header h # _) \<Rightarrow>
          if hr_priority_mode h = OpenStream
          then (let (item, q) = pop_front_of i (pending_body_queue cl) in (item, cl\<lparr>pending_body_queue := q\<rparr>))
          else (None, cl)
      | _ \<Rightarrow> (None, cl))"

definition pop_and_send ::
  "('c, 'h) transport \<Rightarrow> files_env \<Rightarrow> scid \<Rightarrow> stream_id \<Rightarrow> ('c, 'h, 'l, 'f, 'w) loop_state
     \<Rightarrow> ('c, 'h, 'l, 'f, 'w) loop_state option" where
  "pop_and_send tr fe s i = (\<lambda>(cl, sv).
     if dm_get (partial_responses cl) i \<noteq> None then Some (cl, sv)
     else
       (let (retry, cl1) = opening_retry i cl in
        if retry = None \<and> \<not> is_stream_queue_empty i (pending_body_queue cl1) then Some (cl1, sv)
        else case retry of
          Some item \<Rightarrow> send_popped tr fe s i item (cl1, sv)
        | None \<Rightarrow>
            (case try_pop i s (sv_dispatch sv) of
               (Inr item, d) \<Rightarrow> send_popped tr fe s i item (cl1, set_dispatch d sv)
             | (Inl _, d) \<Rightarrow> Some (cl1, set_dispatch d sv))))"

definition reset_phase ::
  "('c, 'h) transport \<Rightarrow> scid \<Rightarrow> ('c, 'h, 'l, 'f, 'w) loop_state \<Rightarrow> ('c, 'h, 'l, 'f, 'w) loop_state" where
  "reset_phase tr s = (\<lambda>(cl, sv).
     (let (cl1, d) = fold (reset_failed_stream tr) (requested_stream_resets s (sv_dispatch sv)) (cl, sv_dispatch sv)
      in (cl1, set_dispatch d sv)))"

definition send_round ::
  "nat \<Rightarrow> ('c, 'h) transport \<Rightarrow> files_env \<Rightarrow> ('c, 'h, 'l, 'f, 'w) loop_state
     \<Rightarrow> ('c, 'h, 'l, 'f, 'w) loop_state option" where
  "send_round fuel tr fe = (\<lambda>(cl, sv).
     (let s = tr_source_id tr (conn cl); (cl1, sv1) = reset_phase tr s (cl, sv) in
      do {
        cl2 \<leftarrow> flush_phase fuel tr cl1;
        for_each (pop_and_send tr fe s) (tr_writable tr (conn cl2)) (cl2, sv1)
      }))"


subsection \<open>Comparing the connections\<close>

text \<open>The trait \<open>PriorityUpdate\<close> on \<open>ClientMap\<close>; \<open>closed\<close> stands for \<open>Connection::is_closed\<close>.\<close>

type_synonym ('c, 'h) client_map = "(scid, ('c, 'h) Client) dashmap"

definition get_pending_buffers_usages ::
  "('c \<Rightarrow> bool) \<Rightarrow> ('c \<Rightarrow> scid) \<Rightarrow> ('c, 'h) client_map \<Rightarrow> (scid, (stream_id, usize) dashmap) dashmap" where
  "get_pending_buffers_usages closed source_id clients =
     foldl (\<lambda>out (_, client). if closed (conn client) then out
              else dm_insert (source_id (conn client)) (buffer_size_per_stream (pending_body_queue client)) out)
       [] clients"

fun has_too_much_pending :: "usize \<Rightarrow> ('c, 'h) client_map \<Rightarrow> bool" where
  "has_too_much_pending thres [] = False"
| "has_too_much_pending thres ((_, client) # rest) =
     (case get_max_pending_queue_size client of
        Some (_, queue_size) \<Rightarrow> if thres \<le> queue_size then True else has_too_much_pending thres rest
      | None \<Rightarrow> has_too_much_pending thres rest)"

text \<open>\<open>sort_by_key\<close> is stable; the key is reversed.\<close>

definition priority_value_mut :: "('c, 'h) client_map \<Rightarrow> ('c, 'h) Client list" where
  "priority_value_mut clients =
     (let size_track = concat (map (\<lambda>(_, client). case get_max_pending_queue_size client of
             Some (_, queue_size) \<Rightarrow> [(queue_size, client)] | None \<Rightarrow> []) clients)
      in map snd (sort_key (\<lambda>it. - int (fst it)) size_track))"

end
