(* ===== verification/LoopFrames.thy ===== *)
theory LoopFrames
  imports NetworkRound
begin

section \<open>Streams do not disturb each other\<close>

text \<open>
  The reasoning rules for the passes of the network loop (theory \<open>NetworkRound\<close>): the loop's
  invariant, the frame lemmas of every operation for the streams it is not about, and the rule
  \<open>round_preserves\<close>, which reduces an invariant of one stream over whole passes to the stream's own
  flush and turn. What the loop relies on of
  the HTTP/3 library is the predicate \<open>transport_ok\<close>: a body send accepts a prefix of the data and
  appends it to the bytes of its stream, the end flag takes effect only when everything was
  accepted, an error leaves the stream as it was, and a call on one stream leaves the others alone.
  \<open>wire\<close> and \<open>ended\<close> observe the connection: the body bytes a stream has accepted, and its end.
\<close>

subsection \<open>The library's documented behaviour\<close>

definition only_touches ::
  "('c, 'h) transport \<Rightarrow> ('c \<Rightarrow> stream_id \<Rightarrow> bytes) \<Rightarrow> ('c \<Rightarrow> stream_id \<Rightarrow> bool) \<Rightarrow> stream_id \<Rightarrow> 'c \<Rightarrow> 'c \<Rightarrow> bool" where
  "only_touches tr wire ended i c c' \<longleftrightarrow> tr_source_id tr c' = tr_source_id tr c
     \<and> (\<forall>j. j \<noteq> i \<longrightarrow> wire c' j = wire c j \<and> ended c' j = ended c j)"

definition body_law ::
  "('c, 'h) transport \<Rightarrow> ('c \<Rightarrow> stream_id \<Rightarrow> bytes) \<Rightarrow> ('c \<Rightarrow> stream_id \<Rightarrow> bool) \<Rightarrow> bool" where
  "body_law tr wire ended \<longleftrightarrow>
     (\<forall>i data f h c r h' c'. tr_send_body tr i data f (h, c) = (r, h', c') \<longrightarrow>
        only_touches tr wire ended i c c' \<and>
        (case r of
           Inr n \<Rightarrow> n \<le> length data \<and> wire c' i = wire c i @ take n data
                    \<and> (ended c' i \<longleftrightarrow> ended c i \<or> f \<and> n = length data)
         | Inl e \<Rightarrow> wire c' i = wire c i \<and> ended c' i = ended c i))"

definition transport_ok ::
  "('c, 'h) transport \<Rightarrow> ('c \<Rightarrow> stream_id \<Rightarrow> bytes) \<Rightarrow> ('c \<Rightarrow> stream_id \<Rightarrow> bool) \<Rightarrow> bool" where
  "transport_ok tr wire ended \<longleftrightarrow> body_law tr wire ended
     \<and> (\<forall>i n c w c'. tr_stream_writable tr i n c = (w, c') \<longrightarrow>
          only_touches tr wire ended i c c' \<and> wire c' i = wire c i \<and> ended c' i = ended c i)
     \<and> (\<forall>i how code c. only_touches tr wire ended i c (tr_stream_shutdown tr i how code c))
     \<and> (\<forall>i hs p e h c r h' c'. tr_send_response_with_priority tr i hs p e (h, c) = (r, h', c') \<longrightarrow>
          only_touches tr wire ended i c c')
     \<and> (\<forall>i hs e h c r h' c'. tr_send_response tr i hs e (h, c) = (r, h', c') \<longrightarrow> only_touches tr wire ended i c c')
     \<and> (\<forall>i hs t e h c r h' c'. tr_send_additional_headers tr i hs t e (h, c) = (r, h', c') \<longrightarrow>
          only_touches tr wire ended i c c')"

text \<open>
  A stream that reports room for 512 bytes takes some of what it is given (or fails for good), the
  report itself does not fail, and no body send fails for good.
\<close>

definition makes_progress :: "('c, 'h) transport \<Rightarrow> stream_id \<Rightarrow> bool" where
  "makes_progress tr i \<longleftrightarrow> (\<forall>c c' h data f. tr_stream_writable tr i 512 c = (Some True, c') \<longrightarrow> data \<noteq> [] \<longrightarrow>
     body_outcome (fst (tr_send_body tr i data f (h, c'))) \<noteq> Some 0)"

definition no_hard_error :: "('c, 'h) transport \<Rightarrow> stream_id \<Rightarrow> bool" where
  "no_hard_error tr i \<longleftrightarrow> (\<forall>data f hc. body_outcome (fst (tr_send_body tr i data f hc)) \<noteq> None)"

definition writability_known :: "('c, 'h) transport \<Rightarrow> stream_id \<Rightarrow> bool" where
  "writability_known tr i \<longleftrightarrow> (\<forall>n c. fst (tr_stream_writable tr i n c) \<noteq> None)"

lemma only_touches_refl [simp]: "only_touches tr wire ended i c c"
  by (simp add: only_touches_def)

lemma only_touches_trans:
  "only_touches tr wire ended i c c' \<Longrightarrow> only_touches tr wire ended i c' c'' \<Longrightarrow> only_touches tr wire ended i c c''"
  by (simp add: only_touches_def)

lemma body_lawD:
  assumes "body_law tr wire ended" "tr_send_body tr i data f (h, c) = (r, h', c')"
  shows "only_touches tr wire ended i c c' \<and>
     (case r of
        Inr n \<Rightarrow> n \<le> length data \<and> wire c' i = wire c i @ take n data
                 \<and> (ended c' i \<longleftrightarrow> ended c i \<or> f \<and> n = length data)
      | Inl e \<Rightarrow> wire c' i = wire c i \<and> ended c' i = ended c i)"
  by (rule assms(1) [unfolded body_law_def, rule_format, OF assms(2)])

lemma transport_body_law: "transport_ok tr wire ended \<Longrightarrow> body_law tr wire ended"
  by (simp add: transport_ok_def)

lemma transport_calls:
  assumes ok: "transport_ok tr wire ended"
  shows "tr_send_body tr i data f (h, c) = (r, h', c') \<Longrightarrow> only_touches tr wire ended i c c'"
    "tr_stream_writable tr i n c = (w, c') \<Longrightarrow>
       only_touches tr wire ended i c c' \<and> wire c' i = wire c i \<and> ended c' i = ended c i"
    "only_touches tr wire ended i c (tr_stream_shutdown tr i how code c)"
    "tr_send_response_with_priority tr i hs p e (h, c) = (r', h', c') \<Longrightarrow> only_touches tr wire ended i c c'"
    "tr_send_response tr i hs e (h, c) = (r', h', c') \<Longrightarrow> only_touches tr wire ended i c c'"
    "tr_send_additional_headers tr i hs t e (h, c) = (r', h', c') \<Longrightarrow> only_touches tr wire ended i c c'"
  using body_lawD [OF transport_body_law [OF ok]]
  by (blast, (insert ok, unfold transport_ok_def, metis)+)

lemma send_body_effect:
  assumes "transport_ok tr wire ended" "tr_send_body tr i data f (h, c) = (r, h', c')"
  shows "case body_outcome r of
     Some n \<Rightarrow> n \<le> length data \<and> wire c' i = wire c i @ take n data
       \<and> (ended c' i \<longrightarrow> ended c i \<or> f \<and> n = length data)
   | None \<Rightarrow> wire c' i = wire c i \<and> ended c' i = ended c i"
  using body_lawD [OF transport_body_law [OF assms(1)] assms(2)]
  by (auto simp: body_outcome_def split: sum.splits h3_error.split)


subsection \<open>A step for one stream leaves the others alone\<close>

definition same_stream ::
  "('c, 'h) transport \<Rightarrow> ('c \<Rightarrow> stream_id \<Rightarrow> bytes) \<Rightarrow> ('c \<Rightarrow> stream_id \<Rightarrow> bool) \<Rightarrow> stream_id
     \<Rightarrow> ('c, 'h) Client \<Rightarrow> ('c, 'h) Client \<Rightarrow> bool" where
  "same_stream tr wire ended i cl cl' \<longleftrightarrow>
     tr_source_id tr (conn cl') = tr_source_id tr (conn cl)
     \<and> wire (conn cl') i = wire (conn cl) i \<and> ended (conn cl') i = ended (conn cl) i
     \<and> dm_get (body_sending_tracker cl') i = dm_get (body_sending_tracker cl) i
     \<and> headers_send i cl' = headers_send i cl
     \<and> pending_of (pending_body_queue cl') i = pending_of (pending_body_queue cl) i
     \<and> dm_get (partial_responses cl') i = dm_get (partial_responses cl) i"

lemma same_stream_refl [simp]: "same_stream tr wire ended i cl cl"
  by (simp add: same_stream_def)

lemma same_stream_trans:
  "same_stream tr wire ended i cl cl' \<Longrightarrow> same_stream tr wire ended i cl' cl'' \<Longrightarrow> same_stream tr wire ended i cl cl''"
  by (simp add: same_stream_def)

lemma same_stream_updates:
  assumes "j \<noteq> i"
  shows "same_stream tr wire ended i cl (set_headers_send j v cl') = same_stream tr wire ended i cl cl'"
    "same_stream tr wire ended i cl (set_body_size_to_body_sending_tracker j n cl') = same_stream tr wire ended i cl cl'"
    "same_stream tr wire ended i cl (set_written_to_body_sending_tracker j n cl') = same_stream tr wire ended i cl cl'"
    "same_stream tr wire ended i cl (store_partial j p cl') = same_stream tr wire ended i cl cl'"
    "same_stream tr wire ended i cl (drop_partial j cl') = same_stream tr wire ended i cl cl'"
    "same_stream tr wire ended i cl (keep_unsent j body n cl') = same_stream tr wire ended i cl cl'"
    "same_stream tr wire ended i cl (clean_client j cl') = same_stream tr wire ended i cl cl'"
    "same_stream tr wire ended i cl (cl'\<lparr>pending_body_queue := remove_stream_queue j (pending_body_queue cl')\<rparr>)
       = same_stream tr wire ended i cl cl'"
    "same_stream tr wire ended i cl (snd (opening_retry j cl')) = same_stream tr wire ended i cl cl'"
  using assms
  by (auto simp: same_stream_def set_headers_send_def set_body_size_to_body_sending_tracker_def
      set_written_to_body_sending_tracker_def store_partial_def drop_partial_def keep_unsent_def
      clean_client_def headers_send_def pending_remove_queue
      opening_retry_def pop_front_of_pending pending_insert Let_def
      split: option.splits list.splits QueuedRequest.splits)

lemma same_stream_pending:
  "pending_of q i = pending_of (pending_body_queue cl') i \<Longrightarrow>
     same_stream tr wire ended i cl (cl'\<lparr>pending_body_queue := q\<rparr>) = same_stream tr wire ended i cl cl'"
  by (auto simp: same_stream_def headers_send_def)

lemma same_stream_store_left:
  "j \<noteq> i \<Longrightarrow> same_stream tr wire ended i (store_partial j p cl) cl' = same_stream tr wire ended i cl cl'"
  by (auto simp: same_stream_def store_partial_def headers_send_def)

lemma same_stream_push_back:
  "qr_stream_id item \<noteq> i \<Longrightarrow>
     same_stream tr wire ended i cl (push_back_item item cl') = same_stream tr wire ended i cl cl'"
  by (auto simp: same_stream_def push_back_item_def pending_push_front headers_send_def)

lemma same_stream_conn:
  "only_touches tr wire ended j (conn cl) c \<Longrightarrow> j \<noteq> i \<Longrightarrow> same_stream tr wire ended i cl (cl\<lparr>conn := c\<rparr>)"
  by (simp add: same_stream_def only_touches_def headers_send_def)

lemma same_stream_h3:
  assumes "with_h3 f cl = Some (r, cl')" "j \<noteq> i"
    and "\<And>h c r h' c'. f (h, c) = (r, h', c') \<Longrightarrow> only_touches tr wire ended j c c'"
  shows "same_stream tr wire ended i cl cl'"
proof -
  obtain h h' c' where "f (h, conn cl) = (r, h', c')" "cl' = cl\<lparr>conn := c', http3_conn := Some h'\<rparr>"
    using assms(1) by (auto simp: with_h3_def split: option.splits prod.splits)
  with assms(3) have "only_touches tr wire ended j (conn cl) c'" "cl' = cl\<lparr>conn := c', http3_conn := Some h'\<rparr>"
    by blast+
  then show ?thesis using assms(2) by (auto simp: same_stream_def only_touches_def headers_send_def)
qed

lemma same_stream_calls:
  assumes ok: "transport_ok tr wire ended" and "j \<noteq> i"
  shows "with_h3 (tr_send_body tr j data f) cl = Some (r, cl') \<Longrightarrow> same_stream tr wire ended i cl cl'"
    "with_h3 (tr_send_response_with_priority tr j hs p e) cl = Some (r', cl') \<Longrightarrow> same_stream tr wire ended i cl cl'"
    "with_h3 (tr_send_response tr j hs e) cl = Some (r', cl') \<Longrightarrow> same_stream tr wire ended i cl cl'"
    "with_h3 (tr_send_additional_headers tr j hs t e) cl = Some (r', cl') \<Longrightarrow> same_stream tr wire ended i cl cl'"
  by (erule same_stream_h3 [OF _ assms(2)], erule transport_calls [OF ok])+

lemma same_stream_body_response:
  assumes "transport_ok tr wire ended" "j \<noteq> i"
  shows "send_body_response tr j data e cl = Some (r, cl') \<Longrightarrow> same_stream tr wire ended i cl cl'"
    "send_body_response_progression tr j data e cl = Some (r, cl') \<Longrightarrow> same_stream tr wire ended i cl cl'"
    "send_header tr j hs e cl = Some (r, cl') \<Longrightarrow> same_stream tr wire ended i cl cl'"
    "send_more_header tr j hs e cl = Some (r, cl') \<Longrightarrow> same_stream tr wire ended i cl cl'"
    "send_stream_opening tr j hs cl = Some (r'', cl') \<Longrightarrow> same_stream tr wire ended i cl cl'"
    "send_stream_end tr j cl = Some (b, cl') \<Longrightarrow> same_stream tr wire ended i cl cl'"
  by (auto dest!: same_stream_calls [OF assms] simp: same_stream_updates [OF assms(2)] send_body_response_def send_body_response_progression_def send_header_def
      send_more_header_def send_stream_opening_def send_stream_end_def Let_def
      split: Option.bind_splits option.splits prod.splits)


lemma same_stream_end_if:
  "transport_ok tr wire ended \<Longrightarrow> j \<noteq> i \<Longrightarrow> end_if complete tr j cl = Some (b, cl') \<Longrightarrow>
     same_stream tr wire ended i cl cl'"
  by (auto simp: end_if_def same_stream_body_response split: if_splits)

lemma same_stream_write_remainder:
  assumes "transport_ok tr wire ended" "j \<noteq> i" "write_remainder tr j resp a t cl = Some (r, cl')"
  shows "same_stream tr wire ended i cl cl'"
proof -
  obtain body out cl2 where slice: "slice_get (pr_written resp) (length (pr_body resp)) (pr_body resp) = Some body"
    and body: "with_h3 (tr_send_body tr j body False) cl = Some (out, cl2)"
    using assms(3) by (auto simp: write_remainder_def split: Option.bind_splits)
  have "same_stream tr wire ended i cl2 cl'"
    using assms(3) body slice
    by (auto dest!: same_stream_end_if [OF assms(1,2)] split: Option.bind_splits option.splits if_splits
        simp: same_stream_updates [OF assms(2)] same_stream_store_left [OF assms(2)] write_remainder_def Let_def)
  then show ?thesis using same_stream_calls(1) [OF assms(1,2) body] same_stream_trans by blast
qed

lemma same_stream_handle_writable:
  assumes "transport_ok tr wire ended" "j \<noteq> i" "handle_writable tr j cl = Some (r, cl')"
  shows "same_stream tr wire ended i cl cl'"
  using assms(3)
  by (auto dest!: same_stream_calls(3) [OF assms(1,2)] same_stream_write_remainder [OF assms(1,2)]
      simp: handle_writable_def Let_def
      split: Option.bind_splits option.splits prod.splits if_splits)
    (erule (1) same_stream_trans)+

lemma flush_stream_cases:
  assumes "flush_stream (Suc fuel) tr i cl = Some cl'" "tr_stream_writable tr i 512 (conn cl) = (w, c)"
  obtains "w = Some False \<or> dm_get (partial_responses cl) i = None" "cl' = cl\<lparr>conn := c\<rparr>"
  | r cl2 where "w = Some True" "dm_get (partial_responses cl) i \<noteq> None"
    "handle_writable tr i (cl\<lparr>conn := c\<rparr>) = Some (r, cl2)" "flush_stream fuel tr i cl2 = Some cl'"
  using assms by (auto simp: Let_def split: option.splits bool.splits)

lemma same_stream_flush:
  assumes ok: "transport_ok tr wire ended" and "j \<noteq> i"
  shows "flush_stream fuel tr j cl = Some cl' \<Longrightarrow> same_stream tr wire ended i cl cl'"
proof (induction fuel arbitrary: cl)
  case (Suc fuel)
  obtain w c where w: "tr_stream_writable tr j 512 (conn cl) = (w, c)" by fastforce
  have same: "same_stream tr wire ended i cl (cl\<lparr>conn := c\<rparr>)"
    by (rule same_stream_conn [OF conjunct1 [OF transport_calls(2) [OF ok w]] assms(2)])
  from Suc.prems w show ?case
  proof (cases rule: flush_stream_cases)
    case (2 r cl2)
    then show ?thesis
      by (simp add: same_stream_trans [OF same same_stream_trans [OF same_stream_handle_writable [OF assms 2(3)] Suc.IH [OF 2(4)]]])
  qed (use same in simp)
qed simp


subsection \<open>The invariant of the loop\<close>

text \<open>The retry queue is changed only where the loop says so.\<close>

lemma with_h3_keeps:
  "with_h3 f cl = Some (r, cl') \<Longrightarrow> pending_body_queue cl' = pending_body_queue cl
     \<and> partial_responses cl' = partial_responses cl \<and> body_sending_tracker cl' = body_sending_tracker cl
     \<and> headers_sending_tracker cl' = headers_sending_tracker cl"
  by (auto simp: with_h3_def split: option.splits prod.splits)

lemma pending_kept_updates [simp]:
  "pending_body_queue (set_headers_send i v cl) = pending_body_queue cl"
  "pending_body_queue (set_body_size_to_body_sending_tracker i n cl) = pending_body_queue cl"
  "pending_body_queue (set_written_to_body_sending_tracker i n cl) = pending_body_queue cl"
  "pending_body_queue (store_partial i p cl) = pending_body_queue cl"
  "pending_body_queue (drop_partial i cl) = pending_body_queue cl"
  "pending_body_queue (keep_unsent i body n cl) = pending_body_queue cl"
  "pending_body_queue (clean_client i cl) = pending_body_queue cl"
  by (simp_all add: set_headers_send_def set_body_size_to_body_sending_tracker_def
      set_written_to_body_sending_tracker_def store_partial_def drop_partial_def keep_unsent_def clean_client_def)

lemma pending_kept_calls:
  "send_body_response tr i data e cl = Some (r, cl') \<Longrightarrow> pending_body_queue cl' = pending_body_queue cl"
  "send_body_response_progression tr i data e cl = Some (r, cl') \<Longrightarrow> pending_body_queue cl' = pending_body_queue cl"
  "send_header tr i hs e cl = Some (r, cl') \<Longrightarrow> pending_body_queue cl' = pending_body_queue cl"
  "send_more_header tr i hs e cl = Some (r, cl') \<Longrightarrow> pending_body_queue cl' = pending_body_queue cl"
  "send_stream_opening tr i hs cl = Some (r'', cl') \<Longrightarrow> pending_body_queue cl' = pending_body_queue cl"
  "send_stream_end tr i cl = Some (b, cl') \<Longrightarrow> pending_body_queue cl' = pending_body_queue cl"
  by (auto dest!: with_h3_keeps simp: send_body_response_def send_body_response_progression_def send_header_def
      send_more_header_def send_stream_opening_def send_stream_end_def Let_def
      split: Option.bind_splits option.splits prod.splits)

lemma pending_kept_write_remainder:
  "write_remainder tr i resp a t cl = Some (r, cl') \<Longrightarrow> pending_body_queue cl' = pending_body_queue cl"
  by (auto dest!: with_h3_keeps pending_kept_calls(6) simp: write_remainder_def Let_def end_if_def
      split: Option.bind_splits option.splits if_splits)

lemma pending_kept_handle_writable:
  "handle_writable tr i cl = Some (r, cl') \<Longrightarrow> pending_body_queue cl' = pending_body_queue cl"
  by (auto dest!: with_h3_keeps pending_kept_write_remainder simp: handle_writable_def Let_def
      split: Option.bind_splits option.splits prod.splits if_splits)

lemma pending_kept_flush:
  "flush_stream fuel tr i cl = Some cl' \<Longrightarrow> pending_body_queue cl' = pending_body_queue cl"
proof (induction fuel arbitrary: cl)
  case (Suc fuel)
  obtain w c where w: "tr_stream_writable tr i 512 (conn cl) = (w, c)" by fastforce
  from Suc.prems w show ?case
    by (cases rule: flush_stream_cases) (auto dest!: pending_kept_handle_writable Suc.IH)
qed simp


text \<open>Every queued message carries the stream id of the queue it is in.\<close>

definition addressed :: "scid \<Rightarrow> QueuedRequest dispatch \<Rightarrow> bool" where
  "addressed s d \<longleftrightarrow> (\<forall>j lo hi. mail d (j, s) = Some (lo, hi) \<longrightarrow> (\<forall>m \<in> set lo \<union> set hi. qr_stream_id m = j))"

definition retry_addressed :: "QueuedRequest BodyReqQueue \<Rightarrow> bool" where
  "retry_addressed q \<longleftrightarrow> (\<forall>j. \<forall>m \<in> set (pending_of q j). qr_stream_id m = j)"

definition loop_inv :: "('c, 'h) transport \<Rightarrow> scid \<Rightarrow> ('c, 'h, 'l, 'f, 'w) loop_state \<Rightarrow> bool" where
  "loop_inv tr s = (\<lambda>(cl, sv). tr_source_id tr (conn cl) = s \<and> disp_inv (sv_dispatch sv)
     \<and> addressed s (sv_dispatch sv) \<and> retry_addressed (pending_body_queue cl))"

definition same_box :: "scid \<Rightarrow> stream_id \<Rightarrow> 'm dispatch \<Rightarrow> 'm dispatch \<Rightarrow> bool" where
  "same_box s i d d' \<longleftrightarrow> mail d' (i, s) = mail d (i, s)
     \<and> (i \<in> set (requested_stream_resets s d') \<longleftrightarrow> i \<in> set (requested_stream_resets s d))"

lemma same_box_refl [simp]: "same_box s i d d"
  by (simp add: same_box_def)

lemma same_box_trans: "same_box s i d d' \<Longrightarrow> same_box s i d' d'' \<Longrightarrow> same_box s i d d''"
  by (simp add: same_box_def)

lemma resets_member:
  "disp_inv d \<Longrightarrow> i \<in> set (requested_stream_resets s d) \<longleftrightarrow>
     (\<exists>e. dm_get (entries d) (i, s) = Some e \<and> reset_requested e)"
proof -
  assume "disp_inv d"
  then have wf: "dm_wf (entries d)" by (simp add: disp_inv_def)
  show ?thesis
    unfolding dm_get_entry [OF wf] by (auto simp: requested_stream_resets_def image_iff split_beta)
qed

lemma entries_on_counter [simp]: "entries (on_counter f c d) = entries d"
  by (simp add: on_counter_def split: option.split)

lemma entries_receiver: "entries (snd (receiver_try_recv c d)) = entries d"
  by (auto simp: receiver_try_recv_def raw_try_recv_def split: option.splits list.splits)

lemma entries_try_pop: "entries (snd (try_pop j s d)) = entries d"
  by (auto simp: try_pop_def split: option.splits sum.splits prod.splits) (metis entries_receiver snd_conv)+

lemma entries_drop_receiver [simp]: "entries (drop_receiver c d) = entries d"
  by (simp add: drop_receiver_def split: option.split)

lemma entries_remove_stream: "dm_get (entries (remove_stream j s d)) k = (if k = (j, s) then None else dm_get (entries d) k)"
  by (simp add: remove_stream_def split: option.split)

text \<open>A pop yields the head of the high queue, else of the low queue, and changes nothing else.\<close>

lemma try_pop_mail:
  assumes "disp_inv d"
  obtains "try_pop j s d = (Err (), d)" "mail d (j, s) = None \<or> mail d (j, s) = Some ([], [])"
  | m lo hi hi' d' where "mail d (j, s) = Some (lo, hi)" "hi = m # hi'" "try_pop j s d = (Ok m, d')"
    "mail d' = (mail d)((j, s) := Some (lo, hi'))"
  | m lo lo' d' where "mail d (j, s) = Some (lo, [])" "lo = m # lo'" "try_pop j s d = (Ok m, d')"
    "mail d' = (mail d)((j, s) := Some (lo', []))"
proof (cases "mail d (j, s) = None \<or> mail d (j, s) = Some ([], [])")
  case True
  then show ?thesis using try_pop_empty [OF assms] that(1) by blast
next
  case False
  then obtain lo hi where box: "mail d (j, s) = Some (lo, hi)" "lo \<noteq> [] \<or> hi \<noteq> []" by auto
  obtain r d' where pop: "try_pop j s d = (r, d')" by fastforce
  show ?thesis
  proof (cases hi)
    case Nil
    with box obtain m lo' where lo: "lo = m # lo'" by (cases lo) auto
    show ?thesis
      by (rule that(3) [OF _ lo]) (use try_pop_low [OF assms, of j s m lo'] box(1) Nil lo pop in auto)
  next
    case (Cons m hi')
    show ?thesis
      by (rule that(2) [OF box(1) Cons]) (use try_pop_high [OF assms, of j s lo m hi'] box(1) Cons pop in auto)
  qed
qed

lemma try_pop_frame:
  assumes "disp_inv d" "try_pop j s d = (r, d')"
  shows "i \<noteq> j \<Longrightarrow> same_box s i d d'" "disp_inv d'" "addressed s d \<Longrightarrow> addressed s d'"
    "addressed s d \<Longrightarrow> r = Ok m \<Longrightarrow> qr_stream_id m = j"
proof -
  show inv: "disp_inv d'" using disp_inv_pop [OF assms(1), of j s] assms(2) by simp
  have "entries d' = entries d" using entries_try_pop [of j s d] assms(2) by simp
  then show "i \<noteq> j \<Longrightarrow> same_box s i d d'"
    by (rule_tac try_pop_mail [OF assms(1), of j s])
      (use assms(2) in \<open>auto simp: same_box_def resets_member [OF inv] resets_member [OF assms(1)]\<close>)
  show "addressed s d \<Longrightarrow> addressed s d'" "addressed s d \<Longrightarrow> r = Ok m \<Longrightarrow> qr_stream_id m = j"
    by (rule_tac [1-2] try_pop_mail [OF assms(1), of j s]) (use assms(2) in \<open>force simp: addressed_def\<close>)+
qed

lemma remove_stream_frame:
  assumes "disp_inv d"
  shows "i \<noteq> j \<Longrightarrow> same_box s i d (remove_stream j s d)" "disp_inv (remove_stream j s d)"
    "addressed s d \<Longrightarrow> addressed s (remove_stream j s d)"
  using disp_inv_remove [OF assms] mail_remove [OF assms]
  by (auto simp: same_box_def resets_member assms entries_remove_stream addressed_def)


lemma retry_addressed_updates:
  assumes "retry_addressed (pending_body_queue cl)"
  shows "retry_addressed (pending_body_queue (push_back_item item cl))"
    "retry_addressed (remove_stream_queue j (pending_body_queue cl))"
    "retry_addressed (pending_body_queue (snd (opening_retry j cl)))"
    "fst (opening_retry j cl) = Some item \<Longrightarrow> qr_stream_id item = j"
proof -
  show "retry_addressed (pending_body_queue (push_back_item item cl))"
    using assms by (auto simp: retry_addressed_def push_back_item_def pending_push_front)
  show "retry_addressed (remove_stream_queue j (pending_body_queue cl))"
    using assms by (auto simp: retry_addressed_def pending_remove_queue)
  have "get_queue_mut j (pending_body_queue cl) = Some xs \<Longrightarrow> pending_of (pending_body_queue cl) j = xs" for xs
    by (simp add: get_queue_mut_def pending_of_def)
  then show "retry_addressed (pending_body_queue (snd (opening_retry j cl)))"
    "fst (opening_retry j cl) = Some item \<Longrightarrow> qr_stream_id item = j"
    using assms by (force simp: opening_retry_def retry_addressed_def pop_front_of_pending pending_insert Let_def
        split: option.splits list.splits QueuedRequest.splits if_splits)+
qed

text \<open>What handling a message of stream \<open>j\<close> may change.\<close>

definition handles_only ::
  "('c, 'h) transport \<Rightarrow> ('c \<Rightarrow> stream_id \<Rightarrow> bytes) \<Rightarrow> ('c \<Rightarrow> stream_id \<Rightarrow> bool) \<Rightarrow> scid \<Rightarrow> stream_id
     \<Rightarrow> ('c, 'h, 'l, 'f, 'w) loop_state \<Rightarrow> ('c, 'h, 'l, 'f, 'w) loop_state \<Rightarrow> bool" where
  "handles_only tr wire ended s j = (\<lambda>(cl, sv) (cl', sv').
     (\<forall>i. i \<noteq> j \<longrightarrow> same_stream tr wire ended i cl cl')
     \<and> (retry_addressed (pending_body_queue cl) \<longrightarrow> retry_addressed (pending_body_queue cl'))
     \<and> (sv_dispatch sv' = sv_dispatch sv \<or> sv_dispatch sv' = remove_stream j s (sv_dispatch sv)))"

lemma send_popped_body_only:
  assumes ok: "transport_ok tr wire ended" and "br_stream_id chunk = j"
    and "send_popped_body tr s j chunk (cl, sv) = Some st'"
  shows "handles_only tr wire ended s j (cl, sv) st'"
proof -
  have "same_stream tr wire ended i cl (fst st')" if "j \<noteq> i" for i
    using assms(3)
    by (auto simp: send_popped_body_def take_data_def Let_def same_stream_updates [OF that] assms(2) that
        same_stream_push_back same_stream_store_left [OF that]
        dest!: same_stream_body_response(1) [OF ok that] split: Option.bind_splits if_splits)
      (erule (1) same_stream_trans)+
  moreover have "retry_addressed (pending_body_queue cl) \<longrightarrow> retry_addressed (pending_body_queue (fst st'))"
    using assms(3)
    by (auto simp: send_popped_body_def take_data_def Let_def retry_addressed_updates
        dest!: pending_kept_calls(1) split: Option.bind_splits if_splits)
  moreover have "sv_dispatch (snd st') = sv_dispatch sv \<or> sv_dispatch (snd st') = remove_stream j s (sv_dispatch sv)"
    using assms(3) by (auto simp: send_popped_body_def Let_def split: Option.bind_splits if_splits prod.splits)
  ultimately show ?thesis by (auto simp: handles_only_def split_beta)
qed

lemma send_popped_progress_only:
  assumes ok: "transport_ok tr wire ended" and "br_stream_id chunk = j"
    and "\<And>r. qr_stream_id (message r) = br_stream_id r"
    and "send_popped_progress tr message chunk cl = Some cl'"
  shows "handles_only tr wire ended s j (cl, sv) (cl', sv)"
proof -
  obtain r cl1 where r: "send_body_response_progression tr j (br_packet chunk) False cl = Some (r, cl1)"
    "cl' = (if is_ok r then cl1 else push_back_item (message (chunk\<lparr>br_packet := []\<rparr>)) cl1)"
    using assms(2,4) by (auto simp: send_popped_progress_def take_data_def split: Option.bind_splits)
  have "same_stream tr wire ended i cl cl'" if "j \<noteq> i" for i
    using same_stream_body_response(2) [OF ok that r(1)] r(2) assms(2,3) that by (simp add: same_stream_push_back)
  moreover have "retry_addressed (pending_body_queue cl) \<longrightarrow> retry_addressed (pending_body_queue cl')"
    using pending_kept_calls(2) [OF r(1)] r(2) by (simp add: retry_addressed_updates)
  ultimately show ?thesis by (auto simp: handles_only_def)
qed


lemma start_attached_body_only:
  assumes "start_attached_body fe j h n (cl, sv) = Some (cl', sv')"
  shows "j \<noteq> i \<Longrightarrow> same_stream tr wire ended i cl0 cl' = same_stream tr wire ended i cl0 cl"
    "pending_body_queue cl' = pending_body_queue cl" "sv_dispatch sv' = sv_dispatch sv"
proof -
  have station: "chunk_dispatch_channel st' = chunk_dispatch_channel st"
    if "send_body_to_chunking_station fo cs h st = Some (h', st')" for fo cs st h' st'
  proof -
    have "chunk_dispatch_channel st2 = chunk_dispatch_channel st" if "send_response fo b st = Some st2" for b st2
    proof -
      have "chunk_dispatch_channel (station_push r st) = chunk_dispatch_channel st" for r
        by (simp add: station_push_def split: sum.split)
      then show ?thesis using that by (cases b) auto
    qed
    then show ?thesis using that by (auto simp: send_body_to_chunking_station_def Let_def split: option.splits)
  qed
  show "j \<noteq> i \<Longrightarrow> same_stream tr wire ended i cl0 cl' = same_stream tr wire ended i cl0 cl"
    "pending_body_queue cl' = pending_body_queue cl" "sv_dispatch sv' = sv_dispatch sv"
    using assms
    by (auto simp: start_attached_body_def Let_def same_stream_updates dest!: station split: option.splits)
qed

lemma reset_failed_stream_only:
  assumes ok: "transport_ok tr wire ended" and "tr_source_id tr (conn cl) = s"
    and "reset_failed_stream tr j (cl, d) = (cl', d')"
  shows "j \<noteq> i \<Longrightarrow> same_stream tr wire ended i cl cl'"
    "retry_addressed (pending_body_queue cl) \<Longrightarrow> retry_addressed (pending_body_queue cl')"
    "d' = remove_stream j s d" "tr_source_id tr (conn cl') = s"
proof -
  let ?c = "tr_stream_shutdown tr j Shutdown_Write 0x102 (tr_stream_shutdown tr j Shutdown_Read 0x102 (conn cl))"
  have c: "only_touches tr wire ended j (conn cl) ?c"
    by (rule only_touches_trans) (rule transport_calls(3) [OF ok])+
  have cl': "cl' = (let cl1 = clean_client j (cl\<lparr>conn := ?c\<rparr>) in
       cl1\<lparr>pending_body_queue := remove_stream_queue j (pending_body_queue cl1)\<rparr>)"
    and d': "d' = remove_stream j (tr_source_id tr (conn cl')) d"
    using assms(3) by (auto simp: reset_failed_stream_def Let_def)
  show "j \<noteq> i \<Longrightarrow> same_stream tr wire ended i cl cl'"
    using same_stream_conn [OF c] by (simp add: cl' Let_def same_stream_updates same_stream_pending pending_remove_queue)
  show "retry_addressed (pending_body_queue cl) \<Longrightarrow> retry_addressed (pending_body_queue cl')"
    by (simp add: cl' Let_def retry_addressed_def pending_remove_queue)
  show src: "tr_source_id tr (conn cl') = s"
    using c assms(2) by (simp add: cl' Let_def clean_client_def only_touches_def)
  show "d' = remove_stream j s d" using d' src by simp
qed

lemma send_popped_header_only:
  assumes ok: "transport_ok tr wire ended" and "hr_stream_id h = j" "tr_source_id tr (conn cl) = s"
    and "send_popped_header tr fe j h (cl, sv) = Some st'"
  shows "handles_only tr wire ended s j (cl, sv) st'"
proof -
  obtain n where n: "attached_body_len (fe_length fe) h = Some n"
    using assms(4) by (auto simp: send_popped_header_def split: Option.bind_splits)
  obtain k where k: "j \<noteq> k" by (metis one_neq_zero)
  note calls = same_stream_body_response [OF ok] and kept = pending_kept_calls
  show ?thesis
  proof (cases "hr_priority_mode h")
    case SendHeader
    then obtain r cl1 where r: "send_header tr j (hr_headers h) (response_ends_on_headers (hr_is_end h) n) cl = Some (r, cl1)"
      "(if is_ok r then start_attached_body fe j h n (set_headers_send j True cl1, sv)
        else Some (push_back_item (Q_Header h) cl1, sv)) = Some st'"
      using assms(4) n by (auto simp: send_popped_header_def send_popped_response_def split: Option.bind_splits if_splits)
    show ?thesis
      using r(2) calls(3) [OF _ r(1)] kept(3) [OF r(1)] assms(2)
      by (cases st') (auto simp: handles_only_def start_attached_body_only same_stream_updates same_stream_push_back
          retry_addressed_updates split: if_splits)
  next
    case SendHeader100
    then obtain r cl1 where r: "send_header tr j (hr_headers h) (hr_is_end h) cl = Some (r, cl1)"
      "fst st' = (if is_ok r then cl1 else push_back_item (Q_Header h) cl1)" "sv_station (snd st') = sv_station sv"
      using assms(4) n by (auto simp: send_popped_header_def send_popped_status_def split: Option.bind_splits if_splits)
    show ?thesis
      using r(2,3) calls(3) [OF _ r(1)] kept(3) [OF r(1)] assms(2)
      by (cases st') (auto simp: handles_only_def same_stream_push_back retry_addressed_updates split: if_splits)
  next
    case SendAdditionnalHeader
    then obtain r cl1 where r: "send_more_header tr j (hr_headers h) (response_ends_on_headers (hr_is_end h) n) cl = Some (r, cl1)"
      "(if is_ok r then start_attached_body fe j h n (if n \<noteq> None then set_headers_send j True cl1 else cl1, sv)
        else Some (push_back_item (Q_Header h) cl1, sv)) = Some st'"
      using assms(4) n by (auto simp: send_popped_header_def send_popped_additional_def split: Option.bind_splits if_splits)
    show ?thesis
      using r(2) calls(4) [OF _ r(1)] kept(4) [OF r(1)] assms(2)
      by (cases st') (auto simp: handles_only_def start_attached_body_only same_stream_updates same_stream_push_back
          retry_addressed_updates split: if_splits)
  next
    case SendWithPriority
    then show ?thesis using assms(4) n by (cases st') (simp add: send_popped_header_def handles_only_def)
  next
    case OpenStream
    then obtain r cl1 where r: "send_stream_opening tr j (hr_headers h) cl = Some (r, cl1)"
      "st' = (case r of
         Inr _ \<Rightarrow> (set_headers_send j True cl1, sv)
       | Inl (H3_Error _) \<Rightarrow>
           (let (cl2, d) = reset_failed_stream tr j (cl1, sv_dispatch sv) in (cl2, set_dispatch d sv))
       | Inl _ \<Rightarrow> (push_back_item (Q_Header h) cl1, sv))"
      using assms(4) n by (auto simp: send_popped_header_def send_popped_opening_def split: Option.bind_splits)
    have same: "j \<noteq> i \<Longrightarrow> same_stream tr wire ended i cl cl1" for i using calls(5) r(1) by blast
    then have src: "tr_source_id tr (conn cl1) = s" using k assms(3) by (auto simp: same_stream_def)
    obtain cl2 d where reset: "reset_failed_stream tr j (cl1, sv_dispatch sv) = (cl2, d)" by fastforce
    note only = reset_failed_stream_only [OF ok src reset]
    show ?thesis
      using r(2) same kept(5) [OF r(1)] assms(2) only(2,3) same_stream_trans [OF same only(1)] reset
      by (auto simp: handles_only_def same_stream_updates same_stream_push_back retry_addressed_updates
          split: sum.splits h3_error.splits)
  qed
qed


lemma send_popped_only:
  assumes "transport_ok tr wire ended" "tr_source_id tr (conn cl) = s" "qr_stream_id item = j"
    and "send_popped tr fe s j item (cl, sv) = Some st'"
  shows "handles_only tr wire ended s j (cl, sv) st'"
proof (cases item)
  case (Q_Header h)
  then show ?thesis using send_popped_header_only [OF assms(1) _ assms(2)] assms(3,4) by simp
next
  case (Q_Body chunk)
  then show ?thesis using send_popped_body_only [OF assms(1)] assms(3,4) by simp
next
  case (Q_BodyProgression chunk)
  then show ?thesis
    using send_popped_progress_only [OF assms(1), of chunk j Q_BodyProgression] assms(3,4) by auto
next
  case (Q_StreamData chunk)
  then show ?thesis
    using send_popped_progress_only [OF assms(1), of chunk j Q_StreamData] assms(3,4) by auto
qed

text \<open>One turn for stream \<open>j\<close> keeps the loop's invariant and every other stream.\<close>

definition undisturbed ::
  "('c, 'h) transport \<Rightarrow> ('c \<Rightarrow> stream_id \<Rightarrow> bytes) \<Rightarrow> ('c \<Rightarrow> stream_id \<Rightarrow> bool) \<Rightarrow> scid \<Rightarrow> stream_id
     \<Rightarrow> ('c, 'h, 'l, 'f, 'w) loop_state \<Rightarrow> ('c, 'h, 'l, 'f, 'w) loop_state \<Rightarrow> bool" where
  "undisturbed tr wire ended s i = (\<lambda>(cl, sv) (cl', sv').
     same_stream tr wire ended i cl cl' \<and> same_box s i (sv_dispatch sv) (sv_dispatch sv'))"

lemma undisturbed_refl [simp]: "undisturbed tr wire ended s i st st"
  by (simp add: undisturbed_def split_beta)

lemma undisturbed_trans:
  "undisturbed tr wire ended s i st st' \<Longrightarrow> undisturbed tr wire ended s i st' st'' \<Longrightarrow> undisturbed tr wire ended s i st st''"
  by (auto simp: undisturbed_def split_beta intro: same_stream_trans same_box_trans)

lemma other_stream: obtains k :: stream_id where "k \<noteq> j"
  by (metis one_neq_zero)

lemma handles_only_refl [simp]: "handles_only tr wire ended s j st st"
  by (simp add: handles_only_def split_beta)

lemma handles_only_inv:
  assumes "handles_only tr wire ended s j st st'" "loop_inv tr s st"
  shows "loop_inv tr s st' \<and> (\<forall>i. i \<noteq> j \<longrightarrow> undisturbed tr wire ended s i st st')"
proof -
  obtain cl sv cl' sv' where st: "st = (cl, sv)" "st' = (cl', sv')" by fastforce
  obtain k where k: "k \<noteq> j" by (rule other_stream)
  have same: "\<And>i. i \<noteq> j \<Longrightarrow> same_stream tr wire ended i cl cl'"
    and retry: "retry_addressed (pending_body_queue cl')"
    and disp: "sv_dispatch sv' = sv_dispatch sv \<or> sv_dispatch sv' = remove_stream j s (sv_dispatch sv)"
    and inv: "tr_source_id tr (conn cl) = s" "disp_inv (sv_dispatch sv)" "addressed s (sv_dispatch sv)"
    using assms st by (simp_all add: handles_only_def loop_inv_def)
  have "tr_source_id tr (conn cl') = s" using same [OF k] inv(1) by (simp add: same_stream_def)
  moreover have "disp_inv (sv_dispatch sv') \<and> addressed s (sv_dispatch sv')
      \<and> (\<forall>i. i \<noteq> j \<longrightarrow> same_box s i (sv_dispatch sv) (sv_dispatch sv'))"
    using disp remove_stream_frame [OF inv(2)] inv by auto
  ultimately show ?thesis using same retry by (simp add: st loop_inv_def undisturbed_def)
qed

lemma pop_and_send_other:
  assumes ok: "transport_ok tr wire ended" and inv: "loop_inv tr s (cl, sv)"
    and step: "pop_and_send tr fe s j (cl, sv) = Some st'"
  shows "loop_inv tr s st' \<and> (\<forall>i. i \<noteq> j \<longrightarrow> undisturbed tr wire ended s i (cl, sv) st')"
proof -
  obtain retry cl1 where retry: "opening_retry j cl = (retry, cl1)" by fastforce
  have src: "tr_source_id tr (conn cl1) = s"
    using inv retry by (auto simp: loop_inv_def opening_retry_def Let_def
        split: option.splits list.splits QueuedRequest.splits if_splits prod.splits)
  have "retry_addressed (pending_body_queue cl)" using inv by (simp add: loop_inv_def)
  note addr = retry_addressed_updates(3,4) [OF this, of j]
  have inv1: "loop_inv tr s (cl1, sv)" and same1: "i \<noteq> j \<Longrightarrow> undisturbed tr wire ended s i (cl, sv) (cl1, sv)" for i
    using inv src addr(1) retry same_stream_updates(9) [of j i tr wire ended cl cl]
    by (auto simp: loop_inv_def undisturbed_def)
  have go: ?thesis if "handles_only tr wire ended s j st1 st'" "loop_inv tr s st1"
    "\<And>i. i \<noteq> j \<Longrightarrow> undisturbed tr wire ended s i (cl, sv) st1" for st1
    using handles_only_inv [OF that(1,2)] that(3) undisturbed_trans by blast
  consider "st' = (cl, sv)" | "st' = (cl1, sv)"
    | item where "retry = Some item" "send_popped tr fe s j item (cl1, sv) = Some st'"
    | r d where "try_pop j s (sv_dispatch sv) = (r, d)"
        "case r of Inr item \<Rightarrow> send_popped tr fe s j item (cl1, set_dispatch d sv) = Some st'
                 | Inl _ \<Rightarrow> st' = (cl1, set_dispatch d sv)"
    using step retry by (auto simp: pop_and_send_def Let_def split: if_splits option.splits prod.splits sum.splits)
  then show ?thesis
  proof cases
    case 1
    then show ?thesis using inv by simp
  next
    case 2
    then show ?thesis using go [of "(cl1, sv)"] inv1 same1 by simp
  next
    case 3
    then have "qr_stream_id item = j" using addr(2) retry by simp
    then show ?thesis
      using go [OF send_popped_only [OF ok src _ 3(2)] inv1 same1] by blast
  next
    case (4 r d)
    have disp: "disp_inv (sv_dispatch sv)" and addressed: "addressed s (sv_dispatch sv)"
      using inv by (simp_all add: loop_inv_def)
    note pop = try_pop_frame [OF disp 4(1)]
    have inv2: "loop_inv tr s (cl1, set_dispatch d sv)"
      using inv1 pop(2,3) addressed by (simp add: loop_inv_def)
    have same2: "i \<noteq> j \<Longrightarrow> undisturbed tr wire ended s i (cl, sv) (cl1, set_dispatch d sv)" for i
      using same1 [of i] pop(1) [of i] by (simp add: undisturbed_def)
    show ?thesis
    proof (cases r)
      case (Inl u)
      then show ?thesis using go [OF _ inv2 same2] 4(2) by simp
    next
      case (Inr item)
      then have "qr_stream_id item = j" using pop(4) addressed by simp
      then show ?thesis
        using go [OF send_popped_only [OF ok src] inv2 same2] 4(2) Inr by simp
    qed
  qed
qed



subsection \<open>Whole passes\<close>

lemma flush_keeps_inv:
  assumes "transport_ok tr wire ended" "loop_inv tr s (cl, sv)" "flush_if_open fuel tr j cl = Some cl'"
  shows "loop_inv tr s (cl', sv) \<and> (\<forall>i. i \<noteq> j \<longrightarrow> undisturbed tr wire ended s i (cl, sv) (cl', sv))"
proof (cases "headers_send j cl")
  case True
  then have flush: "flush_stream fuel tr j cl = Some cl'" using assms(3) by (simp add: flush_if_open_def)
  have "handles_only tr wire ended s j (cl, sv) (cl', sv)"
    using same_stream_flush [OF assms(1) _ flush] pending_kept_flush [OF flush] by (simp add: handles_only_def)
  then show ?thesis by (rule handles_only_inv [OF _ assms(2)])
next
  case False
  then show ?thesis using assms by (simp add: flush_if_open_def)
qed

lemma reset_keeps_inv:
  assumes "transport_ok tr wire ended" "loop_inv tr s (cl, sv)" "reset_failed_stream tr j (cl, sv_dispatch sv) = (cl', d)"
  shows "loop_inv tr s (cl', set_dispatch d sv)
    \<and> (\<forall>i. i \<noteq> j \<longrightarrow> undisturbed tr wire ended s i (cl, sv) (cl', set_dispatch d sv))"
proof -
  have "tr_source_id tr (conn cl) = s" using assms(2) by (simp add: loop_inv_def)
  note only = reset_failed_stream_only [OF assms(1) this assms(3)]
  have "handles_only tr wire ended s j (cl, sv) (cl', set_dispatch d sv)"
    using only by (simp add: handles_only_def)
  then show ?thesis by (rule handles_only_inv [OF _ assms(2)])
qed

lemma resets_keep_inv:
  assumes "transport_ok tr wire ended" "loop_inv tr s (cl, sv)" "i \<notin> set js"
    and "fold (reset_failed_stream tr) js (cl, sv_dispatch sv) = (cl', d)"
  shows "loop_inv tr s (cl', set_dispatch d sv) \<and> undisturbed tr wire ended s i (cl, sv) (cl', set_dispatch d sv)"
  using assms(2-4)
proof (induction js arbitrary: cl sv)
  case Nil
  then show ?case by (simp add: loop_inv_def undisturbed_def)
next
  case (Cons j js)
  obtain cl1 d1 where step: "reset_failed_stream tr j (cl, sv_dispatch sv) = (cl1, d1)" by fastforce
  note one = reset_keeps_inv [OF assms(1) Cons.prems(1) step]
  have rest: "fold (reset_failed_stream tr) js (cl1, sv_dispatch (set_dispatch d1 sv)) = (cl', d)"
    using Cons.prems(3) step by simp
  have ne: "i \<noteq> j" "i \<notin> set js" using Cons.prems(2) by simp_all
  note two = Cons.IH [OF conjunct1 [OF one] ne(2) rest]
  show ?case
    using two undisturbed_trans [OF conjunct2 [OF one, rule_format, OF ne(1)] conjunct2 [OF two]] by simp
qed

text \<open>
  What is true of stream \<open>i\<close> stays true over a pass if it only depends on the stream and is kept by
  the stream's own flush and turn.
\<close>

lemma round_preserves:
  assumes ok: "transport_ok tr wire ended" and inv: "loop_inv tr s st" and Q: "Q st"
    and round: "send_round fuel tr fe st = Some st'"
    and frame: "\<And>st st'. Q st \<Longrightarrow> undisturbed tr wire ended s i st st' \<Longrightarrow> Q st'"
    and no_reset: "\<And>cl sv. Q (cl, sv) \<Longrightarrow> i \<notin> set (requested_stream_resets s (sv_dispatch sv))"
    and flush: "\<And>cl sv cl'. loop_inv tr s (cl, sv) \<Longrightarrow> Q (cl, sv) \<Longrightarrow> headers_send i cl
      \<Longrightarrow> flush_stream fuel tr i cl = Some cl' \<Longrightarrow> Q (cl', sv)"
    and pop: "\<And>st st'. loop_inv tr s st \<Longrightarrow> Q st \<Longrightarrow> pop_and_send tr fe s i st = Some st' \<Longrightarrow> Q st'"
  shows "loop_inv tr s st' \<and> Q st'"
proof -
  obtain cl sv where st: "st = (cl, sv)" by fastforce
  have s: "tr_source_id tr (conn cl) = s" using inv st by (simp add: loop_inv_def)
  obtain cl1 d1 where reset: "fold (reset_failed_stream tr) (requested_stream_resets s (sv_dispatch sv)) (cl, sv_dispatch sv) = (cl1, d1)"
    by fastforce
  let ?sv = "set_dispatch d1 sv"
  have inv1: "loop_inv tr s (cl1, ?sv)" and Q1: "Q (cl1, ?sv)"
    using resets_keep_inv [OF ok, of s cl sv i, OF _ _ reset] inv Q no_reset frame st by blast+
  obtain cl2 where cl2: "for_each (flush_if_open fuel tr) (tr_writable tr (conn cl1)) cl1 = Some cl2"
    and pops: "for_each (pop_and_send tr fe s) (tr_writable tr (conn cl2)) (cl2, ?sv) = Some st'"
    using round st s reset
    by (auto simp: send_round_def reset_phase_def flush_phase_def Let_def split: Option.bind_splits)
  have "loop_inv tr s (cl2, ?sv) \<and> Q (cl2, ?sv)"
  proof (rule for_each_invariant [OF cl2, where P = "\<lambda>cl. loop_inv tr s (cl, ?sv) \<and> Q (cl, ?sv)"])
    fix j cl cl' assume P: "loop_inv tr s (cl, ?sv) \<and> Q (cl, ?sv)" and step: "flush_if_open fuel tr j cl = Some cl'"
    note kept = flush_keeps_inv [OF ok _ step, of s ?sv]
    show "loop_inv tr s (cl', ?sv) \<and> Q (cl', ?sv)"
    proof (cases "j = i")
      case True
      show ?thesis
      proof (cases "headers_send i cl")
        case True
        then show ?thesis using kept P step flush [of cl ?sv cl'] \<open>j = i\<close> by (simp add: flush_if_open_def)
      next
        case False
        then show ?thesis using P step \<open>j = i\<close> by (simp add: flush_if_open_def)
      qed
    next
      case False
      then show ?thesis using kept P frame [of "(cl, ?sv)" "(cl', ?sv)"] by auto
    qed
  qed (use inv1 Q1 in simp)
  then show ?thesis
  proof (rule for_each_invariant [OF pops, where P = "\<lambda>st. loop_inv tr s st \<and> Q st"])
    fix j st st' assume P: "loop_inv tr s st \<and> Q st" and step: "pop_and_send tr fe s j st = Some st'"
    obtain cl sv where "st = (cl, sv)" by fastforce
    note kept = pop_and_send_other [OF ok, of s cl sv fe j st', folded this]
    show "loop_inv tr s st' \<and> Q st'"
      using kept P step frame [of st st'] pop [of st st'] by (cases "j = i") auto
  qed
qed

text \<open>Passes interleaved with messages that other threads put into the channels.\<close>

datatype loop_event =
    Send_Round nat
  | Deliver_Low stream_id QueuedRequest
  | Deliver_High stream_id QueuedRequest

fun loop_event_step ::
  "('c, 'h) transport \<Rightarrow> files_env \<Rightarrow> scid \<Rightarrow> loop_event \<Rightarrow> ('c, 'h, 'l, 'f, 'w) loop_state
     \<Rightarrow> ('c, 'h, 'l, 'f, 'w) loop_state option" where
  "loop_event_step tr fe s (Send_Round fuel) st = send_round fuel tr fe st"
| "loop_event_step tr fe s (Deliver_Low j m) (cl, sv) =
     Some (cl, set_dispatch (snd (send_via_low_sender j s m (sv_dispatch sv))) sv)"
| "loop_event_step tr fe s (Deliver_High j m) (cl, sv) =
     Some (cl, set_dispatch (snd (send_to_high_priority_queue j s m (sv_dispatch sv))) sv)"

fun addressed_event :: "loop_event \<Rightarrow> bool" where
  "addressed_event (Send_Round fuel) \<longleftrightarrow> True"
| "addressed_event (Deliver_Low j m) \<longleftrightarrow> qr_stream_id m = j"
| "addressed_event (Deliver_High j m) \<longleftrightarrow> qr_stream_id m = j"

fun low_deliveries :: "stream_id \<Rightarrow> loop_event list \<Rightarrow> QueuedRequest list" where
  "low_deliveries i [] = []"
| "low_deliveries i (Deliver_Low j m # evs) = (if j = i then m # low_deliveries i evs else low_deliveries i evs)"
| "low_deliveries i (_ # evs) = low_deliveries i evs"

fun high_deliveries :: "stream_id \<Rightarrow> loop_event list \<Rightarrow> QueuedRequest list" where
  "high_deliveries i [] = []"
| "high_deliveries i (Deliver_High j m # evs) = (if j = i then m # high_deliveries i evs else high_deliveries i evs)"
| "high_deliveries i (_ # evs) = high_deliveries i evs"

lemma send_via_low_mail:
  assumes "disp_inv d"
  shows "disp_inv (snd (send_via_low_sender j s m d))"
    "mail (snd (send_via_low_sender j s m d))
       = (mail d)((j, s) := map_option (\<lambda>(lo, hi). (lo @ [m], hi)) (mail d (j, s)))"
proof -
  have "disp_inv (snd (send_via_low_sender j s m d)) \<and> mail (snd (send_via_low_sender j s m d))
       = (mail d)((j, s) := map_option (\<lambda>(lo, hi). (lo @ [m], hi)) (mail d (j, s)))"
  proof (cases "mail d (j, s)")
    case None
    then have "(mail d)((j, s) := None) = mail d" by (rule fun_upd_idem)
    then show ?thesis using None send_absent [OF assms None] assms by simp
  next
    case (Some box)
    then obtain lo hi where "mail d (j, s) = Some (lo, hi)" by (cases box) simp
    then show ?thesis using send_low_present [OF assms, of j s lo hi m] by simp
  qed
  then show "disp_inv (snd (send_via_low_sender j s m d))"
    "mail (snd (send_via_low_sender j s m d)) = (mail d)((j, s) := map_option (\<lambda>(lo, hi). (lo @ [m], hi)) (mail d (j, s)))"
    by simp_all
qed

lemma send_high_mail:
  assumes "disp_inv d"
  shows "disp_inv (snd (send_to_high_priority_queue j s m d))"
    "mail (snd (send_to_high_priority_queue j s m d))
       = (mail d)((j, s) := map_option (\<lambda>(lo, hi). (lo, hi @ [m])) (mail d (j, s)))"
proof -
  have "disp_inv (snd (send_to_high_priority_queue j s m d)) \<and> mail (snd (send_to_high_priority_queue j s m d))
       = (mail d)((j, s) := map_option (\<lambda>(lo, hi). (lo, hi @ [m])) (mail d (j, s)))"
  proof (cases "mail d (j, s)")
    case None
    then have "(mail d)((j, s) := None) = mail d" by (rule fun_upd_idem)
    then show ?thesis using None send_absent [OF assms None] assms by simp
  next
    case (Some box)
    then obtain lo hi where "mail d (j, s) = Some (lo, hi)" by (cases box) simp
    then show ?thesis using send_high_present [OF assms, of j s lo hi m] by simp
  qed
  then show "disp_inv (snd (send_to_high_priority_queue j s m d))"
    "mail (snd (send_to_high_priority_queue j s m d)) = (mail d)((j, s) := map_option (\<lambda>(lo, hi). (lo, hi @ [m])) (mail d (j, s)))"
    by simp_all
qed

lemma entries_raw_send [simp]: "entries (snd (raw_send c m d)) = entries d"
  by (simp add: raw_send_def split: option.split)

lemma entries_sends [simp]:
  "entries (snd (send_via_low_sender j s m d)) = entries d"
  "entries (snd (send_to_high_priority_queue j s m d)) = entries d"
proof -
  have "entries (snd (sender_send c m d)) = entries d" for c
    using entries_raw_send [of c m "on_counter (\<lambda>_. snd (cc_try_increment (counter_of c d))) c d"]
    by (simp add: sender_send_def Let_def split_beta)
  then show "entries (snd (send_via_low_sender j s m d)) = entries d"
    by (simp add: send_via_low_sender_def split: option.split)
  show "entries (snd (send_to_high_priority_queue j s m d)) = entries d"
    by (simp add: send_to_high_priority_queue_def split: option.split)
qed

lemma delivery_keeps_inv:
  assumes "loop_inv tr s (cl, sv)" "addressed_event ev" "ev = Deliver_Low j m \<or> ev = Deliver_High j m"
    and "loop_event_step tr fe s ev (cl, sv) = Some st'"
  shows "loop_inv tr s st' \<and> (\<forall>i. i \<noteq> j \<longrightarrow> undisturbed tr wire ended s i (cl, sv) st')"
proof -
  have inv: "disp_inv (sv_dispatch sv)" using assms(1) by (simp add: loop_inv_def)
  show ?thesis
    using assms send_via_low_mail [OF inv, of j s m] send_high_mail [OF inv, of j s m]
    by (auto simp: loop_inv_def undisturbed_def same_box_def addressed_def requested_stream_resets_def
        split: if_splits)
qed

end
