(* ===== verification/BodyDelivery.thy ===== *)
theory BodyDelivery
  imports LoopFrames
begin

section \<open>What the network loop does with the messages of a stream\<close>

text \<open>
  Properties of runs of the network loop: passes over a connection (\<open>send_round\<close> of theory
  \<open>NetworkRound\<close>) interleaved with the messages that the chunking worker and the handlers put into
  the stream channels. The library is the parameter \<open>tr\<close>, with the documented behaviour
  \<open>transport_ok\<close> of theory \<open>LoopFrames\<close>.
\<close>

subsection \<open>The flush of a remainder\<close>

definition unsent :: "stream_id \<Rightarrow> ('c, 'h) Client \<Rightarrow> bytes" where
  "unsent i cl = (case dm_get (partial_responses cl) i of None \<Rightarrow> [] | Some p \<Rightarrow> drop (pr_written p) (pr_body p))"

definition partial_ok :: "stream_id \<Rightarrow> ('c, 'h) Client \<Rightarrow> bool" where
  "partial_ok i cl \<longleftrightarrow> (case dm_get (partial_responses cl) i of None \<Rightarrow> True
     | Some p \<Rightarrow> pr_headers p = None \<and> pr_written p < length (pr_body p))"

text \<open>The state of a stream whose body of \<open>T\<close> bytes is being sent, and where its bytes are.\<close>

definition client_body ::
  "('c \<Rightarrow> stream_id \<Rightarrow> bytes) \<Rightarrow> ('c \<Rightarrow> stream_id \<Rightarrow> bool) \<Rightarrow> usize \<Rightarrow> stream_id \<Rightarrow> ('c, 'h) Client \<Rightarrow> bool" where
  "client_body wire ended T i cl \<longleftrightarrow>
     dm_get (body_sending_tracker cl) i = Some (length (wire (conn cl) i), T)
     \<and> headers_send i cl \<and> pending_of (pending_body_queue cl) i = [] \<and> partial_ok i cl
     \<and> (ended (conn cl) i \<longrightarrow> length (wire (conn cl) i) = T)"

lemma h3_body_effect:
  assumes "transport_ok tr wire ended" "with_h3 (tr_send_body tr i data f) cl = Some (r, cl')"
  shows "partial_responses cl' = partial_responses cl" "body_sending_tracker cl' = body_sending_tracker cl"
    "headers_send i cl' = headers_send i cl" "pending_body_queue cl' = pending_body_queue cl"
    "http3_conn cl' \<noteq> None"
    "case body_outcome r of
       Some n \<Rightarrow> n \<le> length data \<and> wire (conn cl') i = wire (conn cl) i @ take n data
         \<and> (ended (conn cl') i \<longrightarrow> ended (conn cl) i \<or> f \<and> n = length data)
     | None \<Rightarrow> wire (conn cl') i = wire (conn cl) i \<and> ended (conn cl') i = ended (conn cl) i"
proof -
  obtain h h' c' where call: "tr_send_body tr i data f (h, conn cl) = (r, h', c')"
    and cl': "cl' = cl\<lparr>conn := c', http3_conn := Some h'\<rparr>"
    using assms(2) by (auto simp: with_h3_def split: option.splits prod.splits)
  show "case body_outcome r of
       Some n \<Rightarrow> n \<le> length data \<and> wire (conn cl') i = wire (conn cl) i @ take n data
         \<and> (ended (conn cl') i \<longrightarrow> ended (conn cl) i \<or> f \<and> n = length data)
     | None \<Rightarrow> wire (conn cl') i = wire (conn cl) i \<and> ended (conn cl') i = ended (conn cl) i"
    using send_body_effect [OF assms(1) call] by (auto simp: cl' split: option.splits)
qed (use with_h3_keeps [OF assms(2)] assms(2) in
    \<open>auto simp: headers_send_def with_h3_def split: option.splits prod.splits\<close>)

lemma with_h3_result: "with_h3 f cl = Some (r, cl') \<Longrightarrow> \<exists>h. http3_conn cl = Some h \<and> r = fst (f (h, conn cl))"
  by (auto simp: with_h3_def split: option.splits prod.splits)

lemma with_h3_total: "http3_conn cl \<noteq> None \<Longrightarrow> \<exists>r cl'. with_h3 f cl = Some (r, cl') \<and> http3_conn cl' \<noteq> None"
  by (auto simp: with_h3_def split: option.splits prod.splits)

lemma no_hard_errorD:
  assumes "no_hard_error tr i" "with_h3 (tr_send_body tr i data f) cl = Some (r, cl')"
  obtains n where "body_outcome r = Some n"
proof -
  have "body_outcome r \<noteq> None"
    using with_h3_result [OF assms(2)] assms(1) unfolding no_hard_error_def by metis
  then show thesis using that by blast
qed

text \<open>Nothing is written at the end of the stream, and only the end is marked.\<close>

lemma end_if_effect:
  assumes "transport_ok tr wire ended" "no_hard_error tr i" "end_if complete tr i cl = Some (b, cl')"
  shows "b" "partial_responses cl' = partial_responses cl" "body_sending_tracker cl' = body_sending_tracker cl"
    "headers_send i cl' = headers_send i cl" "pending_body_queue cl' = pending_body_queue cl"
    "wire (conn cl') i = wire (conn cl) i" "ended (conn cl') i \<longrightarrow> ended (conn cl) i \<or> complete"
proof -
  have "b \<and> partial_responses cl' = partial_responses cl \<and> body_sending_tracker cl' = body_sending_tracker cl
    \<and> headers_send i cl' = headers_send i cl \<and> pending_body_queue cl' = pending_body_queue cl
    \<and> wire (conn cl') i = wire (conn cl) i \<and> (ended (conn cl') i \<longrightarrow> ended (conn cl) i \<or> complete)"
  proof (cases complete)
    case True
    then obtain r where call: "with_h3 (tr_send_body tr i [] True) cl = Some (r, cl')" and b: "b = (body_outcome r \<noteq> None)"
      using assms(3) by (auto simp: end_if_def send_stream_end_def split: Option.bind_splits)
    obtain n where n: "body_outcome r = Some n" by (rule no_hard_errorD [OF assms(2) call])
    note effect = h3_body_effect [OF assms(1) call]
    show ?thesis using effect(1-4) effect(6) b n True by simp
  next
    case False
    then show ?thesis using assms(3) by (simp add: end_if_def)
  qed
  then show "b" "partial_responses cl' = partial_responses cl" "body_sending_tracker cl' = body_sending_tracker cl"
    "headers_send i cl' = headers_send i cl" "pending_body_queue cl' = pending_body_queue cl"
    "wire (conn cl') i = wire (conn cl) i" "ended (conn cl') i \<longrightarrow> ended (conn cl) i \<or> complete"
    by simp_all
qed

text \<open>One call of \<open>handle_writable\<close> moves bytes from the remainder to the wire, in order.\<close>

lemma handle_writable_body:
  assumes ok: "transport_ok tr wire ended" and soft: "no_hard_error tr i"
    and body: "client_body wire ended T i cl" and le: "length (wire (conn cl) i @ unsent i cl) \<le> T"
    and p: "dm_get (partial_responses cl) i = Some p"
    and progress: "\<And>h data f. data \<noteq> [] \<Longrightarrow> body_outcome (fst (tr_send_body tr i data f (h, conn cl))) \<noteq> Some 0"
    and step: "handle_writable tr i cl = Some (r, cl')"
  shows "client_body wire ended T i cl'" "wire (conn cl') i @ unsent i cl' = wire (conn cl) i @ unsent i cl"
    "length (unsent i cl') < length (unsent i cl)"
proof -
  let ?w = "length (wire (conn cl) i)" and ?rest = "drop (pr_written p) (pr_body p)"
  have pp: "pr_headers p = None" "pr_written p < length (pr_body p)" and written: "get_written i cl = (?w, T)"
    and rest: "unsent i cl = ?rest"
    using body p by (simp_all add: client_body_def partial_ok_def get_written_def unsent_def)
  then have slice: "slice_get (pr_written p) (length (pr_body p)) (pr_body p) = Some ?rest"
    by (simp add: slice_get_def)
  then obtain out cl2 where call: "with_h3 (tr_send_body tr i ?rest False) cl = Some (out, cl2)"
    and step2: "write_remainder tr i p ?w T cl = Some (r, cl')"
    using step p pp written
    by (auto simp: handle_writable_def write_remainder_def split: if_splits Option.bind_splits)
  obtain n where n: "body_outcome out = Some n" by (rule no_hard_errorD [OF soft call])
  have pos: "0 < n"
  proof -
    obtain h where "out = fst (tr_send_body tr i ?rest False (h, conn cl))" using with_h3_result [OF call] by blast
    then show ?thesis using progress [of ?rest False h] pp(2) n by (cases n) auto
  qed
  note effect = h3_body_effect [OF ok call]
  have w2: "n \<le> length ?rest" "wire (conn cl2) i = wire (conn cl) i @ take n ?rest"
    "ended (conn cl2) i \<longrightarrow> ended (conn cl) i"
    using effect(6) n by auto
  let ?p = "p\<lparr>pr_headers := None, pr_written := pr_written p + n\<rparr>"
  let ?cl3 = "store_partial i ?p cl2"
  have sel: "conn ?cl3 = conn cl2" "body_sending_tracker ?cl3 = body_sending_tracker cl"
    "headers_send i ?cl3 = headers_send i cl" "pending_body_queue ?cl3 = pending_body_queue cl"
    "partial_responses ?cl3 = dm_insert i ?p (partial_responses cl)"
    using effect(1-4) by (simp_all add: store_partial_def headers_send_def)
  note defs = client_body_def partial_ok_def set_written_to_body_sending_tracker_def drop_partial_def headers_send_def unsent_def
  have "client_body wire ended T i cl' \<and> wire (conn cl') i @ unsent i cl' = wire (conn cl) i @ unsent i cl
    \<and> length (unsent i cl') < length (unsent i cl)"
  proof (cases "n = length ?rest")
    case True
    then have "pr_written p + n = length (pr_body p)" using pp(2) by simp
    with step2 call n slice obtain b cl4 where e: "end_if (n + ?w = T) tr i ?cl3 = Some (b, cl4)"
      "(if b then Some (Some True, drop_partial i (set_written_to_body_sending_tracker i n cl4)) else Some (None, cl4)) = Some (r, cl')"
      by (auto simp: write_remainder_def Let_def split: Option.bind_splits)
    note stop = end_if_effect [OF ok soft e(1)]
    have cl': "cl' = drop_partial i (set_written_to_body_sending_tracker i n cl4)" using e(2) stop(1) by simp
    show ?thesis
      using stop(2-7) sel w2 body True pp(2) rest le
      by (auto simp: cl' defs)
  next
    case False
    then have "pr_written p + n < length (pr_body p)" using w2(1) pp(2) by simp
    with step2 call n slice pos have cl': "cl' = set_written_to_body_sending_tracker i n ?cl3"
      by (auto simp: write_remainder_def Let_def)
    show ?thesis
      using sel w2 body False pp(2) rest pos le drop_split [of "pr_written p" "pr_body p" n]
      by (auto simp: cl' defs)
  qed
  then show "client_body wire ended T i cl'" "wire (conn cl') i @ unsent i cl' = wire (conn cl) i @ unsent i cl"
    "length (unsent i cl') < length (unsent i cl)"
    by simp_all
qed


lemma client_body_conn:
  assumes "client_body wire ended T i cl" "wire c i = wire (conn cl) i" "ended c i = ended (conn cl) i"
  shows "client_body wire ended T i (cl\<lparr>conn := c\<rparr>)"
  using assms by (simp add: client_body_def partial_ok_def headers_send_def)

lemma unsent_conn [simp]: "unsent i (cl\<lparr>conn := c\<rparr>) = unsent i cl"
  by (simp add: unsent_def)

lemma progress_after:
  "makes_progress tr i \<Longrightarrow> tr_stream_writable tr i 512 c = (Some True, c') \<Longrightarrow> data \<noteq> [] \<Longrightarrow>
     body_outcome (fst (tr_send_body tr i data f (h, c'))) \<noteq> Some 0"
  unfolding makes_progress_def by blast

lemma flush_stream_body:
  assumes ok: "transport_ok tr wire ended" and soft: "no_hard_error tr i" and progress: "makes_progress tr i"
  shows "client_body wire ended T i cl \<Longrightarrow> length (wire (conn cl) i @ unsent i cl) \<le> T
     \<Longrightarrow> flush_stream fuel tr i cl = Some cl'
     \<Longrightarrow> client_body wire ended T i cl' \<and> wire (conn cl') i @ unsent i cl' = wire (conn cl) i @ unsent i cl"
proof (induction fuel arbitrary: cl)
  case (Suc fuel)
  obtain w c where w: "tr_stream_writable tr i 512 (conn cl) = (w, c)" by fastforce
  note quiet = transport_calls(2) [OF ok w]
  let ?cl = "cl\<lparr>conn := c\<rparr>"
  have body: "client_body wire ended T i ?cl" using client_body_conn [OF Suc.prems(1)] quiet by simp
  from Suc.prems(3) w show ?case
  proof (cases rule: flush_stream_cases)
    case 1
    then show ?thesis using body quiet by simp
  next
    case (2 r cl2)
    then obtain p where p: "dm_get (partial_responses ?cl) i = Some p" by auto
    have le: "length (wire (conn ?cl) i @ unsent i ?cl) \<le> T" using Suc.prems(2) quiet by simp
    have go: "data \<noteq> [] \<Longrightarrow> body_outcome (fst (tr_send_body tr i data f (h, conn ?cl))) \<noteq> Some 0" for data f h
      using progress_after [OF progress, of "conn cl" c data f h] w 2(1) by simp
    note step = handle_writable_body [OF ok soft body le p go 2(3)]
    have "wire (conn cl2) i @ unsent i cl2 = wire (conn cl) i @ unsent i cl" using step(2) quiet by simp
    then show ?thesis using Suc.IH [OF step(1) _ 2(4)] Suc.prems(2) by simp
  qed
qed simp

text \<open>The calls return when the HTTP/3 connection exists.\<close>

lemma end_if_total: "http3_conn cl \<noteq> None \<Longrightarrow> \<exists>b cl'. end_if complete tr i cl = Some (b, cl') \<and> http3_conn cl' \<noteq> None"
  using with_h3_total [of cl "tr_send_body tr i [] True"] by (auto simp: end_if_def send_stream_end_def)

lemma http3_conn_kept [simp]:
  "http3_conn (store_partial i q cl) = http3_conn cl" "http3_conn (drop_partial i cl) = http3_conn cl"
  "http3_conn (set_written_to_body_sending_tracker i n cl) = http3_conn cl"
  by (simp_all add: store_partial_def drop_partial_def set_written_to_body_sending_tracker_def)

lemma handle_writable_total:
  assumes "http3_conn cl \<noteq> None" "partial_ok i cl"
  shows "\<exists>r cl'. handle_writable tr i cl = Some (r, cl') \<and> http3_conn cl' \<noteq> None"
proof (cases "dm_get (partial_responses cl) i")
  case None
  then show ?thesis using assms(1) by (simp add: handle_writable_def split_beta)
next
  case (Some p)
  then have p: "pr_headers p = None" "slice_get (pr_written p) (length (pr_body p)) (pr_body p) = Some (drop (pr_written p) (pr_body p))"
    using assms(2) by (simp_all add: partial_ok_def slice_get_def)
  obtain out cl2 where call: "with_h3 (tr_send_body tr i (drop (pr_written p) (pr_body p)) False) cl = Some (out, cl2)"
    "http3_conn cl2 \<noteq> None"
    using with_h3_total [OF assms(1), of "tr_send_body tr i (drop (pr_written p) (pr_body p)) False"] by auto
  have tail: "\<exists>r cl'. write_remainder tr i p a t cl = Some (r, cl') \<and> http3_conn cl' \<noteq> None" for a t
  proof (cases "body_outcome out")
    case None
    then show ?thesis using call p(2) by (simp add: write_remainder_def)
  next
    case (Some n)
    let ?cl3 = "store_partial i (p\<lparr>pr_headers := None, pr_written := pr_written p + n\<rparr>) cl2"
    have h: "http3_conn ?cl3 \<noteq> None" using call(2) by simp
    obtain b1 cl4 where one: "end_if (n + a = t) tr i ?cl3 = Some (b1, cl4)" "http3_conn cl4 \<noteq> None"
      using end_if_total [OF h, of "n + a = t" tr i] by auto
    obtain b2 cl5 where two: "end_if (pr_written p + n + a = t) tr i ?cl3 = Some (b2, cl5)" "http3_conn cl5 \<noteq> None"
      using end_if_total [OF h, of "pr_written p + n + a = t" tr i] by auto
    show ?thesis
      using Some call p(2) one two
      by (cases "pr_written p + n = length (pr_body p)"; cases "0 < n"; cases b1; cases b2)
        (simp_all add: write_remainder_def Let_def)
  qed
  then show ?thesis
    using Some p(1) assms(1) by (simp add: handle_writable_def split_beta)
qed


lemma flush_stream_total:
  assumes ok: "transport_ok tr wire ended" and soft: "no_hard_error tr i" and progress: "makes_progress tr i"
    and known: "writability_known tr i"
  shows "client_body wire ended T i cl \<Longrightarrow> length (wire (conn cl) i @ unsent i cl) \<le> T
     \<Longrightarrow> http3_conn cl \<noteq> None \<Longrightarrow> length (unsent i cl) < fuel
     \<Longrightarrow> \<exists>cl'. flush_stream (Suc fuel) tr i cl = Some cl' \<and>
           (unsent i cl' = [] \<or> (\<exists>c. tr_stream_writable tr i 512 c = (Some False, conn cl')))"
proof (induction fuel arbitrary: cl)
  case (Suc fuel)
  obtain w c where w: "tr_stream_writable tr i 512 (conn cl) = (Some w, c)"
    using known unfolding writability_known_def by (metis option.exhaust prod.exhaust_sel)
  note quiet = transport_calls(2) [OF ok w]
  let ?cl = "cl\<lparr>conn := c\<rparr>"
  have body: "client_body wire ended T i ?cl" using client_body_conn [OF Suc.prems(1)] quiet by simp
  have le: "length (wire (conn ?cl) i @ unsent i ?cl) \<le> T" using Suc.prems(2) quiet by simp
  show ?case
  proof (cases "w \<and> dm_get (partial_responses ?cl) i \<noteq> None")
    case False
    then have "flush_stream (Suc (Suc fuel)) tr i cl = Some ?cl"
      using w by (auto simp: Let_def split: option.split bool.split)
    moreover have "unsent i ?cl = [] \<or> w = False" using False by (auto simp: unsent_def)
    ultimately show ?thesis using w by auto
  next
    case True
    then obtain p where p: "dm_get (partial_responses ?cl) i = Some p" by auto
    obtain r cl2 where step: "handle_writable tr i ?cl = Some (r, cl2)" "http3_conn cl2 \<noteq> None"
      using handle_writable_total [of ?cl i tr] body Suc.prems(3) by (auto simp: client_body_def)
    have go: "data \<noteq> [] \<Longrightarrow> body_outcome (fst (tr_send_body tr i data f (h, conn ?cl))) \<noteq> Some 0" for data f h
      using progress_after [OF progress, of "conn cl" c data f h] w True by simp
    note moved = handle_writable_body [OF ok soft body le p go step(1)]
    have "flush_stream (Suc (Suc fuel)) tr i cl = flush_stream (Suc fuel) tr i cl2"
      using w True p step(1) by simp
    then show ?thesis
      using Suc.IH [OF moved(1) _ step(2)] moved(2,3) le Suc.prems(4) by simp
  qed
qed simp


subsection \<open>The stream's own turn\<close>

text \<open>A body message is sent, and its remainder kept.\<close>

lemma send_body_response_effect:
  assumes ok: "transport_ok tr wire ended" and soft: "no_hard_error tr i"
    and body: "client_body wire ended T i cl" and idle: "dm_get (partial_responses cl) i = None"
    and le: "length (wire (conn cl) i) + length data \<le> T"
    and step: "send_body_response tr i data e cl = Some (r, cl')"
  shows "is_ok r" "client_body wire ended T i cl'" "wire (conn cl') i @ unsent i cl' = wire (conn cl) i @ data"
proof -
  let ?w = "length (wire (conn cl) i)"
  have "get_written i cl = (?w, T)" using body by (simp add: client_body_def get_written_def)
  then obtain out cl1 where call: "with_h3 (tr_send_body tr i data (?w = T)) cl = Some (out, cl1)"
    using step by (auto simp: send_body_response_def split: Option.bind_splits)
  obtain n where n: "body_outcome out = Some n" by (rule no_hard_errorD [OF soft call])
  have rest: "r = Ok n" "cl' = set_written_to_body_sending_tracker i n (keep_unsent i data n cl1)"
    using step call n \<open>get_written i cl = _\<close> by (simp_all add: send_body_response_def)
  note effect = h3_body_effect [OF ok call]
  have w1: "n \<le> length data" "wire (conn cl1) i = wire (conn cl) i @ take n data"
    "ended (conn cl1) i \<longrightarrow> ended (conn cl) i \<or> ?w = T \<and> n = length data"
    using effect(6) n by auto
  show "is_ok r" using rest(1) by simp
  note defs = client_body_def partial_ok_def set_written_to_body_sending_tracker_def keep_unsent_def store_partial_def
    headers_send_def unsent_def
  show "client_body wire ended T i cl'"
    using effect(1-4) w1 body idle le by (auto simp: rest(2) defs)
  show "wire (conn cl') i @ unsent i cl' = wire (conn cl) i @ data"
    using effect(1) w1(1,2) idle by (auto simp: rest(2) defs)
qed


fun packet_of :: "QueuedRequest \<Rightarrow> bytes" where
  "packet_of (Q_Body b) = br_packet b"
| "packet_of _ = []"

text \<open>
  The stream's channels hold body packets of the stream only; once they are gone the
  whole body has been taken out.
\<close>

definition body_box :: "usize \<Rightarrow> nat \<Rightarrow> stream_id \<Rightarrow> (QueuedRequest list \<times> QueuedRequest list) option \<Rightarrow> bool" where
  "body_box T taken i b \<longleftrightarrow> (case b of
     None \<Rightarrow> taken = T
   | Some (lo, hi) \<Rightarrow> hi = [] \<and> (\<forall>m \<in> set lo. \<exists>chunk. m = Q_Body chunk \<and> br_stream_id chunk = i))"

definition box_bytes :: "(QueuedRequest list \<times> QueuedRequest list) option \<Rightarrow> bytes" where
  "box_bytes b = (case b of None \<Rightarrow> [] | Some (lo, hi) \<Rightarrow> concat (map packet_of lo))"

definition body_phase ::
  "('c \<Rightarrow> stream_id \<Rightarrow> bytes) \<Rightarrow> ('c \<Rightarrow> stream_id \<Rightarrow> bool) \<Rightarrow> scid \<Rightarrow> stream_id \<Rightarrow> usize \<Rightarrow> bytes
     \<Rightarrow> ('c, 'h, 'l, 'f, 'w) loop_state \<Rightarrow> bool" where
  "body_phase wire ended s i T supplied = (\<lambda>(cl, sv).
     client_body wire ended T i cl
     \<and> body_box T (length (wire (conn cl) i @ unsent i cl)) i (mail (sv_dispatch sv) (i, s))
     \<and> i \<notin> set (requested_stream_resets s (sv_dispatch sv))
     \<and> wire (conn cl) i @ unsent i cl @ box_bytes (mail (sv_dispatch sv) (i, s)) = supplied
     \<and> length supplied \<le> T)"

lemma body_phase_frame:
  assumes "body_phase wire ended s i T supplied st" "undisturbed tr wire ended s i st st'"
  shows "body_phase wire ended s i T supplied st'"
  using assms
  by (auto simp: body_phase_def undisturbed_def same_stream_def same_box_def client_body_def partial_ok_def unsent_def)

lemma body_phase_flush:
  assumes "transport_ok tr wire ended" "no_hard_error tr i" "makes_progress tr i"
    and "body_phase wire ended s i T supplied (cl, sv)" "flush_stream fuel tr i cl = Some cl'"
  shows "body_phase wire ended s i T supplied (cl', sv)"
proof -
  have body: "client_body wire ended T i cl" and le: "length (wire (conn cl) i @ unsent i cl) \<le> T"
    using assms(4) by (auto simp: body_phase_def)
  note flushed = flush_stream_body [OF assms(1-3) body le assms(5)]
  have same: "wire (conn cl') i @ unsent i cl' = wire (conn cl) i @ unsent i cl" using flushed by simp
  then have "length (wire (conn cl') i) + length (unsent i cl') = length (wire (conn cl) i) + length (unsent i cl)"
    by (metis length_append)
  then show ?thesis using assms(4) flushed by (auto simp: body_phase_def)
qed

lemma body_phase_turn:
  assumes ok: "transport_ok tr wire ended" and soft: "no_hard_error tr i" and inv: "loop_inv tr s (cl, sv)"
    and phase: "body_phase wire ended s i T supplied (cl, sv)"
    and step: "pop_and_send tr fe s i (cl, sv) = Some st'"
  shows "body_phase wire ended s i T supplied st'"
proof (cases "dm_get (partial_responses cl) i")
  case (Some p)
  then show ?thesis using phase step by (simp add: pop_and_send_def)
next
  case idle: None
  let ?d = "sv_dispatch sv"
  have body: "client_body wire ended T i cl" and box: "body_box T (length (wire (conn cl) i @ unsent i cl)) i (mail ?d (i, s))"
    and bytes: "wire (conn cl) i @ box_bytes (mail ?d (i, s)) = supplied" and le: "length supplied \<le> T"
    and no_reset: "i \<notin> set (requested_stream_resets s ?d)"
    using phase idle by (auto simp: body_phase_def unsent_def)
  have disp: "disp_inv ?d" using inv by (simp add: loop_inv_def)
  have none: "opening_retry i cl = (None, cl)" "is_stream_queue_empty i (pending_body_queue cl)"
    using body by (auto simp: client_body_def opening_retry_def get_queue_mut_def is_empty_pending pending_of_def
        split: option.splits)
  from disp show ?thesis
  proof (cases rule: try_pop_mail [of ?d i s])
    case 1
    then have "st' = (cl, set_dispatch ?d sv)" using step none idle by (simp add: pop_and_send_def)
    then show ?thesis using phase by (simp add: body_phase_def)
  next
    case (2 m lo hi hi' d')
    then show ?thesis using box by (simp add: body_box_def)
  next
    case (3 m lo lo' d')
    then obtain chunk where chunk: "m = Q_Body chunk" "br_stream_id chunk = i"
      using box by (auto simp: body_box_def)
    have send: "send_popped_body tr s i chunk (cl, set_dispatch d' sv) = Some st'"
      using step none idle 3 chunk by (simp add: pop_and_send_def)
    let ?data = "br_packet chunk"
    have total: "wire (conn cl) i @ ?data @ concat (map packet_of lo') = supplied"
      using bytes 3 chunk by (simp add: box_bytes_def)
    have le1: "length (wire (conn cl) i) + length ?data \<le> T" using total le by auto
    have entries: "entries d' = entries ?d" using entries_try_pop [of i s ?d] 3(3) by simp
    have disp': "disp_inv d'" using try_pop_frame(2) [OF disp 3(3)] .
    have no_reset': "i \<notin> set (requested_stream_resets s d')"
      using no_reset entries by (simp add: requested_stream_resets_def)
    have lo': "\<forall>m \<in> set lo'. \<exists>chunk. m = Q_Body chunk \<and> br_stream_id chunk = i"
      using box 3 by (simp add: body_box_def)
    obtain r cl2 where sent: "send_body_response tr i ?data (br_is_end chunk) cl = Some (r, cl2)"
      using send body chunk(2)
      by (auto simp: send_popped_body_def take_data_def client_body_def split: Option.bind_splits)
    note effect = send_body_response_effect [OF ok soft body idle le1 sent]
    have rest: "(if is_body_totally_written i cl2
        then do {
          (_, cl3) \<leftarrow> send_body_response tr i [] True cl2;
          Some (cl3\<lparr>pending_body_queue := remove_stream_queue i (pending_body_queue cl3)\<rparr>,
                set_dispatch (remove_stream i s d') (set_dispatch d' sv))
        } else Some (cl2, set_dispatch d' sv)) = Some st'"
      using send sent effect(1) body chunk(2)
      by (cases "is_body_totally_written i cl2") (simp_all add: send_popped_body_def take_data_def client_body_def)
    have all: "wire (conn cl2) i @ unsent i cl2 @ concat (map packet_of lo') = supplied"
      using total effect(3) by (metis append_assoc)
    have tracker: "is_body_totally_written i cl2 \<longleftrightarrow> length (wire (conn cl2) i) = T"
      using effect(2) by (auto simp: client_body_def is_body_totally_written_def)
    show ?thesis
    proof (cases "is_body_totally_written i cl2")
      case False
      then have "st' = (cl2, set_dispatch d' sv)" using rest by simp
      then show ?thesis
        using effect(2) lo' all le no_reset' 3(4) by (simp add: body_phase_def body_box_def box_bytes_def)
    next
      case True
      have full: "length (wire (conn cl2) i) = T" using tracker True by simp
      then have "unsent i cl2 = []" "concat (map packet_of lo') = []"
        using all le by auto
      then have idle2: "dm_get (partial_responses cl2) i = None"
        using effect(2) by (auto simp: client_body_def partial_ok_def unsent_def split: option.splits)
      obtain r3 cl3 where last: "send_body_response tr i [] True cl2 = Some (r3, cl3)"
        and st': "st' = (cl3\<lparr>pending_body_queue := remove_stream_queue i (pending_body_queue cl3)\<rparr>,
            set_dispatch (remove_stream i s d') (set_dispatch d' sv))"
        using rest True by (auto split: Option.bind_splits)
      have "length (wire (conn cl2) i) + length ([] :: bytes) \<le> T" using full by simp
      note effect3 = send_body_response_effect [OF ok soft effect(2) idle2 this last]
      have "i \<notin> set (requested_stream_resets s (remove_stream i s d'))"
        using disp_inv_remove [OF disp'] by (simp add: resets_member entries_remove_stream)
      moreover have "client_body wire ended T i (cl3\<lparr>pending_body_queue := remove_stream_queue i (pending_body_queue cl3)\<rparr>)"
        using effect3(2) by (simp add: client_body_def partial_ok_def headers_send_def pending_remove_queue)
      moreover have "length (wire (conn cl3) i @ unsent i cl3) = T"
        "wire (conn cl3) i @ unsent i cl3 = supplied"
        using effect3(3) full all \<open>unsent i cl2 = []\<close> \<open>concat (map packet_of lo') = []\<close> by simp_all
      ultimately show ?thesis
        using le mail_remove [OF disp', of i s]
        by (simp add: st' body_phase_def body_box_def box_bytes_def unsent_def)
    qed
  qed
qed


subsection \<open>Runs\<close>

lemma round_body_phase:
  assumes "transport_ok tr wire ended" "no_hard_error tr i" "makes_progress tr i" "loop_inv tr s st"
    and "body_phase wire ended s i T supplied st" "send_round fuel tr fe st = Some st'"
  shows "loop_inv tr s st' \<and> body_phase wire ended s i T supplied st'"
proof (rule round_preserves [where Q = "body_phase wire ended s i T supplied", OF assms(1,4-6)])
  show "\<And>st st'. body_phase wire ended s i T supplied st \<Longrightarrow> undisturbed tr wire ended s i st st'
      \<Longrightarrow> body_phase wire ended s i T supplied st'"
    by (rule body_phase_frame)
  show "\<And>cl sv. body_phase wire ended s i T supplied (cl, sv) \<Longrightarrow> i \<notin> set (requested_stream_resets s (sv_dispatch sv))"
    by (simp add: body_phase_def)
  show "\<And>cl sv cl'. body_phase wire ended s i T supplied (cl, sv) \<Longrightarrow> flush_stream fuel tr i cl = Some cl'
      \<Longrightarrow> body_phase wire ended s i T supplied (cl', sv)"
    by (rule body_phase_flush [OF assms(1-3)])
  show "\<And>st st'. loop_inv tr s st \<Longrightarrow> body_phase wire ended s i T supplied st \<Longrightarrow> pop_and_send tr fe s i st = Some st'
      \<Longrightarrow> body_phase wire ended s i T supplied st'"
    using body_phase_turn [OF assms(1,2)] by (metis surj_pair)
qed

lemma delivery_body_phase:
  assumes "loop_inv tr s (cl, sv)" "body_phase wire ended s i T supplied (cl, sv)"
    and "br_stream_id chunk = i" "length supplied + length (br_packet chunk) \<le> T"
  shows "body_phase wire ended s i T (supplied @ br_packet chunk)
     (cl, set_dispatch (snd (send_via_low_sender i s (Q_Body chunk) (sv_dispatch sv))) sv)"
proof -
  have inv: "disp_inv (sv_dispatch sv)" using assms(1) by (simp add: loop_inv_def)
  note mail = send_via_low_mail(2) [OF inv, of i s "Q_Body chunk"]
  show ?thesis
  proof (cases "mail (sv_dispatch sv) (i, s)")
    case None
    then have "length supplied = T" "box_bytes (mail (sv_dispatch sv) (i, s)) = []"
      using assms(2) by (auto simp: body_phase_def body_box_def box_bytes_def)
    then have "br_packet chunk = []" using assms(4) by simp
    then show ?thesis using None mail assms(2) by (simp add: body_phase_def requested_stream_resets_def)
  next
    case (Some b)
    then show ?thesis using mail assms(2-4)
      by (cases b) (auto simp: body_phase_def body_box_def box_bytes_def requested_stream_resets_def)
  qed
qed

lemma events_body_phase:
  assumes calls: "transport_ok tr wire ended" "no_hard_error tr i" "makes_progress tr i"
  shows "loop_inv tr s st \<Longrightarrow> body_phase wire ended s i T supplied st
     \<Longrightarrow> \<forall>ev \<in> set evs. addressed_event ev \<Longrightarrow> high_deliveries i evs = []
     \<Longrightarrow> \<forall>m \<in> set (low_deliveries i evs). \<exists>chunk. m = Q_Body chunk
     \<Longrightarrow> length supplied + length (concat (map packet_of (low_deliveries i evs))) \<le> T
     \<Longrightarrow> for_each (loop_event_step tr fe s) evs st = Some st'
     \<Longrightarrow> loop_inv tr s st' \<and> body_phase wire ended s i T (supplied @ concat (map packet_of (low_deliveries i evs))) st'"
proof (induction evs arbitrary: st supplied)
  case Nil
  then show ?case by simp
next
  case (Cons ev evs)
  obtain st1 where step: "loop_event_step tr fe s ev st = Some st1"
    and rest: "for_each (loop_event_step tr fe s) evs st1 = Some st'"
    using Cons.prems(7) by (auto split: option.splits)
  obtain cl sv where st: "st = (cl, sv)" by fastforce
  show ?case
  proof (cases ev)
    case (Send_Round fuel)
    then have "loop_inv tr s st1 \<and> body_phase wire ended s i T supplied st1"
      using round_body_phase [OF calls Cons.prems(1,2)] step by simp
    then show ?thesis using Cons.IH [OF _ _ _ _ _ _ rest, of supplied] Cons.prems(3-6) Send_Round by simp
  next
    case (Deliver_Low j m)
    note kept = delivery_keeps_inv [OF Cons.prems(1) [unfolded st] _ _ step [unfolded st], of j m wire ended]
    have addr: "qr_stream_id m = j" and inv1: "loop_inv tr s st1"
      using kept Cons.prems(3) Deliver_Low by simp_all
    show ?thesis
    proof (cases "j = i")
      case True
      then obtain chunk where chunk: "m = Q_Body chunk" using Cons.prems(5) Deliver_Low by auto
      have "body_phase wire ended s i T (supplied @ br_packet chunk) st1"
        using delivery_body_phase [OF Cons.prems(1,2) [unfolded st], of chunk] step addr chunk True st
          Deliver_Low Cons.prems(6) by simp
      then show ?thesis
        using Cons.IH [OF inv1 _ _ _ _ _ rest, of "supplied @ br_packet chunk"] Cons.prems(3-6) Deliver_Low True chunk
        by simp
    next
      case False
      then have "body_phase wire ended s i T supplied st1"
        using body_phase_frame [OF Cons.prems(2), of tr st1] kept Cons.prems(3) Deliver_Low st by simp
      then show ?thesis using Cons.IH [OF inv1 _ _ _ _ _ rest] Cons.prems(3-6) Deliver_Low False by simp
    qed
  next
    case (Deliver_High j m)
    note kept = delivery_keeps_inv [OF Cons.prems(1) [unfolded st] _ _ step [unfolded st], of j m wire ended]
    have inv1: "loop_inv tr s st1" and ne: "j \<noteq> i"
      using kept Cons.prems(3,4) Deliver_High by (auto split: if_splits)
    then have "body_phase wire ended s i T supplied st1"
      using body_phase_frame [OF Cons.prems(2), of tr st1] kept Cons.prems(3) Deliver_High st by simp
    then show ?thesis using Cons.IH [OF inv1 _ _ _ _ _ rest] Cons.prems(3-6) Deliver_High ne by simp
  qed
qed


lemma events_keep:
  assumes rounds: "\<And>fuel st st' lo hi. loop_inv tr s st \<Longrightarrow> Q lo hi st \<Longrightarrow> send_round fuel tr fe st = Some st'
      \<Longrightarrow> loop_inv tr s st' \<and> Q lo hi st'"
    and frame: "\<And>st st' lo hi. Q lo hi st \<Longrightarrow> undisturbed tr wire ended s i st st' \<Longrightarrow> Q lo hi st'"
    and low: "\<And>m cl sv lo hi. loop_inv tr s (cl, sv) \<Longrightarrow> Q lo hi (cl, sv) \<Longrightarrow>
      Q (lo @ [m]) hi (cl, set_dispatch (snd (send_via_low_sender i s m (sv_dispatch sv))) sv)"
    and high: "\<And>m cl sv lo hi. loop_inv tr s (cl, sv) \<Longrightarrow> Q lo hi (cl, sv) \<Longrightarrow>
      Q lo (hi @ [m]) (cl, set_dispatch (snd (send_to_high_priority_queue i s m (sv_dispatch sv))) sv)"
  shows "loop_inv tr s st \<Longrightarrow> Q lo hi st \<Longrightarrow> \<forall>ev \<in> set evs. addressed_event ev
     \<Longrightarrow> for_each (loop_event_step tr fe s) evs st = Some st'
     \<Longrightarrow> loop_inv tr s st' \<and> Q (lo @ low_deliveries i evs) (hi @ high_deliveries i evs) st'"
proof (induction evs arbitrary: st lo hi)
  case (Cons ev evs)
  obtain st1 where step: "loop_event_step tr fe s ev st = Some st1"
    and rest: "for_each (loop_event_step tr fe s) evs st1 = Some st'"
    using Cons.prems(4) by (auto split: option.splits)
  obtain cl sv where st: "st = (cl, sv)" by fastforce
  have addr: "addressed_event ev" using Cons.prems(3) by simp
  note go = Cons.IH [OF _ _ _ rest]
  show ?case
  proof (cases ev)
    case (Send_Round fuel)
    then show ?thesis using rounds [OF Cons.prems(1,2)] step go [of lo hi] Cons.prems(3) by simp
  next
    case (Deliver_Low j m)
    note kept = delivery_keeps_inv [OF Cons.prems(1) [unfolded st] addr _ step [unfolded st], of j m wire ended]
    show ?thesis
    proof (cases "j = i")
      case True
      then have "Q (lo @ [m]) hi st1" using low [of cl sv lo hi m] Cons.prems(1,2) step st Deliver_Low by simp
      then show ?thesis using kept go [of "lo @ [m]" hi] Cons.prems(3) Deliver_Low True by simp
    next
      case False
      then have "Q lo hi st1" using frame [OF Cons.prems(2)] kept Deliver_Low st by simp
      then show ?thesis using kept go [of lo hi] Cons.prems(3) Deliver_Low False by simp
    qed
  next
    case (Deliver_High j m)
    note kept = delivery_keeps_inv [OF Cons.prems(1) [unfolded st] addr _ step [unfolded st], of j m wire ended]
    show ?thesis
    proof (cases "j = i")
      case True
      then have "Q lo (hi @ [m]) st1" using high [of cl sv lo hi m] Cons.prems(1,2) step st Deliver_High by simp
      then show ?thesis using kept go [of lo "hi @ [m]"] Cons.prems(3) Deliver_High True by simp
    next
      case False
      then have "Q lo hi st1" using frame [OF Cons.prems(2)] kept Deliver_High st by simp
      then show ?thesis using kept go [of lo hi] Cons.prems(3) Deliver_High False by simp
    qed
  qed
qed simp

text \<open>A stream whose retry queue starts with a message other than an opening header.\<close>

definition stalled ::
  "scid \<Rightarrow> stream_id \<Rightarrow> QueuedRequest list \<Rightarrow> QueuedRequest list \<Rightarrow> QueuedRequest list
     \<Rightarrow> ('c, 'h, 'l, 'f, 'w) loop_state \<Rightarrow> bool" where
  "stalled s i stuck lo hi = (\<lambda>(cl, sv). pending_of (pending_body_queue cl) i = stuck
     \<and> mail (sv_dispatch sv) (i, s) = Some (lo, hi) \<and> i \<notin> set (requested_stream_resets s (sv_dispatch sv)))"

lemma stalled_frame:
  "stalled s i stuck lo hi st \<Longrightarrow> undisturbed tr wire ended s i st st' \<Longrightarrow> stalled s i stuck lo hi st'"
  by (auto simp: stalled_def undisturbed_def same_stream_def same_box_def)

lemma stalled_round:
  assumes "transport_ok tr wire ended" "hr_priority_mode h \<noteq> OpenStream" "stuck = Q_Header h # rest"
    and "loop_inv tr s st" "stalled s i stuck lo hi st" "send_round fuel tr fe st = Some st'"
  shows "loop_inv tr s st' \<and> stalled s i stuck lo hi st'"
proof (rule round_preserves [where Q = "stalled s i stuck lo hi", OF assms(1,4-6)])
  show "\<And>st st'. stalled s i stuck lo hi st \<Longrightarrow> undisturbed tr wire ended s i st st' \<Longrightarrow> stalled s i stuck lo hi st'"
    by (rule stalled_frame)
  show "\<And>cl sv. stalled s i stuck lo hi (cl, sv) \<Longrightarrow> i \<notin> set (requested_stream_resets s (sv_dispatch sv))"
    by (simp add: stalled_def)
  show "\<And>cl sv cl'. stalled s i stuck lo hi (cl, sv) \<Longrightarrow> flush_stream fuel tr i cl = Some cl' \<Longrightarrow> stalled s i stuck lo hi (cl', sv)"
    by (simp add: stalled_def pending_kept_flush)
  fix st st' :: "('a, 'b, 'c, 'd, 'e) loop_state"
  assume st: "stalled s i stuck lo hi st" and step: "pop_and_send tr fe s i st = Some st'"
  obtain cl sv where eq: "st = (cl, sv)" by fastforce
  have "pending_of (pending_body_queue cl) i = Q_Header h # rest" using st assms(3) eq by (simp add: stalled_def)
  then have "opening_retry i cl = (None, cl)" "\<not> is_stream_queue_empty i (pending_body_queue cl)"
    using assms(2) by (auto simp: opening_retry_def get_queue_mut_def pending_of_def is_stream_queue_empty_def
        split: option.splits)
  then have "st' = st" using step eq by (simp add: pop_and_send_def split: if_splits)
  then show "stalled s i stuck lo hi st'" using st by simp
qed


lemma stalled_events:
  assumes "transport_ok tr wire ended" "hr_priority_mode h \<noteq> OpenStream" "stuck = Q_Header h # rest"
    and "loop_inv tr s st" "stalled s i stuck lo hi st" "\<forall>ev \<in> set evs. addressed_event ev"
    and "for_each (loop_event_step tr fe s) evs st = Some st'"
  shows "loop_inv tr s st' \<and> stalled s i stuck (lo @ low_deliveries i evs) (hi @ high_deliveries i evs) st'"
proof (rule events_keep [where Q = "stalled s i stuck", OF _ _ _ _ assms(4-7)])
  show "\<And>fuel st st' lo hi. loop_inv tr s st \<Longrightarrow> stalled s i stuck lo hi st \<Longrightarrow> send_round fuel tr fe st = Some st'
      \<Longrightarrow> loop_inv tr s st' \<and> stalled s i stuck lo hi st'"
    by (rule stalled_round [OF assms(1-3)])
  show "\<And>st st' lo hi. stalled s i stuck lo hi st \<Longrightarrow> undisturbed tr wire ended s i st st' \<Longrightarrow> stalled s i stuck lo hi st'"
    by (rule stalled_frame)
qed (auto simp: stalled_def loop_inv_def send_via_low_mail send_high_mail requested_stream_resets_def)

text \<open>A stream with nothing left to send and no channels.\<close>

definition abandoned ::
  "('c \<Rightarrow> stream_id \<Rightarrow> bytes) \<Rightarrow> ('c \<Rightarrow> stream_id \<Rightarrow> bool) \<Rightarrow> scid \<Rightarrow> stream_id \<Rightarrow> bytes
     \<Rightarrow> ('c, 'h, 'l, 'f, 'w) loop_state \<Rightarrow> bool" where
  "abandoned wire ended s i on_wire = (\<lambda>(cl, sv). wire (conn cl) i = on_wire \<and> \<not> ended (conn cl) i
     \<and> dm_get (partial_responses cl) i = None \<and> pending_of (pending_body_queue cl) i = []
     \<and> mail (sv_dispatch sv) (i, s) = None \<and> i \<notin> set (requested_stream_resets s (sv_dispatch sv)))"

lemma abandoned_round:
  assumes ok: "transport_ok tr wire ended"
    and "loop_inv tr s st" "abandoned wire ended s i on_wire st" "send_round fuel tr fe st = Some st'"
  shows "loop_inv tr s st' \<and> abandoned wire ended s i on_wire st'"
proof (rule round_preserves [where Q = "abandoned wire ended s i on_wire", OF assms])
  show "\<And>st st'. abandoned wire ended s i on_wire st \<Longrightarrow> undisturbed tr wire ended s i st st'
      \<Longrightarrow> abandoned wire ended s i on_wire st'"
    by (auto simp: abandoned_def undisturbed_def same_stream_def same_box_def)
  show "\<And>cl sv. abandoned wire ended s i on_wire (cl, sv) \<Longrightarrow> i \<notin> set (requested_stream_resets s (sv_dispatch sv))"
    by (simp add: abandoned_def)
  show "abandoned wire ended s i on_wire (cl', sv)"
    if st: "abandoned wire ended s i on_wire (cl, sv)" and step: "flush_stream fuel tr i cl = Some cl'" for cl sv cl'
  proof (cases fuel)
    case (Suc n)
    obtain w c where w: "tr_stream_writable tr i 512 (conn cl) = (w, c)" by fastforce
    have none: "dm_get (partial_responses cl) i = None" using st by (simp add: abandoned_def)
    from step [unfolded Suc] w show ?thesis
      by (cases rule: flush_stream_cases) (use none st transport_calls(2) [OF ok w] in \<open>auto simp: abandoned_def\<close>)
  qed (use step in simp)
  fix st st' :: "('a, 'b, 'c, 'd, 'e) loop_state"
  assume inv: "loop_inv tr s st" and st: "abandoned wire ended s i on_wire st"
    and step: "pop_and_send tr fe s i st = Some st'"
  obtain cl sv where eq: "st = (cl, sv)" by fastforce
  have "opening_retry i cl = (None, cl)" "is_stream_queue_empty i (pending_body_queue cl)"
    using st eq by (auto simp: abandoned_def opening_retry_def get_queue_mut_def is_empty_pending pending_of_def
        split: option.splits)
  moreover have "try_pop i s (sv_dispatch sv) = (Err (), sv_dispatch sv)"
    by (rule try_pop_empty) (use inv st eq in \<open>simp_all add: loop_inv_def abandoned_def\<close>)
  ultimately have "st' = (cl, set_dispatch (sv_dispatch sv) sv)"
    using st step eq by (simp add: pop_and_send_def abandoned_def)
  then show "abandoned wire ended s i on_wire st'" using st eq by (simp add: abandoned_def)
qed

lemma abandoned_events:
  assumes "transport_ok tr wire ended"
    and "loop_inv tr s st" "abandoned wire ended s i on_wire st" "\<forall>ev \<in> set evs. addressed_event ev"
    and "for_each (loop_event_step tr fe s) evs st = Some st'"
  shows "loop_inv tr s st' \<and> abandoned wire ended s i on_wire st'"
proof (rule events_keep [where Q = "\<lambda>_ _. abandoned wire ended s i on_wire", OF _ _ _ _ assms(2-5)])
  show "\<And>fuel st st'. loop_inv tr s st \<Longrightarrow> abandoned wire ended s i on_wire st \<Longrightarrow> send_round fuel tr fe st = Some st'
      \<Longrightarrow> loop_inv tr s st' \<and> abandoned wire ended s i on_wire st'"
    by (rule abandoned_round [OF assms(1)])
  show "\<And>st st'. abandoned wire ended s i on_wire st \<Longrightarrow> undisturbed tr wire ended s i st st'
      \<Longrightarrow> abandoned wire ended s i on_wire st'"
    by (auto simp: abandoned_def undisturbed_def same_stream_def same_box_def)
qed (auto simp: abandoned_def loop_inv_def send_via_low_mail send_high_mail requested_stream_resets_def)


subsection \<open>Properties\<close>




text \<open>
  C28. When the last packet of a body is accepted but the library answers \<open>Done\<close> to the empty send
  that ends the stream, the stream's channels are removed all the same and no later pass sends the
  end: every byte is on the wire and the stream stays open.
\<close>

theorem lost_end_never_repaired:
  assumes ok: "transport_ok tr wire ended" and inv: "loop_inv tr s (cl, sv)"
    and body: "client_body wire ended T i cl" and idle: "dm_get (partial_responses cl) i = None"
    and box: "mail (sv_dispatch sv) (i, s) = Some ([Q_Body chunk], [])"
    and last: "length (wire (conn cl) i) + length (br_packet chunk) = T" "br_packet chunk \<noteq> []"
    and h3: "http3_conn cl = Some h"
    and accepted: "tr_send_body tr i (br_packet chunk) False (h, conn cl) = (Ok (length (br_packet chunk)), h1, c1)"
    and refused: "tr_send_body tr i [] True (h1, c1) = (Err H3_Done, h2, c2)"
    and turn: "pop_and_send tr fe s i (cl, sv) = Some st"
    and addr: "\<forall>ev \<in> set evs. addressed_event ev"
    and run: "for_each (loop_event_step tr fe s) evs st = Some (cl', sv')"
  shows "wire (conn cl') i = wire (conn cl) i @ br_packet chunk \<and> \<not> ended (conn cl') i
    \<and> mail (sv_dispatch sv') (i, s) = None"
proof -
  let ?d = "sv_dispatch sv" and ?data = "br_packet chunk"
  have disp: "disp_inv ?d" using inv by (simp add: loop_inv_def)
  have "br_stream_id chunk = i" using inv box by (force simp: loop_inv_def addressed_def)
  obtain d' where pop: "try_pop i s ?d = (Ok (Q_Body chunk), d')" and mail': "mail d' = (mail ?d)((i, s) := Some ([], []))"
    using disp by (cases rule: try_pop_mail [of ?d i s]) (use box in auto)
  have disp': "disp_inv d'" by (rule try_pop_frame(2) [OF disp pop])
  have w: "get_written i cl = (length (wire (conn cl) i), T)" "headers_send i cl"
    "pending_of (pending_body_queue cl) i = []" "length (wire (conn cl) i) \<noteq> T" "\<not> ended (conn cl) i"
    using body last by (auto simp: client_body_def get_written_def)
  have none: "opening_retry i cl = (None, cl)" "is_stream_queue_empty i (pending_body_queue cl)"
    using w(3) by (auto simp: opening_retry_def get_queue_mut_def is_empty_pending pending_of_def split: option.splits)
  let ?cl1 = "set_written_to_body_sending_tracker i (length ?data) (cl\<lparr>conn := c1, http3_conn := Some h1\<rparr>)"
  let ?cl2 = "set_written_to_body_sending_tracker i 0 (?cl1\<lparr>conn := c2, http3_conn := Some h2\<rparr>)"
  have one: "send_body_response tr i ?data e cl = Some (Ok (length ?data), ?cl1)" for e
    using w(1,4) h3 accepted by (simp add: send_body_response_def with_h3_def body_outcome_def keep_unsent_def)
  have full: "get_written i ?cl1 = (T, T)" "is_body_totally_written i ?cl1"
    using w(1) last body
    by (auto simp: get_written_def is_body_totally_written_def set_written_to_body_sending_tracker_def client_body_def)
  have two: "send_body_response tr i [] True ?cl1 = Some (Ok 0, ?cl2)"
    using full(1) refused
    by (simp add: send_body_response_def with_h3_def body_outcome_def keep_unsent_def set_written_to_body_sending_tracker_def)
  let ?st = "(?cl2\<lparr>pending_body_queue := remove_stream_queue i (pending_body_queue ?cl2)\<rparr>,
      set_dispatch (remove_stream i s d') (set_dispatch d' sv))"
  have st: "st = ?st"
    using turn none idle pop one two full(2) w(2) \<open>br_stream_id chunk = i\<close>
    by (simp add: pop_and_send_def send_popped_body_def take_data_def)
  have "loop_inv tr s ?st" using pop_and_send_other [OF ok inv turn] st by simp
  moreover have "abandoned wire ended s i (wire (conn cl) i @ ?data) ?st"
    using send_body_effect [OF ok accepted] body_lawD [OF transport_body_law [OF ok] refused] w idle disp_inv_remove [OF disp'] mail_remove [OF disp', of i s]
    by (simp add: abandoned_def body_outcome_def set_written_to_body_sending_tracker_def pending_remove_queue
        resets_member entries_remove_stream)
  ultimately show ?thesis
    using abandoned_events [OF ok, of s ?st i "wire (conn cl) i @ ?data" evs fe "(cl', sv')"] addr run st
    by (simp add: abandoned_def)
qed



subsection \<open>Concrete runs\<close>

text \<open>
  A connection with one stream, 4: the accepted bytes and the end flag. The library takes at most
  \<open>k\<close> bytes per call and, with \<open>no_end\<close>, answers \<open>Done\<close> to an empty send.
\<close>

type_synonym demo_conn = "bytes \<times> bool"

definition demo_send :: "nat \<Rightarrow> bool \<Rightarrow> stream_id \<Rightarrow> bytes \<Rightarrow> bool \<Rightarrow> unit \<times> demo_conn \<Rightarrow> (h3_error + usize) \<times> unit \<times> demo_conn" where
  "demo_send k no_end i data f = (\<lambda>(h, b, e).
     if i = 4 \<and> \<not> (no_end \<and> data = [])
     then (let n = min k (length data) in (Ok n, h, b @ take n data, e \<or> f \<and> n = length data))
     else (Err H3_Done, h, b, e))"

definition demo_tr :: "nat \<Rightarrow> bool \<Rightarrow> (demo_conn, unit) transport" where
  "demo_tr k no_end = \<lparr>tr_source_id = (\<lambda>_. [1]), tr_trace_id = (\<lambda>_. ''c''), tr_writable = (\<lambda>_. [4]),
     tr_stream_writable = (\<lambda>i n c. (Some True, c)), tr_stream_shutdown = (\<lambda>i how code c. c),
     tr_send_response_with_priority = (\<lambda>i hs p e hc. (Ok (), hc)), tr_send_response = (\<lambda>i hs e hc. (Ok (), hc)),
     tr_send_additional_headers = (\<lambda>i hs t e hc. (Ok (), hc)), tr_send_body = demo_send k no_end\<rparr>"

definition demo_wire :: "demo_conn \<Rightarrow> stream_id \<Rightarrow> bytes" where
  "demo_wire c i = (if i = 4 then fst c else [])"

definition demo_ended :: "demo_conn \<Rightarrow> stream_id \<Rightarrow> bool" where
  "demo_ended c i \<longleftrightarrow> i = 4 \<and> snd c"

lemma demo_transport_ok: "transport_ok (demo_tr k no_end) demo_wire demo_ended"
  by (auto simp: transport_ok_def body_law_def only_touches_def demo_tr_def demo_send_def demo_wire_def demo_ended_def
      Let_def split: if_splits)

lemma demo_laws:
  "no_hard_error (demo_tr k no_end) i" "writability_known (demo_tr k no_end) i"
  "0 < k \<Longrightarrow> makes_progress (demo_tr k no_end) 4"
  by (auto simp: no_hard_error_def writability_known_def makes_progress_def demo_tr_def demo_send_def body_outcome_def
      Let_def)

definition demo_client :: "(stream_id, PartialResponse) dashmap \<Rightarrow> bytes \<Rightarrow> usize \<Rightarrow> QueuedRequest list \<Rightarrow> (demo_conn, unit) Client" where
  "demo_client partial on_wire T stuck = \<lparr>conn = (on_wire, False), http3_conn = Some (), partial_responses = partial,
     progress_status_requests = [], headers_sending_tracker = [(4, True)],
     body_sending_tracker = [(4, (length on_wire, T))],
     pending_body_queue = fold (\<lambda>m. push_item_on_front qr_stream_id m) stuck (fifo_new [1]), conn_stats = conn_stats_new\<rparr>"

definition demo_sv :: "(unit, unit, nat list) server" where
  "demo_sv = set_dispatch (insert_new_channel 4 [1] dispatch_new) (demo_server GET)"

definition demo_fe :: files_env where
  "demo_fe = \<lparr>fe_open = (\<lambda>_. None), fe_length = (\<lambda>_. None)\<rparr>"

definition demo_chunk :: "bytes \<Rightarrow> bool \<Rightarrow> BodyRequest" where
  "demo_chunk data e = body_request_new 4 ''c'' [1] 0 data e"

lemma demo_sv_disp: "disp_inv (sv_dispatch demo_sv)" "mail (sv_dispatch demo_sv) = (\<lambda>_. None)((4, [1]) := Some ([], []))"
  by (simp_all add: demo_sv_def disp_inv_new disp_inv_insert mail_insert)

lemma demo_no_resets: "requested_stream_resets [1] (sv_dispatch demo_sv) = []"
  by (simp add: requested_stream_resets_def demo_sv_def insert_new_channel_def already_in_map_def inner_insert_def
      dispatch_new_def dm_insert_def Let_def)




definition demo_header :: HeaderRequest where
  "demo_header = header_request_new 4 [1] [header '':status'' ''200''] False None None SendHeader"


theorem lost_end_never_repaired_witness:
  "\<exists>st cl' sv'. pop_and_send (demo_tr 9 True) demo_fe [1] 4
       (demo_client [] [] 3 [], set_dispatch (snd (send_via_low_sender 4 [1] (Q_Body (demo_chunk [7, 8, 9] True))
          (sv_dispatch demo_sv))) demo_sv) = Some st
     \<and> for_each (loop_event_step (demo_tr 9 True) demo_fe [1]) [Send_Round 2] st = Some (cl', sv')
     \<and> demo_wire (conn cl') 4 = [7, 8, 9] \<and> \<not> demo_ended (conn cl') 4"
proof -
  let ?tr = "demo_tr 9 True" and ?cl = "demo_client [] [] 3 []" and ?chunk = "demo_chunk [7, 8, 9] True"
  let ?sv = "set_dispatch (snd (send_via_low_sender 4 [1] (Q_Body ?chunk) (sv_dispatch demo_sv))) demo_sv"
  have "case pop_and_send ?tr demo_fe [1] 4 (?cl, ?sv) of
      Some st \<Rightarrow> (case for_each (loop_event_step ?tr demo_fe [1]) [Send_Round 2] st of Some _ \<Rightarrow> True | None \<Rightarrow> False)
    | None \<Rightarrow> False" by code_simp
  then obtain st cl' sv' where turn: "pop_and_send ?tr demo_fe [1] 4 (?cl, ?sv) = Some st"
    and run: "for_each (loop_event_step ?tr demo_fe [1]) [Send_Round 2] st = Some (cl', sv')"
    by (auto split: option.splits)
  have box: "mail (sv_dispatch ?sv) = (\<lambda>_. None)((4, [1]) := Some ([Q_Body ?chunk], []))" "disp_inv (sv_dispatch ?sv)"
    using send_via_low_mail [OF demo_sv_disp(1), of 4 "[1]" "Q_Body ?chunk"] by (simp_all add: demo_sv_disp(2))
  have inv: "loop_inv ?tr [1] (?cl, ?sv)"
    using box by (auto simp: loop_inv_def demo_tr_def addressed_def retry_addressed_def demo_client_def pending_new
        demo_chunk_def body_request_new_def split: if_splits)
  have body: "client_body demo_wire demo_ended 3 4 ?cl"
    by (simp add: client_body_def demo_client_def demo_wire_def demo_ended_def headers_send_def partial_ok_def
        pending_new dm_get_def)
  have facts: "dm_get (partial_responses ?cl) 4 = None" "mail (sv_dispatch ?sv) (4, [1]) = Some ([Q_Body ?chunk], [])"
    "length (demo_wire (conn ?cl) 4) + length (br_packet ?chunk) = 3" "br_packet ?chunk \<noteq> []" "http3_conn ?cl = Some ()"
    "tr_send_body ?tr 4 (br_packet ?chunk) False ((), conn ?cl) = (Ok (length (br_packet ?chunk)), (), [7, 8, 9], False)"
    "tr_send_body ?tr 4 [] True ((), [7, 8, 9], False) = (Err H3_Done, (), [7, 8, 9], False)"
    using box by (simp_all add: demo_client_def demo_wire_def demo_chunk_def body_request_new_def dm_get_def demo_tr_def demo_send_def)
  have ev: "\<forall>ev \<in> set [Send_Round 2]. addressed_event ev" by simp
  from lost_end_never_repaired [OF demo_transport_ok inv body facts turn ev run]
  have "demo_wire (conn cl') 4 = [7, 8, 9] \<and> \<not> demo_ended (conn cl') 4"
    by (simp add: demo_client_def demo_wire_def demo_chunk_def body_request_new_def)
  then show ?thesis using turn run by blast
qed

end
