(* ===== verification/Signalling.thy ===== *)
theory Signalling
  imports RouteHandler
begin

section \<open>Signals between header processing and response workers\<close>

text \<open>
  Model of \<open>src/response_queue_processing/response_buffer_table.rs\<close>, \<open>response_worker.rs\<close> and the
  pool of \<open>src/response_queue_processing.rs\<close>. A finished stream is handed to the response workers
  as an injection; the map of dispositions says whether the middlewares of the request are still
  running (Pending), accepted it (Ready) or rejected it; dispositions are changed by one receiver
  thread that reads the signal channel. Several threads share this state, so the model is a
  labelled step relation in which every access to a shared structure is one step: \<open>register\<close> makes
  two of them (\<open>remove_if\<close> and, when that finds nothing to consume, \<open>contains_key\<close>), and a worker may
  be interrupted in between. Preparing the response belongs to the step that consumed the
  disposition, and a cancellation removes the disposition and the table entry in one step. \<open>ib_dispatched\<close> records the requests whose response was prepared.
  A panic of user code in a worker thread ends that thread and has no step.
\<close>

type_synonym ReqId = "stream_id \<times> conn_id"

datatype RequestDisposition = Pending | Ready | Rejected

record ResponseInjection =
  ri_stream_id :: stream_id
  ri_scid :: scid
  ri_conn_id :: conn_id
  ri_has_more_frames :: bool

definition response_injection_new :: "stream_id \<Rightarrow> scid \<Rightarrow> conn_id \<Rightarrow> bool \<Rightarrow> ResponseInjection" where
  "response_injection_new i s c has_more =
     \<lparr>ri_stream_id = i, ri_scid = s, ri_conn_id = c, ri_has_more_frames = has_more\<rparr>"

definition ri_req_id :: "ResponseInjection \<Rightarrow> ReqId" where
  "ri_req_id ri = (ri_stream_id ri, ri_conn_id ri)"

record ('l, 'f, 'w) ResponseInjectionBuffer =
  ib_signal :: "(ReqId, RequestDisposition) dashmap"
  ib_channel :: "(ReqId \<times> RequestDisposition) list"
  ib_server :: "('l, 'f, 'w) server"
  ib_jobs :: "ResponseInjection list"
  ib_checking :: "ResponseInjection list"
  ib_dispatched :: "ReqId list"

definition injection_buffer_new :: "('l, 'f, 'w) server \<Rightarrow> ('l, 'f, 'w) ResponseInjectionBuffer" where
  "injection_buffer_new sv = \<lparr>ib_signal = [], ib_channel = [], ib_server = sv, ib_jobs = [], ib_checking = [],
     ib_dispatched = []\<rparr>"

definition discard_in_server :: "conn_id \<Rightarrow> stream_id \<Rightarrow> ('l, 'f, 'w) server \<Rightarrow> ('l, 'f, 'w) server" where
  "discard_in_server c i sv = sv\<lparr>sv_requests := discard_request c i (sv_requests sv)\<rparr>"


subsection \<open>Operations\<close>

definition begin_request ::
  "conn_id \<Rightarrow> stream_id \<Rightarrow> ('l, 'f, 'w) ResponseInjectionBuffer \<Rightarrow> ('l, 'f, 'w) ResponseInjectionBuffer" where
  "begin_request c i b = b\<lparr>ib_signal := dm_or_insert (i, c) Pending (ib_signal b)\<rparr>"

definition cancel_request ::
  "conn_id \<Rightarrow> stream_id \<Rightarrow> ('l, 'f, 'w) ResponseInjectionBuffer \<Rightarrow> ('l, 'f, 'w) ResponseInjectionBuffer" where
  "cancel_request c i b =
     b\<lparr>ib_signal := dm_remove (i, c) (ib_signal b), ib_server := discard_in_server c i (ib_server b)\<rparr>"

definition cancel_connection ::
  "conn_id \<Rightarrow> ('l, 'f, 'w) ResponseInjectionBuffer \<Rightarrow> ('l, 'f, 'w) ResponseInjectionBuffer" where
  "cancel_connection c b =
     b\<lparr>ib_signal := dm_retain (\<lambda>(_, connection). connection \<noteq> c) (ib_signal b),
       ib_server := (ib_server b)\<lparr>sv_requests := discard_connection c (sv_requests (ib_server b))\<rparr>\<rparr>"

definition send_signal ::
  "ReqId \<Rightarrow> ('l, 'f, 'w) ResponseInjectionBuffer \<Rightarrow> ('l, 'f, 'w) ResponseInjectionBuffer" where
  "send_signal k b = b\<lparr>ib_channel := ib_channel b @ [(k, Ready)]\<rparr>"

definition send_rejected ::
  "ReqId \<Rightarrow> ('l, 'f, 'w) ResponseInjectionBuffer \<Rightarrow> ('l, 'f, 'w) ResponseInjectionBuffer" where
  "send_rejected k b = b\<lparr>ib_channel := ib_channel b @ [(k, Rejected)]\<rparr>"

text \<open>One message of \<open>signal_receiver::run\<close>.\<close>

definition receive_signal ::
  "('l, 'f, 'w) ResponseInjectionBuffer \<Rightarrow> ('l, 'f, 'w) ResponseInjectionBuffer" where
  "receive_signal b =
     (case ib_channel b of
        [] \<Rightarrow> b
      | (request, state) # rest \<Rightarrow>
          let b1 = b\<lparr>ib_channel := rest\<rparr> in
          if dm_contains (ib_signal b) request
          then b1\<lparr>ib_signal := dm_insert request state (ib_signal b)\<rparr>
          else b1\<lparr>ib_server := discard_in_server (snd request) (fst request) (ib_server b)\<rparr>)"

text \<open>
  \<open>register\<close>. The first access consumes a disposition that is no longer pending and acts on it;
  the result is True when the call is over and False when the second access follows. None is a
  panic while the response is prepared.
\<close>

definition register_consume ::
  "('h, 'm, 'l, 'w) handler_env \<Rightarrow> ResponseInjection \<Rightarrow> ('l, 'f, 'w) ResponseInjectionBuffer
     \<Rightarrow> (bool \<times> ('l, 'f, 'w) ResponseInjectionBuffer) option" where
  "register_consume env ri b =
     (let k = ri_req_id ri; b1 = b\<lparr>ib_signal := dm_remove k (ib_signal b)\<rparr> in
      case dm_get (ib_signal b) k of
        Some Ready \<Rightarrow>
          map_option (\<lambda>sv. (True, b1\<lparr>ib_server := sv, ib_dispatched := ib_dispatched b @ [k]\<rparr>))
            (response_preparation_with_route_handler env (ri_conn_id ri) (ri_scid ri) (ri_stream_id ri)
               OnFinished_Type SendAdditionnalHeader (ib_server b))
      | Some Rejected \<Rightarrow>
          Some (True, b1\<lparr>ib_server := discard_in_server (ri_conn_id ri) (ri_stream_id ri) (ib_server b)\<rparr>)
      | Some Pending \<Rightarrow> Some (False, b)
      | None \<Rightarrow> Some (False, b))"

definition register_retry :: "ResponseInjection \<Rightarrow> ('l, 'f, 'w) ResponseInjectionBuffer \<Rightarrow> ResponseInjection + unit" where
  "register_retry ri b = (if dm_contains (ib_signal b) (ri_req_id ri) then Err ri else Ok ())"

text \<open>\<open>register\<close> without interruption.\<close>

definition register_injection ::
  "('h, 'm, 'l, 'w) handler_env \<Rightarrow> ResponseInjection \<Rightarrow> ('l, 'f, 'w) ResponseInjectionBuffer
     \<Rightarrow> ((ResponseInjection + unit) \<times> ('l, 'f, 'w) ResponseInjectionBuffer) option" where
  "register_injection env ri b =
     (case register_consume env ri b of
        None \<Rightarrow> None
      | Some (True, b1) \<Rightarrow> Some (Ok (), b1)
      | Some (False, b1) \<Rightarrow> Some (register_retry ri b1, b1))"

text \<open>The pool: \<open>ResponsePoolProcessingSender::send\<close> and one job of a worker, uninterrupted.\<close>

definition pool_send ::
  "stream_id \<Rightarrow> scid \<Rightarrow> conn_id \<Rightarrow> bool \<Rightarrow> ('l, 'f, 'w) ResponseInjectionBuffer \<Rightarrow> ('l, 'f, 'w) ResponseInjectionBuffer" where
  "pool_send i s c has_more b = b\<lparr>ib_jobs := ib_jobs b @ [response_injection_new i s c has_more]\<rparr>"

definition handle_finished_stream ::
  "conn_id \<Rightarrow> scid \<Rightarrow> stream_id \<Rightarrow> ('l, 'f, 'w) ResponseInjectionBuffer \<Rightarrow> ('l, 'f, 'w) ResponseInjectionBuffer" where
  "handle_finished_stream c s i b = pool_send i s c False b"

definition response_worker ::
  "('h, 'm, 'l, 'w) handler_env \<Rightarrow> ('l, 'f, 'w) ResponseInjectionBuffer \<Rightarrow> ('l, 'f, 'w) ResponseInjectionBuffer option" where
  "response_worker env b =
     (case ib_jobs b of
        [] \<Rightarrow> Some b
      | ri # jobs \<Rightarrow>
          (case register_injection env ri (b\<lparr>ib_jobs := jobs\<rparr>) of
             None \<Rightarrow> None
           | Some (Inr _, b1) \<Rightarrow> Some b1
           | Some (Inl again, b1) \<Rightarrow> Some (b1\<lparr>ib_jobs := ib_jobs b1 @ [again]\<rparr>)))"


subsection \<open>Interleaved steps\<close>

datatype ib_label =
    Begin conn_id stream_id
  | Cancel_Request conn_id stream_id
  | Cancel_Connection conn_id
  | Signal_Ready ReqId
  | Signal_Rejected ReqId
  | Receive
  | Finished_Stream conn_id scid stream_id
  | Worker_Takes
  | Worker_Checks nat
  | Elsewhere

text \<open>
  \<open>Elsewhere\<close> is any step of the other components (body packets, headers, chunking, user code): it
  may change the server state in any way, but none of the buffer's own structures.
\<close>

inductive ib_step ::
  "('h, 'm, 'l, 'w) handler_env \<Rightarrow> ib_label \<Rightarrow> ('l, 'f, 'w) ResponseInjectionBuffer
     \<Rightarrow> ('l, 'f, 'w) ResponseInjectionBuffer \<Rightarrow> bool" for env where
  step_begin: "ib_step env (Begin c i) b (begin_request c i b)"
| step_cancel: "ib_step env (Cancel_Request c i) b (cancel_request c i b)"
| step_close: "ib_step env (Cancel_Connection c) b (cancel_connection c b)"
| step_ready: "ib_step env (Signal_Ready k) b (send_signal k b)"
| step_rejected: "ib_step env (Signal_Rejected k) b (send_rejected k b)"
| step_receive: "ib_step env Receive b (receive_signal b)"
| step_finished: "ib_step env (Finished_Stream c s i) b (handle_finished_stream c s i b)"
| step_takes:
    "ib_jobs b = ri # jobs \<Longrightarrow> register_consume env ri (b\<lparr>ib_jobs := jobs\<rparr>) = Some (over, b') \<Longrightarrow>
     ib_step env Worker_Takes b (if over then b' else b'\<lparr>ib_checking := ib_checking b' @ [ri]\<rparr>)"
| step_checks:
    "n < length (ib_checking b) \<Longrightarrow> ri = ib_checking b ! n \<Longrightarrow>
     b1 = b\<lparr>ib_checking := take n (ib_checking b) @ drop (Suc n) (ib_checking b)\<rparr> \<Longrightarrow>
     ib_step env (Worker_Checks n) b
       (case register_retry ri b1 of Inl again \<Rightarrow> b1\<lparr>ib_jobs := ib_jobs b1 @ [again]\<rparr> | Inr _ \<Rightarrow> b1)"
| step_elsewhere: "ib_step env Elsewhere b (b\<lparr>ib_server := sv\<rparr>)"

inductive ib_run ::
  "('h, 'm, 'l, 'w) handler_env \<Rightarrow> ib_label list \<Rightarrow> ('l, 'f, 'w) ResponseInjectionBuffer
     \<Rightarrow> ('l, 'f, 'w) ResponseInjectionBuffer \<Rightarrow> bool" for env where
  run_refl: "ib_run env [] b b"
| run_step: "ib_run env ls b b' \<Longrightarrow> ib_step env l b' b'' \<Longrightarrow> ib_run env (ls @ [l]) b b''"

inductive_cases ib_stepE [elim]: "ib_step env l b b'"



subsection \<open>Invariants of all interleavings\<close>

definition ib_live :: "('l, 'f, 'w) ResponseInjectionBuffer \<Rightarrow> conn_id \<Rightarrow> stream_id \<Rightarrow> bool" where
  "ib_live b c i \<longleftrightarrow> dm_contains (ib_signal b) (i, c)"

interpretation dispositions: request_scoped ib_live cancel_request cancel_connection
  by unfold_locales (auto simp: ib_live_def cancel_request_def cancel_connection_def)

definition dispatches :: "ReqId \<Rightarrow> ('l, 'f, 'w) ResponseInjectionBuffer \<Rightarrow> nat" where
  "dispatches k b = count_list (ib_dispatched b) k"

definition signalled :: "ReqId \<Rightarrow> ('l, 'f, 'w) ResponseInjectionBuffer \<Rightarrow> nat" where
  "signalled k b = count_list (ib_channel b) (k, Ready) + (if dm_get (ib_signal b) k = Some Ready then 1 else 0)"

definition admitted :: "ReqId \<Rightarrow> ('l, 'f, 'w) ResponseInjectionBuffer \<Rightarrow> nat" where
  "admitted k b = (if dm_contains (ib_signal b) k then 1 else 0)"

text \<open>What one step can do to a request's counters.\<close>

lemma register_consume_effect:
  assumes "register_consume env ri b = Some (over, b')"
  shows "ib_channel b' = ib_channel b" "ib_jobs b' = ib_jobs b" "ib_checking b' = ib_checking b"
    and "ib_dispatched b' = ib_dispatched b \<and> (ib_signal b' = ib_signal b \<or>
             ib_signal b' = dm_remove (ri_req_id ri) (ib_signal b))
       \<or> ib_dispatched b' = ib_dispatched b @ [ri_req_id ri] \<and> ib_signal b' = dm_remove (ri_req_id ri) (ib_signal b)
         \<and> dm_get (ib_signal b) (ri_req_id ri) = Some Ready"
  using assms
  by (auto simp: register_consume_def Let_def split: option.splits RequestDisposition.splits)

lemma count_list_snoc [simp]: "count_list (xs @ [x]) y = count_list xs y + (if x = y then 1 else 0)"
  by (induction xs) auto

lemma ib_step_counters:
  assumes "ib_step env l b b'"
  shows "dispatches k b' + admitted k b' \<le> dispatches k b + admitted k b + (if l = Begin (snd k) (fst k) then 1 else 0)"
    and "dispatches k b' + signalled k b' \<le> dispatches k b + signalled k b + (if l = Signal_Ready k then 1 else 0)"
    and "admitted k b = 0 \<Longrightarrow> l \<noteq> Begin (snd k) (fst k) \<Longrightarrow> dispatches k b' = dispatches k b \<and> admitted k b' = 0"
proof -
  have "dispatches k b' + admitted k b' \<le> dispatches k b + admitted k b + (if l = Begin (snd k) (fst k) then 1 else 0)
    \<and> dispatches k b' + signalled k b' \<le> dispatches k b + signalled k b + (if l = Signal_Ready k then 1 else 0)
    \<and> (admitted k b = 0 \<longrightarrow> l \<noteq> Begin (snd k) (fst k) \<longrightarrow> dispatches k b' = dispatches k b \<and> admitted k b' = 0)"
    using assms
  proof cases
    case (step_takes ri jobs over b1)
    note eff = register_consume_effect [OF step_takes(4)]
    show ?thesis using eff step_takes(2)
      by (auto simp: dispatches_def admitted_def signalled_def dm_contains_def split: if_splits)
  next
    case (step_receive)
    show ?thesis
    proof (cases "ib_channel b")
      case Nil
      then show ?thesis using step_receive by (simp add: receive_signal_def)
    next
      case (Cons m rest)
      obtain request state where m: "m = (request, state)" by fastforce
      show ?thesis using step_receive Cons m
        by (auto simp: receive_signal_def Let_def dispatches_def admitted_def signalled_def dm_contains_def split: if_splits)
    qed
  next
    case (step_checks n ri b1)
    then show ?thesis
      by (auto simp: register_retry_def dispatches_def admitted_def signalled_def split: if_splits)
  qed (auto simp: dispatches_def admitted_def signalled_def begin_request_def cancel_request_def cancel_connection_def
      send_signal_def send_rejected_def handle_finished_stream_def pool_send_def dm_contains_def split: if_splits)
  then show "dispatches k b' + admitted k b' \<le> dispatches k b + admitted k b + (if l = Begin (snd k) (fst k) then 1 else 0)"
    and "dispatches k b' + signalled k b' \<le> dispatches k b + signalled k b + (if l = Signal_Ready k then 1 else 0)"
    and "admitted k b = 0 \<Longrightarrow> l \<noteq> Begin (snd k) (fst k) \<Longrightarrow> dispatches k b' = dispatches k b \<and> admitted k b' = 0"
    by blast+
qed

lemma ib_run_counters:
  assumes "ib_run env ls b b'"
  shows "dispatches k b' + admitted k b' \<le> dispatches k b + admitted k b + count_list ls (Begin (snd k) (fst k))"
    and "dispatches k b' + signalled k b' \<le> dispatches k b + signalled k b + count_list ls (Signal_Ready k)"
    and "admitted k b = 0 \<Longrightarrow> Begin (snd k) (fst k) \<notin> set ls \<Longrightarrow> dispatches k b' = dispatches k b \<and> admitted k b' = 0"
  using assms
proof (induction rule: ib_run.induct)
  case (run_step ls b b' l b'')
  note step = ib_step_counters [OF run_step(2), of k]
  { case 1 show ?case using run_step.IH(1) step(1) by (simp only: count_list_snoc) }
  { case 2 show ?case using run_step.IH(2) step(2) by (simp only: count_list_snoc) }
  { case 3 show ?case using run_step.IH(3) step(3) 3 by auto }
qed simp_all


text \<open>
  In every interleaving of the network loop, the middleware workers, the signal receiver and
  the response workers, a request's response is prepared (its handlers are run) at most once for
  each time the request was begun, and at most once for each signal that its middlewares had
  accepted it; in particular never without such a signal.
\<close>

theorem request_dispatched_at_most_once:
  assumes "ib_run env ls (injection_buffer_new sv) b"
  shows "dispatches k b \<le> count_list ls (Begin (snd k) (fst k)) \<and> dispatches k b \<le> count_list ls (Signal_Ready k)"
  using ib_run_counters(1,2) [OF assms, of k]
  by (simp add: injection_buffer_new_def dispatches_def admitted_def signalled_def)

definition demo_buffer :: "(unit, unit, nat list) ResponseInjectionBuffer" where
  "demo_buffer = begin_request ''c'' 4 (injection_buffer_new (demo_server GET))"

lemma demo_buffer_run: "ib_run env [Begin ''c'' 4] (injection_buffer_new (demo_server GET)) demo_buffer"
  using run_step [OF run_refl step_begin] by (simp add: demo_buffer_def)

theorem request_dispatched_at_most_once_witness:
  "dispatches (4, ''c'') demo_buffer \<le> count_list [Begin ''c'' 4] (Begin ''c'' 4)
     \<and> dispatches (4, ''c'') demo_buffer \<le> count_list [Begin ''c'' 4] (Signal_Ready (4, ''c''))"
  using request_dispatched_at_most_once [OF demo_buffer_run, of "(4, ''c'')"] by simp



text \<open>The disposition a request has after the receiver has read the whole channel.\<close>

definition latest :: "ReqId \<Rightarrow> (ReqId \<times> RequestDisposition) list \<Rightarrow> RequestDisposition \<Rightarrow> RequestDisposition" where
  "latest k msgs d = foldl (\<lambda>d (k', state). if k' = k then state else d) d msgs"

lemma receive_all:
  "ib_channel b = msgs \<Longrightarrow> dm_get (ib_signal b) k = Some d \<Longrightarrow>
     ib_channel ((receive_signal ^^ length msgs) b) = []
   \<and> dm_get (ib_signal ((receive_signal ^^ length msgs) b)) k = Some (latest k msgs d)
   \<and> ib_jobs ((receive_signal ^^ length msgs) b) = ib_jobs b
   \<and> ib_dispatched ((receive_signal ^^ length msgs) b) = ib_dispatched b"
proof (induction msgs arbitrary: b d)
  case (Cons m msgs)
  obtain k' state where m: "m = (k', state)" by fastforce
  have "ib_channel (receive_signal b) = msgs"
    "dm_get (ib_signal (receive_signal b)) k = Some (if k' = k then state else d)"
    "ib_jobs (receive_signal b) = ib_jobs b" "ib_dispatched (receive_signal b) = ib_dispatched b"
    using Cons.prems m by (auto simp: receive_signal_def Let_def dm_contains_def)
  from Cons.IH [OF this(1,2)] this(3,4) show ?case
    using m by (simp add: funpow_Suc_right latest_def del: funpow.simps)
qed (simp add: latest_def)

lemma register_by_disposition:
  assumes "register_injection env ri b = Some (r, b')"
  shows "case dm_get (ib_signal b) (ri_req_id ri) of
      Some Pending \<Rightarrow> r = Err ri \<and> b' = b
    | None \<Rightarrow> r = Ok () \<and> b' = b
    | Some Ready \<Rightarrow> r = Ok () \<and> ib_signal b' = dm_remove (ri_req_id ri) (ib_signal b)
        \<and> ib_dispatched b' = ib_dispatched b @ [ri_req_id ri] \<and> ib_jobs b' = ib_jobs b
        \<and> response_preparation_with_route_handler env (ri_conn_id ri) (ri_scid ri) (ri_stream_id ri)
            OnFinished_Type SendAdditionnalHeader (ib_server b) = Some (ib_server b')
    | Some Rejected \<Rightarrow> r = Ok () \<and> ib_signal b' = dm_remove (ri_req_id ri) (ib_signal b)
        \<and> ib_dispatched b' = ib_dispatched b \<and> ib_jobs b' = ib_jobs b
        \<and> ib_server b' = discard_in_server (ri_conn_id ri) (ri_stream_id ri) (ib_server b)"
  using assms
  by (auto simp: register_injection_def register_consume_def register_retry_def Let_def dm_contains_def
      split: option.splits RequestDisposition.splits bool.splits)



definition demo_rejected :: "(unit, unit, nat list) ResponseInjectionBuffer" where
  "demo_rejected = handle_finished_stream ''c'' [1] 4 (send_rejected (4, ''c'') demo_buffer)"


end
