(* ===== verification/HeaderPipeline.thy ===== *)
theory HeaderPipeline
  imports Signalling
begin

section \<open>Header processing and middlewares\<close>

text \<open>
  Model of \<open>src/header_queue_processing.rs\<close>, \<open>src/header_queue_processing/middleware_worker.rs\<close> and the
  flow types of \<open>src/middleware.rs\<close>. A header message goes to the header processor, which finds the
  route or stream and makes a middleware job, or answers with a 404; a middleware worker runs the
  middlewares in order, fills the table of requests and signals the verdict; the result receiver
  answers rejections. A middleware is user code: a function of the headers and the application
  state, which it may change; a failed downcast of the state is an \<open>Err\<close>. The application state is
  cloned for every worker, so the model takes it to be a shared handle. The state joins the
  injection buffer (with the server) and the three channels.
\<close>

datatype MiddleWareFlow = Continue "h3_header list" | Abort ErrorResponse

type_synonym ('m, 'w) middleware_call = "'m \<Rightarrow> h3_header list \<Rightarrow> 'w \<Rightarrow> (unit + MiddleWareFlow) \<times> 'w"

datatype MiddleWareResult =
    Mw_Abort ErrorResponse stream_id scid
  | Mw_Success string H3Method "h3_header list" stream_id scid conn_id bool "usize option"

fun mr_stream_id :: "MiddleWareResult \<Rightarrow> stream_id" where
  "mr_stream_id (Mw_Success p m hs i s c more_frames len) = i"
| "mr_stream_id (Mw_Abort e i s) = i"

fun mr_scid :: "MiddleWareResult \<Rightarrow> scid" where
  "mr_scid (Mw_Success p m hs i s c more_frames len) = s"
| "mr_scid (Mw_Abort e i s) = s"

record HeaderMessage =
  hm_stream_id :: stream_id
  hm_scid :: scid
  hm_conn_id :: conn_id
  hm_more_frames :: bool
  hm_headers :: "h3_header list"

datatype RouteType = Regular | Stream_Route

record 'm MiddleWareJob =
  mj_path :: string
  mj_method :: H3Method
  mj_stream_id :: stream_id
  mj_conn_id :: conn_id
  mj_has_more_frames :: bool
  mj_content_length :: "usize option"
  mj_scid :: scid
  mj_headers :: "h3_header list"
  mj_middleware_collection :: "'m list"
  mj_route_type :: RouteType

record ('m, 'l, 'f, 'w) pipeline =
  hp_buffer :: "('l, 'f, 'w) ResponseInjectionBuffer"
  hp_messages :: "HeaderMessage list"
  hp_jobs :: "'m MiddleWareJob list"
  hp_results :: "MiddleWareResult list"

definition pipeline_new :: "('l, 'f, 'w) server \<Rightarrow> ('m, 'l, 'f, 'w) pipeline" where
  "pipeline_new sv = \<lparr>hp_buffer = injection_buffer_new sv, hp_messages = [], hp_jobs = [], hp_results = []\<rparr>"

definition on_buffer ::
  "(('l, 'f, 'w) ResponseInjectionBuffer \<Rightarrow> ('l, 'f, 'w) ResponseInjectionBuffer)
     \<Rightarrow> ('m, 'l, 'f, 'w) pipeline \<Rightarrow> ('m, 'l, 'f, 'w) pipeline" where
  "on_buffer f p = p\<lparr>hp_buffer := f (hp_buffer p)\<rparr>"

definition on_server ::
  "(('l, 'f, 'w) server \<Rightarrow> ('l, 'f, 'w) server) \<Rightarrow> ('l, 'f, 'w) ResponseInjectionBuffer
     \<Rightarrow> ('l, 'f, 'w) ResponseInjectionBuffer" where
  "on_server f b = b\<lparr>ib_server := f (ib_server b)\<rparr>"

abbreviation hp_server :: "('m, 'l, 'f, 'w) pipeline \<Rightarrow> ('l, 'f, 'w) server" where
  "hp_server p \<equiv> ib_server (hp_buffer p)"


subsection \<open>The header processor\<close>

definition process_header ::
  "stream_id \<Rightarrow> scid \<Rightarrow> conn_id \<Rightarrow> h3_header list \<Rightarrow> bool \<Rightarrow> ('m, 'l, 'f, 'w) pipeline \<Rightarrow> ('m, 'l, 'f, 'w) pipeline" where
  "process_header i s c headers more_frames p =
     p\<lparr>hp_messages := hp_messages p @ [\<lparr>hm_stream_id = i, hm_scid = s, hm_conn_id = c,
        hm_more_frames = more_frames, hm_headers = headers\<rparr>]\<rparr>"

definition send_header_work ::
  "string \<Rightarrow> RouteType \<Rightarrow> H3Method \<Rightarrow> usize option \<Rightarrow> 'm list \<Rightarrow> HeaderMessage \<Rightarrow> 'm MiddleWareJob option" where
  "send_header_work path route_type method len middleware_collection msg =
     Some \<lparr>mj_path = path, mj_method = method, mj_stream_id = hm_stream_id msg, mj_conn_id = hm_conn_id msg,
        mj_has_more_frames = hm_more_frames msg, mj_content_length = len, mj_scid = hm_scid msg,
        mj_headers = hm_headers msg, mj_middleware_collection = middleware_collection, mj_route_type = route_type\<rparr>"

definition execute :: "'m MiddleWareJob option \<Rightarrow> ('m, 'l, 'f, 'w) pipeline \<Rightarrow> ('m, 'l, 'f, 'w) pipeline" where
  "execute job p = (case job of Some j \<Rightarrow> p\<lparr>hp_jobs := hp_jobs p @ [j]\<rparr> | None \<Rightarrow> p)"

definition run_header_processor ::
  "('h, 'm, 'l, 'w) handler_env \<Rightarrow> ('m, 'l, 'f, 'w) pipeline \<Rightarrow> ('m, 'l, 'f, 'w) pipeline" where
  "run_header_processor he p =
     (case hp_messages p of
        [] \<Rightarrow> p
      | msg # rest \<Rightarrow>
          let p1 = p\<lparr>hp_messages := rest\<rparr> in
          (case extract_method_path_content_length (hm_headers msg) of
             (Some method_bytes, Some path, len) \<Rightarrow>
               (case method_parse method_bytes of
                  Inl _ \<Rightarrow> p1
                | Inr method \<Rightarrow>
                    (case rh_get_routes_from_path_and_method path method (he_manager he) of
                       Some (route_form, _) \<Rightarrow>
                         execute (send_header_work path Regular method len (rf_middlewares route_form) msg) p1
                     | None \<Rightarrow>
                         (case Option.bind (he_streams he) (\<lambda>sessions. dm_get sessions path) of
                            Some stream \<Rightarrow>
                              execute (send_header_work path Stream_Route method len (sf_middlewares stream) msg) p1
                          | None \<Rightarrow>
                              on_buffer (\<lambda>b. on_server (send_404 he ''/404'' (hm_scid msg) (hm_stream_id msg) SendHeader)
                                (send_rejected (hm_stream_id msg, hm_conn_id msg) b)) p1)))
           | _ \<Rightarrow> p1))"


subsection \<open>The middleware workers\<close>

text \<open>The loop over the middlewares of a job: the headers that reach the handler, or the first error.\<close>

fun run_middlewares ::
  "('m, 'w) middleware_call \<Rightarrow> 'm list \<Rightarrow> h3_header list \<Rightarrow> 'w \<Rightarrow> (ErrorResponse + h3_header list) \<times> 'w" where
  "run_middlewares call [] temps_headers w = (Ok temps_headers, w)"
| "run_middlewares call (mdw # mdws) temps_headers w =
     (case call mdw temps_headers w of
        (Inr (Continue headers), w') \<Rightarrow> run_middlewares call mdws headers w'
      | (Inr (Abort error_response), w') \<Rightarrow> (Err error_response, w')
      | (Inl _, w') \<Rightarrow> (Err (Error415 (Some (ascii_bytes ''failed to call middleware''))), w'))"

definition regular_request_partial_response_table_update ::
  "('h, 'm, 'l, 'w) handler_env \<Rightarrow> path_buf \<Rightarrow> io_env \<Rightarrow> 'm MiddleWareJob \<Rightarrow> h3_header list
     \<Rightarrow> ('l, 'f, 'w) ResponseInjectionBuffer \<Rightarrow> ('l, 'f, 'w) ResponseInjectionBuffer" where
  "regular_request_partial_response_table_update he storage env job headers b =
     (let i = mj_stream_id job; c = mj_conn_id job; sv = ib_server b; rq = sv_requests sv;
          rq1 = (if is_request_set_in_table i c rq
                 then (let (dm, listener) = get_additionnal_attributes he (mj_path job) (mj_method job) in
                       rh_complete_request_entry_in_table storage env i c (mj_method job) (mj_path job) headers
                         (mj_content_length job) dm listener rq)
                 else create_new_request_in_table he storage env (mj_path job) i c (mj_method job) headers
                        (mj_content_length job) (mj_has_more_frames job) rq);
          sv1 = snd (send_reception_status_first i (mj_scid job) (sv\<lparr>sv_requests := rq1\<rparr>))
      in send_signal (i, c) (b\<lparr>ib_server := sv1\<rparr>))"

definition stream_request_partial_response_table_update ::
  "('h, 'm, 'l, 'w) handler_env \<Rightarrow> path_buf \<Rightarrow> io_env \<Rightarrow> 'm MiddleWareJob \<Rightarrow> h3_header list
     \<Rightarrow> ('l, 'f, 'w) ResponseInjectionBuffer \<Rightarrow> ('l, 'f, 'w) ResponseInjectionBuffer" where
  "stream_request_partial_response_table_update he storage env job headers b =
     (let i = mj_stream_id job; c = mj_conn_id job; sv = ib_server b; rq = sv_requests sv;
          rq1 = (if is_request_set_in_table i c rq
                 then rh_complete_request_entry_in_table storage env i c (mj_method job) (mj_path job) headers
                        (mj_content_length job) (Some (Storage InMemory)) None rq
                 else create_new_request_in_table he storage env (mj_path job) i c (mj_method job) headers
                        (mj_content_length job) True rq);
          sv1 = snd (send_reception_status_first i (mj_scid job) (sv\<lparr>sv_requests := rq1\<rparr>))
      in send_signal (i, c) (b\<lparr>ib_server := sv1\<rparr>))"

definition send_done :: "MiddleWareResult \<Rightarrow> ('m, 'l, 'f, 'w) pipeline \<Rightarrow> ('m, 'l, 'f, 'w) pipeline" where
  "send_done msg p = p\<lparr>hp_results := hp_results p @ [msg]\<rparr>"

text \<open>One job of a worker thread.\<close>

definition middleware_worker ::
  "('m, 'w) middleware_call \<Rightarrow> ('h, 'm, 'l, 'w) handler_env \<Rightarrow> path_buf \<Rightarrow> io_env \<Rightarrow> ('m, 'l, 'f, 'w) pipeline
     \<Rightarrow> ('m, 'l, 'f, 'w) pipeline" where
  "middleware_worker call he storage env p =
     (case hp_jobs p of
        [] \<Rightarrow> p
      | job # jobs \<Rightarrow>
          let (verdict, w) = run_middlewares call (mj_middleware_collection job) (mj_headers job) (sv_app (hp_server p));
              b = on_server (\<lambda>sv. sv\<lparr>sv_app := w\<rparr>) (hp_buffer p);
              p1 = p\<lparr>hp_jobs := jobs, hp_buffer := b\<rparr>
          in (case verdict of
                Inl error_response \<Rightarrow>
                  send_done (Mw_Abort error_response (mj_stream_id job) (mj_scid job))
                    (on_buffer (send_rejected (mj_stream_id job, mj_conn_id job)) p1)
              | Inr headers \<Rightarrow>
                  send_done (Mw_Success (mj_path job) (mj_method job) headers (mj_stream_id job) (mj_scid job)
                      (mj_conn_id job) (mj_has_more_frames job) (mj_content_length job))
                    (on_buffer
                      (case mj_route_type job of
                         Regular \<Rightarrow> regular_request_partial_response_table_update he storage env job headers
                       | Stream_Route \<Rightarrow> stream_request_partial_response_table_update he storage env job headers) p1)))"


subsection \<open>The receiver of middleware results\<close>

definition handle_middleware_result :: "('m, 'l, 'f, 'w) pipeline \<Rightarrow> ('m, 'l, 'f, 'w) pipeline" where
  "handle_middleware_result p =
     (case hp_results p of
        [] \<Rightarrow> p
      | result # rest \<Rightarrow>
          let p1 = p\<lparr>hp_results := rest\<rparr> in
          (case result of
             Mw_Abort error_response i s \<Rightarrow> on_buffer (on_server (send_error error_response s i SendHeader)) p1
           | Mw_Success path method headers i s c more_frames len \<Rightarrow> p1))"


subsection \<open>The verdict of a chain of middlewares\<close>

text \<open>Every middleware accepts, each with the headers its predecessor left.\<close>

inductive accepts ::
  "('m, 'w) middleware_call \<Rightarrow> 'm list \<Rightarrow> h3_header list \<Rightarrow> 'w \<Rightarrow> h3_header list \<Rightarrow> 'w \<Rightarrow> bool" for call where
  accepts_Nil: "accepts call [] hs w hs w"
| accepts_Cons: "call mdw hs w = (Inr (Continue hs1), w1) \<Longrightarrow> accepts call mdws hs1 w1 hs' w' \<Longrightarrow>
     accepts call (mdw # mdws) hs w hs' w'"

inductive_simps accepts_simps [simp]: "accepts call [] hs w hs' w'" "accepts call (mdw # mdws) hs w hs' w'"

text \<open>The error with which one middleware ends the chain.\<close>

definition refuses ::
  "('m, 'w) middleware_call \<Rightarrow> 'm \<Rightarrow> h3_header list \<Rightarrow> 'w \<Rightarrow> ErrorResponse \<Rightarrow> 'w \<Rightarrow> bool" where
  "refuses call mdw hs w e w' \<longleftrightarrow>
     call mdw hs w = (Inr (Abort e), w')
     \<or> call mdw hs w = (Inl (), w') \<and> e = Error415 (Some (ascii_bytes ''failed to call middleware''))"

lemma run_middlewares_accepts:
  "run_middlewares call mdws hs w = (Inr hs', w') \<longleftrightarrow> accepts call mdws hs w hs' w'"
  by (induction mdws arbitrary: hs w) (auto split: prod.split sum.split MiddleWareFlow.split)

lemma run_middlewares_refuses:
  "run_middlewares call mdws hs w = (Inl e, w') \<longleftrightarrow>
     (\<exists>before mdw after hs1 w1. mdws = before @ mdw # after \<and> accepts call before hs w hs1 w1
        \<and> refuses call mdw hs1 w1 e w')"
proof (induction mdws arbitrary: hs w)
  case (Cons m mdws)
  obtain r w1 where r: "call m hs w = (r, w1)" by fastforce
  show ?case
  proof
    assume run: "run_middlewares call (m # mdws) hs w = (Inl e, w')"
    show "\<exists>before mdw after hs1 w1. m # mdws = before @ mdw # after \<and> accepts call before hs w hs1 w1
        \<and> refuses call mdw hs1 w1 e w'"
    proof (cases "\<exists>hs1. r = Inr (Continue hs1)")
      case True
      then obtain hs1 where hs1: "r = Inr (Continue hs1)" by blast
      then obtain before mdw after hs2 w2 where "mdws = before @ mdw # after" "accepts call before hs1 w1 hs2 w2"
        "refuses call mdw hs2 w2 e w'"
        using run r Cons.IH [of hs1 w1] by auto
      then show ?thesis using r hs1 by (intro exI [of _ "m # before"]) auto
    next
      case False
      then have "refuses call m hs w e w'"
        using run r by (auto simp: refuses_def split: sum.splits MiddleWareFlow.splits)
      then show ?thesis by (intro exI [of _ "[]"]) auto
    qed
  next
    assume "\<exists>before mdw after hs1 w1. m # mdws = before @ mdw # after \<and> accepts call before hs w hs1 w1
        \<and> refuses call mdw hs1 w1 e w'"
    then obtain before mdw after hs1 w1 where b: "m # mdws = before @ mdw # after" "accepts call before hs w hs1 w1"
        "refuses call mdw hs1 w1 e w'" by blast
    show "run_middlewares call (m # mdws) hs w = (Inl e, w')"
    proof (cases before)
      case Nil
      then show ?thesis using b by (auto simp: refuses_def)
    next
      case (Cons m' before')
      then obtain hs2 w2 where "call m hs w = (Inr (Continue hs2), w2)" "accepts call before' hs2 w2 hs1 w1"
        using b by auto
      then show ?thesis using b Cons Cons.IH [of hs2 w2] by auto
    qed
  qed
qed (auto simp: refuses_def)

lemma table_update_channel:
  "ib_channel (regular_request_partial_response_table_update he storage env job hs b)
     = ib_channel b @ [((mj_stream_id job, mj_conn_id job), Ready)]"
  "ib_channel (stream_request_partial_response_table_update he storage env job hs b)
     = ib_channel b @ [((mj_stream_id job, mj_conn_id job), Ready)]"
  by (simp_all add: regular_request_partial_response_table_update_def stream_request_partial_response_table_update_def
      Let_def send_signal_def)

text \<open>
  C6. A middleware job ends with exactly one verdict signalled for its request. It is Ready exactly
  when every middleware, run in order on the headers its predecessor left, accepted the request;
  otherwise the first middleware that refused decides: those after it are not run, the signal is
  Rejected, its error is handed on to be answered, and the table of requests, the channels and the
  station are untouched.
\<close>

theorem middleware_verdict:
  assumes "hp_jobs p = job # jobs" "p' = middleware_worker call he storage env p"
  shows "(\<exists>hs w. accepts call (mj_middleware_collection job) (mj_headers job) (sv_app (hp_server p)) hs w
      \<and> ib_channel (hp_buffer p') = ib_channel (hp_buffer p) @ [((mj_stream_id job, mj_conn_id job), Ready)]
      \<and> hp_results p' = hp_results p @ [Mw_Success (mj_path job) (mj_method job) hs (mj_stream_id job) (mj_scid job)
           (mj_conn_id job) (mj_has_more_frames job) (mj_content_length job)])
    \<or> (\<exists>before mdw after hs w e w'. mj_middleware_collection job = before @ mdw # after
      \<and> accepts call before (mj_headers job) (sv_app (hp_server p)) hs w \<and> refuses call mdw hs w e w'
      \<and> ib_channel (hp_buffer p') = ib_channel (hp_buffer p) @ [((mj_stream_id job, mj_conn_id job), Rejected)]
      \<and> hp_results p' = hp_results p @ [Mw_Abort e (mj_stream_id job) (mj_scid job)]
      \<and> hp_server p' = (hp_server p)\<lparr>sv_app := w'\<rparr>)"
proof -
  obtain verdict w where run: "run_middlewares call (mj_middleware_collection job) (mj_headers job)
      (sv_app (hp_server p)) = (verdict, w)" by fastforce
  show ?thesis
  proof (cases verdict)
    case (Inr hs)
    have "ib_channel (hp_buffer p') = ib_channel (hp_buffer p) @ [((mj_stream_id job, mj_conn_id job), Ready)]"
      "hp_results p' = hp_results p @ [Mw_Success (mj_path job) (mj_method job) hs (mj_stream_id job) (mj_scid job)
           (mj_conn_id job) (mj_has_more_frames job) (mj_content_length job)]"
      using assms run Inr
      by (auto simp: middleware_worker_def send_done_def on_buffer_def on_server_def table_update_channel
          split: RouteType.split)
    moreover have "accepts call (mj_middleware_collection job) (mj_headers job) (sv_app (hp_server p)) hs w"
      using run Inr by (simp add: run_middlewares_accepts)
    ultimately show ?thesis by blast
  next
    case (Inl e)
    have "ib_channel (hp_buffer p') = ib_channel (hp_buffer p) @ [((mj_stream_id job, mj_conn_id job), Rejected)]"
      "hp_results p' = hp_results p @ [Mw_Abort e (mj_stream_id job) (mj_scid job)]"
      "hp_server p' = (hp_server p)\<lparr>sv_app := w\<rparr>"
      using assms run Inl
      by (auto simp: middleware_worker_def send_done_def on_buffer_def on_server_def send_rejected_def)
    moreover obtain before mdw after hs1 w1 where "mj_middleware_collection job = before @ mdw # after"
      "accepts call before (mj_headers job) (sv_app (hp_server p)) hs1 w1" "refuses call mdw hs1 w1 e w"
      using run Inl by (auto simp: run_middlewares_refuses)
    ultimately show ?thesis by blast
  qed
qed


text \<open>Two middlewares: the first appends a header and counts, the second refuses.\<close>

definition demo_mw_call :: "(nat, nat list) middleware_call" where
  "demo_mw_call m hs w = (if m = 1 then (Inr (Continue (hs @ [header ''x'' ''1''])), w @ [1])
     else if m = 2 then (Inr (Abort (Error401 (Some [7]))), w @ [2]) else (Inl (), w))"

definition demo_job :: "nat list \<Rightarrow> nat MiddleWareJob" where
  "demo_job mws = \<lparr>mj_path = ''/a'', mj_method = GET, mj_stream_id = 4, mj_conn_id = ''c'', mj_has_more_frames = False,
     mj_content_length = None, mj_scid = [1], mj_headers = [], mj_middleware_collection = mws, mj_route_type = Regular\<rparr>"

definition demo_pipeline :: "nat list \<Rightarrow> (nat, unit, unit, nat list) pipeline" where
  "demo_pipeline mws = (pipeline_new (demo_server GET))\<lparr>hp_jobs := [demo_job mws]\<rparr>"

lemma demo_pipeline_jobs: "hp_jobs (demo_pipeline mws) = demo_job mws # []"
  by (simp add: demo_pipeline_def)

theorem middleware_verdict_witness:
  "ib_channel (hp_buffer (middleware_worker demo_mw_call (demo_he (manager_build demo_builder)) [] demo_env
     (demo_pipeline [1, 2, 3]))) = [((4, ''c''), Rejected)]"
  using middleware_verdict [OF demo_pipeline_jobs [of "[1, 2, 3]"] refl, where call = demo_mw_call
      and he = "demo_he (manager_build demo_builder)" and storage = "[]" and env = demo_env]
  by (auto simp: demo_pipeline_def pipeline_new_def demo_job_def injection_buffer_new_def demo_mw_call_def demo_server_def)


subsection \<open>Answers of the header stage\<close>

lemma send_error_mail:
  assumes "disp_inv (sv_dispatch sv)"
  shows "\<exists>low high. let (status, content) = error_parts e;
      body = (case content of Some d \<Rightarrow> if d = [] then None else Some (Data i s [] d (Some low) None) | None \<Rightarrow> None)
    in mail (sv_dispatch (send_error e s i pr sv)) = (mail (sv_dispatch sv))((i, s) := Some (fst (box_of (sv_dispatch sv) i s),
         snd (box_of (sv_dispatch sv) i s)
         @ [Q_Header (header_request_new i s [header '':status'' status] (body = None) body (Some high) pr)]))"
proof -
  let ?d = "insert_new_channel i s (sv_dispatch sv)"
  have inv: "disp_inv ?d" using assms by (rule disp_inv_insert)
  have mail: "mail ?d = (mail (sv_dispatch sv))((i, s) := Some (box_of (sv_dispatch sv) i s))"
    by (rule mail_opened [OF assms])
  then obtain low high where senders: "get_low_priority_sender i s ?d = Some low"
    "get_high_priority_sender i s ?d = Some high"
    using get_senders_open [OF inv, of i s] by auto
  obtain lo hi where box: "box_of (sv_dispatch sv) i s = (lo, hi)" by fastforce
  obtain status given where parts: "error_parts e = (status, given)" by fastforce
  have sent: "mail (sv_dispatch (send_headers hs i s en b snd_ch pr (set_dispatch ?d sv)))
      = (mail (sv_dispatch sv))((i, s) := Some (lo, hi @ [Q_Header (header_request_new i s hs en b snd_ch pr)]))"
    for hs en b snd_ch
    using send_headers_mail(1) [of "set_dispatch ?d sv" i s lo hi hs en b snd_ch pr] inv mail box by simp
  show ?thesis
    by (rule exI [of _ low], rule exI [of _ high])
      (simp add: send_error_def parts senders sent box Let_def split: option.split)
qed

text \<open>
  C30. A rejection by a middleware reaches the client as exactly one header: the error's status, with
  a non-empty error body attached to the stream's own channel and otherwise ending the stream,
  behind what was queued for the stream before and on no other stream.
\<close>

theorem rejection_answered_once:
  assumes "disp_inv (sv_dispatch (hp_server p))" "hp_results p = Mw_Abort e i s # rest"
    and "error_parts e = (status, given)"
  shows "\<exists>low high body. mail (sv_dispatch (hp_server (handle_middleware_result p)))
      = (mail (sv_dispatch (hp_server p)))((i, s) := Some (fst (box_of (sv_dispatch (hp_server p)) i s),
         snd (box_of (sv_dispatch (hp_server p)) i s)
         @ [Q_Header (header_request_new i s [header '':status'' status] (body = None) body (Some high) SendHeader)]))
    \<and> body = (case given of Some d \<Rightarrow> if d = [] then None else Some (Data i s [] d (Some low) None) | None \<Rightarrow> None)
    \<and> hp_results (handle_middleware_result p) = rest"
proof -
  have "hp_server (handle_middleware_result p) = send_error e s i SendHeader (hp_server p)"
    "hp_results (handle_middleware_result p) = rest"
    using assms(2) by (simp_all add: handle_middleware_result_def on_buffer_def on_server_def)
  then show ?thesis
    using send_error_mail [OF assms(1), of e i s SendHeader] assms(3) by (auto simp: Let_def)
qed

theorem rejection_answered_once_witness:
  "\<exists>h. mail (sv_dispatch (hp_server (handle_middleware_result
       ((demo_pipeline [])\<lparr>hp_results := [Mw_Abort (Error403 None) 4 [1]]\<rparr>)))) (4, [1]) = Some ([], [Q_Header h])
     \<and> hr_is_end h"
proof -
  let ?p = "(demo_pipeline [])\<lparr>hp_results := [Mw_Abort (Error403 None) 4 [1]]\<rparr>"
  have "disp_inv (sv_dispatch (hp_server ?p))"
    by (simp add: demo_pipeline_def pipeline_new_def injection_buffer_new_def demo_server_inv)
  from rejection_answered_once [OF this, of "Error403 None" 4 "[1]" "[]"] show ?thesis
    by (auto simp: header_request_new_def box_of_def demo_pipeline_def pipeline_new_def injection_buffer_new_def
        demo_server_def station_new_def)
qed

text \<open>
  C31. A well-formed request whose path and method belong to no route and whose path to no stream is
  rejected and answered by exactly one header without body, which ends the stream: the configured
  error form's headers and the path notice, or a bare 404. No middleware job is made for it.
\<close>

theorem unknown_route_answered_404:
  assumes "disp_inv (sv_dispatch (hp_server p))" "hp_messages p = msg # rest"
    and "parse_request_headers (hm_headers msg) = Some (mb, path, len)" "method_parse mb = Ok method"
    and "rh_get_routes_from_path_and_method path method (he_manager he) = None"
    and "Option.bind (he_streams he) (\<lambda>sessions. dm_get sessions path) = None"
    and "\<forall>f. dm_get (rm_errors (he_manager he)) Error404 = Some f \<longrightarrow> ef_body f = None"
  shows "\<exists>hs high. mail (sv_dispatch (hp_server (run_header_processor he p)))
      = (mail (sv_dispatch (hp_server p)))((hm_stream_id msg, hm_scid msg) :=
          Some (fst (box_of (sv_dispatch (hp_server p)) (hm_stream_id msg) (hm_scid msg)),
            snd (box_of (sv_dispatch (hp_server p)) (hm_stream_id msg) (hm_scid msg))
            @ [Q_Header (header_request_new (hm_stream_id msg) (hm_scid msg) hs True None (Some high) SendHeader)]))
    \<and> hs = (case dm_get (rm_errors (he_manager he)) Error404 of
         Some f \<Rightarrow> ef_headers f @ [header ''x-wrong-path'' ''/404''] | None \<Rightarrow> [header '':status'' ''404''])
    \<and> ib_channel (hp_buffer (run_header_processor he p))
        = ib_channel (hp_buffer p) @ [((hm_stream_id msg, hm_conn_id msg), Rejected)]
    \<and> hp_jobs (run_header_processor he p) = hp_jobs p \<and> hp_messages (run_header_processor he p) = rest"
proof -
  let ?i = "hm_stream_id msg" and ?s = "hm_scid msg" and ?sv = "hp_server p"
  let ?d = "insert_new_channel ?i ?s (sv_dispatch ?sv)"
  have step: "run_header_processor he p = on_buffer (\<lambda>b. on_server (send_404 he ''/404'' ?s ?i SendHeader)
      (send_rejected (?i, hm_conn_id msg) b)) (p\<lparr>hp_messages := rest\<rparr>)"
    using assms(2-6) by (simp add: run_header_processor_def extract_method_path_content_length_def)
  have inv: "disp_inv ?d" using assms(1) by (rule disp_inv_insert)
  have mail: "mail ?d = (mail (sv_dispatch ?sv))((?i, ?s) := Some (box_of (sv_dispatch ?sv) ?i ?s))"
    by (rule mail_opened [OF assms(1)])
  then obtain high where high: "get_high_priority_sender ?i ?s ?d = Some high"
    using get_senders_open [OF inv, of ?i ?s] by auto
  obtain lo hi where box: "box_of (sv_dispatch ?sv) ?i ?s = (lo, hi)" by fastforce
  have sent: "mail (sv_dispatch (send_headers hs ?i ?s True None (Some high) SendHeader (set_dispatch ?d ?sv)))
      = (mail (sv_dispatch ?sv))((?i, ?s) :=
           Some (lo, hi @ [Q_Header (header_request_new ?i ?s hs True None (Some high) SendHeader)]))" for hs
    using send_headers_mail(1) [of "set_dispatch ?d ?sv" ?i ?s lo hi hs True None "Some high" SendHeader] inv mail box
    by simp
  show ?thesis
    using assms(7) sent high box
    by (auto simp: step on_buffer_def on_server_def send_rejected_def send_404_def get_error_response_def Let_def
        split: option.split)
qed

theorem unknown_route_answered_404_witness:
  "hp_messages (run_header_processor (demo_he (manager_build manager_builder_new))
     (process_header 4 [1] ''c'' [header '':method'' ''GET'', header '':path'' ''/a''] False (demo_pipeline []))) = []"
proof -
  let ?p = "process_header 4 [1] ''c'' [header '':method'' ''GET'', header '':path'' ''/a''] False (demo_pipeline [])"
  let ?msg = "\<lparr>hm_stream_id = 4, hm_scid = [1], hm_conn_id = ''c'', hm_more_frames = False,
     hm_headers = [header '':method'' ''GET'', header '':path'' ''/a'']\<rparr>"
  have inv: "disp_inv (sv_dispatch (hp_server ?p))"
    by (simp add: process_header_def demo_pipeline_def pipeline_new_def injection_buffer_new_def demo_server_inv)
  have msgs: "hp_messages ?p = ?msg # []"
    by (simp add: process_header_def demo_pipeline_def pipeline_new_def)
  have parse: "parse_request_headers (hm_headers ?msg) = Some (''GET'', ''/a'', None)" "method_parse ''GET'' = Ok GET"
    by code_simp+
  have unknown: "rh_get_routes_from_path_and_method ''/a'' GET (he_manager (demo_he (manager_build manager_builder_new))) = None"
    by (simp add: rh_get_routes_from_path_and_method_def parse_args_def demo_he_def get_routes_from_path_def
        manager_build_def manager_builder_new_def)
  from unknown_route_answered_404 [OF inv msgs parse unknown] show ?thesis
    by (auto simp: demo_he_def manager_build_def manager_builder_new_def)
qed

end
