(* ===== verification/RetryToken.thy ===== *)
theory RetryToken
  imports Prelude
begin

section \<open>QUIC Retry tokens\<close>

text \<open>
  Model of \<open>src/server_init/retry_token.rs\<close>. A token is
  \<open>version (1) | issue time in ms, big endian (8) | ODCID length (1) | ODCID (8..20) | tag (32)\<close>,
  the tag being an HMAC over a domain string, the source address, the Retry connection id and
  the body. \<open>ring::hmac\<close> is not part of the repository: \<open>sign\<close> and \<open>verify\<close> are parameters
  and \<open>mac_ok\<close> states its documented behaviour (32-byte tags; \<open>verify\<close> accepts exactly the tag
  that \<open>sign\<close> computes). Unforgeability is never assumed: the binding theorem is a reduction to
  an explicit MAC collision. A \<open>Duration\<close> and an \<open>Instant\<close> are counts of nanoseconds.
\<close>

subsection \<open>Constants and types\<close>

definition VERSION :: u8 where "VERSION = 1"
definition HEADER_LEN :: nat where "HEADER_LEN = 10"
definition TAG_LEN :: nat where "TAG_LEN = 32"
definition MIN_ODCID_LEN :: nat where "MIN_ODCID_LEN = 8"
definition TTL_MILLIS :: nat where "TTL_MILLIS = 30000"
definition MAX_CONN_ID_LEN :: nat where "MAX_CONN_ID_LEN = 20"

definition DOMAIN :: bytes where
  "DOMAIN = ascii_bytes ''faces-quic-retry-v1'' @ [0]"

lemmas retry_consts =
  VERSION_def HEADER_LEN_def TAG_LEN_def MIN_ODCID_LEN_def TTL_MILLIS_def MAX_CONN_ID_LEN_def

text \<open>\<open>std::net::SocketAddr\<close>: an IPv6 address also carries a flow label and a scope id.\<close>

datatype socket_addr =
    SockV4 "32 word" u16
  | SockV6 "128 word" u16 "32 word" "32 word"

datatype ip_addr = IpV4 "32 word" | IpV6 "128 word"

fun sock_ip :: "socket_addr \<Rightarrow> ip_addr" where
  "sock_ip (SockV4 a p) = IpV4 a"
| "sock_ip (SockV6 a p f s) = IpV6 a"

fun sock_port :: "socket_addr \<Rightarrow> u16" where
  "sock_port (SockV4 a p) = p"
| "sock_port (SockV6 a p f s) = p"

definition u64_to_be :: "u64 \<Rightarrow> bytes" where
  "u64_to_be x = be_bytes 8 (unat x)"

definition u64_from_be :: "bytes \<Rightarrow> u64" where
  "u64_from_be bs = of_nat (be_value bs)"

definition u64_try_from :: "nat \<Rightarrow> u64 option" where
  "u64_try_from n = (if n < 2 ^ 64 then Some (of_nat n) else None)"

definition u8_try_from :: "nat \<Rightarrow> u8 option" where
  "u8_try_from n = (if n < 2 ^ 8 then Some (of_nat n) else None)"

definition as_millis :: "nat \<Rightarrow> nat" where
  "as_millis d = d div 1000000"

record 'key RetryTokens =
  rt_key :: 'key
  rt_started :: nat


subsection \<open>Operations\<close>

definition authentication_input :: "bytes \<Rightarrow> bytes \<Rightarrow> socket_addr \<Rightarrow> bytes" where
  "authentication_input body retry_cid source =
     DOMAIN
     @ (case sock_ip source of
          IpV4 ip \<Rightarrow> 4 # be_bytes 4 (unat ip)
        | IpV6 ip \<Rightarrow> 6 # be_bytes 16 (unat ip))
     @ be_bytes 2 (unat (sock_port source))
     @ retry_cid
     @ body"

definition mint_at ::
  "('key \<Rightarrow> bytes \<Rightarrow> bytes) \<Rightarrow> 'key RetryTokens \<Rightarrow> bytes \<Rightarrow> bytes \<Rightarrow> socket_addr \<Rightarrow> nat \<Rightarrow> bytes option" where
  "mint_at sign self odcid retry_cid source now =
     (if \<not> (MIN_ODCID_LEN \<le> length odcid \<and> length odcid \<le> MAX_CONN_ID_LEN)
         \<or> length retry_cid \<noteq> MAX_CONN_ID_LEN
      then None
      else do {
        issued \<leftarrow> u64_try_from (as_millis now);
        odcid_len \<leftarrow> u8_try_from (length odcid);
        let token = [VERSION] @ u64_to_be issued @ [odcid_len] @ odcid;
        let input = authentication_input token retry_cid source;
        Some (token @ sign (rt_key self) input)
      })"

definition validate_at ::
  "('key \<Rightarrow> bytes \<Rightarrow> bytes \<Rightarrow> bool) \<Rightarrow> 'key RetryTokens \<Rightarrow> bytes \<Rightarrow> bytes \<Rightarrow> socket_addr \<Rightarrow> nat \<Rightarrow> bytes option" where
  "validate_at verify self token retry_cid source now =
     (if \<not> (HEADER_LEN + MIN_ODCID_LEN + TAG_LEN \<le> length token
             \<and> length token \<le> HEADER_LEN + MAX_CONN_ID_LEN + TAG_LEN)
         \<or> length retry_cid \<noteq> MAX_CONN_ID_LEN
      then None
      else do {
        header \<leftarrow> slice_get 0 HEADER_LEN token;
        odcid_byte \<leftarrow> list_get 9 header;
        let odcid_len = unat odcid_byte;
        version \<leftarrow> list_get 0 header;
        if version \<noteq> VERSION
           \<or> \<not> (MIN_ODCID_LEN \<le> odcid_len \<and> odcid_len \<le> MAX_CONN_ID_LEN)
           \<or> length token \<noteq> HEADER_LEN + odcid_len + TAG_LEN
        then None
        else do {
          let body_len = HEADER_LEN + odcid_len;
          body \<leftarrow> slice_get 0 body_len token;
          let input = authentication_input body retry_cid source;
          tag \<leftarrow> slice_get body_len (length token) token;
          if \<not> verify (rt_key self) input tag then None
          else do {
            issued_bytes \<leftarrow> slice_get 1 9 header;
            let issued = u64_from_be issued_bytes;
            now_ms \<leftarrow> u64_try_from (as_millis now);
            if now_ms < issued then None
            else if TTL_MILLIS \<le> unat (now_ms - issued) then None
            else slice_get HEADER_LEN body_len token
          }
        }
      })"

text \<open>\<open>mint\<close> and \<open>validate\<close> read the clock; \<open>Instant::elapsed\<close> saturates at zero.\<close>

definition elapsed :: "'key RetryTokens \<Rightarrow> nat \<Rightarrow> nat" where
  "elapsed self clock = clock - rt_started self"

definition mint ::
  "('key \<Rightarrow> bytes \<Rightarrow> bytes) \<Rightarrow> 'key RetryTokens \<Rightarrow> bytes \<Rightarrow> bytes \<Rightarrow> socket_addr \<Rightarrow> nat \<Rightarrow> bytes option" where
  "mint sign self odcid retry_cid source clock =
     mint_at sign self odcid retry_cid source (elapsed self clock)"

definition validate ::
  "('key \<Rightarrow> bytes \<Rightarrow> bytes \<Rightarrow> bool) \<Rightarrow> 'key RetryTokens \<Rightarrow> bytes \<Rightarrow> bytes \<Rightarrow> socket_addr \<Rightarrow> nat \<Rightarrow> bytes option" where
  "validate verify self token retry_cid source clock =
     validate_at verify self token retry_cid source (elapsed self clock)"


subsection \<open>The documented behaviour of the MAC\<close>

definition mac_ok :: "('key \<Rightarrow> bytes \<Rightarrow> bytes) \<Rightarrow> ('key \<Rightarrow> bytes \<Rightarrow> bytes \<Rightarrow> bool) \<Rightarrow> bool" where
  "mac_ok sign verify \<longleftrightarrow>
     (\<forall>k m. length (sign k m) = TAG_LEN) \<and> (\<forall>k m t. verify k m t \<longleftrightarrow> t = sign k m)"

lemma mac_ok_length: "mac_ok sign verify \<Longrightarrow> length (sign k m) = 32"
  by (simp add: mac_ok_def TAG_LEN_def)

lemma mac_ok_verify: "mac_ok sign verify \<Longrightarrow> verify k m t \<longleftrightarrow> t = sign k m"
  by (simp add: mac_ok_def)


subsection \<open>Encoding lemmas\<close>

lemma length_u64_to_be [simp]: "length (u64_to_be x) = 8"
  by (simp add: u64_to_be_def)

lemma u64_from_to_be [simp]: "u64_from_be (u64_to_be x) = x"
proof -
  have "unat x < 256 ^ 8"
    using unat_u64_less [of x] by simp
  then show ?thesis
    by (simp add: u64_from_be_def u64_to_be_def be_value_be_bytes)
qed

lemma u64_to_from_be: "length bs = 8 \<Longrightarrow> u64_to_be (u64_from_be bs) = bs"
proof -
  assume l: "length bs = 8"
  have "be_value bs < 2 ^ 64"
    using be_value_less [of bs] l by simp
  then have "unat (of_nat (be_value bs) :: u64) = be_value bs"
    by (simp add: unat_of_nat)
  then show ?thesis
    using be_bytes_be_value [of bs] l by (simp add: u64_to_be_def u64_from_be_def)
qed

lemma u64_try_from_Some: "u64_try_from n = Some x \<longleftrightarrow> n < 2 ^ 64 \<and> unat x = n"
  by (auto simp: u64_try_from_def unat_of_nat word_unat_eq_iff)

lemma u8_try_from_Some: "u8_try_from n = Some x \<longleftrightarrow> n < 256 \<and> unat x = n"
  by (auto simp: u8_try_from_def unat_of_nat word_unat_eq_iff)

text \<open>The body of a token, and its fields read back.\<close>

definition token_body :: "u64 \<Rightarrow> bytes \<Rightarrow> bytes" where
  "token_body issued odcid = [VERSION] @ u64_to_be issued @ [of_nat (length odcid)] @ odcid"

lemma length_token_body [simp]: "length (token_body t d) = HEADER_LEN + length d"
  by (simp add: token_body_def HEADER_LEN_def)

lemma token_body_fields:
  assumes "length d < 256"
  shows "take 10 (token_body t d @ r) = [VERSION] @ u64_to_be t @ [of_nat (length d)]"
    and "take (length d) (drop 10 (token_body t d @ r)) = d"
    and "unat (of_nat (length d) :: u8) = length d"
  using assms by (simp_all add: token_body_def unat_of_nat_byte)


lemma mint_at_Some:
  "mint_at sign self d c s now = Some tok \<longleftrightarrow>
     8 \<le> length d \<and> length d \<le> 20 \<and> length c = 20 \<and> as_millis now < 2 ^ 64
     \<and> tok = token_body (of_nat (as_millis now)) d
             @ sign (rt_key self) (authentication_input (token_body (of_nat (as_millis now)) d) c s)"
  by (auto simp: mint_at_def retry_consts u64_try_from_def u8_try_from_def token_body_def Let_def)

lemma validate_at_token_body:
  assumes "8 \<le> length d" "length d \<le> 20" "length tag = 32"
  shows "validate_at verify self (token_body t d @ tag) c s now =
     (if length c = 20 \<and> verify (rt_key self) (authentication_input (token_body t d) c s) tag
         \<and> as_millis now < 2 ^ 64 \<and> unat t \<le> as_millis now \<and> as_millis now - unat t < 30000
      then Some d else None)"
proof -
  let ?tok = "token_body t d @ tag"
  have len: "length ?tok = 42 + length d"
    using assms by (simp add: HEADER_LEN_def)
  have head: "slice_get 0 10 ?tok = Some (VERSION # u64_to_be t @ [of_nat (length d)])"
    using assms token_body_fields(1) [of d t tag] by (simp add: slice_get_def len)
  have fields: "list_get 9 (VERSION # u64_to_be t @ [of_nat (length d)]) = Some (of_nat (length d))"
    "list_get 0 (VERSION # u64_to_be t @ [of_nat (length d)]) = Some VERSION"
    "slice_get (Suc 0) 9 (VERSION # u64_to_be t @ [of_nat (length d)]) = Some (u64_to_be t)"
    by (simp_all add: list_get_def slice_get_def nth_append)
  have len_d: "unat (of_nat (length d) :: u8) = length d"
    using assms by (simp add: unat_of_nat_byte)
  have parts: "slice_get 0 (10 + length d) ?tok = Some (token_body t d)"
    "slice_get (10 + length d) (42 + length d) ?tok = Some tag"
    "slice_get 10 (10 + length d) ?tok = Some d"
    using assms token_body_fields(2) [of d t tag] by (simp_all add: slice_get_def HEADER_LEN_def)
  have age: "(n < t \<longleftrightarrow> as_millis now < unat t) \<and> (\<not> n < t \<longrightarrow> unat (n - t) = as_millis now - unat t)"
    if "unat n = as_millis now" for n :: u64
    using that by (simp add: word_less_nat_alt unat_sub word_le_nat_alt)
  show ?thesis
    using assms
    by (auto simp: validate_at_def retry_consts(2-6) len head fields len_d parts Let_def
        u64_try_from_def [of "as_millis now"] age [of "of_nat (as_millis now)"] unat_of_nat
        split: if_splits)
qed

lemma token_split:
  assumes "length tok = 42 + n" "8 \<le> n" "n \<le> 20" "tok ! 0 = VERSION" "unat (tok ! 9) = n"
  shows "\<exists>t d tag. tok = token_body t d @ tag \<and> length d = n \<and> length tag = 32"
proof -
  define tb where "tb = take 8 (drop 1 tok)"
  define d where "d = take n (drop 10 tok)"
  have parts: "tok = [tok ! 0] @ tb @ [tok ! 9] @ d @ drop (10 + n) tok"
  proof -
    have "tok = take 1 tok @ take 8 (drop 1 tok) @ take 1 (drop 9 tok) @ take n (drop 10 tok) @ drop (10 + n) tok"
      using drop_split [of 0 tok 1] drop_split [of 1 tok 8] drop_split [of 9 tok 1]
        drop_split [of 10 tok n] by simp
    moreover have "take 1 tok = [tok ! 0]" "take 1 (drop 9 tok) = [tok ! 9]"
      using assms(1) by (simp_all add: take_Suc_conv_app_nth hd_conv_nth take_Suc hd_drop_conv_nth)
    ultimately show ?thesis by (simp add: tb_def d_def)
  qed
  have "length tb = 8" "length d = n" "length (drop (10 + n) tok) = 32"
    using assms(1) by (simp_all add: tb_def d_def)
  moreover have "tok ! 9 = of_nat (length d)"
    using assms(5) \<open>length d = n\<close> by (metis of_nat_unat ucast_id)
  ultimately show ?thesis
    using parts assms(4) u64_to_from_be [of tb] unfolding token_body_def by (metis append_assoc)
qed

lemma validate_at_shape:
  assumes "validate_at verify self tok c s now = Some d"
  shows "\<exists>t tag. tok = token_body t d @ tag \<and> 8 \<le> length d \<and> length d \<le> 20 \<and> length tag = 32"
proof -
  define n where "n = unat (tok ! 9)"
  have g: "50 \<le> length tok"
    using assms by (auto simp: validate_at_def retry_consts split: if_splits)
  have r: "slice_get 0 10 tok = Some (take 10 tok)" "list_get 9 (take 10 tok) = Some (tok ! 9)"
    "list_get 0 (take 10 tok) = Some (tok ! 0)"
    using g by (simp_all add: slice_get_def list_get_def)
  have "validate_at verify self tok c s now = None"
    if "\<not> (length tok = 42 + n \<and> 8 \<le> n \<and> n \<le> 20 \<and> tok ! 0 = VERSION)"
    using that unfolding n_def validate_at_def retry_consts(2-6) Let_def
    by (auto simp: r)
  then have "length tok = 42 + n \<and> 8 \<le> n \<and> n \<le> 20 \<and> tok ! 0 = VERSION"
    using assms by auto
  then obtain t d' tag where sh: "tok = token_body t d' @ tag" "length d' = n" "length tag = 32" "8 \<le> n" "n \<le> 20"
    using token_split [OF _ _ _ _ n_def [symmetric]] by blast
  then have "d' = d"
    using assms validate_at_token_body [of d' tag verify self t c s now] by (auto split: if_splits)
  with sh show ?thesis by auto
qed


subsection \<open>Unambiguous authentication input\<close>

lemma ip_octets_inject:
  "be_bytes 4 (unat a) = be_bytes 4 (unat b) \<Longrightarrow> a = b" for a b :: "32 word"
  using be_bytes_inject [of 4 "unat a" "unat b"] unsigned_less [where 'a = nat, of a]
    unsigned_less [where 'a = nat, of b]
  by (simp add: word_unat_eq_iff)

lemma ip6_octets_inject:
  "be_bytes 16 (unat a) = be_bytes 16 (unat b) \<Longrightarrow> a = b" for a b :: "128 word"
  using be_bytes_inject [of 16 "unat a" "unat b"] unsigned_less [where 'a = nat, of a]
    unsigned_less [where 'a = nat, of b]
  by (simp add: word_unat_eq_iff)

lemma port_bytes_inject:
  "be_bytes 2 (unat a) = be_bytes 2 (unat b) \<Longrightarrow> a = b" for a b :: u16
  using be_bytes_inject [of 2 "unat a" "unat b"] unsigned_less [where 'a = nat, of a]
    unsigned_less [where 'a = nat, of b]
  by (simp add: word_unat_eq_iff)

lemma authentication_input_eqD:
  assumes "length c = length c'"
    and "authentication_input b c s = authentication_input b' c' s'"
  shows "b = b' \<and> c = c' \<and> sock_ip s = sock_ip s' \<and> sock_port s = sock_port s'"
  using assms
  by (cases "sock_ip s"; cases "sock_ip s'")
    (auto simp: authentication_input_def append_eq_same_length
      dest: ip_octets_inject ip6_octets_inject port_bytes_inject)

subsection \<open>A concrete MAC for the witnesses\<close>

definition demo_sign :: "byte \<Rightarrow> bytes \<Rightarrow> bytes" where
  "demo_sign k m = take 32 (rev m @ replicate 32 k)"

definition demo_verify :: "byte \<Rightarrow> bytes \<Rightarrow> bytes \<Rightarrow> bool" where
  "demo_verify k m t \<longleftrightarrow> t = demo_sign k m"

definition demo_tokens :: "byte RetryTokens" where
  "demo_tokens = \<lparr>rt_key = 9, rt_started = 0\<rparr>"

definition demo_token :: bytes where
  "demo_token = token_body 7 (replicate 8 53)
     @ demo_sign 9 (authentication_input (token_body 7 (replicate 8 53)) (replicate 20 66) (SockV4 1 443))"

lemma demo_mac_ok: "mac_ok demo_sign demo_verify"
  by (auto simp: mac_ok_def demo_sign_def demo_verify_def TAG_LEN_def min_def)

lemma demo_minted:
  "mint_at demo_sign demo_tokens (replicate 8 53) (replicate 20 66) (SockV4 1 443) 7000000 = Some demo_token"
  by (simp add: mint_at_Some demo_token_def demo_tokens_def as_millis_def)

lemma demo_validated:
  "validate_at demo_verify demo_tokens demo_token (replicate 20 66) (SockV4 1 443) 8000000
     = Some (replicate 8 53)"
  by (simp add: demo_token_def validate_at_token_body mac_ok_length [OF demo_mac_ok] demo_verify_def
      demo_tokens_def as_millis_def)


subsection \<open>Properties\<close>

text \<open>
  The comment on \<open>authentication_input\<close> claims that the family tags, the fixed-size Retry
  connection id and the domain string make the encoding unambiguous: equal inputs come from the
  same body, the same Retry connection id, the same IP address and the same port.
\<close>

theorem authentication_input_unambiguous:
  assumes "length c = MAX_CONN_ID_LEN" "length c' = MAX_CONN_ID_LEN"
    and "authentication_input b c s = authentication_input b' c' s'"
  shows "b = b' \<and> c = c' \<and> sock_ip s = sock_ip s' \<and> sock_port s = sock_port s'"
  using authentication_input_eqD [OF _ assms(3)] assms(1,2) by simp

theorem authentication_input_unambiguous_witness:
  "length (replicate 20 (7::byte)) = MAX_CONN_ID_LEN
   \<and> authentication_input [1] (replicate 20 7) (SockV6 5 80 1 2)
       = authentication_input [1] (replicate 20 7) (SockV6 5 80 3 4)
   \<and> sock_port (SockV6 5 80 1 2) = sock_port (SockV6 5 80 3 4)"
proof -
  have l: "length (replicate 20 (7::byte)) = MAX_CONN_ID_LEN" by (simp add: MAX_CONN_ID_LEN_def)
  have e: "authentication_input [1] (replicate 20 7) (SockV6 5 80 1 2)
       = authentication_input [1] (replicate 20 7) (SockV6 5 80 3 4)"
    by (simp add: authentication_input_def)
  show ?thesis using l e authentication_input_unambiguous [OF l l e] by blast
qed

text \<open>
  Round trip: a token minted for an original connection id, a Retry connection id and an
  address is accepted for the same id and address until its age reaches 30 seconds, and yields
  the original connection id.
\<close>

theorem retry_token_round_trip:
  assumes "mac_ok sign verify"
    and "mint_at sign self d c s now = Some tok"
    and "as_millis now \<le> as_millis later" "as_millis later < 2 ^ 64"
    and "as_millis later - as_millis now < TTL_MILLIS"
  shows "validate_at verify self tok c s later = Some d"
  using assms
  by (auto simp: mint_at_Some validate_at_token_body mac_ok_length mac_ok_verify unat_of_nat
      TTL_MILLIS_def)

theorem retry_token_round_trip_witness:
  "validate_at demo_verify demo_tokens demo_token (replicate 20 66) (SockV4 1 443) 29999000000
     = Some (replicate 8 53)"
  by (rule retry_token_round_trip [OF demo_mac_ok demo_minted])
    (simp_all add: as_millis_def TTL_MILLIS_def)

text \<open>
  C14. Soundness and expiry: whatever is accepted has exactly the documented layout, an
  authentic tag for the given Retry connection id and address, an original connection id of
  8 to 20 bytes, an issue time that is not in the future and an age below 30 seconds.
\<close>

theorem retry_validate_sound:
  assumes "validate_at verify self tok c s now = Some d"
  shows "\<exists>issued tag. tok = token_body issued d @ tag
      \<and> MIN_ODCID_LEN \<le> length d \<and> length d \<le> MAX_CONN_ID_LEN
      \<and> length tag = TAG_LEN \<and> length c = MAX_CONN_ID_LEN
      \<and> verify (rt_key self) (authentication_input (token_body issued d) c s) tag
      \<and> unat issued \<le> as_millis now \<and> as_millis now < unat issued + TTL_MILLIS"
proof -
  obtain t tag where sh: "tok = token_body t d @ tag" "8 \<le> length d" "length d \<le> 20" "length tag = 32"
    using validate_at_shape [OF assms] by blast
  then have "length c = 20 \<and> verify (rt_key self) (authentication_input (token_body t d) c s) tag
      \<and> unat t \<le> as_millis now \<and> as_millis now - unat t < 30000"
    using assms validate_at_token_body [of d tag verify self t c s now] by (simp split: if_splits)
  with sh show ?thesis
    by (intro exI [of _ t] exI [of _ tag]) (auto simp: retry_consts)
qed

theorem retry_validate_sound_witness:
  "\<exists>issued tag. demo_token = token_body issued (replicate 8 53) @ tag \<and> length tag = TAG_LEN
     \<and> as_millis 8000000 < unat issued + TTL_MILLIS"
  using retry_validate_sound [OF demo_validated] by blast

text \<open>
  Address and connection-id binding, as a reduction: a token minted for one Retry
  connection id and address and accepted for another yields the same original connection id,
  and the two authentication inputs the server computed carry the same tag; they are the same
  input only if the Retry connection id, the IP address and the port all agree. So accepting a
  token from elsewhere exhibits a concrete pair of different inputs with equal tags.
\<close>

theorem retry_token_binding:
  assumes "mac_ok sign verify"
    and "mint_at sign self d c s now = Some tok"
    and "validate_at verify self tok c' s' later = Some d'"
    and "m = authentication_input (token_body (of_nat (as_millis now)) d) c s"
    and "m' = authentication_input (token_body (of_nat (as_millis now)) d) c' s'"
  shows "d' = d \<and> sign (rt_key self) m = sign (rt_key self) m'
     \<and> (m = m' \<longleftrightarrow> c' = c \<and> sock_ip s' = sock_ip s \<and> sock_port s' = sock_port s)"
proof -
  let ?b = "token_body (of_nat (as_millis now)) d"
  have minted: "8 \<le> length d" "length d \<le> 20" "length c = 20" "tok = ?b @ sign (rt_key self) m"
    using assms(2,4) by (simp_all add: mint_at_Some)
  then have v: "d' = d" "length c' = 20" "sign (rt_key self) m = sign (rt_key self) m'"
    using assms(1,3,5)
    by (auto simp: validate_at_token_body mac_ok_length mac_ok_verify split: if_splits)
  have "m = m' \<Longrightarrow> c = c' \<and> sock_ip s = sock_ip s' \<and> sock_port s = sock_port s'"
    using authentication_input_eqD [of c c' ?b s ?b s'] minted(3) v(2) assms(4,5) by simp
  moreover have "m = m'" if "c' = c" "sock_ip s' = sock_ip s" "sock_port s' = sock_port s"
    using that assms(4,5) by (simp add: authentication_input_def)
  ultimately show ?thesis using v by auto
qed

theorem retry_token_binding_witness:
  "demo_sign (rt_key demo_tokens)
     (authentication_input (token_body (of_nat (as_millis 7000000)) (replicate 8 53)) (replicate 20 66) (SockV4 1 443))
   = demo_sign (rt_key demo_tokens)
     (authentication_input (token_body (of_nat (as_millis 7000000)) (replicate 8 53)) (replicate 20 66) (SockV4 1 443))
   \<and> sock_port (SockV4 1 443) = sock_port (SockV4 1 443)"
  using retry_token_binding [OF demo_mac_ok demo_minted demo_validated refl refl] by blast

end
