(* ===== verification/StreamSessions.thy ===== *)
theory StreamSessions
  imports RouteHandler
begin

section \<open>Stream sessions\<close>

text \<open>
  Model of \<open>src/stream_sessions.rs\<close>: the register of stream paths, the builder of a stream, and the
  operations that publish a message to the connections a user has opened on a stream. What a stream
  knows about its users is the trait \<open>UserSessions\<close>, implemented by the application: the record
  \<open>sessions_impl\<close> of functions. Its contract is the locale \<open>user_sessions\<close>, interpreted on the
  implementation \<open>Registered\<close> of the file's own tests. Encoding (\<open>bincode\<close>), framing
  (\<open>stream_framer\<close>) and fresh capsule ids (\<open>Uuid::now_v7\<close>) are parameters. The mutex makes every
  operation atomic; waking the poll loop can fail, which is the argument \<open>awake\<close>.
\<close>

subsection \<open>Users, identities and capsules\<close>

type_synonym user_uuid = nat

record StreamIdent =
  si_user_id :: user_uuid
  si_dcid :: bytes
  si_stream_id :: stream_id

definition stream_ident_new :: "user_uuid \<Rightarrow> bytes \<Rightarrow> stream_id \<Rightarrow> StreamIdent" where
  "stream_ident_new u c i = \<lparr>si_user_id = u, si_dcid = c, si_stream_id = i\<rparr>"

lemma stream_ident_sel [simp]:
  "si_user_id (stream_ident_new u c i) = u" "si_dcid (stream_ident_new u c i) = c"
  "si_stream_id (stream_ident_new u c i) = i"
  by (simp_all add: stream_ident_new_def)

lemma stream_ident_eq: "e = stream_ident_new u c i \<longleftrightarrow> si_user_id e = u \<and> si_dcid e = c \<and> si_stream_id e = i"
  by (cases e) (auto simp: stream_ident_new_def)

text \<open>\<open>ToStreamIdent\<close> for the two tuple types of the file; it never fails there.\<close>

definition to_stream_ident :: "user_uuid \<times> bytes \<times> stream_id \<Rightarrow> unit + StreamIdent" where
  "to_stream_ident e = (case e of (u, c, i) \<Rightarrow> Ok (stream_ident_new u c i))"

text \<open>
  The trait \<open>UserSessions\<close>. The entries it lists convert to identities, or fail to (None).
\<close>

record 't sessions_impl =
  us_new :: 't
  us_ids :: "user_uuid list \<Rightarrow> 't \<Rightarrow> StreamIdent option list"
  us_all :: "'t \<Rightarrow> StreamIdent option list"
  us_register :: "user_uuid \<Rightarrow> bytes \<times> stream_id \<Rightarrow> 't \<Rightarrow> 't"
  us_remove :: "bytes \<Rightarrow> 't \<Rightarrow> user_uuid option \<times> 't"
  us_connected :: "user_uuid \<Rightarrow> 't \<Rightarrow> bool"

record 'u capsule =
  cap_uuid :: nat
  cap_scid :: bytes
  cap_stream_id :: stream_id
  cap_message :: 'u

definition capsule_new :: "nat \<Rightarrow> 'u \<Rightarrow> bytes \<Rightarrow> stream_id \<Rightarrow> 'u capsule" where
  "capsule_new fresh message s i = \<lparr>cap_uuid = fresh, cap_scid = s, cap_stream_id = i, cap_message = message\<rparr>"

definition cap_conn_ids :: "'u capsule \<Rightarrow> bytes \<times> stream_id" where
  "cap_conn_ids cap = (cap_scid cap, cap_stream_id cap)"


subsection \<open>Streams and their builder\<close>

datatype StreamType = Down | Up

record ('m, 'w, 't) Stream =
  st_path :: string
  st_handler :: "'w stream_callback"
  st_middlewares :: "'m list"
  st_type :: StreamType
  st_sessions :: 't

record ('m, 'w) StreamBuilder =
  sb_path :: "string option"
  sb_handler :: "'w stream_callback option"
  sb_middlewares :: "'m list"
  sb_type :: "StreamType option"

definition stream_builder_new :: "('m, 'w) StreamBuilder" where
  "stream_builder_new = \<lparr>sb_path = None, sb_handler = None, sb_middlewares = [], sb_type = None\<rparr>"

definition sb_set_path :: "string \<Rightarrow> ('m, 'w) StreamBuilder \<Rightarrow> ('m, 'w) StreamBuilder" where
  "sb_set_path p b = b\<lparr>sb_path := Some p\<rparr>"

definition sb_middleware :: "'m \<Rightarrow> ('m, 'w) StreamBuilder \<Rightarrow> ('m, 'w) StreamBuilder" where
  "sb_middleware mdw b = b\<lparr>sb_middlewares := sb_middlewares b @ [mdw]\<rparr>"

definition sb_add_global_middlewares :: "'m list \<Rightarrow> ('m, 'w) StreamBuilder \<Rightarrow> ('m, 'w) StreamBuilder" where
  "sb_add_global_middlewares ms b =
     (let specific_mdw = sb_middlewares b in b\<lparr>sb_middlewares := ms @ specific_mdw\<rparr>)"

definition sb_stream_handler :: "'w stream_callback \<Rightarrow> ('m, 'w) StreamBuilder \<Rightarrow> ('m, 'w) StreamBuilder" where
  "sb_stream_handler handler b = b\<lparr>sb_handler := Some handler\<rparr>"

definition sb_set_stream_type :: "StreamType \<Rightarrow> ('m, 'w) StreamBuilder \<Rightarrow> ('m, 'w) StreamBuilder" where
  "sb_set_stream_type ty b = b\<lparr>sb_type := Some ty\<rparr>"

definition stream_build :: "'t sessions_impl \<Rightarrow> ('m, 'w) StreamBuilder \<Rightarrow> unit + ('m, 'w, 't) Stream" where
  "stream_build us b =
     (case (sb_path b, sb_type b, sb_handler b) of
        (Some p, Some ty, Some handler) \<Rightarrow>
          Ok \<lparr>st_path = p, st_handler = handler, st_middlewares = sb_middlewares b, st_type = ty,
              st_sessions = us_new us\<rparr>
      | _ \<Rightarrow> Err ())"

definition to_middleware_coll :: "('m, 'w, 't) Stream \<Rightarrow> 'm list" where
  "to_middleware_coll st = st_middlewares st"

definition stream_handler_callback :: "('m, 'w, 't) Stream \<Rightarrow> 'w stream_callback" where
  "stream_handler_callback st = st_handler st"


subsection \<open>The register\<close>

text \<open>\<open>ss_station\<close> tells whether a chunking station was set; its channels are passed explicitly.\<close>

record ('m, 'w, 't) StreamSessions =
  ss_sessions :: "(string, ('m, 'w, 't) Stream) dashmap"
  ss_station :: bool

definition stream_sessions_new :: "('m, 'w, 't) StreamSessions" where
  "stream_sessions_new = \<lparr>ss_sessions = [], ss_station = False\<rparr>"

definition stream_path_set :: "('m, 'w, 't) StreamSessions \<Rightarrow> string list" where
  "stream_path_set ss = map fst (ss_sessions ss)"

definition set_chunking_station :: "('m, 'w, 't) StreamSessions \<Rightarrow> ('m, 'w, 't) StreamSessions" where
  "set_chunking_station ss = ss\<lparr>ss_station := True\<rparr>"

definition create_stream ::
  "'t sessions_impl \<Rightarrow> string \<Rightarrow> StreamType \<Rightarrow> (('m, 'w) StreamBuilder \<Rightarrow> ('m, 'w) StreamBuilder)
     \<Rightarrow> ('m, 'w, 't) StreamSessions \<Rightarrow> ('m, 'w, 't) StreamSessions" where
  "create_stream us path ty stream_builder_cb ss =
     (let b = sb_set_stream_type ty (sb_set_path path (stream_builder_cb stream_builder_new)) in
      case stream_build us b of
        Inr stream \<Rightarrow> ss\<lparr>ss_sessions := dm_or_insert path stream (ss_sessions ss)\<rparr>
      | Inl _ \<Rightarrow> ss)"

definition get_stream_from_path ::
  "string \<Rightarrow> (('m, 'w, 't) Stream \<Rightarrow> 'r \<times> ('m, 'w, 't) Stream) \<Rightarrow> ('m, 'w, 't) StreamSessions
     \<Rightarrow> (unit + 'r) \<times> ('m, 'w, 't) StreamSessions" where
  "get_stream_from_path path cb ss =
     (case dm_get (ss_sessions ss) path of
        Some stream \<Rightarrow>
          (let (r, stream1) = cb stream
           in (Ok r, ss\<lparr>ss_sessions := dm_insert path stream1 (ss_sessions ss)\<rparr>))
      | None \<Rightarrow> (Err (), ss))"

text \<open>What the request handling sees of the register.\<close>

definition stream_forms :: "('m, 'w, 't) StreamSessions \<Rightarrow> (string, ('m, 'w) stream_form) dashmap" where
  "stream_forms ss = map (\<lambda>(p, st). (p, \<lparr>sf_middlewares = to_middleware_coll st,
     sf_handler = stream_handler_callback st\<rparr>)) (ss_sessions ss)"

definition get_connection_ids_on_stream_path_by_user_id ::
  "'t sessions_impl \<Rightarrow> string \<Rightarrow> user_uuid \<Rightarrow> ('m, 'w, 't) StreamSessions \<Rightarrow> unit + StreamIdent" where
  "get_connection_ids_on_stream_path_by_user_id us path peer ss =
     (case dm_get (ss_sessions ss) path of
        Some stream \<Rightarrow>
          (case List.map_filter id (us_ids us [peer] (st_sessions stream)) of
             ident # _ \<Rightarrow> if si_user_id ident = peer then Ok ident else Err ()
           | [] \<Rightarrow> Err ())
      | None \<Rightarrow> Err ())"

definition is_connected :: "'t sessions_impl \<Rightarrow> string \<Rightarrow> user_uuid \<Rightarrow> ('m, 'w, 't) StreamSessions \<Rightarrow> bool" where
  "is_connected us path peer ss =
     (case dm_get (ss_sessions ss) path of
        Some stream \<Rightarrow> us_connected us peer (st_sessions stream) | None \<Rightarrow> False)"

definition stream_cleaning ::
  "'t sessions_impl \<Rightarrow> bytes \<Rightarrow> (string, ('m, 'w, 't) Stream) dashmap \<Rightarrow> (string, ('m, 'w, 't) Stream) dashmap" where
  "stream_cleaning us c m =
     map (\<lambda>(p, stream). (p, stream\<lparr>st_sessions := snd (us_remove us c (st_sessions stream))\<rparr>)) m"

definition clean_closed_connexions ::
  "'t sessions_impl \<Rightarrow> bytes \<Rightarrow> ('m, 'w, 't) StreamSessions \<Rightarrow> ('m, 'w, 't) StreamSessions" where
  "clean_closed_connexions us c ss = ss\<lparr>ss_sessions := stream_cleaning us c (ss_sessions ss)\<rparr>"


subsection \<open>Publishing\<close>

text \<open>\<open>collect::<Result<Vec<_>, _>>\<close>: the first error, or all results.\<close>

fun collect_results :: "('e + 'a) list \<Rightarrow> 'e + 'a list" where
  "collect_results [] = Ok []"
| "collect_results (Inl e # rs) = Err e"
| "collect_results (Inr x # rs) = (case collect_results rs of Inr xs \<Rightarrow> Ok (x # xs) | Inl e \<Rightarrow> Err e)"

text \<open>The sending loop: it stops at the first disconnected queue, with the earlier ones already served.\<close>

fun send_prepared ::
  "'u capsule list \<Rightarrow> (chan \<times> 'u capsule \<times> BodyRequest) list \<Rightarrow> QueuedRequest dispatch
     \<Rightarrow> (string + 'u capsule list) \<times> QueuedRequest dispatch" where
  "send_prepared capsules [] d = (Ok capsules, d)"
| "send_prepared capsules ((sender, capsule, body) # rest) d =
     (case sender_send sender (Q_StreamData body) d of
        (Inl _, d1) \<Rightarrow> (Err (''stream queue disconnected after '' @ nat_to_string (length capsules)
                            @ '' accepted targets''), d1)
      | (Inr _, d1) \<Rightarrow> send_prepared (capsules @ [capsule]) rest d1)"

text \<open>The queue of a target is looked up and its capsule framed before anything is sent.\<close>

definition resolve_sender :: "QueuedRequest dispatch \<Rightarrow> bytes \<times> stream_id \<Rightarrow> string + chan" where
  "resolve_sender d ids =
     (case get_low_priority_sender (snd ids) (fst ids) d of
        Some sender \<Rightarrow> Ok sender | None \<Rightarrow> Err ''stream queue unavailable'')"

definition prepare_message ::
  "(bytes \<Rightarrow> bytes option) \<Rightarrow> (bytes \<times> stream_id \<Rightarrow> string + ('u capsule \<times> bytes)) \<Rightarrow> bytes \<times> stream_id
     \<Rightarrow> string + ('u capsule \<times> BodyRequest)" where
  "prepare_message frame data_cb ids =
     (case data_cb ids of
        Inl e \<Rightarrow> Err e
      | Inr (capsule, data) \<Rightarrow>
          (case frame data of
             None \<Rightarrow> Err ''failed to frame capsule''
           | Some framed \<Rightarrow> Ok (capsule, body_request_new (snd ids) [] (fst ids) 0 framed False)))"

definition send_one_or_more_message_on_stream ::
  "(bytes \<Rightarrow> bytes option) \<Rightarrow> bool \<Rightarrow> (bytes \<times> stream_id) list \<Rightarrow> (bytes \<times> stream_id \<Rightarrow> string + ('u capsule \<times> bytes))
     \<Rightarrow> ('m, 'w, 't) StreamSessions \<Rightarrow> QueuedRequest dispatch
     \<Rightarrow> (string + 'u capsule list) \<times> QueuedRequest dispatch" where
  "send_one_or_more_message_on_stream frame awake connection_ids data_cb ss d =
     (if connection_ids = [] then (Err ''no stream targets'', d)
      else if \<not> ss_station ss then (Err ''chunking station unavailable'', d)
      else case collect_results (map (resolve_sender d) connection_ids) of
        Inl e \<Rightarrow> (Err e, d)
      | Inr senders \<Rightarrow>
          (case collect_results (map (prepare_message frame data_cb) connection_ids) of
             Inl e \<Rightarrow> (Err e, d)
           | Inr prepared \<Rightarrow>
               (case send_prepared [] (zip senders prepared) d of
                  (Inl e, d1) \<Rightarrow> (Err e, d1)
                | (Inr capsules, d1) \<Rightarrow>
                    (if awake then Ok capsules else Err ''failed to wake poll'', d1))))"

text \<open>\<open>pop\<close> takes the last capsule, which is the only one.\<close>

definition send_one_message_on_stream ::
  "(bytes \<Rightarrow> bytes option) \<Rightarrow> bool \<Rightarrow> bytes \<times> stream_id \<Rightarrow> (bytes \<times> stream_id \<Rightarrow> string + ('u capsule \<times> bytes))
     \<Rightarrow> ('m, 'w, 't) StreamSessions \<Rightarrow> QueuedRequest dispatch
     \<Rightarrow> (string + 'u capsule) \<times> QueuedRequest dispatch" where
  "send_one_message_on_stream frame awake conn_ids data_cb ss d =
     (case send_one_or_more_message_on_stream frame awake [conn_ids] data_cb ss d of
        (Inl e, d1) \<Rightarrow> (Err e, d1)
      | (Inr capsules, d1) \<Rightarrow>
          (if capsules = [] then Err ''no queued capsule'' else Ok (last capsules), d1))"

definition map_err :: "'e \<Rightarrow> ('e + 'a) \<times> 'd \<Rightarrow> ('e + 'a) \<times> 'd" where
  "map_err e = (\<lambda>(r, d). (case r of Inl _ \<Rightarrow> Err e | Inr x \<Rightarrow> Ok x, d))"

text \<open>
  Encoding of a capsule is a parameter that may fail; \<open>fresh\<close> gives the capsule id for a target.
\<close>

definition message_capsule ::
  "('u capsule \<Rightarrow> string + bytes) \<Rightarrow> (bytes \<times> stream_id \<Rightarrow> nat) \<Rightarrow> 'u \<Rightarrow> bytes \<times> stream_id
     \<Rightarrow> string + ('u capsule \<times> bytes)" where
  "message_capsule encode fresh message ids =
     (let cap = capsule_new (fresh ids) message (fst ids) (snd ids) in
      case encode cap of Inr res \<Rightarrow> Ok (cap, res) | Inl e \<Rightarrow> Err e)"

definition subscriber_ids ::
  "'t sessions_impl \<Rightarrow> user_uuid \<Rightarrow> bytes list \<Rightarrow> ('m, 'w, 't) Stream \<Rightarrow> (bytes \<times> stream_id) list" where
  "subscriber_ids us user scids stream =
     List.map_filter (\<lambda>it. case it of
         Some ident \<Rightarrow> if si_dcid ident \<in> set scids then None else Some (si_dcid ident, si_stream_id ident)
       | None \<Rightarrow> None)
     (us_ids us [user] (st_sessions stream))"

definition send_message_to_subscriber_on_path_with_filtered_scids ::
  "'t sessions_impl \<Rightarrow> ('u capsule \<Rightarrow> string + bytes) \<Rightarrow> (bytes \<times> stream_id \<Rightarrow> nat) \<Rightarrow> (bytes \<Rightarrow> bytes option) \<Rightarrow> bool
     \<Rightarrow> user_uuid \<Rightarrow> 'u \<Rightarrow> string \<Rightarrow> bytes list \<Rightarrow> ('m, 'w, 't) StreamSessions \<Rightarrow> QueuedRequest dispatch
     \<Rightarrow> (string + 'u capsule list) \<times> QueuedRequest dispatch" where
  "send_message_to_subscriber_on_path_with_filtered_scids us encode fresh frame awake user message path scids ss d =
     map_err ''Failed to send message to subscriber''
       (case dm_get (ss_sessions ss) path of
          None \<Rightarrow> (Err ''Stream on path : No Session found '', d)
        | Some stream \<Rightarrow>
            send_one_or_more_message_on_stream frame awake (subscriber_ids us user scids stream)
              (message_capsule encode fresh message) ss d)"

definition send_message_to_subscriber_on_path ::
  "'t sessions_impl \<Rightarrow> ('u capsule \<Rightarrow> string + bytes) \<Rightarrow> (bytes \<times> stream_id \<Rightarrow> nat) \<Rightarrow> (bytes \<Rightarrow> bytes option) \<Rightarrow> bool
     \<Rightarrow> user_uuid \<Rightarrow> 'u \<Rightarrow> string \<Rightarrow> ('m, 'w, 't) StreamSessions \<Rightarrow> QueuedRequest dispatch
     \<Rightarrow> (string + 'u capsule list) \<times> QueuedRequest dispatch" where
  "send_message_to_subscriber_on_path us encode fresh frame awake user message path ss d =
     map_err ''Failed to send message to subscriber''
       (case dm_get (ss_sessions ss) path of
          None \<Rightarrow> (Err ''Stream on path : No Session found '', d)
        | Some stream \<Rightarrow>
            send_one_or_more_message_on_stream frame awake
              (List.map_filter (map_option (\<lambda>ident. (si_dcid ident, si_stream_id ident))) (us_ids us [user] (st_sessions stream)))
              (message_capsule encode fresh message) ss d)"

definition registered_to ::
  "'t sessions_impl \<Rightarrow> user_uuid \<Rightarrow> 'u capsule \<Rightarrow> ('m, 'w, 't) Stream \<Rightarrow> bool" where
  "registered_to us user message stream =
     list_ex (\<lambda>entry. case entry of
         Some ident \<Rightarrow> si_user_id ident = user \<and> si_dcid ident = cap_scid message \<and> si_stream_id ident = cap_stream_id message
       | None \<Rightarrow> False)
       (us_ids us [user] (st_sessions stream))"

definition retry_send_message_to_subscriber_on_path ::
  "'t sessions_impl \<Rightarrow> ('u capsule \<Rightarrow> string + bytes) \<Rightarrow> (bytes \<Rightarrow> bytes option) \<Rightarrow> bool
     \<Rightarrow> user_uuid \<Rightarrow> 'u capsule \<Rightarrow> string \<Rightarrow> ('m, 'w, 't) StreamSessions \<Rightarrow> QueuedRequest dispatch
     \<Rightarrow> (string + 'u capsule) \<times> QueuedRequest dispatch" where
  "retry_send_message_to_subscriber_on_path us encode frame awake user message path ss d =
     map_err ''Failed to send message to subscriber''
       (case dm_get (ss_sessions ss) path of
          None \<Rightarrow> (Err ''Stream on path : No Session found '', d)
        | Some stream \<Rightarrow>
            if \<not> registered_to us user message stream
            then (Err ''capsule target is no longer registered to this user'', d)
            else send_one_message_on_stream frame awake (cap_conn_ids message)
              (\<lambda>_. case encode message of Inr enc \<Rightarrow> Ok (message, enc) | Inl e \<Rightarrow> Err e) ss d)"

definition retry_send_message_to_subscriber_on_path_with_filtered_scids ::
  "'t sessions_impl \<Rightarrow> ('u capsule \<Rightarrow> string + bytes) \<Rightarrow> (bytes \<Rightarrow> bytes option) \<Rightarrow> bool
     \<Rightarrow> user_uuid \<Rightarrow> 'u capsule \<Rightarrow> string \<Rightarrow> bytes list \<Rightarrow> ('m, 'w, 't) StreamSessions \<Rightarrow> QueuedRequest dispatch
     \<Rightarrow> (string + 'u capsule) \<times> QueuedRequest dispatch" where
  "retry_send_message_to_subscriber_on_path_with_filtered_scids us encode frame awake user message path scids ss d =
     (if cap_scid message \<in> set scids then (Err ''capsule target is excluded'', d)
      else retry_send_message_to_subscriber_on_path us encode frame awake user message path ss d)"



subsection \<open>The contract of \<open>UserSessions\<close>\<close>

text \<open>
  What the register relies on: the entries are those registered, at most one per connection, and
  removing a connection removes its entry only. An entry that fails to convert is None.
\<close>

lemma set_map_filter: "set (List.map_filter f xs) = {y. \<exists>x \<in> set xs. f x = Some y}"
  by (induction xs) (auto simp: List.map_filter_simps split: option.splits)

locale user_sessions =
  fixes us :: "'t sessions_impl"
    and invar :: "'t \<Rightarrow> bool"
  assumes invar_new: "invar (us_new us)"
    and invar_register: "invar t \<Longrightarrow> invar (us_register us u ci t)"
    and invar_remove: "invar t \<Longrightarrow> invar (snd (us_remove us c t))"
    and all_new: "us_all us (us_new us) = []"
    and all_register: "invar t \<Longrightarrow> Some e \<in> set (us_all us (us_register us u (c, i) t)) \<longleftrightarrow>
      e = stream_ident_new u c i \<or> si_dcid e \<noteq> c \<and> Some e \<in> set (us_all us t)"
    and all_remove: "invar t \<Longrightarrow> Some e \<in> set (us_all us (snd (us_remove us c t))) \<longleftrightarrow>
      si_dcid e \<noteq> c \<and> Some e \<in> set (us_all us t)"
    and ids_all: "invar t \<Longrightarrow> Some e \<in> set (us_ids us keys t) \<longleftrightarrow> si_user_id e \<in> set keys \<and> Some e \<in> set (us_all us t)"
    and connected_all: "invar t \<Longrightarrow> us_connected us u t \<longleftrightarrow> (\<exists>e. Some e \<in> set (us_all us t) \<and> si_user_id e = u)"
begin

lemma connected_ids: "invar t \<Longrightarrow> us_connected us u t \<longleftrightarrow> (\<exists>e. Some e \<in> set (us_ids us [u] t))"
  by (auto simp: connected_all ids_all)

lemma subscriber_ids_set:
  assumes "invar (st_sessions stream)"
  shows "(c, i) \<in> set (subscriber_ids us user scids stream) \<longleftrightarrow>
     c \<notin> set scids \<and> Some (stream_ident_new user c i) \<in> set (us_all us (st_sessions stream))"
proof -
  have "(c, i) \<in> set (subscriber_ids us user scids stream) \<longleftrightarrow>
      (\<exists>e. Some e \<in> set (us_ids us [user] (st_sessions stream)) \<and> si_dcid e \<notin> set scids
         \<and> si_dcid e = c \<and> si_stream_id e = i)"
    by (auto simp: subscriber_ids_def set_map_filter split: option.splits if_splits)
  also have "\<dots> \<longleftrightarrow> c \<notin> set scids \<and> (\<exists>e. e = stream_ident_new user c i \<and> Some e \<in> set (us_all us (st_sessions stream)))"
    by (auto simp: ids_all [OF assms] stream_ident_eq)
  finally show ?thesis by simp
qed

lemma removed_connection_not_listed:
  "invar t \<Longrightarrow> Some e \<in> set (us_ids us keys (snd (us_remove us c t))) \<Longrightarrow> si_dcid e \<noteq> c"
  by (simp add: ids_all invar_remove all_remove)

lemma reassigned_connection:
  "invar t \<Longrightarrow> u' \<noteq> u \<Longrightarrow> Some e \<in> set (us_ids us [u] (us_register us u' (c, i) t)) \<Longrightarrow> si_dcid e \<noteq> c"
  by (auto simp: ids_all invar_register all_register stream_ident_eq)

end

text \<open>The implementation \<open>Registered\<close>: a map from connections to a user and a stream.\<close>

type_synonym registered = "(bytes, user_uuid \<times> stream_id) dashmap"

definition registered_idents :: "registered \<Rightarrow> StreamIdent option list" where
  "registered_idents m = map (\<lambda>(c, u, i). case to_stream_ident (u, c, i) of Inr ident \<Rightarrow> Some ident | Inl _ \<Rightarrow> None) m"

definition registered_impl :: "registered sessions_impl" where
  "registered_impl = \<lparr>us_new = [],
     us_ids = (\<lambda>users m. registered_idents (filter (\<lambda>(_, u, _). u \<in> set users) m)),
     us_all = registered_idents,
     us_register = (\<lambda>u (c, i) m. dm_insert c (u, i) m),
     us_remove = (\<lambda>c m. (map_option fst (dm_get m c), dm_remove c m)),
     us_connected = (\<lambda>u m. list_ex (\<lambda>(_, u', _). u' = u) m)\<rparr>"

lemma registered_idents_member:
  "Some e \<in> set (registered_idents m) \<longleftrightarrow> (si_dcid e, si_user_id e, si_stream_id e) \<in> set m"
proof -
  have "registered_idents m = map (\<lambda>(c, u, i). Some (stream_ident_new u c i)) m"
    by (simp add: registered_idents_def to_stream_ident_def)
  then show ?thesis by (force simp: image_iff stream_ident_eq)
qed

lemma registered_idents_set:
  "dm_wf m \<Longrightarrow> Some e \<in> set (registered_idents m) \<longleftrightarrow> dm_get m (si_dcid e) = Some (si_user_id e, si_stream_id e)"
  by (simp add: registered_idents_member dm_get_entry)

interpretation registered: user_sessions registered_impl dm_wf
proof unfold_locales
  show "us_all registered_impl (us_new registered_impl) = []"
    by (simp add: registered_impl_def registered_idents_def)
  fix t :: registered and e :: StreamIdent and keys :: "user_uuid list" and u :: user_uuid
  assume wf: "dm_wf t"
  show "Some e \<in> set (us_ids registered_impl keys t)
      \<longleftrightarrow> si_user_id e \<in> set keys \<and> Some e \<in> set (us_all registered_impl t)"
    by (auto simp: registered_impl_def registered_idents_member)
  have "list_ex (\<lambda>(_, u', _). u' = u) t \<longleftrightarrow> (\<exists>c i. (c, u, i) \<in> set t)"
    by (force simp: list_ex_iff)
  also have "\<dots> \<longleftrightarrow> (\<exists>e :: StreamIdent. (si_dcid e, si_user_id e, si_stream_id e) \<in> set t \<and> si_user_id e = u)"
  proof
    assume "\<exists>c i. (c, u, i) \<in> set t"
    then obtain c i where "(c, u, i) \<in> set t" by blast
    then have "(si_dcid (stream_ident_new u c i), si_user_id (stream_ident_new u c i), si_stream_id (stream_ident_new u c i)) \<in> set t
        \<and> si_user_id (stream_ident_new u c i) = u" by simp
    then show "\<exists>e :: StreamIdent. (si_dcid e, si_user_id e, si_stream_id e) \<in> set t \<and> si_user_id e = u"
      by (rule exI [of _ "stream_ident_new u c i"])
  qed auto
  finally show "us_connected registered_impl u t \<longleftrightarrow> (\<exists>e. Some e \<in> set (us_all registered_impl t) \<and> si_user_id e = u)"
    by (simp add: registered_impl_def registered_idents_member)
next
  fix t :: registered and e :: StreamIdent and u :: user_uuid and c :: bytes and i :: stream_id
  assume wf: "dm_wf t"
  show "Some e \<in> set (us_all registered_impl (us_register registered_impl u (c, i) t)) \<longleftrightarrow>
      e = stream_ident_new u c i \<or> si_dcid e \<noteq> c \<and> Some e \<in> set (us_all registered_impl t)"
    using wf by (auto simp: registered_impl_def registered_idents_set stream_ident_eq)
  show "Some e \<in> set (us_all registered_impl (snd (us_remove registered_impl c t))) \<longleftrightarrow>
      si_dcid e \<noteq> c \<and> Some e \<in> set (us_all registered_impl t)"
    using wf by (auto simp: registered_impl_def registered_idents_set)
qed (simp_all add: registered_impl_def split_beta)


subsection \<open>What publishing puts into the queues\<close>

lemma collect_results_Ok: "collect_results rs = Inr xs \<longleftrightarrow> rs = map Inr xs"
proof (induction rs arbitrary: xs)
  case (Cons r rs)
  show ?case
  proof (cases r)
    case (Inr a)
    show ?thesis
    proof (cases xs)
      case xs: (Cons x ys)
      show ?thesis using Cons.IH [of ys] by (auto simp: Inr xs split: sum.splits)
    qed (simp add: Inr split: sum.split)
  qed auto
qed auto

text \<open>The low priority queue of a stream after its share of the messages was sent.\<close>

definition bodies_for :: "ids \<Rightarrow> ('u capsule \<times> BodyRequest) list \<Rightarrow> QueuedRequest list" where
  "bodies_for k prepared =
     map (Q_StreamData \<circ> snd) (filter (\<lambda>(_, b). (br_stream_id b, br_scid b) = k) prepared)"

definition published :: "('u capsule \<times> BodyRequest) list \<Rightarrow> QueuedRequest dispatch \<Rightarrow> QueuedRequest dispatch \<Rightarrow> bool" where
  "published prepared d d1 \<longleftrightarrow> disp_inv d1
     \<and> (\<forall>k. mail d1 k = map_option (\<lambda>(lo, hi). (lo @ bodies_for k prepared, hi)) (mail d k))"

lemma published_Nil: "disp_inv d \<Longrightarrow> published [] d d"
  by (simp add: published_def bodies_for_def option.map_id0 option.map_ident case_prod_beta)

lemma published_Cons:
  fixes c :: "'u capsule"
  assumes "disp_inv d" and sender: "resolve_sender d (br_scid b, br_stream_id b) = Ok sender"
  obtains d1 where "sender_send sender (Q_StreamData b) d = (Ok (), d1)" "disp_inv d1" "entries d1 = entries d"
    "\<And>(rest :: ('u capsule \<times> BodyRequest) list) d2. published rest d1 d2 \<Longrightarrow> published ((c, b) # rest) d d2"
proof -
  let ?k = "(br_stream_id b, br_scid b)"
  obtain e where e: "dm_get (entries d) ?k = Some e" "sender = low_sender e"
    using sender by (auto simp: resolve_sender_def get_low_priority_sender_def split: option.splits)
  obtain lc hc where c: "chans d (low_sender e) = Some lc" "ch_connected lc" "chan_ok lc"
    "chans d (high_sender e) = Some hc"
    by (rule disp_inv_entryD [OF assms(1) e(1)])
  have m: "mail d ?k = Some (ch_items lc, ch_items hc)"
    using mail_entry [OF assms(1) e(1)] c by simp
  let ?d1 = "chan_upd sender (sent_counted (Q_StreamData b) lc) d"
  have s: "sender_send sender (Q_StreamData b) d = (Ok (), ?d1)"
    using c by (simp add: e(2) sender_send_connected)
  have via: "send_via_low_sender (br_stream_id b) (br_scid b) (Q_StreamData b) d = (Ok (), ?d1)"
    using e s by (simp add: send_via_low_sender_def get_low_priority_sender_def)
  have d1: "disp_inv ?d1" "mail ?d1 = (mail d)(?k := Some (ch_items lc @ [Q_StreamData b], ch_items hc))"
    using send_low_present(2,3) [OF assms(1) m, where m = "Q_StreamData b"] via by simp_all
  show thesis
  proof (rule that [OF s d1(1)])
    fix rest :: "('u capsule \<times> BodyRequest) list" and d2
    assume "published rest ?d1 d2"
    then show "published ((c, b) # rest) d d2"
      using m by (auto simp: published_def bodies_for_def d1(2))
  qed simp
qed

lemma send_prepared_published:
  fixes prepared :: "('u capsule \<times> BodyRequest) list"
  assumes "list_all2 (\<lambda>sender p. resolve_sender d0 (br_scid (snd p), br_stream_id (snd p)) = Ok sender) senders prepared"
    and "disp_inv d" "entries d = entries d0"
  shows "\<exists>d1. send_prepared capsules (zip senders prepared) d = (Ok (capsules @ map fst prepared), d1)
    \<and> published prepared d d1"
  using assms
proof (induction senders prepared arbitrary: d capsules rule: list_all2_induct)
  case Nil
  then show ?case by (simp add: published_Nil)
next
  case (Cons sender senders p prepared)
  obtain c b where p: "p = (c, b)" by (cases p)
  have "resolve_sender d = resolve_sender d0"
    by (rule ext) (simp add: resolve_sender_def get_low_priority_sender_def Cons.prems(2))
  then have "resolve_sender d (br_scid b, br_stream_id b) = Ok sender" using Cons.hyps(1) p by simp
  then obtain d1 where d1: "sender_send sender (Q_StreamData b) d = (Ok (), d1)" "disp_inv d1" "entries d1 = entries d"
    and pub: "\<And>(rest :: ('u capsule \<times> BodyRequest) list) d2. published rest d1 d2 \<Longrightarrow> published ((c, b) # rest) d d2"
    using published_Cons [OF Cons.prems(1)] by metis
  obtain d2 where "send_prepared (capsules @ [c]) (zip senders prepared) d1
      = (Ok ((capsules @ [c]) @ map fst prepared), d2)" "published prepared d1 d2"
    using Cons.IH [of d1 "capsules @ [c]"] d1(2,3) Cons.prems(2) by auto
  then show ?case using pub d1(1) p by simp
qed

text \<open>A capsule's body is addressed to the target it was prepared for.\<close>

lemma prepare_message_addressed:
  "prepare_message frame data_cb ids = Ok (c, b) \<Longrightarrow> (br_scid b, br_stream_id b) = ids"
  by (auto simp: prepare_message_def body_request_new_def split: sum.splits option.splits prod.splits)

lemma resolved_senders:
  assumes "map (resolve_sender d) targets = map Ok senders"
    and "map (prepare_message frame data_cb) targets = map Ok prepared"
  shows "list_all2 (\<lambda>sender p. resolve_sender d (br_scid (snd p), br_stream_id (snd p)) = Ok sender) senders prepared"
  using assms
proof (induction targets arbitrary: senders prepared)
  case (Cons ids targets)
  then obtain sender senders' p prepared' where
    eq: "senders = sender # senders'" "prepared = p # prepared'"
    "resolve_sender d ids = Ok sender" "prepare_message frame data_cb ids = Ok p"
    by (auto simp: Cons_eq_map_conv)
  moreover have "(br_scid (snd p), br_stream_id (snd p)) = ids"
    using prepare_message_addressed [of frame data_cb ids "fst p" "snd p"] eq by simp
  ultimately show ?case using Cons by simp
qed simp

lemma collect_results_Err: "collect_results rs = Inl e \<Longrightarrow> \<exists>r \<in> set rs. \<not> is_ok r"
proof (induction rs)
  case (Cons r rs) then show ?case by (cases r) (auto split: sum.splits)
qed simp

definition publishable ::
  "(bytes \<Rightarrow> bytes option) \<Rightarrow> (bytes \<times> stream_id) list \<Rightarrow> (bytes \<times> stream_id \<Rightarrow> string + ('u capsule \<times> bytes))
     \<Rightarrow> ('m, 'w, 't) StreamSessions \<Rightarrow> QueuedRequest dispatch \<Rightarrow> bool" where
  "publishable frame targets data_cb ss d \<longleftrightarrow> targets \<noteq> [] \<and> ss_station ss
     \<and> (\<forall>ids \<in> set targets. is_ok (resolve_sender d ids) \<and> is_ok (prepare_message frame data_cb ids))"

lemma publish_cases:
  fixes data_cb :: "bytes \<times> stream_id \<Rightarrow> string + ('u capsule \<times> bytes)"
  assumes "disp_inv d"
  obtains (refused) e where "\<not> publishable frame targets data_cb ss d"
      "send_one_or_more_message_on_stream frame awake targets data_cb ss d = (Err e, d)"
    | (accepted) prepared d1 where "publishable frame targets data_cb ss d"
      "map (prepare_message frame data_cb) targets = map Ok prepared" "published prepared d d1"
      "send_one_or_more_message_on_stream frame awake targets data_cb ss d =
         (if awake then Ok (map fst prepared) else Err ''failed to wake poll'', d1)"
proof (cases "targets = [] \<or> \<not> ss_station ss")
  case True
  then show thesis
  proof (cases "targets = []")
    case True
    then show thesis
      by (intro refused [of "''no stream targets''"]) (simp_all add: publishable_def send_one_or_more_message_on_stream_def)
  next
    case False
    with True show thesis
      by (intro refused [of "''chunking station unavailable''"])
        (simp_all add: publishable_def send_one_or_more_message_on_stream_def)
  qed
next
  case F: False
  show thesis
  proof (cases "collect_results (map (resolve_sender d) targets)")
    case (Inl e)
    then show thesis using F collect_results_Err [OF Inl]
      by (intro refused [of e]) (auto simp: publishable_def send_one_or_more_message_on_stream_def)
  next
    case S: (Inr senders)
    show thesis
    proof (cases "collect_results (map (prepare_message frame data_cb) targets)")
      case (Inl e)
      then show thesis using F S collect_results_Err [OF Inl]
        by (intro refused [of e]) (auto simp: publishable_def send_one_or_more_message_on_stream_def)
    next
      case P: (Inr prepared)
      have m: "map (resolve_sender d) targets = map Ok senders" "map (prepare_message frame data_cb) targets = map Ok prepared"
        using S P by (simp_all add: collect_results_Ok)
      obtain d1 where d1: "send_prepared [] (zip senders prepared) d = (Ok (map fst prepared), d1)"
        "published prepared d d1"
        using send_prepared_published [OF resolved_senders [OF m] assms refl, of "[]"] by auto
      have ok: "is_ok (resolve_sender d ids) \<and> is_ok (prepare_message frame data_cb ids)" if "ids \<in> set targets" for ids
      proof -
        have "resolve_sender d ids \<in> Inr ` set senders" "prepare_message frame data_cb ids \<in> Inr ` set prepared"
          using that arg_cong [OF m(1), of set] arg_cong [OF m(2), of set] by auto
        then show ?thesis by auto
      qed
      show thesis
        using F S P d1 ok
        by (intro accepted [OF _ m(2) d1(2)]) (auto simp: publishable_def send_one_or_more_message_on_stream_def)
    qed
  qed
qed


subsection \<open>Properties\<close>

text \<open>The capsule sent to a target: the message under a fresh id, encoded and framed as one packet.\<close>

lemma prepare_message_capsule:
  "prepare_message frame (message_capsule encode fresh message) (c, i) = Ok (cap, b) \<longleftrightarrow>
     cap = capsule_new (fresh (c, i)) message c i
     \<and> (\<exists>data framed. encode cap = Ok data \<and> frame data = Some framed \<and> b = body_request_new i [] c 0 framed False)"
  by (auto simp: prepare_message_def message_capsule_def Let_def split: sum.splits option.splits)

lemma map_err_simps [simp]:
  "map_err e (Err x, d) = (Err e, d)" "map_err e (Ok y, d) = (Ok y, d)"
  by (simp_all add: map_err_def)

definition capsule_for ::
  "('u capsule \<Rightarrow> string + bytes) \<Rightarrow> (bytes \<times> stream_id \<Rightarrow> nat) \<Rightarrow> (bytes \<Rightarrow> bytes option) \<Rightarrow> 'u
     \<Rightarrow> bytes \<times> stream_id \<Rightarrow> 'u capsule \<times> BodyRequest \<Rightarrow> bool" where
  "capsule_for encode fresh frame message ids p \<longleftrightarrow>
     (case (ids, p) of ((c, i), (cap, b)) \<Rightarrow> cap = capsule_new (fresh (c, i)) message c i
       \<and> (case encode cap of Inr data \<Rightarrow> frame data = Some (br_packet b) | Inl _ \<Rightarrow> False)
       \<and> br_scid b = c \<and> br_stream_id b = i \<and> \<not> br_is_end b)"

lemma prepared_capsules:
  assumes "map (prepare_message frame (message_capsule encode fresh message)) targets = map Ok prepared"
  shows "list_all2 (capsule_for encode fresh frame message) targets prepared"
proof -
  have "length targets = length prepared" using arg_cong [OF assms, of length] by simp
  moreover have "capsule_for encode fresh frame message (targets ! n) (prepared ! n)" if "n < length targets" for n
  proof -
    obtain c i cap b where p: "targets ! n = (c, i)" "prepared ! n = (cap, b)"
      by (cases "targets ! n"; cases "prepared ! n")
    have "prepare_message frame (message_capsule encode fresh message) (targets ! n) = Ok (prepared ! n)"
      using arg_cong [OF assms, of "\<lambda>xs. xs ! n"] that \<open>length targets = length prepared\<close> by simp
    then show ?thesis
      by (auto simp: p prepare_message_capsule capsule_for_def body_request_new_def)
  qed
  ultimately show ?thesis by (simp add: list_all2_conv_all_nth)
qed


text \<open>
  C33. A retried capsule is enqueued only while its connection and stream are registered to that user on
  the path, and then only on its own stream; otherwise it is refused and no queue changes.
\<close>

theorem retry_only_to_registered_target:
  fixes ss :: "('m, 'w, 't) StreamSessions"
  assumes "user_sessions us invar" "dm_get (ss_sessions ss) path = Some stream" "invar (st_sessions stream)"
    and "disp_inv d"
    and result: "retry_send_message_to_subscriber_on_path us encode frame True user cap path ss d = (r, d1)"
  shows "(\<exists>e. r = Err e) \<and> d1 = d
    \<or> r = Ok cap
      \<and> Some (stream_ident_new user (cap_scid cap) (cap_stream_id cap)) \<in> set (us_all us (st_sessions stream))
      \<and> (\<exists>data framed. encode cap = Ok data \<and> frame data = Some framed
           \<and> published [(cap, body_request_new (cap_stream_id cap) [] (cap_scid cap) 0 framed False)] d d1)"
proof (cases "registered_to us user cap stream")
  case False
  then show ?thesis using result assms(2) by (auto simp: retry_send_message_to_subscriber_on_path_def)
next
  case True
  let ?cb = "\<lambda>_. case encode cap of Inr enc \<Rightarrow> Ok (cap, enc) | Inl e \<Rightarrow> Err e"
  let ?one = "send_one_or_more_message_on_stream frame True [cap_conn_ids cap] ?cb ss d"
  have res: "map_err ''Failed to send message to subscriber''
      (send_one_message_on_stream frame True (cap_conn_ids cap) ?cb ss d) = (r, d1)"
    using result assms(2) True by (simp add: retry_send_message_to_subscriber_on_path_def)
  obtain ident where "Some ident \<in> set (us_ids us [user] (st_sessions stream))"
    "si_user_id ident = user \<and> si_dcid ident = cap_scid cap \<and> si_stream_id ident = cap_stream_id cap"
    using True by (auto simp: registered_to_def list_ex_iff split: option.splits)
  then have "Some (stream_ident_new user (cap_scid cap) (cap_stream_id cap)) \<in> set (us_ids us [user] (st_sessions stream))"
    by (simp add: stream_ident_eq [symmetric])
  then have reg: "Some (stream_ident_new user (cap_scid cap) (cap_stream_id cap)) \<in> set (us_all us (st_sessions stream))"
    using user_sessions.ids_all [OF assms(1,3)] by blast
  show ?thesis
  proof (cases rule: publish_cases [OF assms(4), of frame "[cap_conn_ids cap]" ?cb ss True, case_names refused accepted])
    case (refused e)
    then show ?thesis using res by (auto simp: send_one_message_on_stream_def)
  next
    case (accepted prepared d2)
    then obtain p where p: "prepared = [p]" "prepare_message frame ?cb (cap_conn_ids cap) = Ok p" by auto
    then have "r = Ok (fst p)" "d1 = d2" using res accepted(4) by (simp_all add: send_one_message_on_stream_def)
    moreover obtain data framed where "encode cap = Ok data" "frame data = Some framed"
      "p = (cap, body_request_new (cap_stream_id cap) [] (cap_scid cap) 0 framed False)"
      using p(2) by (auto simp: prepare_message_def cap_conn_ids_def split: sum.splits option.splits)
    ultimately show ?thesis using accepted(3) reg p(1) by auto
  qed
qed

lemma stream_cleaning_get:
  "dm_get (stream_cleaning us c m) path
     = map_option (\<lambda>st. st\<lparr>st_sessions := snd (us_remove us c (st_sessions st))\<rparr>) (dm_get m path)"
  by (induction m) (auto simp: stream_cleaning_def dm_get_def)

text \<open>
  After a closed connection was cleaned up no stream lists it for any user, so nothing is published
  to it again, and every other registration is kept.
\<close>

theorem closed_connection_unsubscribed:
  fixes ss :: "('m, 'w, 't) StreamSessions"
  assumes "user_sessions us invar"
    and "\<forall>p st. dm_get (ss_sessions ss) p = Some st \<longrightarrow> invar (st_sessions st)"
    and "dm_get (ss_sessions (clean_closed_connexions us c ss)) path = Some stream"
  shows "\<exists>old. dm_get (ss_sessions ss) path = Some old \<and> invar (st_sessions stream)
    \<and> (\<forall>ident. Some ident \<in> set (us_all us (st_sessions stream)) \<longleftrightarrow>
         si_dcid ident \<noteq> c \<and> Some ident \<in> set (us_all us (st_sessions old)))
    \<and> (\<forall>user scids. c \<notin> fst ` set (subscriber_ids us user scids stream))"
proof -
  obtain old where old: "dm_get (ss_sessions ss) path = Some old"
    "stream = old\<lparr>st_sessions := snd (us_remove us c (st_sessions old))\<rparr>"
    using assms(3) by (auto simp: clean_closed_connexions_def stream_cleaning_get)
  have inv: "invar (st_sessions old)" "invar (st_sessions stream)"
    using assms(2) old(1) user_sessions.invar_remove [OF assms(1)] by (simp_all add: old(2))
  have all: "Some ident \<in> set (us_all us (st_sessions stream)) \<longleftrightarrow>
      si_dcid ident \<noteq> c \<and> Some ident \<in> set (us_all us (st_sessions old))" for ident
    using user_sessions.all_remove [OF assms(1) inv(1)] by (simp add: old(2))
  moreover have "c \<notin> fst ` set (subscriber_ids us user scids stream)" for user scids
    using user_sessions.subscriber_ids_set [OF assms(1) inv(2)] all by fastforce
  ultimately show ?thesis using old(1) inv(2) by blast
qed


subsection \<open>Witnesses\<close>

definition demo_down_stream :: "(unit, unit, registered) Stream" where
  "demo_down_stream = \<lparr>st_path = ''/p'', st_handler = (\<lambda>_ w. (Ok (), w)), st_middlewares = [], st_type = Down,
     st_sessions = us_register registered_impl 8 ([2], 4) (us_register registered_impl 7 ([1], 4) [])\<rparr>"

definition demo_sessions :: "(unit, unit, registered) StreamSessions" where
  "demo_sessions = \<lparr>ss_sessions = [(''/p'', demo_down_stream)], ss_station = True\<rparr>"

definition demo_queues :: "QueuedRequest dispatch" where
  "demo_queues = insert_new_channel 4 [1] dispatch_new"

definition demo_encode :: "nat capsule \<Rightarrow> string + bytes" where
  "demo_encode cap = Ok [of_nat (cap_message cap)]"

definition demo_frame :: "bytes \<Rightarrow> bytes option" where
  "demo_frame data = Some (of_nat (length data) # data)"

lemma demo_down_streams [simp]:
  "dm_get (ss_sessions demo_sessions) ''/p'' = Some demo_down_stream" "ss_station demo_sessions"
  "st_sessions demo_down_stream = [([1], 7, 4), ([2], 8, 4)]" "dm_wf (st_sessions demo_down_stream)" "disp_inv demo_queues"
  by (simp_all add: demo_sessions_def demo_down_stream_def dm_get_def registered_impl_def dm_insert_def dm_wf_def
      demo_queues_def disp_inv_insert disp_inv_new)

definition demo_result :: "(string + nat capsule list) \<times> QueuedRequest dispatch" where
  "demo_result = send_message_to_subscriber_on_path_with_filtered_scids registered_impl demo_encode (\<lambda>_. 5) demo_frame
     True 7 42 ''/p'' [] demo_sessions demo_queues"

definition demo_cap :: "nat capsule" where
  "demo_cap = \<lparr>cap_uuid = 5, cap_scid = [1], cap_stream_id = 4, cap_message = 42\<rparr>"

lemma demo_resolve [simp]: "resolve_sender demo_queues ([1], 4) = Ok 0"
  by (simp add: resolve_sender_def get_low_priority_sender_def demo_queues_def insert_new_channel_def
      dispatch_new_def already_in_map_def dm_contains_def inner_insert_def)

lemma demo_sends: "\<exists>d1. send_prepared [] [(0, cap, b)] demo_queues = (Ok [cap], d1)"
  by (simp add: demo_queues_def insert_new_channel_def dispatch_new_def already_in_map_def dm_contains_def
      inner_insert_def sender_send_connected fresh_channel_def split: prod.split)

lemma demo_result_ok: "\<exists>d1. demo_result = (Ok [demo_cap], d1)"
  using demo_sends [of demo_cap "body_request_new 4 [] [1] 0 [1, 42] False"]
  by (auto simp: demo_result_def send_message_to_subscriber_on_path_with_filtered_scids_def subscriber_ids_def
      registered_impl_def registered_idents_def to_stream_ident_def send_one_or_more_message_on_stream_def
      prepare_message_def message_capsule_def capsule_new_def demo_encode_def demo_frame_def demo_cap_def List.map_filter_simps)


theorem retry_only_to_registered_target_witness:
  "\<exists>e. retry_send_message_to_subscriber_on_path registered_impl demo_encode demo_frame True 8 demo_cap ''/p''
     demo_sessions demo_queues = (Err e, demo_queues)"
proof -
  let ?r = "retry_send_message_to_subscriber_on_path registered_impl demo_encode demo_frame True 8 demo_cap ''/p''
     demo_sessions demo_queues"
  have "?r = (fst ?r, snd ?r)" by simp
  from retry_only_to_registered_target [OF registered.user_sessions_axioms demo_down_streams(1,4,5) this]
  have "(\<exists>e. fst ?r = Err e) \<and> snd ?r = demo_queues"
    by (auto simp: registered_impl_def registered_idents_def to_stream_ident_def demo_cap_def stream_ident_new_def)
  then show ?thesis by (metis prod.collapse)
qed

lemma demo_cleaned:
  "dm_get (ss_sessions (clean_closed_connexions registered_impl [1] demo_sessions)) ''/p'' =
     Some (demo_down_stream\<lparr>st_sessions := [([2], 8, 4)]\<rparr>)"
  by (simp add: clean_closed_connexions_def stream_cleaning_def demo_sessions_def dm_get_def registered_impl_def
      dm_remove_def demo_down_stream_def dm_insert_def)

theorem closed_connection_unsubscribed_witness:
  "[1] \<notin> fst ` set (subscriber_ids registered_impl 7 [] (demo_down_stream\<lparr>st_sessions := [([2], 8, 4)]\<rparr>))"
proof -
  have wf: "\<forall>p st. dm_get (ss_sessions demo_sessions) p = Some st \<longrightarrow> dm_wf (st_sessions st)"
    by (auto simp: demo_sessions_def dm_get_def dm_wf_def split: if_splits)
  show ?thesis
    using closed_connection_unsubscribed [OF registered.user_sessions_axioms wf demo_cleaned] by blast
qed

end
