(* ===== verification/ServerSetup.thy ===== *)
theory ServerSetup
  imports RetryToken HttpRequest StreamSessions
begin

section \<open>Configuration and start-up\<close>

text \<open>
  Model of \<open>src/server_config.rs\<close>, \<open>src/server_error.rs\<close>, \<open>src/server_init.rs\<close> and of the start of \<open>run\<close> in
  \<open>src/server_init/quiche_http3_server.rs\<close>. What the operating system and \<open>quiche\<close> answer is a
  parameter: a step that fails gives the text of its cause. A panic is None. Parsing a socket
  address (\<open>str::parse\<close>) is a parameter as well.
\<close>

subsection \<open>Errors\<close>

datatype ServerRunError =
    Configuration string
  | Run_Io string string
  | Run_Quic string string
  | Run_Http3 string
  | Entropy string
  | WorkerPanicked
  | WorkerStopped

fun phase :: "ServerRunError \<Rightarrow> string" where
  "phase (Configuration p) = p"
| "phase (Entropy p) = p"
| "phase (Run_Io p cause) = p"
| "phase (Run_Quic p cause) = p"
| "phase WorkerPanicked = ''network_worker''"
| "phase WorkerStopped = ''network_worker''"
| "phase (Run_Http3 cause) = ''http3_config''"

fun category :: "ServerRunError \<Rightarrow> string" where
  "category (Configuration p) = ''configuration''"
| "category (Run_Io p cause) = ''io''"
| "category (Run_Quic p cause) = ''quic''"
| "category (Run_Http3 cause) = ''http3''"
| "category (Entropy p) = ''entropy''"
| "category WorkerPanicked = ''worker_panic''"
| "category WorkerStopped = ''worker_stopped''"

text \<open>\<open>Error::source\<close>, and \<open>Display\<close>, which appends the cause when there is one.\<close>

fun error_source :: "ServerRunError \<Rightarrow> string option" where
  "error_source (Run_Io p cause) = Some cause"
| "error_source (Run_Quic p cause) = Some cause"
| "error_source (Run_Http3 cause) = Some cause"
| "error_source _ = None"

definition display_error :: "ServerRunError \<Rightarrow> string" where
  "display_error e = ''category='' @ category e @ '' phase='' @ phase e
     @ (case error_source e of Some cause \<Rightarrow> '' cause='' @ cause | None \<Rightarrow> [])"


subsection \<open>\<open>ServerConfig\<close> and its builder\<close>

type_synonym os_path = string

record ServerConfig =
  sc_address :: socket_addr
  sc_storage :: os_path
  sc_cert :: string
  sc_key :: string

record ServerConfigBuilder =
  cb_address :: "string option"
  cb_storage :: "os_path option"
  cb_cert :: "os_path option"
  cb_key :: "os_path option"

definition server_config_new :: ServerConfigBuilder where
  "server_config_new = \<lparr>cb_address = None, cb_storage = None, cb_cert = None, cb_key = None\<rparr>"

definition set_address :: "string \<Rightarrow> ServerConfigBuilder \<Rightarrow> ServerConfigBuilder" where
  "set_address a b = b\<lparr>cb_address := Some a\<rparr>"

definition set_cert_path :: "os_path \<Rightarrow> ServerConfigBuilder \<Rightarrow> ServerConfigBuilder" where
  "set_cert_path p b = b\<lparr>cb_cert := Some p\<rparr>"

definition set_file_storage_path :: "os_path \<Rightarrow> ServerConfigBuilder \<Rightarrow> ServerConfigBuilder" where
  "set_file_storage_path p b = b\<lparr>cb_storage := Some p\<rparr>"

definition set_key_path :: "os_path \<Rightarrow> ServerConfigBuilder \<Rightarrow> ServerConfigBuilder" where
  "set_key_path p b = b\<lparr>cb_key := Some p\<rparr>"

text \<open>\<open>Path::to_str\<close> gives the path's bytes when they are UTF-8.\<close>

definition to_str :: "os_path \<Rightarrow> string option" where
  "to_str p = (if valid_utf8 p then Some p else None)"

definition ok_or :: "'e \<Rightarrow> 'a option \<Rightarrow> 'e + 'a" where
  "ok_or e x = (case x of Some y \<Rightarrow> Ok y | None \<Rightarrow> Err e)"

text \<open>The result, and the directory that \<open>create_dir_all\<close> was asked to create.\<close>

definition try_build ::
  "(string \<Rightarrow> socket_addr option) \<Rightarrow> (os_path \<Rightarrow> string option) \<Rightarrow> ServerConfigBuilder
     \<Rightarrow> (ServerRunError + ServerConfig) \<times> os_path option" where
  "try_build parse create_dir_all b =
     (case ok_or (Configuration ''address'') (Option.bind (cb_address b) parse) of
        Inl e \<Rightarrow> (Err e, None)
      | Inr address \<Rightarrow>
     (case ok_or (Configuration ''storage_path'') (cb_storage b) of
        Inl e \<Rightarrow> (Err e, None)
      | Inr storage \<Rightarrow>
     (case ok_or (Configuration ''certificate_path'') (Option.bind (cb_cert b) to_str) of
        Inl e \<Rightarrow> (Err e, None)
      | Inr certificate \<Rightarrow>
     (case ok_or (Configuration ''key_path'') (Option.bind (cb_key b) to_str) of
        Inl e \<Rightarrow> (Err e, None)
      | Inr private_key \<Rightarrow>
     (case create_dir_all storage of
        Some cause \<Rightarrow> (Err (Run_Io ''storage'' cause), Some storage)
      | None \<Rightarrow> (Ok \<lparr>sc_address = address, sc_storage = storage, sc_cert = certificate,
                      sc_key = private_key\<rparr>, Some storage))))))"

definition config_build ::
  "(string \<Rightarrow> socket_addr option) \<Rightarrow> (os_path \<Rightarrow> string option) \<Rightarrow> ServerConfigBuilder \<Rightarrow> ServerConfig option" where
  "config_build parse create_dir_all b =
     (case fst (try_build parse create_dir_all b) of Inr c \<Rightarrow> Some c | Inl _ \<Rightarrow> None)"


subsection \<open>The prerequisites of the network worker\<close>

datatype start_step =
    Make_Retry_Key | Quic_Config | Load_Certificate | Load_Private_Key | Set_Alpn | Http3_Config
  | Make_Connection_Key | Setup_Poll | Bind_Udp | Register_Udp | Make_Waker | Get_Local_Address

definition start_steps :: "start_step list" where
  "start_steps = [Make_Retry_Key, Quic_Config, Load_Certificate, Load_Private_Key, Set_Alpn, Http3_Config,
     Make_Connection_Key, Setup_Poll, Bind_Udp, Register_Udp, Make_Waker, Get_Local_Address]"

fun step_error :: "start_step \<Rightarrow> string \<Rightarrow> ServerRunError" where
  "step_error Make_Retry_Key cause = Entropy ''retry_key''"
| "step_error Quic_Config cause = Run_Quic ''quic_config'' cause"
| "step_error Load_Certificate cause = Run_Quic ''certificate'' cause"
| "step_error Load_Private_Key cause = Run_Quic ''private_key'' cause"
| "step_error Set_Alpn cause = Run_Quic ''alpn'' cause"
| "step_error Http3_Config cause = Run_Http3 cause"
| "step_error Make_Connection_Key cause = Entropy ''connection_id_key''"
| "step_error Setup_Poll cause = Run_Io ''poll_setup'' cause"
| "step_error Bind_Udp cause = Run_Io ''udp_bind'' cause"
| "step_error Register_Udp cause = Run_Io ''udp_register'' cause"
| "step_error Make_Waker cause = Run_Io ''waker'' cause"
| "step_error Get_Local_Address cause = Run_Io ''local_address'' cause"

text \<open>The steps that were taken, and the first failure: \<open>?\<close> ends the function there.\<close>

fun prepare :: "(start_step \<Rightarrow> string option) \<Rightarrow> start_step list \<Rightarrow> start_step list \<times> (ServerRunError + unit)" where
  "prepare fails [] = ([], Ok ())"
| "prepare fails (s # ss) =
     (case fails s of
        Some cause \<Rightarrow> ([s], Err (step_error s cause))
      | None \<Rightarrow> (let (taken, r) = prepare fails ss in (s # taken, r)))"

datatype worker = File_Writers | Chunking_Worker | Signal_Receiver | Response_Workers | Header_Workers

definition workers_started :: "worker list" where
  "workers_started = [File_Writers, Chunking_Worker, Signal_Receiver, Response_Workers, Header_Workers]"

text \<open>
  \<open>run\<close>: the prerequisites, the workers, then the loop, which ends with an error if it ends.
\<close>

definition run_network ::
  "(start_step \<Rightarrow> string option) \<Rightarrow> ServerRunError \<Rightarrow> ServerConfig \<Rightarrow> (ServerRunError + unit) \<times> worker list" where
  "run_network fails loop_ends config =
     (case snd (prepare fails start_steps) of
        Inl e \<Rightarrow> (Err e, [])
      | Inr _ \<Rightarrow> (Err loop_ends, workers_started))"


subsection \<open>\<open>Http3ServerBuilder\<close>\<close>

datatype joined = Worker_Returned "ServerRunError + unit" | Worker_Panicked

definition try_run_blocking ::
  "(ServerRunError + ServerConfig) \<Rightarrow> string option \<Rightarrow> (ServerConfig \<Rightarrow> joined) \<Rightarrow> ServerRunError + unit" where
  "try_run_blocking config spawn_fails worker =
     (case config of
        Inl e \<Rightarrow> Err e
      | Inr c \<Rightarrow>
          (case spawn_fails of
             Some cause \<Rightarrow> Err (Run_Io ''worker_spawn'' cause)
           | None \<Rightarrow>
               (case worker c of
                  Worker_Returned (Inl e) \<Rightarrow> Err e
                | Worker_Returned (Inr _) \<Rightarrow> Err WorkerStopped
                | Worker_Panicked \<Rightarrow> Err WorkerPanicked)))"

text \<open>\<open>run_blocking\<close> panics on every outcome, with this message.\<close>

definition run_blocking_panic :: "ServerRunError + unit \<Rightarrow> string" where
  "run_blocking_panic r = ''blocking server failed: ''
     @ (case r of Inl e \<Rightarrow> display_error e | Inr _ \<Rightarrow> display_error WorkerStopped)"

text \<open>\<open>http3_server_new\<close> is \<open>Http3Server::new\<close>; \<open>run_detached\<close> returns the server's configuration or panics.\<close>

definition http3_server_new :: "string \<Rightarrow> ServerConfigBuilder" where
  "http3_server_new socket = set_address socket server_config_new"

definition run_detached ::
  "(string \<Rightarrow> socket_addr option) \<Rightarrow> (os_path \<Rightarrow> string option) \<Rightarrow> ServerConfigBuilder \<Rightarrow> ServerConfig option" where
  "run_detached parse create_dir_all b = config_build parse create_dir_all b"

definition down_stream ::
  "'t sessions_impl \<Rightarrow> string \<Rightarrow> (('m, 'w) StreamBuilder \<Rightarrow> ('m, 'w) StreamBuilder)
     \<Rightarrow> ('m, 'w, 't) StreamSessions option \<Rightarrow> ('m, 'w, 't) StreamSessions option" where
  "down_stream us path stream_builder_cb stream_sessions =
     map_option (create_stream us path Down stream_builder_cb) stream_sessions"


subsection \<open>Failures\<close>

lemma prepare_cases:
  obtains (failed) before s after cause where "ss = before @ s # after" "\<forall>x \<in> set before. fails x = None"
      "fails s = Some cause" "prepare fails ss = (before @ [s], Err (step_error s cause))"
    | (passed) "\<forall>s \<in> set ss. fails s = None" "prepare fails ss = (ss, Ok ())"
proof (induction ss arbitrary: thesis)
  case Nil
  then show ?case by simp
next
  case (Cons t ts)
  show ?case
  proof (cases "fails t")
    case (Some cause)
    then show ?thesis using Cons.prems(1) [of "[]" t ts cause] by simp
  next
    case None
    show ?thesis
    proof (rule Cons.IH)
      fix before s after cause
      assume "ts = before @ s # after" "\<forall>x \<in> set before. fails x = None" "fails s = Some cause"
        "prepare fails ts = (before @ [s], Err (step_error s cause))"
      then show ?thesis using None by (intro Cons.prems(1) [of "t # before" s after cause]) auto
    next
      assume "\<forall>s \<in> set ts. fails s = None" "prepare fails ts = (ts, Ok ())"
      then show ?thesis using None by (intro Cons.prems(2)) auto
    qed
  qed
qed


text \<open>A start whose certificate cannot be loaded.\<close>

definition no_certificate :: "start_step \<Rightarrow> string option" where
  "no_certificate s = (if s = Load_Certificate then Some ''no file'' else None)"

definition demo_config :: ServerConfig where
  "demo_config = \<lparr>sc_address = SockV4 1 443, sc_storage = ''store'', sc_cert = ''c.pem'', sc_key = ''k.pem''\<rparr>"


end
