(* ===== verification/NetworkReceive.thy ===== *)
theory NetworkReceive
  imports PathVerifier HeaderPipeline NetworkRound ServerSetup
begin

section \<open>The receiving side of the network loop\<close>

text \<open>
  Model of the receiving half of \<open>run\<close> in \<open>src/server_init/quiche_http3_server.rs\<close>: the admission of a
  datagram (version negotiation, stateless retry, validated token), the lookup of its connection,
  the creation of the HTTP/3 connection, the HTTP/3 events, the passes of the loop and the garbage
  collection of closed connections. The library's calls are the fields of \<open>intake\<close>, beside those of
  \<open>transport\<close>; what the socket and the poll answer is the input of a pass. Loops over the library's
  events and body bytes have fuel. None is a panic or a lack of fuel.
\<close>

subsection \<open>The library's calls\<close>

datatype packet_type = Packet_Initial | Packet_Other

record packet_header =
  ph_type :: packet_type
  ph_version :: nat
  ph_dcid :: scid
  ph_scid :: scid
  ph_token :: "bytes option"

datatype h3_event =
    Headers_Event "h3_header list" bool
  | Data_Event
  | Finished_Event
  | Reset_Event
  | PriorityUpdate_Event
  | GoAway_Event

record ('c, 'h) intake =
  in_header :: "bytes \<Rightarrow> packet_header option"
  in_conn_id :: "scid \<Rightarrow> scid"
  in_version_supported :: "nat \<Rightarrow> bool"
  in_negotiate_version :: "scid \<Rightarrow> scid \<Rightarrow> bytes option"
  in_retry :: "scid \<Rightarrow> scid \<Rightarrow> scid \<Rightarrow> bytes \<Rightarrow> nat \<Rightarrow> bytes option"
  in_accept :: "scid \<Rightarrow> bytes \<Rightarrow> socket_addr \<Rightarrow> 'c option"
  in_recv :: "bytes \<Rightarrow> socket_addr \<Rightarrow> 'c \<Rightarrow> bool \<times> 'c"
  in_ready :: "'c \<Rightarrow> bool"
  in_closed :: "'c \<Rightarrow> bool"
  in_timeout :: "'c \<Rightarrow> 'c"
  in_h3_new :: "'c \<Rightarrow> 'h option \<times> 'c"
  in_poll :: "'h \<times> 'c \<Rightarrow> (h3_error + stream_id \<times> h3_event) \<times> 'h \<times> 'c"
  in_recv_body :: "stream_id \<Rightarrow> 'h \<times> 'c \<Rightarrow> bytes option \<times> 'h \<times> 'c"

text \<open>
  The state of the network thread and what it shares with the workers. \<open>nw_outbox\<close> are the datagrams
  given to the socket, those of the connections and those answered without one.
\<close>

record ('c, 'h, 'm, 'l, 'f, 'w, 't) network =
  nw_clients :: "('c, 'h) client_map"
  nw_pipeline :: "('m, 'l, 'f, 'w) pipeline"
  nw_verifier :: InFlightStreamsPathVerifier
  nw_sessions :: "('m, 'w, 't) StreamSessions option"
  nw_outbox :: "(bytes \<times> socket_addr) list"

text \<open>The keys and the clock of the retry tokens, and where requests are stored.\<close>

record 'key gate =
  gt_sign :: "'key \<Rightarrow> bytes \<Rightarrow> bytes"
  gt_verify :: "'key \<Rightarrow> bytes \<Rightarrow> bytes \<Rightarrow> bool"
  gt_tokens :: "'key RetryTokens"
  gt_clock :: nat


subsection \<open>HTTP/3 events\<close>

type_synonym ('c, 'h, 'm, 'l, 'f, 'w) intake_state =
  "('c, 'h) Client \<times> ('m, 'l, 'f, 'w) pipeline \<times> InFlightStreamsPathVerifier"

definition handle_headers_event ::
  "('c, 'h) transport \<Rightarrow> stream_id \<Rightarrow> h3_header list \<Rightarrow> bool
     \<Rightarrow> ('c, 'h, 'm, 'l, 'f, 'w) intake_state \<Rightarrow> ('c, 'h, 'm, 'l, 'f, 'w) intake_state" where
  "handle_headers_event tr i headers more_frames = (\<lambda>(cl, p, v).
     (let s = tr_source_id tr (conn cl); c = tr_trace_id tr (conn cl) in
      case extract_path_from_hdr headers of
        Some path \<Rightarrow>
          (cl, process_header i s c headers more_frames (on_buffer (begin_request c i) p),
           snd (insert_stream_path_for_conn s i path v))
      | None \<Rightarrow>
          (cl\<lparr>conn := tr_stream_shutdown tr i Shutdown_Write 0x10e
                        (tr_stream_shutdown tr i Shutdown_Read 0x10e (conn cl))\<rparr>,
           on_buffer (cancel_request c i) p, snd (is_finished_request_a_valid_path s i v))))"

definition set_request_in_table ::
  "path_buf \<Rightarrow> io_env \<Rightarrow> stream_id \<Rightarrow> conn_id \<Rightarrow> ('l, 'f) requests_state \<Rightarrow> ('l, 'f) requests_state" where
  "set_request_in_table storage env i c rq =
     add_partial_request_before_header_treatment storage env c i (Some data_management_default) None False rq"

text \<open>One packet of a request body: a request the table does not know yet is entered first.\<close>

definition store_body_packet ::
  "path_buf \<Rightarrow> io_env \<Rightarrow> stream_id \<Rightarrow> scid \<Rightarrow> conn_id \<Rightarrow> bytes \<Rightarrow> ('l, 'f) requests_state \<Rightarrow> ('l, 'f) requests_state" where
  "store_body_packet storage env i s c packet rq =
     (let rq1 = (if is_request_set_in_table i c rq then rq else set_request_in_table storage env i c rq)
      in snd (write_body_packet c s i packet False rq1))"

definition on_requests ::
  "(('l, 'f) requests_state \<Rightarrow> ('l, 'f) requests_state) \<Rightarrow> ('m, 'l, 'f, 'w) pipeline \<Rightarrow> ('m, 'l, 'f, 'w) pipeline" where
  "on_requests f = on_buffer (on_server (\<lambda>sv. sv\<lparr>sv_requests := f (sv_requests sv)\<rparr>))"

fun read_body ::
  "nat \<Rightarrow> ('c, 'h) transport \<Rightarrow> ('c, 'h) intake \<Rightarrow> path_buf \<Rightarrow> io_env \<Rightarrow> stream_id
     \<Rightarrow> ('c, 'h, 'm, 'l, 'f, 'w) intake_state \<Rightarrow> ('c, 'h, 'm, 'l, 'f, 'w) intake_state option" where
  "read_body 0 tr ik storage env i st = None"
| "read_body (Suc fuel) tr ik storage env i (cl, p, v) =
     (case with_h3 (in_recv_body ik i) cl of
        None \<Rightarrow> None
      | Some (None, cl1) \<Rightarrow> Some (cl1, p, v)
      | Some (Some packet, cl1) \<Rightarrow>
          read_body fuel tr ik storage env i
            (cl1, on_requests (store_body_packet storage env i (tr_source_id tr (conn cl1)) (tr_trace_id tr (conn cl1)) packet) p, v))"

definition handle_finished_event ::
  "('c, 'h) transport \<Rightarrow> stream_id \<Rightarrow> ('c, 'h, 'm, 'l, 'f, 'w) intake_state \<Rightarrow> ('c, 'h, 'm, 'l, 'f, 'w) intake_state" where
  "handle_finished_event tr i = (\<lambda>(cl, p, v).
     (let c = tr_trace_id tr (conn cl); s = tr_source_id tr (conn cl);
          (valid, v1) = is_finished_request_a_valid_path s i v
      in (cl, on_buffer (if valid then handle_finished_stream c s i else cancel_request c i) p, v1)))"

definition handle_reset_event ::
  "('c, 'h) transport \<Rightarrow> stream_id \<Rightarrow> ('c, 'h, 'm, 'l, 'f, 'w) intake_state \<Rightarrow> ('c, 'h, 'm, 'l, 'f, 'w) intake_state" where
  "handle_reset_event tr i = (\<lambda>(cl, p, v).
     (cl, on_buffer (cancel_request (tr_trace_id tr (conn cl)) i) p,
      snd (is_finished_request_a_valid_path (tr_source_id tr (conn cl)) i v)))"

definition handle_event ::
  "nat \<Rightarrow> ('c, 'h) transport \<Rightarrow> ('c, 'h) intake \<Rightarrow> path_buf \<Rightarrow> io_env \<Rightarrow> stream_id \<Rightarrow> h3_event
     \<Rightarrow> ('c, 'h, 'm, 'l, 'f, 'w) intake_state \<Rightarrow> ('c, 'h, 'm, 'l, 'f, 'w) intake_state option" where
  "handle_event fuel tr ik storage env i ev st =
     (case ev of
        Headers_Event headers more_frames \<Rightarrow> Some (handle_headers_event tr i headers more_frames st)
      | Data_Event \<Rightarrow> read_body fuel tr ik storage env i st
      | Finished_Event \<Rightarrow> Some (handle_finished_event tr i st)
      | Reset_Event \<Rightarrow> Some (handle_reset_event tr i st)
      | PriorityUpdate_Event \<Rightarrow> Some st
      | GoAway_Event \<Rightarrow> Some st)"

text \<open>The loop over the events: any error, \<open>Done\<close> among them, ends it.\<close>

fun read_events ::
  "nat \<Rightarrow> ('c, 'h) transport \<Rightarrow> ('c, 'h) intake \<Rightarrow> path_buf \<Rightarrow> io_env
     \<Rightarrow> ('c, 'h, 'm, 'l, 'f, 'w) intake_state \<Rightarrow> ('c, 'h, 'm, 'l, 'f, 'w) intake_state option" where
  "read_events 0 tr ik storage env st = None"
| "read_events (Suc fuel) tr ik storage env (cl, p, v) =
     (case with_h3 (in_poll ik) cl of
        None \<Rightarrow> None
      | Some (Inl _, cl1) \<Rightarrow> Some (cl1, p, v)
      | Some (Inr (i, ev), cl1) \<Rightarrow>
          (case handle_event fuel tr ik storage env i ev (cl1, p, v) of
             None \<Rightarrow> None
           | Some st \<Rightarrow> read_events fuel tr ik storage env st))"


subsection \<open>A datagram\<close>

definition client_new :: "scid \<Rightarrow> 'c \<Rightarrow> ('c, 'h) Client" where
  "client_new s c = \<lparr>conn = c, http3_conn = None, partial_responses = [], progress_status_requests = [],
     headers_sending_tracker = [], body_sending_tracker = [], pending_body_queue = fifo_new s,
     conn_stats = conn_stats_new\<rparr>"

datatype 'c admission =
    Known scid
  | Admitted scid 'c
  | Replied bytes
  | Dropped

text \<open>What is done with a datagram's header; \<open>unwrap\<close>s of the library's answers may panic.\<close>

definition admit ::
  "('c, 'h) intake \<Rightarrow> 'key gate \<Rightarrow> packet_header \<Rightarrow> socket_addr \<Rightarrow> ('c, 'h) client_map \<Rightarrow> 'c admission option" where
  "admit ik gt hdr from clients =
     (let conn_id = in_conn_id ik (ph_dcid hdr) in
      if \<not> dm_contains clients (ph_dcid hdr) \<and> \<not> dm_contains clients conn_id
      then
        if ph_type hdr \<noteq> Packet_Initial then Some Dropped
        else if \<not> in_version_supported ik (ph_version hdr)
        then map_option Replied (in_negotiate_version ik (ph_scid hdr) (ph_dcid hdr))
        else
          (case ph_token hdr of
             None \<Rightarrow> Some Dropped
           | Some token \<Rightarrow>
               if token = []
               then (case mint (gt_sign gt) (gt_tokens gt) (ph_dcid hdr) conn_id from (gt_clock gt) of
                       None \<Rightarrow> Some Dropped
                     | Some new_token \<Rightarrow>
                         map_option Replied
                           (in_retry ik (ph_scid hdr) (ph_dcid hdr) conn_id new_token (ph_version hdr)))
               else (case validate (gt_verify gt) (gt_tokens gt) token (ph_dcid hdr) from (gt_clock gt) of
                       None \<Rightarrow> Some Dropped
                     | Some odcid \<Rightarrow> map_option (Admitted (ph_dcid hdr)) (in_accept ik (ph_dcid hdr) odcid from)))
      else Some (Known (if dm_contains clients (ph_dcid hdr) then ph_dcid hdr else conn_id)))"

text \<open>The HTTP/3 connection is made once; when that fails the datagram is done with.\<close>

definition open_h3 :: "('c, 'h) intake \<Rightarrow> ('c, 'h) Client \<Rightarrow> bool \<times> ('c, 'h) Client" where
  "open_h3 ik cl =
     (if in_ready ik (conn cl) \<and> http3_conn cl = None
      then (case in_h3_new ik (conn cl) of
              (None, c) \<Rightarrow> (False, cl\<lparr>conn := c\<rparr>)
            | (Some h, c) \<Rightarrow> (True, cl\<lparr>conn := c, http3_conn := Some h\<rparr>))
      else (True, cl))"

definition feed_client ::
  "nat \<Rightarrow> ('c, 'h) transport \<Rightarrow> ('c, 'h) intake \<Rightarrow> path_buf \<Rightarrow> io_env \<Rightarrow> bytes \<Rightarrow> socket_addr
     \<Rightarrow> ('c, 'h, 'm, 'l, 'f, 'w) intake_state \<Rightarrow> ('c, 'h, 'm, 'l, 'f, 'w) intake_state option" where
  "feed_client fuel tr ik storage env pkt from = (\<lambda>(cl, p, v).
     (let (received, c) = in_recv ik pkt from (conn cl); cl1 = cl\<lparr>conn := c\<rparr> in
      if \<not> received then Some (cl1, p, v)
      else
        (let (go_on, cl2) = open_h3 ik cl1 in
         if \<not> go_on \<or> http3_conn cl2 = None then Some (cl2, p, v)
         else read_events fuel tr ik storage env (cl2, p, v))))"

definition feed ::
  "nat \<Rightarrow> ('c, 'h) transport \<Rightarrow> ('c, 'h) intake \<Rightarrow> path_buf \<Rightarrow> io_env \<Rightarrow> bytes \<Rightarrow> socket_addr \<Rightarrow> scid
     \<Rightarrow> ('c, 'h, 'm, 'l, 'f, 'w, 't) network \<Rightarrow> ('c, 'h, 'm, 'l, 'f, 'w, 't) network option" where
  "feed fuel tr ik storage env pkt from k nw =
     (case dm_get (nw_clients nw) k of
        None \<Rightarrow> None
      | Some cl \<Rightarrow>
          map_option (\<lambda>(cl1, p, v). nw\<lparr>nw_clients := dm_insert k cl1 (nw_clients nw), nw_pipeline := p, nw_verifier := v\<rparr>)
            (feed_client fuel tr ik storage env pkt from (cl, nw_pipeline nw, nw_verifier nw)))"

text \<open>
  One datagram. \<open>reply\<close> is what \<open>send_to\<close> answers to a direct reply: sent, would block (reading stops)
  or an error (a panic). The result says whether reading goes on.
\<close>

definition send_reply ::
  "bool option \<Rightarrow> bytes \<Rightarrow> socket_addr \<Rightarrow> ('c, 'h, 'm, 'l, 'f, 'w, 't) network
     \<Rightarrow> (bool \<times> ('c, 'h, 'm, 'l, 'f, 'w, 't) network) option" where
  "send_reply reply out from nw =
     (case reply of
        Some True \<Rightarrow> Some (True, nw\<lparr>nw_outbox := nw_outbox nw @ [(out, from)]\<rparr>)
      | Some False \<Rightarrow> Some (False, nw)
      | None \<Rightarrow> None)"

definition receive_datagram ::
  "nat \<Rightarrow> ('c, 'h) transport \<Rightarrow> ('c, 'h) intake \<Rightarrow> 'key gate \<Rightarrow> path_buf \<Rightarrow> io_env \<Rightarrow> bytes \<Rightarrow> socket_addr
     \<Rightarrow> bool option \<Rightarrow> ('c, 'h, 'm, 'l, 'f, 'w, 't) network
     \<Rightarrow> (bool \<times> ('c, 'h, 'm, 'l, 'f, 'w, 't) network) option" where
  "receive_datagram fuel tr ik gt storage env pkt from reply nw =
     (case in_header ik pkt of
        None \<Rightarrow> Some (True, nw)
      | Some hdr \<Rightarrow>
          (case admit ik gt hdr from (nw_clients nw) of
             None \<Rightarrow> None
           | Some Dropped \<Rightarrow> Some (True, nw)
           | Some (Replied out) \<Rightarrow> send_reply reply out from nw
           | Some (Admitted s c) \<Rightarrow>
               map_option (Pair True) (feed fuel tr ik storage env pkt from s
                 (nw\<lparr>nw_clients := dm_insert s (client_new s c) (nw_clients nw)\<rparr>))
           | Some (Known k) \<Rightarrow> map_option (Pair True) (feed fuel tr ik storage env pkt from k nw)))"


subsection \<open>A pass of the loop\<close>

text \<open>What \<open>recv_from\<close> gives, in order; after the last one it would block.\<close>

datatype socket_read =
    Read_Datagram bytes socket_addr "bool option"
  | Read_Interrupted
  | Read_Failed string

fun read_loop ::
  "nat \<Rightarrow> ('c, 'h) transport \<Rightarrow> ('c, 'h) intake \<Rightarrow> 'key gate \<Rightarrow> path_buf \<Rightarrow> io_env \<Rightarrow> socket_read list
     \<Rightarrow> ('c, 'h, 'm, 'l, 'f, 'w, 't) network
     \<Rightarrow> (ServerRunError + ('c, 'h, 'm, 'l, 'f, 'w, 't) network) option" where
  "read_loop fuel tr ik gt storage env [] nw = Some (Ok nw)"
| "read_loop fuel tr ik gt storage env (Read_Interrupted # reads) nw = read_loop fuel tr ik gt storage env reads nw"
| "read_loop fuel tr ik gt storage env (Read_Failed cause # reads) nw = Some (Err (Run_Io ''udp_receive'' cause))"
| "read_loop fuel tr ik gt storage env (Read_Datagram pkt from reply # reads) nw =
     (case receive_datagram fuel tr ik gt storage env pkt from reply nw of
        None \<Rightarrow> None
      | Some (False, nw1) \<Rightarrow> Some (Ok nw1)
      | Some (True, nw1) \<Rightarrow> read_loop fuel tr ik gt storage env reads nw1)"

text \<open>A poll without events has timed out.\<close>

definition expire_timers :: "('c, 'h) intake \<Rightarrow> ('c, 'h) client_map \<Rightarrow> ('c, 'h) client_map" where
  "expire_timers ik clients = map (\<lambda>(k, cl). (k, cl\<lparr>conn := in_timeout ik (conn cl)\<rparr>)) clients"

text \<open>The sending half for one connection of the map, with the server inside the pipeline.\<close>

definition send_client ::
  "nat \<Rightarrow> ('c, 'h) transport \<Rightarrow> files_env \<Rightarrow> scid \<Rightarrow> ('c, 'h, 'm, 'l, 'f, 'w, 't) network
     \<Rightarrow> ('c, 'h, 'm, 'l, 'f, 'w, 't) network option" where
  "send_client fuel tr fe k nw =
     (case dm_get (nw_clients nw) k of
        None \<Rightarrow> Some nw
      | Some cl \<Rightarrow>
          map_option (\<lambda>(cl1, sv). nw\<lparr>nw_clients := dm_insert k cl1 (nw_clients nw),
              nw_pipeline := on_buffer (on_server (\<lambda>_. sv)) (nw_pipeline nw)\<rparr>)
            (send_round fuel tr fe (cl, hp_server (nw_pipeline nw))))"

definition send_all ::
  "nat \<Rightarrow> ('c, 'h) transport \<Rightarrow> files_env \<Rightarrow> ('c, 'h, 'm, 'l, 'f, 'w, 't) network
     \<Rightarrow> ('c, 'h, 'm, 'l, 'f, 'w, 't) network option" where
  "send_all fuel tr fe nw = for_each (send_client fuel tr fe) (map fst (nw_clients nw)) nw"

text \<open>Garbage collection: \<open>retain\<close> visits every connection and keeps those that are not closed.\<close>

definition collect_client ::
  "('c, 'h) transport \<Rightarrow> ('c, 'h) intake \<Rightarrow> 't sessions_impl \<Rightarrow> ('c, 'h) Client
     \<Rightarrow> ('c, 'h, 'm, 'l, 'f, 'w, 't) network \<Rightarrow> ('c, 'h, 'm, 'l, 'f, 'w, 't) network" where
  "collect_client tr ik us cl nw =
     (if in_closed ik (conn cl)
      then (let s = tr_source_id tr (conn cl) in
            nw\<lparr>nw_pipeline := on_buffer (cancel_connection (tr_trace_id tr (conn cl))) (nw_pipeline nw),
               nw_verifier := verifier_remove_connection s (nw_verifier nw),
               nw_sessions := map_option (clean_closed_connexions us s) (nw_sessions nw)\<rparr>)
      else nw)"

definition collect_closed ::
  "('c, 'h) transport \<Rightarrow> ('c, 'h) intake \<Rightarrow> 't sessions_impl
     \<Rightarrow> ('c, 'h, 'm, 'l, 'f, 'w, 't) network \<Rightarrow> ('c, 'h, 'm, 'l, 'f, 'w, 't) network" where
  "collect_closed tr ik us nw =
     (let nw1 = fold (\<lambda>(_, cl). collect_client tr ik us cl) (nw_clients nw) nw
      in nw1\<lparr>nw_clients := filter (\<lambda>(_, cl). \<not> in_closed ik (conn cl)) (nw_clients nw)\<rparr>)"

end
