(* ===== verification/NetworkTurn.thy ===== *)
theory NetworkTurn
  imports NetworkReceive "HOL-Library.Sublist"
begin

section \<open>A turn of the network loop\<close>

text \<open>
  The last phases of a pass of \<open>run\<close> in \<open>src/server_init/quiche_http3_server.rs\<close>: the datagrams that
  every connection produces are given to the socket, and the pass as a whole. The calls of the
  library are the fields of \<open>egress\<close>; \<open>sock\<close> is what \<open>send_to\<close> answers: sent, would block, or an
  error, which panics. Waiting for the instant at which the previous packet was due changes nothing
  and has no counterpart.
\<close>

subsection \<open>Sending datagrams\<close>

datatype send_result =
    Send_Packet bytes socket_addr
  | Send_Done
  | Send_Error string

record 'c egress =
  eg_send :: "'c \<Rightarrow> send_result \<times> 'c"
  eg_close :: "'c \<Rightarrow> 'c"
  eg_path_stats :: "'c \<Rightarrow> (nat \<times> usize) option"

type_synonym outbox = "(bytes \<times> socket_addr) list"

fun transmit ::
  "nat \<Rightarrow> 'c egress \<Rightarrow> (bytes \<Rightarrow> socket_addr \<Rightarrow> bool option) \<Rightarrow> ('c, 'h) Client \<times> outbox
     \<Rightarrow> (('c, 'h) Client \<times> outbox) option" where
  "transmit 0 eg sock st = None"
| "transmit (Suc fuel) eg sock (cl, out) =
     (case eg_send eg (conn cl) of
        (Send_Done, c) \<Rightarrow> Some (cl\<lparr>conn := c\<rparr>, out)
      | (Send_Error e, c) \<Rightarrow> Some (cl\<lparr>conn := eg_close eg c\<rparr>, out)
      | (Send_Packet packet to, c) \<Rightarrow>
          (case eg_path_stats eg c of
             None \<Rightarrow> None
           | Some (round_trip, window) \<Rightarrow>
               (let cl1 = cl\<lparr>conn := c, conn_stats := set_conn_stats round_trip window (conn_stats cl)\<rparr> in
                case sock packet to of
                  None \<Rightarrow> None
                | Some False \<Rightarrow> Some (cl1, out)
                | Some True \<Rightarrow> transmit fuel eg sock (cl1, out @ [(packet, to)]))))"

text \<open>
  What a connection has sent is appended to the outbox; nothing but the connection and its statistics
  changes. If every packet the library makes uses up some of a budget, if it always knows a path, and
  if the socket does not fail, the loop returns with fuel for the budget.
\<close>

lemma transmit_appends:
  assumes "transmit fuel eg sock (cl, out) = Some (cl', out')"
  shows "prefix out out' \<and> cl' = cl\<lparr>conn := conn cl', conn_stats := conn_stats cl'\<rparr>"
  using assms
proof (induction fuel arbitrary: cl out)
  case (Suc fuel)
  show ?case
  proof (cases "\<exists>packet to c. eg_send eg (conn cl) = (Send_Packet packet to, c) \<and> sock packet to = Some True")
    case True
    then obtain packet to c stats where step:
      "transmit fuel eg sock (cl\<lparr>conn := c, conn_stats := stats\<rparr>, out @ [(packet, to)]) = Some (cl', out')"
      using Suc.prems by (auto simp: Let_def split: option.splits)
    have "prefix (out @ [(packet, to)]) out'" "cl' = cl\<lparr>conn := conn cl', conn_stats := conn_stats cl'\<rparr>"
      using Suc.IH [OF step] by simp_all
    then show ?thesis using append_prefixD by blast
  next
    case False
    then show ?thesis
      using Suc.prems by (auto simp: Let_def split: prod.splits send_result.splits option.splits bool.splits)
  qed
qed simp

lemma transmit_returns:
  assumes "\<And>c packet to c'. eg_send eg c = (Send_Packet packet to, c') \<Longrightarrow> budget c' < budget c \<and> eg_path_stats eg c' \<noteq> None"
    and "\<And>packet to. sock packet to \<noteq> None" "budget (conn cl) < fuel"
  shows "transmit fuel eg sock (cl, out) \<noteq> None"
  using assms(3)
proof (induction fuel arbitrary: cl out)
  case (Suc fuel)
  show ?case
  proof (cases "eg_send eg (conn cl)")
    case (Pair r c)
    show ?thesis
    proof (cases r)
      case (Send_Packet packet to)
      then have "budget c < budget (conn cl)" "eg_path_stats eg c \<noteq> None" using assms(1) Pair by auto
      moreover have "sock packet to \<noteq> None" by (rule assms(2))
      ultimately show ?thesis using Suc Pair Send_Packet by (auto simp: Let_def split: bool.split)
    qed (simp_all add: Pair)
  qed
qed simp

text \<open>
  The loop wakes itself before it polls as long as a stream that is still open has not been given
  all of its body.
\<close>

definition wants_wake :: "('c, 'h) transport \<Rightarrow> 'm dispatch \<Rightarrow> ('c, 'h) Client \<Rightarrow> bool" where
  "wants_wake tr d cl =
     list_ex (\<lambda>i. let written = get_written i cl in fst written < snd written) (streams_of (tr_source_id tr (conn cl)) d)"

definition wakes_before_poll :: "('c, 'h) transport \<Rightarrow> ('c, 'h, 'm, 'l, 'f, 'w, 't) network \<Rightarrow> bool" where
  "wakes_before_poll tr nw =
     list_ex (\<lambda>(k, cl). wants_wake tr (sv_dispatch (hp_server (nw_pipeline nw))) cl) (nw_clients nw)"

lemma transmit_keeps_wake:
  assumes "transmit fuel eg sock (cl, out) = Some (cl', out')" "tr_source_id tr (conn cl') = tr_source_id tr (conn cl)"
  shows "wants_wake tr d cl' = wants_wake tr d cl"
proof -
  have "body_sending_tracker cl' = body_sending_tracker (cl\<lparr>conn := conn cl', conn_stats := conn_stats cl'\<rparr>)"
    using transmit_appends [OF assms(1)] by metis
  then show ?thesis using assms(2) by (simp add: wants_wake_def get_written_def)
qed

definition transmit_client ::
  "nat \<Rightarrow> 'c egress \<Rightarrow> (bytes \<Rightarrow> socket_addr \<Rightarrow> bool option) \<Rightarrow> scid \<Rightarrow> ('c, 'h, 'm, 'l, 'f, 'w, 't) network
     \<Rightarrow> ('c, 'h, 'm, 'l, 'f, 'w, 't) network option" where
  "transmit_client fuel eg sock k nw =
     (case dm_get (nw_clients nw) k of
        None \<Rightarrow> Some nw
      | Some cl \<Rightarrow>
          map_option (\<lambda>(cl1, out). nw\<lparr>nw_clients := dm_insert k cl1 (nw_clients nw), nw_outbox := out\<rparr>)
            (transmit fuel eg sock (cl, nw_outbox nw)))"

definition transmit_all ::
  "nat \<Rightarrow> 'c egress \<Rightarrow> (bytes \<Rightarrow> socket_addr \<Rightarrow> bool option) \<Rightarrow> ('c, 'h, 'm, 'l, 'f, 'w, 't) network
     \<Rightarrow> ('c, 'h, 'm, 'l, 'f, 'w, 't) network option" where
  "transmit_all fuel eg sock nw = for_each (transmit_client fuel eg sock) (map fst (nw_clients nw)) nw"


subsection \<open>The whole pass\<close>

datatype poll_outcome =
    Poll_Ready "socket_read list"
  | Poll_Timed_Out
  | Poll_Interrupted
  | Poll_Failed string

text \<open>
  A pass: the reads or the expired timers, then for every connection its pending responses, then for
  every connection its datagrams, then the garbage collection. An interrupted poll starts over.
\<close>

definition finish_pass ::
  "nat \<Rightarrow> ('c, 'h) transport \<Rightarrow> ('c, 'h) intake \<Rightarrow> 'c egress \<Rightarrow> (bytes \<Rightarrow> socket_addr \<Rightarrow> bool option)
     \<Rightarrow> 't sessions_impl \<Rightarrow> files_env
     \<Rightarrow> ('c, 'h, 'm, 'l, 'f, 'w, 't) network \<Rightarrow> ('c, 'h, 'm, 'l, 'f, 'w, 't) network option" where
  "finish_pass fuel tr ik eg sock us fe nw =
     (case send_all fuel tr fe nw of
        None \<Rightarrow> None
      | Some nw1 \<Rightarrow> map_option (collect_closed tr ik us) (transmit_all fuel eg sock nw1))"

definition network_turn ::
  "nat \<Rightarrow> ('c, 'h) transport \<Rightarrow> ('c, 'h) intake \<Rightarrow> 'c egress \<Rightarrow> (bytes \<Rightarrow> socket_addr \<Rightarrow> bool option)
     \<Rightarrow> 'key gate \<Rightarrow> 't sessions_impl \<Rightarrow> path_buf \<Rightarrow> io_env \<Rightarrow> files_env
     \<Rightarrow> poll_outcome \<Rightarrow> ('c, 'h, 'm, 'l, 'f, 'w, 't) network
     \<Rightarrow> (ServerRunError + ('c, 'h, 'm, 'l, 'f, 'w, 't) network) option" where
  "network_turn fuel tr ik eg sock gt us storage env fe outcome nw =
     (case outcome of
        Poll_Interrupted \<Rightarrow> Some (Ok nw)
      | Poll_Failed cause \<Rightarrow> Some (Err (Run_Io ''poll'' cause))
      | Poll_Timed_Out \<Rightarrow>
          map_option Ok (finish_pass fuel tr ik eg sock us fe (nw\<lparr>nw_clients := expire_timers ik (nw_clients nw)\<rparr>))
      | Poll_Ready reads \<Rightarrow>
          (case read_loop fuel tr ik gt storage env reads nw of
             None \<Rightarrow> None
           | Some (Inl e) \<Rightarrow> Some (Err e)
           | Some (Inr nw1) \<Rightarrow> map_option Ok (finish_pass fuel tr ik eg sock us fe nw1)))"

end
