(* ===== verification/MessageTyping.thy ===== *)
theory MessageTyping
  imports LoopFrames StreamSessions HeaderPipeline
begin

section \<open>Every message stays on the stream it was made for\<close>

text \<open>
  Streams of all connections share one heap of channels, bodies carry senders that outlive the
  entry they were taken from, and several threads send. The typing of this theory says that what
  is queued on the channels of a stream was made for that stream of that connection: the message
  carries its ids, and the sender inside a message or a waiting body belongs to no other stream.
  Every operation that touches the channels keeps it.
\<close>

subsection \<open>Channels and senders\<close>

text \<open>A sender that no entry but the one of \<open>k\<close> has, now or later.\<close>

definition owns :: "'m dispatch \<Rightarrow> chan \<Rightarrow> ids \<Rightarrow> bool" where
  "owns d c k \<longleftrightarrow> c < next_chan d \<and> (\<forall>k' e. dm_get (entries d) k' = Some e \<longrightarrow> c \<in> entry_chans e \<longrightarrow> k' = k)"

fun body_typed :: "QueuedRequest dispatch \<Rightarrow> ids \<Rightarrow> BodyType \<Rightarrow> bool" where
  "body_typed d k (Data i s c data sender st) \<longleftrightarrow> (i, s) = k \<and> (\<exists>ch. sender = Some ch \<and> owns d ch k)"
| "body_typed d k (StreamData i s c data sender st) \<longleftrightarrow> (i, s) = k \<and> (\<exists>ch. sender = Some ch \<and> owns d ch k)"
| "body_typed d k (FilePath i s c path sender st) \<longleftrightarrow> (i, s) = k \<and> (\<exists>ch. sender = Some ch \<and> owns d ch k)"
| "body_typed d k No_Body \<longleftrightarrow> True"

fun msg_typed :: "QueuedRequest dispatch \<Rightarrow> ids \<Rightarrow> QueuedRequest \<Rightarrow> bool" where
  "msg_typed d k (Q_Header h) \<longleftrightarrow> (hr_stream_id h, hr_scid h) = k
     \<and> (case hr_attached_body h of Some b \<Rightarrow> body_typed d k b | None \<Rightarrow> True)"
| "msg_typed d k m \<longleftrightarrow> (qr_stream_id m, qr_scid m) = k"

definition typed :: "QueuedRequest dispatch \<Rightarrow> bool" where
  "typed d \<longleftrightarrow> disp_inv d \<and> (\<forall>k lo hi. mail d k = Some (lo, hi) \<longrightarrow> (\<forall>m \<in> set lo \<union> set hi. msg_typed d k m))"

text \<open>Entries keep their channels or get fresh ones, so a sender never changes its owner.\<close>

definition grows :: "'m dispatch \<Rightarrow> 'm dispatch \<Rightarrow> bool" where
  "grows d d' \<longleftrightarrow> next_chan d \<le> next_chan d'
     \<and> (\<forall>k e. dm_get (entries d') k = Some e \<longrightarrow>
          (\<exists>e0. dm_get (entries d) k = Some e0 \<and> entry_chans e = entry_chans e0) \<or> (\<forall>c \<in> entry_chans e. next_chan d \<le> c))"

lemma grows_refl [simp]: "grows d d"
  by (auto simp: grows_def)

lemma grows_entry:
  assumes "grows d d'" "dm_get (entries d') k = Some e"
  obtains e0 where "dm_get (entries d) k = Some e0" "entry_chans e = entry_chans e0"
    | "\<forall>c \<in> entry_chans e. next_chan d \<le> c"
  using assms unfolding grows_def by blast

lemma grows_next: "grows d d' \<Longrightarrow> next_chan d \<le> next_chan d'"
  by (simp add: grows_def)

lemma grows_trans:
  assumes "grows d d1" "grows d1 d2"
  shows "grows d d2"
proof -
  have "(\<exists>e0. dm_get (entries d) k = Some e0 \<and> entry_chans e = entry_chans e0) \<or> (\<forall>c \<in> entry_chans e. next_chan d \<le> c)"
    if e: "dm_get (entries d2) k = Some e" for k e
    using assms(2) e
  proof (cases rule: grows_entry)
    case (1 e1)
    from assms(1) 1(1) show ?thesis by (cases rule: grows_entry) (use 1(2) in auto)
  next
    case 2
    then show ?thesis using grows_next [OF assms(1)] by (meson order_trans)
  qed
  then show ?thesis using grows_next [OF assms(1)] grows_next [OF assms(2)] by (simp add: grows_def)
qed

lemma grows_same: "next_chan d' = next_chan d \<Longrightarrow> entries d' = entries d \<Longrightarrow> grows d d'"
  by (auto simp: grows_def)

lemma ownsD: "owns d c k \<Longrightarrow> dm_get (entries d) k' = Some e \<Longrightarrow> c \<in> entry_chans e \<Longrightarrow> k' = k"
  unfolding owns_def by blast

lemma owns_grows:
  assumes "grows d d'" "owns d c k"
  shows "owns d' c k"
proof -
  have "k' = k" if e: "dm_get (entries d') k' = Some e" "c \<in> entry_chans e" for k' e
    using assms(1) e(1)
  proof (cases rule: grows_entry)
    case (1 e0)
    then show ?thesis using ownsD [OF assms(2) 1(1)] e(2) by simp
  next
    case 2
    then show ?thesis using assms(2) e(2) by (auto simp: owns_def)
  qed
  moreover have "c < next_chan d'" using assms grows_next [OF assms(1)] by (auto simp: owns_def)
  ultimately show ?thesis unfolding owns_def by blast
qed

lemma body_typed_grows: "grows d d' \<Longrightarrow> body_typed d k b \<Longrightarrow> body_typed d' k b"
  by (cases b) (auto intro: owns_grows)

lemma msg_typed_grows: "grows d d' \<Longrightarrow> msg_typed d k m \<Longrightarrow> msg_typed d' k m"
  by (cases m) (auto intro: body_typed_grows split: option.splits)

lemma owns_entry:
  assumes "disp_inv d" "dm_get (entries d) k = Some e"
  shows "owns d (low_sender e) k" "owns d (high_sender e) k"
proof -
  have "k' = k" if "dm_get (entries d) k' = Some e'" "c \<in> entry_chans e" "c \<in> entry_chans e'" for k' e' c
    using that assms unfolding disp_inv_def by (metis IntI empty_iff)
  then show "owns d (low_sender e) k" "owns d (high_sender e) k"
    using disp_inv_entry_chans [OF assms] by (auto simp: owns_def entry_chans_def)
qed

lemma owns_low_sender: "disp_inv d \<Longrightarrow> get_low_priority_sender i s d = Some c \<Longrightarrow> owns d c (i, s)"
  by (auto simp: get_low_priority_sender_def owns_entry split: option.splits)

text \<open>The relation that every step establishes.\<close>

definition keeps_typing :: "QueuedRequest dispatch \<Rightarrow> QueuedRequest dispatch \<Rightarrow> bool" where
  "keeps_typing d d' \<longleftrightarrow> (typed d \<longrightarrow> typed d' \<and> grows d d')"

named_theorems typing \<open>an operation keeps the typing of the channels\<close>

lemma keeps_refl [simp, typing]: "keeps_typing d d"
  by (simp add: keeps_typing_def)

lemma keeps_trans [trans]: "keeps_typing d d1 \<Longrightarrow> keeps_typing d1 d2 \<Longrightarrow> keeps_typing d d2"
  by (auto simp: keeps_typing_def intro: grows_trans)

lemma typed_disp_inv [simp, intro]: "typed d \<Longrightarrow> disp_inv d"
  by (simp add: typed_def)

lemma typed_mail: "typed d \<Longrightarrow> mail d k = Some (lo, hi) \<Longrightarrow> m \<in> set lo \<union> set hi \<Longrightarrow> msg_typed d k m"
  unfolding typed_def by blast

lemma msg_typed_ids: "msg_typed d k m \<Longrightarrow> (qr_stream_id m, qr_scid m) = k"
  by (cases m) auto

lemma typed_addressed: "typed d \<Longrightarrow> addressed s d"
  unfolding addressed_def using typed_mail msg_typed_ids by fastforce

text \<open>A step that only fills boxes with well-typed messages, or empties them.\<close>

lemma keeps_boxes:
  assumes "typed d \<Longrightarrow> disp_inv d'" "typed d \<Longrightarrow> grows d d'"
    and "\<And>k lo hi m. typed d \<Longrightarrow> mail d' k = Some (lo, hi) \<Longrightarrow> m \<in> set lo \<union> set hi \<Longrightarrow>
        (\<exists>lo0 hi0. mail d k = Some (lo0, hi0) \<and> m \<in> set lo0 \<union> set hi0) \<or> msg_typed d k m"
  shows "keeps_typing d d'"
proof -
  have "msg_typed d' k m" if "typed d" "mail d' k = Some (lo, hi)" "m \<in> set lo \<union> set hi" for k lo hi m
    using assms(3) [OF that] typed_mail [OF that(1)] msg_typed_grows [OF assms(2) [OF that(1)]] by blast
  then show ?thesis using assms(1,2) unfolding keeps_typing_def typed_def by blast
qed


subsection \<open>The operations of the channels\<close>

lemma next_chan_raw_send [simp]: "next_chan (snd (raw_send c m d)) = next_chan d"
  by (simp add: raw_send_def split: option.split)

lemma next_chan_on_counter [simp]: "next_chan (on_counter f c d) = next_chan d"
  by (simp add: on_counter_def split: option.split)

lemma next_chan_sender_send [simp]: "next_chan (snd (sender_send c m d)) = next_chan d"
  by (auto simp: sender_send_def Let_def split: prod.splits) (metis next_chan_on_counter next_chan_raw_send snd_conv)+

lemma next_chan_send_high [simp]: "next_chan (snd (send_to_high_priority_queue i s m d)) = next_chan d"
  by (simp add: send_to_high_priority_queue_def split: option.split)

lemma grows_send_high [simp]: "grows d (snd (send_to_high_priority_queue i s m d))"
  by (simp add: grows_same)

lemma entries_sender_send [simp]: "entries (snd (sender_send c m d)) = entries d"
  by (auto simp: sender_send_def Let_def split: prod.splits) (metis entries_on_counter entries_raw_send snd_conv)+

lemma grows_sender_send [simp]: "grows d (snd (sender_send c m d))"
  by (simp add: grows_same)

lemma keeps_send_high [typing]:
  assumes "msg_typed d (i, s) m \<or> \<not> typed d"
  shows "keeps_typing d (snd (send_to_high_priority_queue i s m d))"
proof (rule keeps_boxes)
  assume ty: "typed d"
  then show "disp_inv (snd (send_to_high_priority_queue i s m d))" by (simp add: inv_intros)
  fix k lo hi x
  assume x: "mail (snd (send_to_high_priority_queue i s m d)) k = Some (lo, hi)" "x \<in> set lo \<union> set hi"
  show "(\<exists>lo0 hi0. mail d k = Some (lo0, hi0) \<and> x \<in> set lo0 \<union> set hi0) \<or> msg_typed d k x"
  proof (cases "mail d (i, s)")
    case None
    then show ?thesis using x ty by (auto simp: send_absent)
  next
    case (Some b)
    then show ?thesis using x ty assms
      by (cases b) (auto simp: send_high_present(2) split: if_splits)
  qed
qed (simp_all)

lemma connected_entry:
  assumes "owns d c k" "chans d c = Some ch" "dm_get (entries d) k' = Some e"
    "mail (chan_upd c ch' d) k' \<noteq> mail d k'"
  shows "k' = k \<and> c \<in> entry_chans e"
proof -
  have c: "c \<in> entry_chans e"
    using assms(2-4) by (auto simp: mail_def entry_chans_def split: if_splits)
  with assms(1,3) show ?thesis unfolding owns_def by blast
qed

lemma keeps_sender_send [typing]:
  assumes "typed d \<Longrightarrow> owns d c k" "typed d \<Longrightarrow> msg_typed d k m"
  shows "keeps_typing d (snd (sender_send c m d))"
proof (cases "typed d \<and> connected d c")
  case True
  then obtain ch where ch: "chans d c = Some ch" "ch_connected ch" by (auto simp: connected_def)
  let ?d = "chan_upd c (sent_counted m ch) d"
  have s: "snd (sender_send c m d) = ?d" by (simp add: sender_send_connected [OF ch])
  have ok: "chan_ok ch" using True ch disp_inv_chanD by blast
  have inv: "disp_inv ?d" by (rule disp_inv_chan_upd) (use True ch ok in auto)
  show ?thesis unfolding s
  proof (rule keeps_boxes [OF inv])
    show "grows d ?d" by (simp add: grows_same)
    fix k' lo hi x
    assume x: "mail ?d k' = Some (lo, hi)" "x \<in> set lo \<union> set hi"
    show "(\<exists>lo0 hi0. mail d k' = Some (lo0, hi0) \<and> x \<in> set lo0 \<union> set hi0) \<or> msg_typed d k' x"
    proof (cases "mail ?d k' = mail d k'")
      case False
      obtain e where e: "dm_get (entries d) k' = Some e" using x(1) by (auto simp: mail_def split: option.splits)
      have k: "k' = k" "c = low_sender e \<or> c = high_sender e"
        using connected_entry [OF assms(1) ch(1) e False] True by (auto simp: entry_chans_def)
      have "mail d k' = Some (ch_items (the (chans d (low_sender e))), ch_items (the (chans d (high_sender e))))"
        by (rule mail_entry) (use True e in auto)
      then show ?thesis
        using k(2) x True assms(2) ch e
        unfolding k(1) by (auto simp: mail_upd_low [OF typed_disp_inv e] mail_upd_high [OF typed_disp_inv e] k(1))
    next
      case True
      then show ?thesis using x by metis
    qed
  qed
next
  case False
  then show ?thesis by (auto simp: sender_send_disconnected keeps_typing_def)
qed

lemma keeps_insert [typing]: "keeps_typing d (insert_new_channel i s d)"
proof (rule keeps_boxes)
  assume ty: "typed d"
  then show "disp_inv (insert_new_channel i s d)" by (simp add: inv_intros)
  show "grows d (insert_new_channel i s d)"
  proof (cases "dm_get (entries d) (i, s)")
    case None
    then show ?thesis
      by (auto simp: insert_new_channel_absent grows_def opened_def new_entry_def entry_chans_def)
  next
    case (Some e)
    then show ?thesis by (simp add: insert_new_channel_present)
  qed
  fix k lo hi m
  assume "mail (insert_new_channel i s d) k = Some (lo, hi)" "m \<in> set lo \<union> set hi"
  then show "(\<exists>lo0 hi0. mail d k = Some (lo0, hi0) \<and> m \<in> set lo0 \<union> set hi0) \<or> msg_typed d k m"
    using ty by (auto simp: mail_insert split: if_splits)
qed

lemma keeps_remove [typing]: "keeps_typing d (remove_stream i s d)"
proof (rule keeps_boxes)
  assume ty: "typed d"
  then show "disp_inv (remove_stream i s d)" by (simp add: inv_intros)
  show "grows d (remove_stream i s d)"
    by (auto simp: grows_def entries_remove_stream remove_stream_def drop_receiver_def split: option.split if_splits)
  fix k lo hi m
  assume "mail (remove_stream i s d) k = Some (lo, hi)" "m \<in> set lo \<union> set hi"
  then show "(\<exists>lo0 hi0. mail d k = Some (lo0, hi0) \<and> m \<in> set lo0 \<union> set hi0) \<or> msg_typed d k m"
    using ty by (auto simp: mail_remove split: if_splits)
qed

lemma keeps_reset [typing]: "keeps_typing d (snd (request_stream_reset i s d))"
proof (rule keeps_boxes)
  assume ty: "typed d"
  then show "disp_inv (snd (request_stream_reset i s d))" by (simp add: inv_intros)
  show "grows d (snd (request_stream_reset i s d))"
    by (auto simp: request_stream_reset_def grows_def entry_chans_def split: option.split if_splits)
qed (auto simp: mail_reset)

lemma next_chan_receiver: "next_chan (snd (receiver_try_recv c d)) = next_chan d"
  by (auto simp: receiver_try_recv_def raw_try_recv_def split: option.splits list.splits)

lemma next_chan_try_pop: "next_chan (snd (try_pop i s d)) = next_chan d"
  by (auto simp: try_pop_def split: option.splits sum.splits prod.splits) (metis next_chan_receiver snd_conv)+

lemma keeps_pop [typing]: "keeps_typing d (snd (try_pop i s d))"
proof (rule keeps_boxes)
  assume ty: "typed d"
  then show "disp_inv (snd (try_pop i s d))" by (simp add: inv_intros)
  show "grows d (snd (try_pop i s d))" by (simp add: grows_same next_chan_try_pop entries_try_pop)
  fix k lo hi m
  assume "mail (snd (try_pop i s d)) k = Some (lo, hi)" "m \<in> set lo \<union> set hi"
  then show "(\<exists>lo0 hi0. mail d k = Some (lo0, hi0) \<and> m \<in> set lo0 \<union> set hi0) \<or> msg_typed d k m"
    by (rule_tac try_pop_mail [OF typed_disp_inv [OF ty], of i s]) (auto split: if_splits)
qed

lemma popped_typed:
  assumes "typed d" "try_pop i s d = (Ok m, d')"
  shows "msg_typed d' (i, s) m"
proof -
  have grow: "grows d d'" using keeps_pop [of d i s] assms by (simp add: keeps_typing_def)
  have "msg_typed d (i, s) m"
    by (rule try_pop_mail [OF typed_disp_inv [OF assms(1)], of i s])
      (use assms typed_mail [OF assms(1), of "(i, s)"] in auto)
  with grow show ?thesis by (rule msg_typed_grows)
qed

lemma keeps_send_prepared:
  assumes "\<And>sender c b. (sender, c, b) \<in> set ps \<Longrightarrow> typed d \<Longrightarrow> owns d sender (br_stream_id b, br_scid b)"
  shows "keeps_typing d (snd (send_prepared capsules ps d))"
  using assms
proof (induction ps arbitrary: capsules d)
  case (Cons p ps)
  obtain sender c b where p: "p = (sender, c, b)" by (metis prod_cases3)
  obtain r d1 where d1: "sender_send sender (Q_StreamData b) d = (r, d1)" by fastforce
  have one: "keeps_typing d d1"
    using keeps_sender_send [of d sender "(br_stream_id b, br_scid b)" "Q_StreamData b"] Cons.prems p d1 by fastforce
  have "grows d d1" using grows_sender_send [of d sender "Q_StreamData b"] d1 by simp
  then have "keeps_typing d (snd (send_prepared (capsules @ [c]) ps d1))"
  proof (cases "typed d")
    case True
    then have "keeps_typing d1 (snd (send_prepared (capsules @ [c]) ps d1))"
      using Cons.prems \<open>grows d d1\<close> owns_grows by (intro Cons.IH) fastforce
    with one show ?thesis by (rule keeps_trans)
  qed (simp add: keeps_typing_def)
  then show ?case using one p d1 by (auto split: sum.split)
qed simp

lemma keeps_publish [typing]:
  "keeps_typing d (snd (send_one_or_more_message_on_stream frame awake targets data_cb ss d))"
proof (cases "typed d")
  case True
  show ?thesis
  proof (cases "\<exists>senders prepared. map (resolve_sender d) targets = map Ok senders
      \<and> map (prepare_message frame data_cb) targets = map Ok prepared")
    case sp: True
    then obtain senders prepared where m: "map (resolve_sender d) targets = map Ok senders"
      "map (prepare_message frame data_cb) targets = map Ok prepared" by blast
    have "owns d sender (br_stream_id b, br_scid b)" if "(sender, c, b) \<in> set (zip senders prepared)" for sender c b
    proof -
      from that obtain n where n: "n < length senders" "n < length prepared" "senders ! n = sender" "prepared ! n = (c, b)"
        by (auto simp: set_zip)
      have "resolve_sender d (br_scid (snd (prepared ! n)), br_stream_id (snd (prepared ! n))) = Ok (senders ! n)"
        using list_all2_nthD [OF resolved_senders [OF m] n(1)] .
      then have "get_low_priority_sender (br_stream_id b) (br_scid b) d = Some sender"
        using n by (auto simp: resolve_sender_def split: option.splits)
      then show ?thesis using True by (simp add: owns_low_sender)
    qed
    then have "keeps_typing d (snd (send_prepared [] (zip senders prepared) d))"
      by (intro keeps_send_prepared)
    then show ?thesis
      using m collect_results_Ok [of "map (resolve_sender d) targets" senders]
        collect_results_Ok [of "map (prepare_message frame data_cb) targets" prepared]
      by (auto simp: send_one_or_more_message_on_stream_def split: prod.splits sum.splits)
  next
    case False
    then show ?thesis
      by (auto simp: send_one_or_more_message_on_stream_def collect_results_Ok split: sum.splits)
  qed
qed (simp add: keeps_typing_def)


subsection \<open>The station\<close>

definition station_typed :: "station \<Rightarrow> bool" where
  "station_typed st \<longleftrightarrow> typed (chunk_dispatch_channel st)
     \<and> (\<forall>b \<in> set (station_channel st). owns (chunk_dispatch_channel st) (cb_sender b) (cb_stream_id b, cb_scid b))"

lemma station_typed_dispatch [simp, intro]: "station_typed st \<Longrightarrow> typed (chunk_dispatch_channel st)"
  by (simp add: station_typed_def)

lemma station_typed_step:
  assumes "keeps_typing (chunk_dispatch_channel st) (chunk_dispatch_channel st')"
    and "set (station_channel st') \<subseteq> set (station_channel st)" "station_typed st"
  shows "station_typed st'"
  using assms unfolding station_typed_def keeps_typing_def by (meson owns_grows subsetD)

lemma station_typed_worker:
  assumes ty: "station_typed st"
  shows "station_typed (snd (run_worker outcome st))"
proof (cases "station_channel st")
  case Nil
  then show ?thesis using ty by (simp add: run_worker_def)
next
  case (Cons b q)
  have own: "owns (chunk_dispatch_channel st) (cb_sender b) (cb_stream_id b, cb_scid b)"
    using ty Cons by (simp add: station_typed_def)
  show ?thesis
  proof (cases "sender_is_occupied (cb_sender b) (chunk_dispatch_channel st)")
    case True
    then show ?thesis using ty Cons by (auto simp: run_worker_def station_typed_def)
  next
    case free: False
    show ?thesis
    proof (cases "reader_read outcome (cb_reader b)")
      case None
      then show ?thesis using ty Cons free by (auto simp: run_worker_def station_typed_def)
    next
      case (Some r)
      obtain packet rd where r: "r = (packet, rd)" by fastforce
      define item where "item = chunk_item b packet"
      obtain res d1 where d1: "sender_send (cb_sender b) (Q_Body item) (chunk_dispatch_channel st) = (res, d1)" by fastforce
      have keep: "keeps_typing (chunk_dispatch_channel st) d1"
        using keeps_sender_send [OF own, of "Q_Body item"] d1
        by (simp add: item_def chunk_item_def body_request_new_def)
      then have grow: "grows (chunk_dispatch_channel st) d1" "typed d1" using ty by (auto simp: keeps_typing_def)
      define st1 where "st1 = st\<lparr>station_channel := (if br_is_end item then q else q @ [chunk_advance rd (length packet) b]),
          chunk_dispatch_channel := d1\<rparr>"
      have "station_typed st1"
        using ty Cons owns_grows [OF grow(1)] own grow(2)
        by (auto simp: st1_def station_typed_def chunk_advance_def)
      moreover have "snd (run_worker outcome st) = st1"
        using Cons free Some r d1
        by (simp add: run_worker_def st1_def item_def chunk_item_def chunk_advance_def body_request_new_def Let_def)
      ultimately show ?thesis by simp
    qed
  qed
qed

lemma station_typed_response:
  assumes ty: "station_typed st" and body: "body_typed (chunk_dispatch_channel st) k b"
    and sent: "send_response fs b st = Some st'"
  shows "station_typed st' \<and> chunk_dispatch_channel st' = chunk_dispatch_channel st"
proof -
  have push: "station_typed (station_push r st) \<and> chunk_dispatch_channel (station_push r st) = chunk_dispatch_channel st"
    if "\<And>c. r = Ok c \<Longrightarrow> owns (chunk_dispatch_channel st) (cb_sender c) (cb_stream_id c, cb_scid c)" for r
    using ty that by (auto simp: station_push_def station_typed_def split: sum.split)
  have from_file: "new_file fs ch s i c path stats = Ok x \<Longrightarrow> cb_sender x = ch \<and> cb_stream_id x = i \<and> cb_scid x = s"
    and from_data: "new_data ch i s c data stats = Ok x \<Longrightarrow> cb_sender x = ch \<and> cb_stream_id x = i \<and> cb_scid x = s"
    for x ch s i c path stats data
    by (auto simp: new_data_def new_file_def Let_def split: option.splits)
  show ?thesis using body sent ty
    by (cases b) (auto dest: from_file from_data intro!: push)
qed

text \<open>A well-typed body always has its sender, so starting it never panics.\<close>

lemma typed_body_starts:
  assumes "body_typed d k b"
  shows "send_response fs b st \<noteq> None"
  using assms by (cases b) auto

lemma body_typed_stats [simp]: "body_typed d k (attach_conn_stats cs b) = body_typed d k b"
  by (cases b) simp_all


subsection \<open>The server\<close>

abbreviation server_typed :: "('l, 'f, 'w) server \<Rightarrow> bool" where
  "server_typed sv \<equiv> station_typed (sv_station sv)"

text \<open>
  The server is well typed, and its channels have only grown since they were \<open>d0\<close>: what was well
  typed for \<open>d0\<close> in another thread's hands still is.
\<close>

definition server_from :: "QueuedRequest dispatch \<Rightarrow> ('l, 'f, 'w) server \<Rightarrow> bool" where
  "server_from d0 sv \<longleftrightarrow> server_typed sv \<and> grows d0 (sv_dispatch sv)"

lemma server_fromD [simp, dest]: "server_from d0 sv \<Longrightarrow> server_typed sv" "server_from d0 sv \<Longrightarrow> typed (sv_dispatch sv)"
  by (auto simp: server_from_def)

lemma server_typed_dispatch:
  "keeps_typing (sv_dispatch sv) d \<Longrightarrow> server_typed sv \<Longrightarrow> server_typed (set_dispatch d sv)"
  by (rule station_typed_step) (auto simp: set_dispatch_def)

lemma server_from_dispatch:
  "keeps_typing (sv_dispatch sv) d \<Longrightarrow> server_from d0 sv \<Longrightarrow> server_from d0 (set_dispatch d sv)"
  using server_typed_dispatch [of sv d] by (auto simp: server_from_def keeps_typing_def intro: grows_trans)

lemma server_from_updates [simp]:
  "server_from d0 (sv\<lparr>sv_requests := rq\<rparr>) = server_from d0 sv"
  "server_from d0 (sv\<lparr>sv_app := w\<rparr>) = server_from d0 sv"
  "server_from d0 (sv\<lparr>sv_app := w, sv_station := st\<rparr>) = server_from d0 (sv\<lparr>sv_station := st\<rparr>)"
  by (simp_all add: server_from_def)

lemma server_from_insert [intro]:
  "server_from d0 sv \<Longrightarrow> server_from d0 (set_dispatch (insert_new_channel i s (sv_dispatch sv)) sv)"
  by (rule server_from_dispatch) (rule keeps_insert)

lemma server_from_send_headers:
  assumes "server_from d0 sv" "case body of Some b \<Rightarrow> body_typed (sv_dispatch sv) (i, s) b | None \<Rightarrow> True"
  shows "server_from d0 (send_headers headers i s is_end body sender priority sv)"
  unfolding send_headers_def
  by (rule server_from_dispatch [OF keeps_send_high assms(1)])
    (use assms(2) in \<open>auto simp: header_request_new_def\<close>)

lemma server_from_error [intro]:
  assumes "server_from d0 sv"
  shows "server_from d0 (send_error e s i priority sv)"
proof -
  note open_sv = server_from_insert [OF assms, of i s]
  have "body_typed d (i, s) (Data i s [] data (Some sender) None)"
    if "get_low_priority_sender i s d = Some sender" "typed d" for d :: "QueuedRequest dispatch" and data sender
    using owns_low_sender [OF typed_disp_inv [OF that(2)] that(1)] by simp
  then show ?thesis using open_sv server_fromD(2) [OF open_sv]
    by (auto simp: send_error_def Let_def split: prod.split option.split intro!: server_from_send_headers)
qed

text \<open>No registered error response has a body: \<open>ErrorFormBuilder\<close> offers no way to set one.\<close>

definition bodyless_errors :: "('h, 'm, 'l) RouteManager \<Rightarrow> bool" where
  "bodyless_errors m \<longleftrightarrow> (\<forall>e f. dm_get (rm_errors m) e = Some f \<longrightarrow> ef_body f = None)"

lemma server_from_404 [intro]:
  assumes "server_from d0 sv" "bodyless_errors (he_manager env)"
  shows "server_from d0 (send_404 env path s i priority sv)"
proof -
  have "\<exists>hs e sender. send_404 env path s i priority sv
      = send_headers hs i s e None sender priority (set_dispatch (insert_new_channel i s (sv_dispatch sv)) sv)"
    using assms(2) by (auto simp: send_404_def get_error_response_def bodyless_errors_def Let_def split: option.split)
  then show ?thesis using assms(1) by (auto intro!: server_from_send_headers)
qed

lemma server_from_status_first [intro]:
  "server_from d0 sv \<Longrightarrow> server_from d0 (snd (send_reception_status_first i s sv))"
  by (auto simp: send_reception_status_first_def Let_def intro!: server_from_send_headers)



subsection \<open>Handlers and callbacks\<close>

lemma response_body_shape:
  assumes "response_for fs i s c status = Some r"
  shows "rr_body r = No_Body \<or> (\<exists>x. rr_body r = Data i s c x None None) \<or> (\<exists>p. rr_body r = FilePath i s c p None None)"
  using assms
  by (cases status)
    (auto simp: new_ok_200_eq new_200_with_file_eq new_200_with_data_eq new_json_with_status_eq body_new_data_def
      body_new_file_def new_200_with_json_def new_409_with_data_def new_403_with_data_def new_503_with_data_def
      new_401_with_data_def new_422_with_data_def new_428_with_data_def)

lemma response_body_typed:
  assumes "response_for fs i s c status = Some r" "typed d" "get_low_priority_sender i s d = Some sender"
  shows "body_typed d (i, s) (body_with_sender sender (rr_body r))"
proof -
  have "owns d sender (i, s)" using assms(2,3) by (auto simp: owns_low_sender)
  then show ?thesis using response_body_shape [OF assms(1)] by auto
qed

definition callbacks_typed :: "('h, 'm, 'l, 'w) handler_env \<Rightarrow> bool" where
  "callbacks_typed he \<longleftrightarrow> (\<forall>sessions path form event w d. he_streams he = Some sessions \<longrightarrow> dm_get sessions path = Some form
     \<longrightarrow> keeps_typing d (snd (snd (sf_handler form event (w, d)))))"

text \<open>
  A stream callback reaches the channels through the stream sessions only, whose sends keep the
  typing (\<open>keeps_publish\<close>); this is what the server relies on.
\<close>

definition env_typed :: "('h, 'm, 'l, 'w) handler_env \<Rightarrow> bool" where
  "env_typed he \<longleftrightarrow> bodyless_errors (he_manager he) \<and> callbacks_typed he"

lemma server_from_open_stream:
  assumes "server_from d0 sv" and "\<And>w d. keeps_typing d (snd (snd (callback (w, d))))"
  shows "server_from d0 (snd (open_stream_then_call i s callback sv))"
proof -
  define h where "h = header_request_new i s [header '':status'' ''200''] False None None OpenStream"
  obtain sent d1 where d1: "send_to_high_priority_queue i s (Q_Header h) (sv_dispatch sv) = (sent, d1)" by fastforce
  have one: "server_from d0 (set_dispatch d1 sv)"
    using server_from_dispatch [OF keeps_send_high assms(1), of i s "Q_Header h"] d1
    by (simp add: h_def header_request_new_def)
  obtain r w d2 where d2: "callback (sv_app sv, d1) = (r, w, d2)" by (metis prod_cases3)
  have two: "server_from d0 (set_dispatch d2 sv)"
    using server_from_dispatch [OF _ one, of d2] assms(2) [of d1 "sv_app sv"] d2 by simp
  have three: "server_from d0 (set_dispatch (snd (request_stream_reset i s d2)) sv)"
    using server_from_dispatch [OF _ two, of "snd (request_stream_reset i s d2)"] keeps_reset by simp
  show ?thesis
    using one two three d1 d2
    by (auto simp: open_stream_then_call_def h_def [symmetric] set_dispatch_def Let_def split: sum.splits)
qed

lemma server_from_answer:
  assumes sv: "server_from d0 sv" and answered: "answer_route method i s c priority is_end resp sv = Some sv'"
    and resp: "\<And>r. resp = Some r \<Longrightarrow> \<exists>fs status. response_for fs i s c status = Some r"
  shows "server_from d0 sv'"
proof -
  let ?open = "set_dispatch (insert_new_channel i s (sv_dispatch sv)) sv"
  have send: "server_from d0 (send_headers hs i s e body sender pr sv1)"
    if sv1: "server_from d0 sv1" and attach: "(case resp of
          Some r \<Rightarrow> map_option (\<lambda>sender. Some (attach_chunk_sender sender r)) (get_low_priority_sender i s (sv_dispatch sv1))
        | None \<Rightarrow> Some None) = Some resp1" and built: "rf_build_response i s c resp1 = Some (hs, body)" for sv1 resp1 hs body e sender pr
  proof (rule server_from_send_headers [OF sv1])
    show "case body of Some b \<Rightarrow> body_typed (sv_dispatch sv1) (i, s) b | None \<Rightarrow> True"
    proof (cases resp)
      case None
      then show ?thesis using attach built by (auto simp: rf_build_response_def)
    next
      case (Some r)
      then obtain fs status where r: "response_for fs i s c status = Some r" using resp by blast
      obtain low where low: "get_low_priority_sender i s (sv_dispatch sv1) = Some low" "resp1 = Some (attach_chunk_sender low r)"
        using Some attach by auto
      show ?thesis
        using response_body_typed [OF r _ low(1)] sv1 built low(2) by (auto simp: rf_build_response_attached)
    qed
  qed
  have opened: "server_from d0 ?open" using sv by blast
  have sends: "server_from d0 sv'" if sv1: "server_from d0 sv1" and ran: "do {
              resp1 \<leftarrow> (case resp of
                 Some r \<Rightarrow> map_option (\<lambda>sender. Some (attach_chunk_sender sender r)) (get_low_priority_sender i s (sv_dispatch sv1))
               | None \<Rightarrow> Some None);
              (headers, body) \<leftarrow> rf_build_response i s c resp1;
              Some (case body of
                 Some b \<Rightarrow> send_headers headers i s False (Some b) (get_high_priority_sender i s (sv_dispatch sv1)) pr sv1
               | None \<Rightarrow> send_headers headers i s e None (get_high_priority_sender i s (sv_dispatch sv1)) pr sv1)
            } = Some sv'" for sv1 pr e
  proof -
    obtain resp1 hs body where "(case resp of
                 Some r \<Rightarrow> map_option (\<lambda>sender. Some (attach_chunk_sender sender r)) (get_low_priority_sender i s (sv_dispatch sv1))
               | None \<Rightarrow> Some None) = Some resp1" "rf_build_response i s c resp1 = Some (hs, body)"
      "sv' = (case body of
                 Some b \<Rightarrow> send_headers hs i s False (Some b) (get_high_priority_sender i s (sv_dispatch sv1)) pr sv1
               | None \<Rightarrow> send_headers hs i s e None (get_high_priority_sender i s (sv_dispatch sv1)) pr sv1)"
      using ran by (simp only: bind_eq_Some_conv split_paired_Ex case_prod_conv option.inject) blast
    then show ?thesis using send [OF sv1] by (cases body) simp_all
  qed
  show ?thesis
    using answered sv by (cases "method") (auto simp: answer_route_def Let_def intro: sends [OF sv] sends [OF opened])
qed

lemma server_from_preparation:
  assumes sv: "server_from d0 sv" and env: "env_typed env"
    and prep: "response_preparation_with_route_handler env c s i event_type priority sv = Some sv'"
  shows "server_from d0 sv'"
proof -
  obtain built rq where rq: "build_route_event c s i event_type (sv_requests sv) = (built, rq)" by fastforce
  define sv1 where "sv1 = set_dispatch (insert_new_channel i s (sv_dispatch sv)) (sv\<lparr>sv_requests := rq\<rparr>)"
  have sv1: "server_from d0 sv1"
    using server_from_insert [of d0 "sv\<lparr>sv_requests := rq\<rparr>" i s] sv by (simp add: sv1_def)
  define ev where "ev = (case built of Inr ev \<Rightarrow> Some ev | Inl _ \<Rightarrow> None)"
  define form where "form = (case ev of
             Some ev \<Rightarrow> map_option fst (rh_get_routes_from_path_and_method (ev_path ev) (ev_method ev) (he_manager env))
           | None \<Rightarrow> None)"
  have prep_eq: "response_preparation_with_route_handler env c s i event_type priority sv =
     (case form of
           None \<Rightarrow>
             (case (he_streams env, ev) of
                (Some stream_sessions, Some ev) \<Rightarrow>
                  (case (dm_get stream_sessions (ev_path ev), ev) of
                     (Some stream, OnFinished event) \<Rightarrow>
                       Some (snd (open_stream_then_call i s (sf_handler stream event) sv1))
                   | _ \<Rightarrow> Some sv1)
              | _ \<Rightarrow> Some sv1)
         | Some form \<Rightarrow>
             (case ev of
                Some (OnFinished event) \<Rightarrow>
                  do {
                    (resp, w) \<leftarrow> process_handler env i c s event (sv_app sv1);
                    answer_route (rf_method form) i s c priority (fe_is_end event) (Some resp) (sv1\<lparr>sv_app := w\<rparr>)
                  }
              | _ \<Rightarrow> answer_route (rf_method form) i s c priority True None sv1))"
    unfolding response_preparation_with_route_handler_def rq sv1_def ev_def form_def Let_def case_prod_conv by (rule refl)
  show ?thesis
  proof (cases form)
    case None
    have "sv' = sv1 \<or> (\<exists>sessions path stream event. he_streams env = Some sessions \<and> dm_get sessions path = Some stream
        \<and> sv' = snd (open_stream_then_call i s (sf_handler stream event) sv1))"
      using prep None unfolding prep_eq by (auto split: option.splits RouteEvent.splits)
    then show ?thesis
    proof (elim disjE exE conjE)
      fix sessions path stream event
      assume "he_streams env = Some sessions" "dm_get sessions path = Some stream"
        and sv': "sv' = snd (open_stream_then_call i s (sf_handler stream event) sv1)"
      then have "keeps_typing d (snd (snd (sf_handler stream event (w, d))))" for w d
        using env by (auto simp: env_typed_def callbacks_typed_def)
      with sv1 show ?thesis unfolding sv' by (rule server_from_open_stream)
    qed (simp add: sv1)
  next
    case (Some f)
    show ?thesis
    proof (cases "\<exists>event. ev = Some (OnFinished event)")
      case True
      then obtain event where e: "ev = Some (OnFinished event)" by blast
      obtain resp w where r: "process_handler env i c s event (sv_app sv1) = Some (resp, w)"
        and a: "answer_route (rf_method f) i s c priority (fe_is_end event) (Some resp) (sv1\<lparr>sv_app := w\<rparr>) = Some sv'"
        using prep Some e unfolding prep_eq by (auto split: Option.bind_splits)
      show ?thesis
        by (rule server_from_answer [OF _ a]) (use sv1 in simp, use r in \<open>auto simp: process_handler_def split: Option.bind_splits intro!: exI\<close>)
    next
      case False
      then have a: "answer_route (rf_method f) i s c priority True None sv1 = Some sv'"
        using prep Some unfolding prep_eq by (auto split: option.splits RouteEvent.splits)
      show ?thesis by (rule server_from_answer [OF sv1 a]) simp
    qed
  qed
qed



subsection \<open>A pass of the network loop over a connection\<close>

definition retry_typed :: "QueuedRequest dispatch \<Rightarrow> scid \<Rightarrow> QueuedRequest BodyReqQueue \<Rightarrow> bool" where
  "retry_typed d s q \<longleftrightarrow> (\<forall>j. \<forall>m \<in> set (pending_of q j). msg_typed d (j, s) m)"

definition client_typed :: "('c, 'h) transport \<Rightarrow> QueuedRequest dispatch \<Rightarrow> scid \<Rightarrow> ('c, 'h) Client \<Rightarrow> bool" where
  "client_typed tr d s cl \<longleftrightarrow> tr_source_id tr (conn cl) = s \<and> retry_typed d s (pending_body_queue cl)"

definition loop_typed :: "('c, 'h) transport \<Rightarrow> scid \<Rightarrow> ('c, 'h, 'l, 'f, 'w) loop_state \<Rightarrow> bool" where
  "loop_typed tr s = (\<lambda>(cl, sv). client_typed tr (sv_dispatch sv) s cl \<and> server_typed sv)"

text \<open>What follows from the typing for the loop: every message is in the queue of its stream.\<close>

lemma loop_typed_inv: "loop_typed tr s st \<Longrightarrow> loop_inv tr s st"
  unfolding loop_typed_def loop_inv_def client_typed_def retry_typed_def retry_addressed_def
  using typed_addressed msg_typed_ids by (fastforce split: prod.splits)

lemma retry_typed_grows: "grows d d' \<Longrightarrow> retry_typed d s q \<Longrightarrow> retry_typed d' s q"
  by (auto simp: retry_typed_def intro: msg_typed_grows)

lemma client_typed_grows: "grows d d' \<Longrightarrow> client_typed tr d s cl \<Longrightarrow> client_typed tr d' s cl"
  by (auto simp: client_typed_def intro: retry_typed_grows)

lemma retry_typed_remove: "retry_typed d s q \<Longrightarrow> retry_typed d s (remove_stream_queue j q)"
  by (auto simp: retry_typed_def pending_remove_queue)

lemma retry_typed_push:
  "retry_typed d s (pending_body_queue cl) \<Longrightarrow> msg_typed d (j, s) item
     \<Longrightarrow> retry_typed d s (pending_body_queue (push_back_item item cl))"
  using msg_typed_ids [of d "(j, s)" item]
  by (auto simp: retry_typed_def push_back_item_def pending_push_front)

lemma retry_typed_opening:
  assumes "retry_typed d s (pending_body_queue cl)" "opening_retry j cl = (retry, cl')"
  shows "retry_typed d s (pending_body_queue cl')" "retry = Some item \<Longrightarrow> msg_typed d (j, s) item"
    "conn cl' = conn cl"
proof -
  have "get_queue_mut j (pending_body_queue cl) = Some xs \<Longrightarrow> pending_of (pending_body_queue cl) j = xs" for xs
    by (simp add: get_queue_mut_def pending_of_def)
  then show "retry_typed d s (pending_body_queue cl')" "retry = Some item \<Longrightarrow> msg_typed d (j, s) item"
    "conn cl' = conn cl"
    using assms by (force simp: opening_retry_def retry_typed_def pop_front_of_pending pending_insert Let_def
        split: option.splits list.splits QueuedRequest.splits if_splits)+
qed

lemma reset_failed_stream_typed:
  assumes ok: "transport_ok tr wire ended" and ty: "loop_typed tr s (cl, sv)"
    and reset: "reset_failed_stream tr j (cl, sv_dispatch sv) = (cl', d)"
  shows "loop_typed tr s (cl', set_dispatch d sv) \<and> grows (sv_dispatch sv) d"
proof -
  have src: "tr_source_id tr (conn cl) = s" and sv: "server_typed sv"
    and retry: "retry_typed (sv_dispatch sv) s (pending_body_queue cl)"
    using ty by (simp_all add: loop_typed_def client_typed_def)
  note only = reset_failed_stream_only [OF ok src reset]
  have d: "keeps_typing (sv_dispatch sv) d" using only(3) by (simp add: keeps_remove)
  then have grow: "grows (sv_dispatch sv) d" using sv by (auto simp: keeps_typing_def)
  have "pending_body_queue cl' = remove_stream_queue j (pending_body_queue cl)"
    using reset by (auto simp: reset_failed_stream_def Let_def)
  then have "retry_typed d s (pending_body_queue cl')"
    using retry_typed_grows [OF grow retry_typed_remove [OF retry]] by simp
  then show ?thesis
    using only(4) server_typed_dispatch [OF d sv] grow by (simp add: loop_typed_def client_typed_def)
qed

text \<open>What a send may leave of its message: nothing, or the message without its data.\<close>

definition leftover :: "QueuedRequest \<Rightarrow> QueuedRequest \<Rightarrow> bool" where
  "leftover item item' \<longleftrightarrow> (\<forall>d k. msg_typed d k item \<longrightarrow> msg_typed d k item')"

lemma leftover_refl [simp]: "leftover item item"
  by (simp add: leftover_def)

lemma leftover_data [simp]:
  "leftover (Q_Body b) (Q_Body (b\<lparr>br_packet := x\<rparr>))" "leftover (Q_StreamData b) (Q_StreamData (b\<lparr>br_packet := x\<rparr>))"
  "leftover (Q_BodyProgression b) (Q_BodyProgression (b\<lparr>br_packet := x\<rparr>))"
  by (simp_all add: leftover_def)

definition retry_after :: "stream_id \<Rightarrow> QueuedRequest \<Rightarrow> ('c, 'h) Client \<Rightarrow> ('c, 'h) Client \<Rightarrow> bool" where
  "retry_after j item cl cl' \<longleftrightarrow> pending_body_queue cl' = pending_body_queue cl
     \<or> pending_body_queue cl' = remove_stream_queue j (pending_body_queue cl)
     \<or> (\<exists>item'. leftover item item' \<and> pending_body_queue cl' = pending_body_queue (push_back_item item' cl))"

lemma pending_push_back_cong:
  "pending_body_queue cl = pending_body_queue cl' \<Longrightarrow>
     pending_body_queue (push_back_item item cl) = pending_body_queue (push_back_item item cl')"
  by (simp add: push_back_item_def)

lemma retry_after_same [simp]: "pending_body_queue cl' = pending_body_queue cl \<Longrightarrow> retry_after j item cl cl'"
  by (simp add: retry_after_def)

lemma retry_after_push:
  "pending_body_queue cl1 = pending_body_queue cl \<Longrightarrow> leftover item item' \<Longrightarrow> retry_after j item cl (push_back_item item' cl1)"
  using pending_push_back_cong by (fastforce simp: retry_after_def)

lemma retry_after_typed:
  assumes "retry_after j item cl cl'" "retry_typed d s (pending_body_queue cl)" "msg_typed d (j, s) item"
  shows "retry_typed d s (pending_body_queue cl')"
  using assms(1) unfolding retry_after_def
proof (elim disjE exE conjE)
  fix item' assume "leftover item item'" "pending_body_queue cl' = pending_body_queue (push_back_item item' cl)"
  moreover from this(1) have "msg_typed d (j, s) item'" using assms(3) unfolding leftover_def by blast
  ultimately show ?thesis using retry_typed_push [OF assms(2)] by simp
qed (use assms(2) in \<open>simp_all add: retry_typed_remove\<close>)

text \<open>The station after a send: unchanged, or with the attached body of the message.\<close>

definition station_after :: "QueuedRequest \<Rightarrow> ('l, 'f, 'w) server \<Rightarrow> ('l, 'f, 'w) server \<Rightarrow> bool" where
  "station_after item sv sv' \<longleftrightarrow> station_channel (sv_station sv') = station_channel (sv_station sv)
     \<or> (\<exists>h fs cs h1. item = Q_Header h \<and> send_body_to_chunking_station fs cs h (sv_station sv) = Some (h1, sv_station sv'))"

lemma start_attached_body_station:
  "start_attached_body fe j h n (cl, sv) = Some (cl', sv') \<Longrightarrow> station_after (Q_Header h) sv sv'"
  by (auto simp: start_attached_body_def station_after_def Let_def split: option.splits)

lemma send_popped_body_after:
  assumes "send_popped_body tr s j chunk (cl, sv) = Some st'"
  shows "retry_after j (Q_Body chunk) cl (fst st') \<and> station_after (Q_Body chunk) sv (snd st')"
  using assms
  by (auto simp: send_popped_body_def take_data_def Let_def station_after_def set_dispatch_def retry_after_def
      dest!: pending_kept_calls(1) split: Option.bind_splits if_splits
      intro!: exI [of _ "Q_Body (chunk\<lparr>br_packet := []\<rparr>)"] pending_push_back_cong)

lemma send_popped_progress_after:
  assumes "send_popped_progress tr message chunk cl = Some cl'" "leftover (message chunk) (message (chunk\<lparr>br_packet := []\<rparr>))"
  shows "retry_after j (message chunk) cl cl'"
  using assms
  by (auto simp: send_popped_progress_def take_data_def Let_def dest!: pending_kept_calls(2)
      split: Option.bind_splits if_splits intro: retry_after_push)

lemma send_popped_header_after:
  assumes "send_popped_header tr fe j h (cl, sv) = Some st'"
  shows "retry_after j (Q_Header h) cl (fst st') \<and> station_after (Q_Header h) sv (snd st')"
proof -
  obtain cl' sv' where st': "st' = (cl', sv')" by fastforce
  have body: "retry_after j (Q_Header h) cl cl' \<and> station_after (Q_Header h) sv sv'"
    if "start_attached_body fe j h n (cl1, sv) = Some (cl', sv')" "pending_body_queue cl1 = pending_body_queue cl" for n cl1
    using start_attached_body_only(2) [OF that(1)] start_attached_body_station [OF that(1)] that(2) by simp
  have reset: "retry_after j (Q_Header h) cl cl2 \<and> station_after (Q_Header h) sv (set_dispatch d sv)"
    if "reset_failed_stream tr j (cl1, sv_dispatch sv) = (cl2, d)" "pending_body_queue cl1 = pending_body_queue cl" for cl1 cl2 d
    using that by (auto simp: reset_failed_stream_def Let_def retry_after_def station_after_def set_dispatch_def)
  have same: "retry_after j (Q_Header h) cl cl1 \<and> station_after (Q_Header h) sv sv1"
    if "pending_body_queue cl1 = pending_body_queue cl" "sv_station sv1 = sv_station sv" for cl1 sv1
    using that by (simp add: station_after_def)
  have push: "retry_after j (Q_Header h) cl (push_back_item (Q_Header h) cl1) \<and> station_after (Q_Header h) sv sv"
    if "pending_body_queue cl1 = pending_body_queue cl" for cl1
    using retry_after_push [OF that] by (simp add: station_after_def)
  have "retry_after j (Q_Header h) cl cl' \<and> station_after (Q_Header h) sv sv'"
  proof (cases "hr_priority_mode h")
    case SendHeader
    then obtain n r cl1 where r: "send_header tr j (hr_headers h) (response_ends_on_headers (hr_is_end h) n) cl = Some (r, cl1)"
      "(if is_ok r then start_attached_body fe j h n (set_headers_send j True cl1, sv)
        else Some (push_back_item (Q_Header h) cl1, sv)) = Some (cl', sv')"
      using assms by (auto simp: st' send_popped_header_def send_popped_response_def split: Option.bind_splits)
    show ?thesis using r(2) pending_kept_calls(3) [OF r(1)] push body by (simp split: if_splits) blast+
  next
    case SendHeader100
    then obtain r cl1 where r: "send_header tr j (hr_headers h) (hr_is_end h) cl = Some (r, cl1)"
      "cl' = (if is_ok r then cl1 else push_back_item (Q_Header h) cl1)" "sv_station sv' = sv_station sv"
      "\<not> is_ok r \<Longrightarrow> sv' = sv"
      using assms by (auto simp: st' send_popped_header_def send_popped_status_def split: Option.bind_splits if_splits)
    show ?thesis using r pending_kept_calls(3) [OF r(1)] push same by (cases "is_ok r") auto
  next
    case SendAdditionnalHeader
    then obtain n r cl1 where r: "send_more_header tr j (hr_headers h) (response_ends_on_headers (hr_is_end h) n) cl = Some (r, cl1)"
      "(if is_ok r then start_attached_body fe j h n (if n \<noteq> None then set_headers_send j True cl1 else cl1, sv)
        else Some (push_back_item (Q_Header h) cl1, sv)) = Some (cl', sv')"
      using assms by (auto simp: st' send_popped_header_def send_popped_additional_def split: Option.bind_splits)
    show ?thesis using r(2) pending_kept_calls(4) [OF r(1)] push body [of n "if n \<noteq> None then set_headers_send j True cl1 else cl1"]
      by (auto split: if_splits)
  next
    case SendWithPriority
    then show ?thesis using assms same by (auto simp: st' send_popped_header_def split: Option.bind_splits)
  next
    case OpenStream
    then obtain r cl1 where r: "send_stream_opening tr j (hr_headers h) cl = Some (r, cl1)"
      "(cl', sv') = (case r of
         Inr _ \<Rightarrow> (set_headers_send j True cl1, sv)
       | Inl (H3_Error _) \<Rightarrow>
           (let (cl2, d) = reset_failed_stream tr j (cl1, sv_dispatch sv) in (cl2, set_dispatch d sv))
       | Inl _ \<Rightarrow> (push_back_item (Q_Header h) cl1, sv))"
      using assms by (auto simp: st' send_popped_header_def send_popped_opening_def split: Option.bind_splits)
    note kept = pending_kept_calls(5) [OF r(1)]
    obtain cl2 d where c: "reset_failed_stream tr j (cl1, sv_dispatch sv) = (cl2, d)" by fastforce
    show ?thesis using r(2) push [OF kept] reset [OF c kept] same [of "set_headers_send j True cl1" sv] kept c
      by (auto split: sum.splits h3_error.splits)
  qed
  then show ?thesis by (simp add: st')
qed

lemma send_popped_after:
  assumes "send_popped tr fe s j item (cl, sv) = Some st'"
  shows "retry_after j item cl (fst st') \<and> station_after item sv (snd st')"
proof (cases item)
  case (Q_Header h)
  then show ?thesis using send_popped_header_after assms by simp
next
  case (Q_Body chunk)
  then show ?thesis using send_popped_body_after assms by simp
next
  case (Q_BodyProgression chunk)
  then show ?thesis
    using assms send_popped_progress_after [of tr Q_BodyProgression chunk cl] by (auto simp: station_after_def)
next
  case (Q_StreamData chunk)
  then show ?thesis
    using assms send_popped_progress_after [of tr Q_StreamData chunk cl] by (auto simp: station_after_def)
qed

lemma station_after_typed:
  assumes "station_after item sv sv'" "keeps_typing (sv_dispatch sv) (sv_dispatch sv')" "server_typed sv"
    and item: "msg_typed (sv_dispatch sv) k item"
  shows "server_typed sv'"
  using assms(1) unfolding station_after_def
proof (elim disjE exE conjE)
  assume "station_channel (sv_station sv') = station_channel (sv_station sv)"
  then show ?thesis using station_typed_step [OF assms(2) _ assms(3)] by simp
next
  fix h fs cs h1
  assume h: "item = Q_Header h" "send_body_to_chunking_station fs cs h (sv_station sv) = Some (h1, sv_station sv')"
  show ?thesis
  proof (cases "hr_attached_body h")
    case None
    then show ?thesis using h assms(3) by (simp add: send_body_to_chunking_station_def)
  next
    case (Some b)
    then have "body_typed (sv_dispatch sv) k (attach_conn_stats cs b)" using item h(1) by simp
    from station_typed_response [OF assms(3) this] show ?thesis
      using h(2) Some by (auto simp: send_body_to_chunking_station_def)
  qed
qed

lemma send_popped_typed:
  assumes ok: "transport_ok tr wire ended" and ty: "loop_typed tr s (cl, sv)"
    and item: "msg_typed (sv_dispatch sv) (j, s) item" and sent: "send_popped tr fe s j item (cl, sv) = Some (cl', sv')"
  shows "loop_typed tr s (cl', sv') \<and> grows (sv_dispatch sv) (sv_dispatch sv')"
proof -
  have cl: "tr_source_id tr (conn cl) = s" "retry_typed (sv_dispatch sv) s (pending_body_queue cl)" and sv: "server_typed sv"
    using ty by (simp_all add: loop_typed_def client_typed_def)
  have "handles_only tr wire ended s j (cl, sv) (cl', sv')"
    using send_popped_only [OF ok cl(1) _ sent] msg_typed_ids [OF item] by simp
  then have src: "tr_source_id tr (conn cl') = s"
    and "sv_dispatch sv' = sv_dispatch sv \<or> sv_dispatch sv' = remove_stream j s (sv_dispatch sv)"
    using cl(1) other_stream [of j thesis for thesis] by (auto simp: handles_only_def same_stream_def)
  then have d: "keeps_typing (sv_dispatch sv) (sv_dispatch sv')" using keeps_remove by auto
  then have grow: "grows (sv_dispatch sv) (sv_dispatch sv')" using sv by (auto simp: keeps_typing_def)
  note after = send_popped_after [OF sent, simplified]
  have "retry_typed (sv_dispatch sv') s (pending_body_queue cl')"
    using retry_typed_grows [OF grow retry_after_typed [OF _ cl(2) item]] after by blast
  then show ?thesis
    using src grow station_after_typed [OF _ d sv item] after by (simp add: loop_typed_def client_typed_def)
qed

lemma pop_and_send_typed:
  assumes ok: "transport_ok tr wire ended" and ty: "loop_typed tr s (cl, sv)"
    and step: "pop_and_send tr fe s j (cl, sv) = Some (cl', sv')"
  shows "loop_typed tr s (cl', sv') \<and> grows (sv_dispatch sv) (sv_dispatch sv')"
proof -
  obtain retry cl1 where retry: "opening_retry j cl = (retry, cl1)" by fastforce
  have cl: "tr_source_id tr (conn cl) = s" "retry_typed (sv_dispatch sv) s (pending_body_queue cl)" and sv: "server_typed sv"
    using ty by (simp_all add: loop_typed_def client_typed_def)
  note retried = retry_typed_opening [OF cl(2) retry]
  have ty1: "loop_typed tr s (cl1, sv)" using retried(1,3) cl(1) sv by (simp add: loop_typed_def client_typed_def)
  consider "(cl', sv') = (cl, sv)" | "(cl', sv') = (cl1, sv)"
    | item where "retry = Some item" "send_popped tr fe s j item (cl1, sv) = Some (cl', sv')"
    | r d where "try_pop j s (sv_dispatch sv) = (r, d)"
        "case r of Inr item \<Rightarrow> send_popped tr fe s j item (cl1, set_dispatch d sv) = Some (cl', sv')
                 | Inl _ \<Rightarrow> (cl', sv') = (cl1, set_dispatch d sv)"
    using step retry by (auto simp: pop_and_send_def Let_def split: if_splits option.splits prod.splits sum.splits)
  then show ?thesis
  proof cases
    case 3
    then show ?thesis using send_popped_typed [OF ok ty1 retried(2)] by blast
  next
    case (4 r d)
    have d: "keeps_typing (sv_dispatch sv) d" using keeps_pop [of "sv_dispatch sv" j s] 4(1) by simp
    then have grow: "grows (sv_dispatch sv) d" using sv by (auto simp: keeps_typing_def)
    have ty2: "loop_typed tr s (cl1, set_dispatch d sv)"
      using ty1 server_typed_dispatch [OF d sv] client_typed_grows [OF grow] by (auto simp: loop_typed_def)
    show ?thesis
    proof (cases r)
      case (Inr item)
      then have "msg_typed (sv_dispatch (set_dispatch d sv)) (j, s) item"
        using popped_typed [of "sv_dispatch sv" j s item d] 4(1) sv by auto
      from send_popped_typed [OF ok ty2 this] show ?thesis
        using 4(2) Inr grow by (auto intro: grows_trans)
    qed (use 4(2) ty2 grow in auto)
  qed (use ty ty1 in auto)
qed

lemma set_dispatch_same [simp]: "set_dispatch (sv_dispatch sv) sv = sv"
  by (simp add: set_dispatch_def)

lemma flush_typed:
  assumes "transport_ok tr wire ended" "loop_typed tr s (cl, sv)" "flush_if_open fuel tr j cl = Some cl'"
  shows "loop_typed tr s (cl', sv)"
proof -
  have "tr_source_id tr (conn cl') = s"
    using flush_keeps_inv [OF assms(1) loop_typed_inv [OF assms(2)] assms(3)] by (simp add: loop_inv_def)
  moreover have "pending_body_queue cl' = pending_body_queue cl"
    using assms(3) pending_kept_flush by (auto simp: flush_if_open_def split: if_splits)
  ultimately show ?thesis using assms(2) by (simp add: loop_typed_def client_typed_def)
qed

lemma resets_typed:
  assumes "transport_ok tr wire ended" "loop_typed tr s (cl, sv)"
    and "fold (reset_failed_stream tr) js (cl, sv_dispatch sv) = (cl', d)"
  shows "loop_typed tr s (cl', set_dispatch d sv) \<and> grows (sv_dispatch sv) d"
  using assms(2,3)
proof (induction js arbitrary: cl sv)
  case (Cons j js)
  obtain cl2 d2 where step: "reset_failed_stream tr j (cl, sv_dispatch sv) = (cl2, d2)" by fastforce
  note one = reset_failed_stream_typed [OF assms(1) Cons.prems(1) step]
  have "fold (reset_failed_stream tr) js (cl2, sv_dispatch (set_dispatch d2 sv)) = (cl', d)"
    using Cons.prems(2) step by simp
  from Cons.IH [OF conjunct1 [OF one] this] show ?case using one by (auto intro: grows_trans)
qed auto

lemma send_round_typed:
  assumes ok: "transport_ok tr wire ended" and ty: "loop_typed tr s (cl, sv)"
    and round: "send_round fuel tr fe (cl, sv) = Some (cl', sv')"
  shows "loop_typed tr s (cl', sv') \<and> grows (sv_dispatch sv) (sv_dispatch sv')"
proof -
  have src: "tr_source_id tr (conn cl) = s" using ty by (simp add: loop_typed_def client_typed_def)
  obtain cl1 d1 where reset: "fold (reset_failed_stream tr) (requested_stream_resets s (sv_dispatch sv)) (cl, sv_dispatch sv) = (cl1, d1)"
    by fastforce
  note one = resets_typed [OF ok ty reset]
  obtain cl2 where flush: "for_each (flush_if_open fuel tr) (tr_writable tr (conn cl1)) cl1 = Some cl2"
    and pops: "for_each (pop_and_send tr fe s) (tr_writable tr (conn cl2)) (cl2, set_dispatch d1 sv) = Some (cl', sv')"
    using round src reset
    by (auto simp: send_round_def reset_phase_def flush_phase_def Let_def split: Option.bind_splits)
  have two: "loop_typed tr s (cl2, set_dispatch d1 sv)"
    by (rule for_each_invariant [where P = "\<lambda>cl. loop_typed tr s (cl, set_dispatch d1 sv)", OF flush conjunct1 [OF one]])
      (rule flush_typed [OF ok])
  have "loop_typed tr s (cl', sv') \<and> grows (sv_dispatch sv) (sv_dispatch sv')"
    using for_each_invariant [where P = "\<lambda>st. loop_typed tr s st \<and> grows (sv_dispatch sv) (sv_dispatch (snd st))", OF pops]
      two one pop_and_send_typed [OF ok] grows_trans by (fastforce simp del: split_paired_All)
  then show ?thesis .
qed

end
