(* ===== verification/IntakeSafety.thy ===== *)
theory IntakeSafety
  imports NetworkReceive
begin

section \<open>What the receiving side lets in, and what it leaves behind\<close>

text \<open>
  Properties of \<open>NetworkReceive\<close>: who may create state in the server, what a malformed request leaves,
  what the garbage collection of closed connections removes, and that the loops over the library's
  events end.
\<close>

subsection \<open>Admission\<close>

text \<open>A datagram that brings a valid retry token for the connection id \<open>k\<close>.\<close>

definition vouched :: "('c, 'h) intake \<Rightarrow> 'key gate \<Rightarrow> bytes \<Rightarrow> socket_addr \<Rightarrow> scid \<Rightarrow> bool" where
  "vouched ik gt pkt from k \<longleftrightarrow>
     (\<exists>hdr token odcid. in_header ik pkt = Some hdr \<and> ph_type hdr = Packet_Initial
        \<and> in_version_supported ik (ph_version hdr) \<and> ph_dcid hdr = k \<and> ph_token hdr = Some token
        \<and> validate (gt_verify gt) (gt_tokens gt) token k from (gt_clock gt) = Some odcid)"

lemma admit_Admitted:
  assumes "admit ik gt hdr from clients = Some (Admitted k c)" "in_header ik pkt = Some hdr"
  shows "vouched ik gt pkt from k" "k = ph_dcid hdr" "\<not> dm_contains clients k" "\<not> dm_contains clients (in_conn_id ik k)"
  using assms by (auto simp: admit_def vouched_def Let_def split: if_splits option.splits)

lemma admit_Known:
  "admit ik gt hdr from clients = Some (Known k) \<Longrightarrow>
     dm_contains clients k \<and> (dm_contains clients (ph_dcid hdr) \<or> dm_contains clients (in_conn_id ik (ph_dcid hdr)))"
  by (auto simp: admit_def Let_def split: if_splits option.splits)

lemma feed_keys:
  assumes "feed fuel tr ik storage env pkt from k nw = Some nw'"
  shows "dm_contains (nw_clients nw') k' \<longleftrightarrow> dm_contains (nw_clients nw) k'"
  using assms by (auto simp: feed_def dm_contains_def split: option.splits if_splits)

lemma receive_datagram_keys:
  assumes "receive_datagram fuel tr ik gt storage env pkt from reply nw = Some (go, nw')"
    and "dm_contains (nw_clients nw') k"
  shows "dm_contains (nw_clients nw) k \<or> vouched ik gt pkt from k"
proof (cases "in_header ik pkt")
  case None
  then show ?thesis using assms by (simp add: receive_datagram_def)
next
  case hdr: (Some hdr)
  then obtain a where a: "admit ik gt hdr from (nw_clients nw) = Some a"
    using assms(1) by (auto simp: receive_datagram_def split: option.splits)
  show ?thesis
  proof (cases a)
    case (Known k')
    then have "feed fuel tr ik storage env pkt from k' nw = Some nw'"
      using assms(1) hdr a by (auto simp: receive_datagram_def)
    then show ?thesis using feed_keys assms(2) by blast
  next
    case (Admitted s c)
    then have "feed fuel tr ik storage env pkt from s (nw\<lparr>nw_clients := dm_insert s (client_new s c) (nw_clients nw)\<rparr>)
        = Some nw'"
      using assms(1) hdr a by (auto simp: receive_datagram_def)
    then have "k = s \<or> dm_contains (nw_clients nw) k" using feed_keys assms(2) by fastforce
    then show ?thesis using admit_Admitted(1) [OF _ hdr] a Admitted by blast
  next
    case (Replied out)
    then show ?thesis using assms hdr a
      by (auto simp: receive_datagram_def send_reply_def split: option.splits bool.splits)
  next
    case Dropped
    then show ?thesis using assms hdr a by (simp add: receive_datagram_def)
  qed
qed

text \<open>
  C5. Whatever arrives in a pass, a connection that was not there before was opened by a datagram of
  an Initial packet with a supported version, whose retry token is valid, at that moment, for the
  address the datagram came from and for the connection id that names the connection.
\<close>

theorem new_connection_has_valid_token:
  assumes "read_loop fuel tr ik gt storage env reads nw = Some (Ok nw')"
    and "dm_contains (nw_clients nw') k" "\<not> dm_contains (nw_clients nw) k"
  shows "\<exists>pkt from reply. Read_Datagram pkt from reply \<in> set reads \<and> vouched ik gt pkt from k"
  using assms
proof (induction fuel tr ik gt storage env reads nw rule: read_loop.induct)
  case (4 fuel tr ik gt storage env pkt source reply reads nw)
  then obtain go nw1 where r: "receive_datagram fuel tr ik gt storage env pkt source reply nw = Some (go, nw1)"
    by (auto split: option.splits)
  show ?case
  proof (cases "dm_contains (nw_clients nw1) k")
    case True
    then show ?thesis using receive_datagram_keys [OF r] 4(4) by auto
  next
    case False
    then have go: "go" using 4(2,3) r by (cases go) auto
    then have "read_loop fuel tr ik gt storage env reads nw1 = Some (Ok nw')" using 4(2) r by simp
    from 4(1) [OF r [unfolded eqTrueI [OF go]] refl refl this 4(3) False] show ?thesis by auto
  qed
qed auto

text \<open>A datagram of nobody the server knows: unreadable, or for no connection and with no valid token.\<close>

definition stranger :: "('c, 'h) intake \<Rightarrow> 'key gate \<Rightarrow> ('c, 'h) client_map \<Rightarrow> bytes \<Rightarrow> socket_addr \<Rightarrow> bool" where
  "stranger ik gt clients pkt from \<longleftrightarrow>
     (\<forall>hdr. in_header ik pkt = Some hdr \<longrightarrow> \<not> dm_contains clients (ph_dcid hdr)
        \<and> \<not> dm_contains clients (in_conn_id ik (ph_dcid hdr)) \<and> \<not> vouched ik gt pkt from (ph_dcid hdr))"

definition senders :: "socket_read list \<Rightarrow> socket_addr set" where
  "senders reads = {from. \<exists>pkt reply. Read_Datagram pkt from reply \<in> set reads}"

lemma senders_simps [simp]:
  "senders [] = {}" "senders (Read_Interrupted # reads) = senders reads"
  "senders (Read_Datagram pkt from reply # reads) = insert from (senders reads)"
  by (auto simp: senders_def)

definition answered :: "(bytes \<times> socket_addr) list \<Rightarrow> ('c, 'h, 'm, 'l, 'f, 'w, 't) network
     \<Rightarrow> ('c, 'h, 'm, 'l, 'f, 'w, 't) network" where
  "answered outs nw = nw\<lparr>nw_outbox := nw_outbox nw @ outs\<rparr>"

lemma answered_simps [simp]:
  "answered [] nw = nw" "answered outs' (answered outs nw) = answered (outs @ outs') nw"
  "nw_clients (answered outs nw) = nw_clients nw"
  by (simp_all add: answered_def)

lemma stranger_datagram:
  assumes "stranger ik gt (nw_clients nw) pkt from"
    and r: "receive_datagram fuel tr ik gt storage env pkt from reply nw = Some (go, nw')"
  shows "nw' = nw \<or> (\<exists>out. nw' = answered [(out, from)] nw)"
proof (cases "in_header ik pkt")
  case None
  then show ?thesis using r by (simp add: receive_datagram_def)
next
  case hdr: (Some hdr)
  then obtain a where a: "admit ik gt hdr from (nw_clients nw) = Some a"
    using r by (auto simp: receive_datagram_def split: option.splits)
  show ?thesis
  proof (cases a)
    case (Known k)
    then show ?thesis using admit_Known [of ik gt hdr _ "nw_clients nw" k] a assms(1) hdr by (auto simp: stranger_def)
  next
    case (Admitted s c)
    then have "vouched ik gt pkt from (ph_dcid hdr)"
      using admit_Admitted(1,2) [of ik gt hdr "from" "nw_clients nw" s c, OF _ hdr] a by simp
    then show ?thesis using assms(1) hdr by (auto simp: stranger_def)
  next
    case (Replied out)
    then show ?thesis using r hdr a
      by (auto simp: receive_datagram_def send_reply_def answered_def split: option.splits bool.splits)
  next
    case Dropped
    then show ?thesis using r hdr a by (simp add: receive_datagram_def)
  qed
qed

text \<open>
  C10. Datagrams from strangers, however many, leave no trace in the server: no connection, request,
  queue or path record is created or changed, and each is answered by at most one datagram, sent
  to the address it came from.
\<close>

theorem strangers_leave_no_state:
  assumes "read_loop fuel tr ik gt storage env reads nw = Some (Ok nw')"
    and "\<forall>pkt from reply. Read_Datagram pkt from reply \<in> set reads \<longrightarrow> stranger ik gt (nw_clients nw) pkt from"
  shows "\<exists>outs. nw' = answered outs nw \<and> length outs \<le> length reads
    \<and> snd ` set outs \<subseteq> senders reads"
  using assms
proof (induction fuel tr ik gt storage env reads nw rule: read_loop.induct)
  case (1 fuel tr ik gt storage env nw)
  then show ?case by (intro exI [of _ "[]"]) simp
next
  case (2 fuel tr ik gt storage env reads nw)
  then obtain outs where "nw' = answered outs nw" "length outs \<le> length reads" "snd ` set outs \<subseteq> senders reads"
    by auto
  then show ?case by (intro exI [of _ outs]) simp
next
  case (4 fuel tr ik gt storage env pkt source reply reads nw)
  then obtain go nw1 where r: "receive_datagram fuel tr ik gt storage env pkt source reply nw = Some (go, nw1)"
    by (auto split: option.splits)
  have "stranger ik gt (nw_clients nw) pkt source" using 4(3) by simp
  from stranger_datagram [OF this r]
  obtain outs1 where o1: "nw1 = answered outs1 nw" "length outs1 \<le> 1" "snd ` set outs1 \<subseteq> {source}"
  proof
    assume "nw1 = nw" then show thesis using that [of "[]"] by simp
  next
    assume "\<exists>out. nw1 = answered [(out, source)] nw"
    then obtain out where "nw1 = answered [(out, source)] nw" ..
    then show thesis using that [of "[(out, source)]"] by simp
  qed
  show ?case
  proof (cases go)
    case False
    then have "nw' = nw1" using 4(2) r by simp
    then show ?thesis using o1 by (intro exI [of _ outs1]) auto
  next
    case True
    then have "read_loop fuel tr ik gt storage env reads nw1 = Some (Ok nw')" using 4(2) r by simp
    moreover have "\<forall>pkt from reply. Read_Datagram pkt from reply \<in> set reads \<longrightarrow> stranger ik gt (nw_clients nw1) pkt from"
      using 4(3) o1(1) by simp
    ultimately obtain outs where "nw' = answered outs nw1" "length outs \<le> length reads" "snd ` set outs \<subseteq> senders reads"
      using 4(1) [OF r [unfolded eqTrueI [OF True]] refl refl] by blast
    then show ?thesis using o1 by (intro exI [of _ "outs1 @ outs"]) (auto simp: image_Un)
  qed
qed simp


text \<open>
  C12. The retry handshake lets an honest client in: an Initial packet without a token, for a connection
  id of 8 to 20 bytes, is answered by a Retry packet with a fresh token, and whatever connections
  exist by then, the client's next Initial packet, sent from the same address to the connection id of
  that Retry with that token less than 30 seconds later, is accepted with its original connection id.
\<close>

theorem retry_handshake_admits:
  assumes "mac_ok (gt_sign gt) (gt_verify gt)"
    and "ph_type hdr = Packet_Initial" "in_version_supported ik (ph_version hdr)" "ph_token hdr = Some []"
    and "\<not> dm_contains clients (ph_dcid hdr)" "\<not> dm_contains clients (in_conn_id ik (ph_dcid hdr))"
    and "MIN_ODCID_LEN \<le> length (ph_dcid hdr)" "length (ph_dcid hdr) \<le> MAX_CONN_ID_LEN"
    and "length (in_conn_id ik (ph_dcid hdr)) = MAX_CONN_ID_LEN"
    and "as_millis (elapsed (gt_tokens gt) (gt_clock gt)) < 2 ^ 64"
  shows "\<exists>token. token \<noteq> []
    \<and> admit ik gt hdr from clients = map_option Replied
        (in_retry ik (ph_scid hdr) (ph_dcid hdr) (in_conn_id ik (ph_dcid hdr)) token (ph_version hdr))
    \<and> (\<forall>hdr2 clients2 later. ph_type hdr2 = Packet_Initial \<and> in_version_supported ik (ph_version hdr2)
         \<and> ph_dcid hdr2 = in_conn_id ik (ph_dcid hdr) \<and> ph_token hdr2 = Some token
         \<and> \<not> dm_contains clients2 (ph_dcid hdr2) \<and> \<not> dm_contains clients2 (in_conn_id ik (ph_dcid hdr2))
         \<and> gt_clock gt \<le> later \<and> as_millis (elapsed (gt_tokens gt) later) < 2 ^ 64
         \<and> as_millis (elapsed (gt_tokens gt) later) < as_millis (elapsed (gt_tokens gt) (gt_clock gt)) + TTL_MILLIS
         \<longrightarrow> admit ik (gt\<lparr>gt_clock := later\<rparr>) hdr2 from clients2
             = map_option (Admitted (ph_dcid hdr2)) (in_accept ik (ph_dcid hdr2) (ph_dcid hdr) from))"
proof -
  let ?d = "ph_dcid hdr" and ?c = "in_conn_id ik (ph_dcid hdr)" and ?now = "elapsed (gt_tokens gt) (gt_clock gt)"
  define body where "body = token_body (of_nat (as_millis ?now)) ?d"
  define tag where "tag = gt_sign gt (rt_key (gt_tokens gt)) (authentication_input body ?c from)"
  have len: "8 \<le> length ?d" "length ?d \<le> 20" "length ?c = 20" "length tag = 32"
    using assms(1,7-9) by (simp_all add: retry_consts tag_def mac_ok_length)
  have minted: "mint (gt_sign gt) (gt_tokens gt) ?d ?c from (gt_clock gt) = Some (body @ tag)"
    using assms(10) len by (simp add: mint_def mint_at_Some body_def tag_def)
  have nonempty: "body @ tag \<noteq> []" using len(4) by auto
  have valid: "validate (gt_verify gt) (gt_tokens gt) (body @ tag) ?c from later = Some ?d"
    if "gt_clock gt \<le> later" "as_millis (elapsed (gt_tokens gt) later) < 2 ^ 64"
      "as_millis (elapsed (gt_tokens gt) later) < as_millis ?now + TTL_MILLIS" for later
  proof -
    have "as_millis ?now \<le> as_millis (elapsed (gt_tokens gt) later)"
      using that(1) by (simp add: elapsed_def as_millis_def div_le_mono)
    then show ?thesis
      using that len assms(1,10) unfolding body_def
      by (auto simp: validate_def validate_at_token_body mac_ok_verify tag_def body_def unat_of_nat TTL_MILLIS_def)
  qed
  have "admit ik gt hdr from clients = map_option Replied (in_retry ik (ph_scid hdr) ?d ?c (body @ tag) (ph_version hdr))"
    using assms(2-6) minted by (simp add: admit_def)
  moreover have "admit ik (gt\<lparr>gt_clock := later\<rparr>) hdr2 from clients2
      = map_option (Admitted (ph_dcid hdr2)) (in_accept ik (ph_dcid hdr2) ?d from)"
    if "ph_type hdr2 = Packet_Initial" "in_version_supported ik (ph_version hdr2)" "ph_dcid hdr2 = ?c"
      "ph_token hdr2 = Some (body @ tag)" "\<not> dm_contains clients2 (ph_dcid hdr2)"
      "\<not> dm_contains clients2 (in_conn_id ik (ph_dcid hdr2))" "gt_clock gt \<le> later"
      "as_millis (elapsed (gt_tokens gt) later) < 2 ^ 64"
      "as_millis (elapsed (gt_tokens gt) later) < as_millis ?now + TTL_MILLIS" for hdr2 clients2 later
    using that(1-6) valid [OF that(7-9)] nonempty by (auto simp: admit_def Let_def)
  ultimately show ?thesis using nonempty by blast
qed


subsection \<open>Closed connections\<close>

text \<open>What the server holds for a connection: dispositions, requests, path records, stream registrations.\<close>

lemma collect_client_effect:
  assumes "nw' = collect_client tr ik us cl nw"
  shows "ib_live (hp_buffer (nw_pipeline nw')) c i \<longleftrightarrow> ib_live (hp_buffer (nw_pipeline nw)) c i
      \<and> \<not> (in_closed ik (conn cl) \<and> c = tr_trace_id tr (conn cl))"
    and "req_live (sv_requests (hp_server (nw_pipeline nw'))) c i \<longleftrightarrow>
      req_live (sv_requests (hp_server (nw_pipeline nw))) c i
      \<and> \<not> (in_closed ik (conn cl) \<and> c = tr_trace_id tr (conn cl))"
    and "in_flight (nw_verifier nw') s i \<longleftrightarrow>
      in_flight (nw_verifier nw) s i \<and> \<not> (in_closed ik (conn cl) \<and> s = tr_source_id tr (conn cl))"
    and "sv_station (hp_server (nw_pipeline nw')) = sv_station (hp_server (nw_pipeline nw))"
    and "nw_sessions nw' = (if in_closed ik (conn cl)
      then map_option (clean_closed_connexions us (tr_source_id tr (conn cl))) (nw_sessions nw) else nw_sessions nw)"
  unfolding assms
  by (auto simp: collect_client_def Let_def on_buffer_def dispositions.live_drop_connection
      path_verifier.live_drop_connection cancel_connection_def requests.live_drop_connection ib_live_def)

definition closed_ids :: "('c, 'h) intake \<Rightarrow> ('c \<Rightarrow> 'i) \<Rightarrow> ('c, 'h) client_map \<Rightarrow> 'i set" where
  "closed_ids ik ident clients = {ident (conn cl) | k cl. (k, cl) \<in> set clients \<and> in_closed ik (conn cl)}"

lemma closed_ids_Cons [simp]:
  "closed_ids ik ident [] = {}"
  "closed_ids ik ident ((k, cl) # clients) =
     (if in_closed ik (conn cl) then insert (ident (conn cl)) (closed_ids ik ident clients) else closed_ids ik ident clients)"
  by (auto simp: closed_ids_def)

lemma collect_fold_effect:
  assumes "nw' = fold (\<lambda>(_, cl). collect_client tr ik us cl) cs nw"
  shows "ib_live (hp_buffer (nw_pipeline nw')) c i \<longleftrightarrow>
      ib_live (hp_buffer (nw_pipeline nw)) c i \<and> c \<notin> closed_ids ik (tr_trace_id tr) cs"
    and "req_live (sv_requests (hp_server (nw_pipeline nw'))) c i \<longleftrightarrow>
      req_live (sv_requests (hp_server (nw_pipeline nw))) c i \<and> c \<notin> closed_ids ik (tr_trace_id tr) cs"
    and "in_flight (nw_verifier nw') s i \<longleftrightarrow>
      in_flight (nw_verifier nw) s i \<and> s \<notin> closed_ids ik (tr_source_id tr) cs"
    and "sv_station (hp_server (nw_pipeline nw')) = sv_station (hp_server (nw_pipeline nw))"
  unfolding assms
  by (induction cs arbitrary: nw) (auto simp: collect_client_effect [OF refl] split: if_splits)

text \<open>The stream sessions: every closed connection is cleaned from every stream.\<close>

definition sessions_ok :: "('t \<Rightarrow> bool) \<Rightarrow> ('m, 'w, 't) StreamSessions option \<Rightarrow> bool" where
  "sessions_ok invar sessions \<longleftrightarrow> (\<forall>ss path st. sessions = Some ss \<longrightarrow> dm_get (ss_sessions ss) path = Some st \<longrightarrow> invar (st_sessions st))"

definition listed :: "'t sessions_impl \<Rightarrow> ('m, 'w, 't) StreamSessions option \<Rightarrow> string \<Rightarrow> StreamIdent \<Rightarrow> bool" where
  "listed us sessions path ident \<longleftrightarrow>
     (\<exists>ss st. sessions = Some ss \<and> dm_get (ss_sessions ss) path = Some st \<and> Some ident \<in> set (us_all us (st_sessions st)))"

lemma cleaned_sessions:
  assumes "user_sessions us invar" "sessions_ok invar sessions"
  shows "sessions_ok invar (map_option (clean_closed_connexions us c) sessions)"
    and "listed us (map_option (clean_closed_connexions us c) sessions) path ident \<longleftrightarrow>
      listed us sessions path ident \<and> si_dcid ident \<noteq> c"
proof -
  show "sessions_ok invar (map_option (clean_closed_connexions us c) sessions)"
    using assms(2) user_sessions.invar_remove [OF assms(1)]
    by (auto simp: sessions_ok_def clean_closed_connexions_def stream_cleaning_get)
  have all: "Some ident \<in> set (us_all us (snd (us_remove us c (st_sessions st)))) \<longleftrightarrow>
      si_dcid ident \<noteq> c \<and> Some ident \<in> set (us_all us (st_sessions st))"
    if "sessions = Some ss" "dm_get (ss_sessions ss) path = Some st" for ss st
    using that assms(2) by (intro user_sessions.all_remove [OF assms(1)]) (auto simp: sessions_ok_def)
  show "listed us (map_option (clean_closed_connexions us c) sessions) path ident \<longleftrightarrow>
      listed us sessions path ident \<and> si_dcid ident \<noteq> c"
    using all by (auto simp: listed_def clean_closed_connexions_def stream_cleaning_get)
qed

lemma collect_fold_sessions:
  assumes "user_sessions us invar" "sessions_ok invar (nw_sessions nw)"
    and "nw' = fold (\<lambda>(_, cl). collect_client tr ik us cl) cs nw"
  shows "sessions_ok invar (nw_sessions nw') \<and> (listed us (nw_sessions nw') path ident \<longleftrightarrow>
      listed us (nw_sessions nw) path ident \<and> si_dcid ident \<notin> closed_ids ik (tr_source_id tr) cs)"
  using assms(2,3)
proof (induction cs arbitrary: nw)
  case (Cons kc cs)
  obtain k cl where kc: "kc = (k, cl)" by (cases kc)
  let ?nw = "collect_client tr ik us cl nw"
  have "nw_sessions ?nw = (if in_closed ik (conn cl)
      then map_option (clean_closed_connexions us (tr_source_id tr (conn cl))) (nw_sessions nw) else nw_sessions nw)"
    by (rule collect_client_effect(5) [OF refl])
  then have "sessions_ok invar (nw_sessions ?nw)" "listed us (nw_sessions ?nw) path ident \<longleftrightarrow>
      listed us (nw_sessions nw) path ident \<and> \<not> (in_closed ik (conn cl) \<and> si_dcid ident = tr_source_id tr (conn cl))"
    using cleaned_sessions [OF assms(1) Cons.prems(1)] Cons.prems(1) by auto
  moreover have "nw' = fold (\<lambda>(_, cl). collect_client tr ik us cl) cs ?nw" using Cons.prems(2) by (simp add: kc)
  ultimately show ?case using Cons.IH [of ?nw] by (auto simp: kc)
qed simp

text \<open>
  C7. Garbage collection forgets closed connections and nothing else: of the dispositions, the
  partial requests, the path records and the stream registrations exactly those of a closed
  connection are gone, and exactly the open connections stay. The dispatch channels and the bodies
  waiting in the chunking station stay as well, also those of the closed connections.
\<close>

theorem closed_connections_forgotten:
  assumes "user_sessions us invar" "sessions_ok invar (nw_sessions nw)" "nw' = collect_closed tr ik us nw"
  shows "nw_clients nw' = filter (\<lambda>(_, cl). \<not> in_closed ik (conn cl)) (nw_clients nw)
    \<and> (\<forall>c i. let gone = c \<in> closed_ids ik (tr_trace_id tr) (nw_clients nw) in
         (ib_live (hp_buffer (nw_pipeline nw')) c i \<longleftrightarrow> ib_live (hp_buffer (nw_pipeline nw)) c i \<and> \<not> gone)
       \<and> (req_live (sv_requests (hp_server (nw_pipeline nw'))) c i \<longleftrightarrow>
            req_live (sv_requests (hp_server (nw_pipeline nw))) c i \<and> \<not> gone))
    \<and> (\<forall>s i. in_flight (nw_verifier nw') s i \<longleftrightarrow>
         in_flight (nw_verifier nw) s i \<and> s \<notin> closed_ids ik (tr_source_id tr) (nw_clients nw))
    \<and> (\<forall>path ident. listed us (nw_sessions nw') path ident \<longleftrightarrow>
         listed us (nw_sessions nw) path ident \<and> si_dcid ident \<notin> closed_ids ik (tr_source_id tr) (nw_clients nw))
    \<and> sv_station (hp_server (nw_pipeline nw')) = sv_station (hp_server (nw_pipeline nw))"
proof -
  let ?nw = "fold (\<lambda>(_, cl). collect_client tr ik us cl) (nw_clients nw) nw"
  have nw': "nw' = ?nw\<lparr>nw_clients := filter (\<lambda>(_, cl). \<not> in_closed ik (conn cl)) (nw_clients nw)\<rparr>"
    using assms(3) by (simp add: collect_closed_def)
  show ?thesis
    using collect_fold_effect [OF refl, where nw = nw and cs = "nw_clients nw" and tr = tr and ik = ik and us = us]
      collect_fold_sessions [OF assms(1,2) refl]
    by (simp add: nw' Let_def)
qed


subsection \<open>Events\<close>

text \<open>The events that one run of the event loop got from the library, in order.\<close>

inductive h3_trace ::
  "('c, 'h) transport \<Rightarrow> ('c, 'h) intake \<Rightarrow> path_buf \<Rightarrow> io_env \<Rightarrow> ('c, 'h, 'm, 'l, 'f, 'w) intake_state
     \<Rightarrow> (stream_id \<times> h3_event) list \<Rightarrow> ('c, 'h, 'm, 'l, 'f, 'w) intake_state \<Rightarrow> bool"
  for tr ik storage env where
  trace_stop: "with_h3 (in_poll ik) cl = Some (Inl e, cl1) \<Longrightarrow> h3_trace tr ik storage env (cl, p, v) [] (cl1, p, v)"
| trace_event: "with_h3 (in_poll ik) cl = Some (Inr (i, ev), cl1) \<Longrightarrow>
     handle_event fuel tr ik storage env i ev (cl1, p, v) = Some st \<Longrightarrow> h3_trace tr ik storage env st evs st' \<Longrightarrow>
     h3_trace tr ik storage env (cl, p, v) ((i, ev) # evs) st'"

lemma read_events_trace:
  "read_events fuel tr ik storage env st = Some st' \<Longrightarrow> \<exists>evs. h3_trace tr ik storage env st evs st'"
proof (induction fuel tr ik storage env st rule: read_events.induct)
  case (2 fuel tr ik storage env cl p v)
  obtain r cl1 where r: "with_h3 (in_poll ik) cl = Some (r, cl1)"
    using 2(2) by (auto split: option.splits)
  show ?case
  proof (cases r)
    case (Inl e)
    then show ?thesis using 2(2) r trace_stop [of ik cl e cl1 tr storage env p v] by auto
  next
    case (Inr iev)
    obtain i ev where iev: "iev = (i, ev)" by (cases iev)
    obtain st where st: "handle_event fuel tr ik storage env i ev (cl1, p, v) = Some st"
      "read_events fuel tr ik storage env st = Some st'"
      using 2(2) r Inr iev by (auto split: option.splits)
    then obtain evs where "h3_trace tr ik storage env st evs st'"
      using 2(1) [OF r refl, of "(i, ev)" i ev st] Inr iev by auto
    then show ?thesis using trace_event r st(1) Inr iev by blast
  qed
qed simp

text \<open>The library's calls on a connection change neither its source id nor its trace id.\<close>

definition ids_kept :: "('c, 'h) transport \<Rightarrow> ('c, 'h) intake \<Rightarrow> bool" where
  "ids_kept tr ik \<longleftrightarrow>
     (let same = (\<lambda>c c'. tr_source_id tr c' = tr_source_id tr c \<and> tr_trace_id tr c' = tr_trace_id tr c) in
      (\<forall>h c. same c (snd (snd (in_poll ik (h, c))))) \<and> (\<forall>i h c. same c (snd (snd (in_recv_body ik i (h, c)))))
      \<and> (\<forall>i d e c. same c (tr_stream_shutdown tr i d e c)))"

lemma with_h3_conn:
  "with_h3 f cl = Some (r, cl1) \<Longrightarrow> \<exists>h h'. http3_conn cl = Some h \<and> f (h, conn cl) = (r, h', conn cl1) \<and> http3_conn cl1 = Some h'"
  by (auto simp: with_h3_def split: option.splits prod.splits)

lemma read_body_frame:
  "ids_kept tr ik \<Longrightarrow> read_body fuel tr ik storage env i (cl, p, v) = Some (cl', p', v') \<Longrightarrow>
     v' = v \<and> ib_jobs (hp_buffer p') = ib_jobs (hp_buffer p) \<and> tr_source_id tr (conn cl') = tr_source_id tr (conn cl)
       \<and> tr_trace_id tr (conn cl') = tr_trace_id tr (conn cl)"
proof (induction fuel arbitrary: cl p)
  case (Suc fuel)
  obtain r cl1 where r: "with_h3 (in_recv_body ik i) cl = Some (r, cl1)"
    using Suc.prems(2) by (auto split: option.splits)
  obtain h h' where "in_recv_body ik i (h, conn cl) = (r, h', conn cl1)" using with_h3_conn [OF r] by blast
  then have ids: "tr_source_id tr (conn cl1) = tr_source_id tr (conn cl)" "tr_trace_id tr (conn cl1) = tr_trace_id tr (conn cl)"
    using Suc.prems(1) unfolding ids_kept_def Let_def by (metis snd_conv)+
  show ?case
  proof (cases r)
    case None
    then show ?thesis using Suc.prems(2) r ids by simp
  next
    case (Some packet)
    then show ?thesis
      using Suc.IH [OF Suc.prems(1), of cl1 "on_requests (store_body_packet storage env i (tr_source_id tr (conn cl1)) (tr_trace_id tr (conn cl1)) packet) p"]
        Suc.prems(2) r ids by (simp add: on_requests_def on_buffer_def on_server_def)
  qed
qed simp

text \<open>Injections of a stream waiting for a response worker, and headers that name a known path.\<close>

definition jobs_of :: "scid \<Rightarrow> stream_id \<Rightarrow> ('l, 'f, 'w) ResponseInjectionBuffer \<Rightarrow> nat" where
  "jobs_of s i b = length (filter (\<lambda>ri. ri_scid ri = s \<and> ri_stream_id ri = i) (ib_jobs b))"

fun names_known_path :: "(string \<Rightarrow> bool) \<Rightarrow> h3_event \<Rightarrow> bool" where
  "names_known_path known (Headers_Event headers more_frames) =
     (case extract_path_from_hdr headers of Some path \<Rightarrow> known path | None \<Rightarrow> False)"
| "names_known_path known _ = False"

definition known_headers :: "(string \<Rightarrow> bool) \<Rightarrow> stream_id \<Rightarrow> (stream_id \<times> h3_event) list \<Rightarrow> nat" where
  "known_headers known i evs = length (filter (\<lambda>(j, ev). j = i \<and> names_known_path known ev) evs)"

lemma jobs_of_simps [simp]:
  "jobs_of s i (begin_request c j b) = jobs_of s i b" "jobs_of s i (cancel_request c j b) = jobs_of s i b"
  "jobs_of s i (handle_finished_stream c s' j b) = jobs_of s i b + of_bool (s' = s \<and> j = i)"
  by (simp_all add: jobs_of_def begin_request_def cancel_request_def handle_finished_stream_def pool_send_def
      response_injection_new_def)

lemma verifier_simps [simp]:
  "in_flight (snd (is_finished_request_a_valid_path s j v)) s' i \<longleftrightarrow> in_flight v s' i \<and> \<not> (s' = s \<and> i = j)"
  "is_accepted_path (snd (is_finished_request_a_valid_path s j v)) = is_accepted_path v"
  "is_accepted_path (snd (insert_stream_path_for_conn s j path v)) = is_accepted_path v"
  "fst (is_finished_request_a_valid_path s j v) \<longleftrightarrow> in_flight v s j"
  using is_accepted_path_kept [of "Check_Finished s j"] is_accepted_path_kept [of "Insert_Path s j path"]
  by (auto simp: path_verifier.live_drop_request in_flight_def is_finished_request_a_valid_path_def)

lemma event_effect:
  assumes "ids_kept tr ik" "handle_event fuel tr ik storage env j ev (cl, p, v) = Some (cl', p', v')"
    and "s = tr_source_id tr (conn cl)"
  shows "tr_source_id tr (conn cl') = s \<and> is_accepted_path v' = is_accepted_path v
    \<and> jobs_of s i (hp_buffer p') + of_bool (in_flight v' s i)
        \<le> jobs_of s i (hp_buffer p) + of_bool (in_flight v s i) + known_headers (is_accepted_path v) i [(j, ev)]"
proof (cases ev)
  case (Headers_Event headers more_frames)
  have shut: "tr_source_id tr (tr_stream_shutdown tr i' d e c) = tr_source_id tr c" for i' d e c
    using assms(1) by (simp add: ids_kept_def Let_def)
  show ?thesis
  proof (cases "extract_path_from_hdr headers")
    case None
    then show ?thesis using assms(2,3) Headers_Event
      by (auto simp: handle_event_def handle_headers_event_def Let_def shut on_buffer_def)
  next
    case (Some path)
    then show ?thesis using assms(2,3) Headers_Event
      by (auto simp: handle_event_def handle_headers_event_def Let_def on_buffer_def process_header_def
          in_flight_insert known_headers_def)
  qed
next
  case Data_Event
  then show ?thesis using assms read_body_frame [OF assms(1)]
    by (fastforce simp: handle_event_def jobs_of_def)
next
  case Finished_Event
  then show ?thesis using assms(2,3)
    by (auto simp: handle_event_def handle_finished_event_def Let_def on_buffer_def case_prod_beta)
next
  case Reset_Event
  then show ?thesis using assms(2,3)
    by (auto simp: handle_event_def handle_reset_event_def Let_def on_buffer_def)
qed (use assms(2,3) in \<open>auto simp: handle_event_def\<close>)

lemma trace_jobs:
  assumes "ids_kept tr ik" "h3_trace tr ik storage env st evs st'"
  shows "\<forall>cl p v cl' p' v'. st = (cl, p, v) \<longrightarrow> st' = (cl', p', v') \<longrightarrow>
    jobs_of (tr_source_id tr (conn cl)) i (hp_buffer p') + of_bool (in_flight v' (tr_source_id tr (conn cl)) i)
      \<le> jobs_of (tr_source_id tr (conn cl)) i (hp_buffer p) + of_bool (in_flight v (tr_source_id tr (conn cl)) i)
        + known_headers (is_accepted_path v) i evs"
  using assms(2)
proof (induction rule: h3_trace.induct)
  case (trace_event cl j ev cl1 fuel p v st evs st')
  obtain cl2 p2 v2 where st: "st = (cl2, p2, v2)" by (cases st)
  obtain h h' where "in_poll ik (h, conn cl) = (Inr (j, ev), h', conn cl1)"
    using with_h3_conn [OF trace_event.hyps(1)] by blast
  then have s: "tr_source_id tr (conn cl1) = tr_source_id tr (conn cl)"
    using assms(1) unfolding ids_kept_def Let_def by (metis snd_conv)
  note step = event_effect [OF assms(1) trace_event.hyps(2) [unfolded st], OF s [symmetric], of i]
  have "known_headers known i ((j, ev) # evs) = known_headers known i [(j, ev)] + known_headers known i evs" for known
    by (simp add: known_headers_def)
  then show ?case using trace_event.IH step st by fastforce
qed auto

text \<open>
  The network loop hands a request to the response workers only for headers that named a known
  path: over one run of the event loop the injections of a stream grow by at most the number of
  well-formed header events of that stream with a registered path, less what is kept in flight.
\<close>

theorem injection_needs_known_path:
  assumes "ids_kept tr ik" "read_events fuel tr ik storage env (cl, p, v) = Some (cl', p', v')"
  shows "\<exists>evs. h3_trace tr ik storage env (cl, p, v) evs (cl', p', v')
    \<and> (\<forall>i. let s = tr_source_id tr (conn cl) in
         jobs_of s i (hp_buffer p') + of_bool (in_flight v' s i)
         \<le> jobs_of s i (hp_buffer p) + of_bool (in_flight v s i) + known_headers (is_accepted_path v) i evs)"
proof -
  obtain evs where evs: "h3_trace tr ik storage env (cl, p, v) evs (cl', p', v')"
    using read_events_trace [OF assms(2)] by blast
  show ?thesis
    by (intro exI [of _ evs] conjI allI) (use evs trace_jobs [OF assms(1) evs] in \<open>simp_all add: Let_def\<close>)
qed


subsection \<open>The loops end\<close>

text \<open>
  What the library has buffered for a connection is finite: \<open>load\<close> bounds the events and body reads it
  can still give before another datagram arrives. Every event and every read takes from it.
\<close>

definition drains :: "('c, 'h) transport \<Rightarrow> ('c, 'h) intake \<Rightarrow> ('h \<times> 'c \<Rightarrow> nat) \<Rightarrow> bool" where
  "drains tr ik load \<longleftrightarrow>
     (\<forall>h c x hc. in_poll ik (h, c) = (Inr x, hc) \<longrightarrow> load hc < load (h, c))
     \<and> (\<forall>i h c x hc. in_recv_body ik i (h, c) = (Some x, hc) \<longrightarrow> load hc < load (h, c))
     \<and> (\<forall>i h c hc. in_recv_body ik i (h, c) = (None, hc) \<longrightarrow> load hc \<le> load (h, c))
     \<and> (\<forall>i d e h c. load (h, tr_stream_shutdown tr i d e c) \<le> load (h, c))"

lemma read_body_total:
  assumes "drains tr ik load"
  shows "http3_conn cl = Some h \<Longrightarrow> load (h, conn cl) < fuel \<Longrightarrow>
    \<exists>cl' p' h'. read_body fuel tr ik storage env i (cl, p, v) = Some (cl', p', v) \<and> http3_conn cl' = Some h'
      \<and> load (h', conn cl') \<le> load (h, conn cl)"
proof (induction fuel arbitrary: cl p h)
  case (Suc fuel)
  obtain r h1 c1 where r: "in_recv_body ik i (h, conn cl) = (r, h1, c1)" by (cases "in_recv_body ik i (h, conn cl)")
  let ?cl = "cl\<lparr>conn := c1, http3_conn := Some h1\<rparr>"
  have w: "with_h3 (in_recv_body ik i) cl = Some (r, ?cl)" using Suc.prems(1) r by (simp add: with_h3_def)
  show ?case
  proof (cases r)
    case None
    then have "load (h1, c1) \<le> load (h, conn cl)" using assms r unfolding drains_def by blast
    then show ?thesis using w None by simp
  next
    case (Some packet)
    then have less: "load (h1, c1) < load (h, conn cl)" using assms r unfolding drains_def by blast
    let ?p = "on_requests (store_body_packet storage env i (tr_source_id tr (conn ?cl)) (tr_trace_id tr (conn ?cl)) packet) p"
    obtain cl' p' h' where "read_body fuel tr ik storage env i (?cl, ?p, v) = Some (cl', p', v)" "http3_conn cl' = Some h'"
      "load (h', conn cl') \<le> load (h1, c1)"
      using Suc.IH [of ?cl h1 ?p] less Suc.prems(2) by auto
    then show ?thesis using w Some less by auto
  qed
qed simp

lemma handle_event_total:
  assumes "drains tr ik load" "http3_conn cl = Some h" "load (h, conn cl) < fuel"
  shows "\<exists>cl' p' v' h'. handle_event fuel tr ik storage env i ev (cl, p, v) = Some (cl', p', v') \<and> http3_conn cl' = Some h'
    \<and> load (h', conn cl') \<le> load (h, conn cl)"
proof (cases ev)
  case (Headers_Event headers more_frames)
  have shut: "load (h, tr_stream_shutdown tr i' d e c) \<le> load (h, c)" for i' d e c
    using assms(1) by (simp add: drains_def)
  have "load (h, tr_stream_shutdown tr i Shutdown_Write 0x10e (tr_stream_shutdown tr i Shutdown_Read 0x10e (conn cl)))
      \<le> load (h, conn cl)" by (rule order_trans [OF shut shut])
  then show ?thesis using assms(2)
    by (auto simp: handle_event_def handle_headers_event_def Let_def Headers_Event split: option.split)
next
  case Data_Event
  then show ?thesis using read_body_total [OF assms, of storage env i p v] by (simp add: handle_event_def) blast
qed (use assms(2) in \<open>auto simp: handle_event_def handle_finished_event_def handle_reset_event_def Let_def case_prod_beta\<close>)

text \<open>
  C25. Reading a connection's events ends: with more fuel than the library can still give events and
  body reads, the event loop returns, whatever the events are.
\<close>

theorem event_loop_terminates:
  assumes "drains tr ik load" "http3_conn cl = Some h" "load (h, conn cl) < fuel"
  shows "\<exists>st. read_events fuel tr ik storage env (cl, p, v) = Some st"
  using assms(2,3)
proof (induction fuel arbitrary: cl h p v)
  case (Suc fuel)
  obtain r h1 c1 where r: "in_poll ik (h, conn cl) = (r, h1, c1)" by (cases "in_poll ik (h, conn cl)")
  let ?cl = "cl\<lparr>conn := c1, http3_conn := Some h1\<rparr>"
  have w: "with_h3 (in_poll ik) cl = Some (r, ?cl)" using Suc.prems(1) r by (simp add: with_h3_def)
  show ?case
  proof (cases r)
    case (Inr iev)
    obtain i ev where iev: "iev = (i, ev)" by (cases iev)
    have less: "load (h1, c1) < load (h, conn cl)" using assms(1) r Inr unfolding drains_def by blast
    obtain cl' p' v' h' where "handle_event fuel tr ik storage env i ev (?cl, p, v) = Some (cl', p', v')"
      "http3_conn cl' = Some h'" "load (h', conn cl') \<le> load (h1, c1)"
      using handle_event_total [OF assms(1), of ?cl h1 fuel storage env i ev p v] less Suc.prems(2) by auto
    then show ?thesis using w Inr iev less Suc.prems(2) Suc.IH [of cl' h' p' v'] by auto
  qed (simp add: w)
qed simp


subsection \<open>Witnesses\<close>

text \<open>A connection of the demo library: whether it is closed, and the events it still gives.\<close>

type_synonym demo_connection = "bool \<times> (stream_id \<times> h3_event) list"

definition demo_transport :: "(demo_connection, unit) transport" where
  "demo_transport = \<lparr>tr_source_id = (\<lambda>_. [1]), tr_trace_id = (\<lambda>_. ''c''), tr_writable = (\<lambda>_. []),
     tr_stream_writable = (\<lambda>_ _ c. (Some False, c)), tr_stream_shutdown = (\<lambda>_ _ _ c. c),
     tr_send_response_with_priority = (\<lambda>_ _ _ _ hc. (Ok (), hc)), tr_send_response = (\<lambda>_ _ _ hc. (Ok (), hc)),
     tr_send_additional_headers = (\<lambda>_ _ _ _ hc. (Ok (), hc)), tr_send_body = (\<lambda>_ data _ hc. (Ok (length data), hc))\<rparr>"

definition demo_poll :: "unit \<times> demo_connection \<Rightarrow> (h3_error + stream_id \<times> h3_event) \<times> unit \<times> demo_connection" where
  "demo_poll hc = (case snd (snd hc) of [] \<Rightarrow> (Err H3_Done, hc) | ev # evs \<Rightarrow> (Ok ev, (), fst (snd hc), evs))"

text \<open>Its packets: the first byte 7 stands for an Initial packet with a valid token.\<close>

definition demo_header :: "bytes \<Rightarrow> packet_header option" where
  "demo_header pkt = (case pkt of [] \<Rightarrow> None | b # _ \<Rightarrow>
     Some \<lparr>ph_type = Packet_Initial, ph_version = 1, ph_dcid = (if b = 0 then replicate 8 53 else replicate 20 66),
       ph_scid = [9], ph_token = Some (if b = 7 then demo_token else if b = 0 then [] else [1])\<rparr>)"

definition demo_intake :: "(demo_connection, unit) intake" where
  "demo_intake = \<lparr>in_header = demo_header, in_conn_id = (\<lambda>_. replicate 20 66), in_version_supported = (\<lambda>n. n = 1),
     in_negotiate_version = (\<lambda>_ _. Some [0]), in_retry = (\<lambda>_ _ _ token _. Some token),
     in_accept = (\<lambda>_ _ _. Some (False, [])), in_recv = (\<lambda>_ _ c. (True, c)), in_ready = (\<lambda>_. True), in_closed = fst,
     in_timeout = (\<lambda>c. c), in_h3_new = (\<lambda>c. (Some (), c)), in_poll = demo_poll, in_recv_body = (\<lambda>_ hc. (None, hc))\<rparr>"

definition demo_gate :: "byte gate" where
  "demo_gate = \<lparr>gt_sign = demo_sign, gt_verify = demo_verify, gt_tokens = demo_tokens, gt_clock = 8000000\<rparr>"

definition demo_network :: "(demo_connection, unit) client_map \<Rightarrow> (demo_connection, unit, unit, unit, unit, unit, registered) network" where
  "demo_network clients = \<lparr>nw_clients = clients,
     nw_pipeline = pipeline_new \<lparr>sv_requests = requests_new (pool_new 1), sv_station = station_new, sv_app = ()\<rparr>,
     nw_verifier = verifier_new [''/a''] None, nw_sessions = Some demo_sessions, nw_outbox = []\<rparr>"

lemma demo_accepts: "\<exists>cl. read_loop 2 demo_transport demo_intake demo_gate [] demo_env
    [Read_Datagram [7] (SockV4 1 443) (Some True)] (demo_network []) = Some (Ok (demo_network [(replicate 20 66, cl)]))"
proof -
  have v: "validate demo_verify demo_tokens demo_token (replicate 20 66) (SockV4 1 443) 8000000 = Some (replicate 8 53)"
    using demo_validated by (simp add: validate_def elapsed_def demo_tokens_def)
  have "demo_token \<noteq> []" by (simp add: demo_token_def token_body_def)
  then have "admit demo_intake demo_gate (the (demo_header [7])) (SockV4 1 443) [] = Some (Admitted (replicate 20 66) (False, []))"
    using v by (simp add: admit_def demo_header_def demo_intake_def demo_gate_def)
  then show ?thesis
    by (simp add: receive_datagram_def demo_network_def demo_intake_def demo_header_def feed_def feed_client_def
        open_h3_def with_h3_def demo_poll_def client_new_def dm_insert_def dm_get_def numeral_2_eq_2)
qed

theorem new_connection_has_valid_token_witness:
  "\<exists>pkt from reply. Read_Datagram pkt from reply \<in> set [Read_Datagram [7] (SockV4 1 443) (Some True)]
     \<and> vouched demo_intake demo_gate pkt from (replicate 20 66)"
proof -
  obtain cl where r: "read_loop 2 demo_transport demo_intake demo_gate [] demo_env
    [Read_Datagram [7] (SockV4 1 443) (Some True)] (demo_network []) = Some (Ok (demo_network [(replicate 20 66, cl)]))"
    using demo_accepts by blast
  show ?thesis
    by (rule new_connection_has_valid_token [OF r]) (simp_all add: demo_network_def dm_contains_def dm_get_def)
qed

lemma demo_stranger: "stranger demo_intake demo_gate [] [0] (SockV4 1 443)"
  using validate_at_token_body [of "[]"]
  by (simp add: stranger_def vouched_def demo_intake_def demo_header_def demo_gate_def validate_def validate_at_def
      retry_consts)

lemma demo_retried: "\<exists>out. read_loop 2 demo_transport demo_intake demo_gate [] demo_env
    [Read_Datagram [0] (SockV4 1 443) (Some True)] (demo_network []) = Some (Ok (answered [(out, SockV4 1 443)] (demo_network [])))"
proof -
  obtain tok where tok: "mint demo_sign demo_tokens (replicate 8 53) (replicate 20 66) (SockV4 1 443) 8000000 = Some tok"
    by (simp add: mint_def elapsed_def demo_tokens_def mint_at_Some as_millis_def)
  have "admit demo_intake demo_gate (the (demo_header [0])) (SockV4 1 443) [] = Some (Replied tok)"
    using tok by (simp add: admit_def Let_def demo_header_def demo_intake_def demo_gate_def)
  then show ?thesis
    by (simp add: receive_datagram_def demo_network_def demo_intake_def demo_header_def send_reply_def answered_def)
qed

theorem strangers_leave_no_state_witness:
  "\<exists>out outs. answered [(out, SockV4 1 443)] (demo_network []) = answered outs (demo_network [])
     \<and> length outs \<le> 1 \<and> snd ` set outs \<subseteq> {SockV4 1 443}"
proof -
  obtain out where r: "read_loop 2 demo_transport demo_intake demo_gate [] demo_env
    [Read_Datagram [0] (SockV4 1 443) (Some True)] (demo_network []) = Some (Ok (answered [(out, SockV4 1 443)] (demo_network [])))"
    using demo_retried by blast
  have "\<forall>pkt from reply. Read_Datagram pkt from reply \<in> set [Read_Datagram [0] (SockV4 1 443) (Some True)]
      \<longrightarrow> stranger demo_intake demo_gate (nw_clients (demo_network [])) pkt from"
    using demo_stranger by (simp add: demo_network_def)
  from strangers_leave_no_state [OF r this] show ?thesis by auto
qed

theorem retry_handshake_admits_witness:
  "\<exists>token. token \<noteq> [] \<and> admit demo_intake demo_gate (the (demo_header [0])) (SockV4 1 443) [] = Some (Replied token)"
proof -
  have "\<exists>token. token \<noteq> [] \<and> admit demo_intake demo_gate (the (demo_header [0])) (SockV4 1 443) []
      = map_option Replied (in_retry demo_intake (ph_scid (the (demo_header [0]))) (ph_dcid (the (demo_header [0])))
          (in_conn_id demo_intake (ph_dcid (the (demo_header [0])))) token (ph_version (the (demo_header [0]))))"
    using retry_handshake_admits [of demo_gate "the (demo_header [0])" demo_intake "[]" "SockV4 1 443"] demo_mac_ok
    by (auto simp: demo_gate_def demo_header_def demo_intake_def retry_consts elapsed_def demo_tokens_def as_millis_def)
  then show ?thesis by (simp add: demo_intake_def)
qed

definition demo_client :: "bool \<Rightarrow> (stream_id \<times> h3_event) list \<Rightarrow> (demo_connection, unit) Client" where
  "demo_client is_closed evs = (client_new [1] (is_closed, evs))\<lparr>http3_conn := Some ()\<rparr>"

theorem closed_connections_forgotten_witness:
  "nw_clients (collect_closed demo_transport demo_intake registered_impl (demo_network [([1], demo_client True [])])) = []
   \<and> \<not> listed registered_impl
        (nw_sessions (collect_closed demo_transport demo_intake registered_impl (demo_network [([1], demo_client True [])])))
        ''/p'' (stream_ident_new 7 [1] 4)"
proof -
  have "sessions_ok dm_wf (nw_sessions (demo_network [([1], demo_client True [])]))"
    by (auto simp: sessions_ok_def demo_network_def demo_sessions_def dm_get_def dm_wf_def split: if_splits)
  from closed_connections_forgotten [OF registered.user_sessions_axioms this refl, of demo_transport demo_intake]
  show ?thesis
    by (simp add: demo_network_def demo_client_def client_new_def demo_intake_def demo_transport_def)
qed

lemma demo_drains: "drains demo_transport demo_intake (\<lambda>hc. length (snd (snd hc)))"
  by (auto simp: drains_def demo_intake_def demo_transport_def demo_poll_def split: list.splits)

definition demo_events :: "(stream_id \<times> h3_event) list" where
  "demo_events = [(0, Headers_Event [header '':method'' ''GET'', header '':path'' ''/a''] False), (0, Finished_Event)]"

theorem event_loop_terminates_witness:
  "\<exists>st. read_events 3 demo_transport demo_intake [] demo_env (demo_client False demo_events,
     nw_pipeline (demo_network []), nw_verifier (demo_network [])) = Some st"
  by (rule event_loop_terminates [OF demo_drains]) (simp_all add: demo_client_def client_new_def demo_events_def)

lemma demo_ids_kept: "ids_kept demo_transport demo_intake"
  by (simp add: ids_kept_def demo_transport_def)

lemma demo_events_run:
  "\<exists>cl p v. read_events 3 demo_transport demo_intake [] demo_env (demo_client False demo_events,
     nw_pipeline (demo_network []), nw_verifier (demo_network [])) = Some (cl, p, v) \<and> jobs_of [1] 0 (hp_buffer p) = 1"
proof -
  have path: "extract_path_from_hdr [header '':method'' ''GET'', header '':path'' ''/a''] = Some ''/a''"
    by code_simp
  show ?thesis
    by (simp add: path demo_client_def client_new_def demo_events_def with_h3_def demo_intake_def demo_poll_def
        handle_event_def handle_headers_event_def handle_finished_event_def on_buffer_def demo_network_def
        insert_stream_path_for_conn_def is_accepted_path_def verifier_new_def is_finished_request_a_valid_path_def
        demo_transport_def pipeline_new_def injection_buffer_new_def process_header_def Let_def numeral_3_eq_3
        begin_request_def handle_finished_stream_def pool_send_def response_injection_new_def jobs_of_def)
qed

theorem injection_needs_known_path_witness:
  "\<exists>cl p v evs. h3_trace demo_transport demo_intake [] demo_env (demo_client False demo_events,
        nw_pipeline (demo_network []), nw_verifier (demo_network [])) evs (cl, p, v)
     \<and> jobs_of [1] 0 (hp_buffer p) = 1 \<and> 1 \<le> known_headers (\<lambda>path. path = ''/a'') 0 evs"
proof -
  obtain cl p v where run: "read_events 3 demo_transport demo_intake [] demo_env (demo_client False demo_events,
     nw_pipeline (demo_network []), nw_verifier (demo_network [])) = Some (cl, p, v)" and jobs: "jobs_of [1] 0 (hp_buffer p) = 1"
    using demo_events_run by blast
  have known: "is_accepted_path (nw_verifier (demo_network [])) = (\<lambda>path. path = ''/a'')"
    by (rule ext) (simp add: demo_network_def is_accepted_path_def verifier_new_def)
  have zero: "jobs_of [1] 0 (hp_buffer (nw_pipeline (demo_network []))) = 0" "\<not> in_flight (nw_verifier (demo_network [])) [1] 0"
    by (simp_all add: demo_network_def jobs_of_def pipeline_new_def injection_buffer_new_def in_flight_def verifier_new_def)
  obtain evs where evs: "h3_trace demo_transport demo_intake [] demo_env (demo_client False demo_events,
        nw_pipeline (demo_network []), nw_verifier (demo_network [])) evs (cl, p, v)"
    "\<forall>i. let s = tr_source_id demo_transport (conn (demo_client False demo_events)) in
         jobs_of s i (hp_buffer p) + of_bool (in_flight v s i)
         \<le> jobs_of s i (hp_buffer (nw_pipeline (demo_network []))) + of_bool (in_flight (nw_verifier (demo_network [])) s i)
           + known_headers (\<lambda>path. path = ''/a'') i evs"
    using injection_needs_known_path [OF demo_ids_kept run] unfolding known by blast
  have "tr_source_id demo_transport c = [1]" for c by (simp add: demo_transport_def)
  then have "1 \<le> known_headers (\<lambda>path. path = ''/a'') 0 evs"
    using spec [OF evs(2), of 0] jobs zero by (simp add: Let_def split: if_splits)
  then show ?thesis using evs(1) jobs by blast
qed

end
