(* ===== verification/WriterThreads.thy ===== *)
theory WriterThreads
  imports RequestsTable
begin

section \<open>The threads that write request bodies\<close>

text \<open>
  Model of the loops of \<open>src/file_writer/event_loop.rs\<close>, \<open>event_loop_cb.rs\<close> and
  \<open>file_finishing_ev_loop.rs\<close>, over the state of \<open>RequestsTable\<close>. A writer thread takes the oldest
  item of its queue and writes it through the handle in it; a finishing thread runs a callback that
  a file has handed over. The lemmas say where the items of a file wait and what one step does to it;
  \<open>FileRequests\<close> builds on them.
\<close>

subsection \<open>The steps of the threads\<close>

definition manage_event :: "uuid \<times> usize \<times> bytes \<Rightarrow> ('l, 'f) requests_state \<Rightarrow> ('l, 'f) requests_state" where
  "manage_event item st =
     (case item of (h, packet_id, data) \<Rightarrow>
        st\<lparr>files := dm_modify h (\<lambda>cell. snd (write_on_disk data cell)) (files st)\<rparr>)"

text \<open>One turn of the loop of writer thread \<open>n\<close>; with an empty queue it waits.\<close>

definition writer_turn :: "usize \<Rightarrow> ('l, 'f) requests_state \<Rightarrow> ('l, 'f) requests_state" where
  "writer_turn n st =
     (case list_get n (worker_queues (pool st)) of
        Some (msg # rest) \<Rightarrow>
          manage_event msg (st\<lparr>pool := (pool st)\<lparr>worker_queues := (worker_queues (pool st))[n := rest]\<rparr>\<rparr>)
      | _ \<Rightarrow> st)"

text \<open>A finishing thread runs the oldest callback that a file has handed over.\<close>

definition manage_file_finishing_ev :: "file_cell \<Rightarrow> file_cell" where
  "manage_file_finishing_ev c = (case sent c of [] \<Rightarrow> c | cb # cbs \<Rightarrow> c\<lparr>sent := cbs, ran := ran c @ [cb]\<rparr>)"

text \<open>
  What the threads do with the files: a turn of a writer thread, a turn of a finishing thread, and
  a call of the application on a handle it was given with an event.
\<close>

datatype thread_op =
    Writer_Turn usize
  | Finishing_Turn uuid
  | Use_Handle uuid fw_op

fun thread_step :: "thread_op \<Rightarrow> ('l, 'f) requests_state \<Rightarrow> ('l, 'f) requests_state" where
  "thread_step (Writer_Turn n) st = writer_turn n st"
| "thread_step (Finishing_Turn h) st = st\<lparr>files := dm_modify h manage_file_finishing_ev (files st)\<rparr>"
| "thread_step (Use_Handle h x) st = st\<lparr>files := dm_modify h (\<lambda>cell. snd (fw_step x cell)) (files st)\<rparr>"


subsection \<open>What waits for a file\<close>

definition items_of :: "uuid \<Rightarrow> FileWriterPool \<Rightarrow> (uuid \<times> usize \<times> bytes) list list" where
  "items_of h p = map (filter (\<lambda>(h', _). h' = h)) (worker_queues p)"

definition awaiting :: "uuid \<Rightarrow> FileWriterPool \<Rightarrow> bytes" where
  "awaiting h p = concat (map (\<lambda>(_, _, d). d) (concat (items_of h p)))"

text \<open>All items of a file wait in the queue of one thread.\<close>

definition waits_in :: "usize \<Rightarrow> uuid \<Rightarrow> (uuid \<times> usize \<times> bytes) list \<Rightarrow> FileWriterPool \<Rightarrow> bool" where
  "waits_in n h q p \<longleftrightarrow> pool_inv p \<and> n < workers_amount p
     \<and> items_of h p = (replicate (workers_amount p) [])[n := q]"

lemma concat_one: "n < w \<Longrightarrow> concat ((replicate w [])[n := q]) = q"
proof (induction w arbitrary: n)
  case (Suc w)
  then show ?case by (cases n) simp_all
qed simp

lemma awaiting_in: "waits_in n h q p \<Longrightarrow> awaiting h p = concat (map (\<lambda>(_, _, d). d) q)"
  by (simp add: waits_in_def awaiting_def concat_one)

lemma pool_inv_D: "pool_inv p \<Longrightarrow> length (worker_queues p) = workers_amount p"
  by (simp add: pool_inv_def)

lemma items_associate [simp]: "items_of h (associate_stream_with_next_listener i c p) = items_of h p"
  "workers_amount (associate_stream_with_next_listener i c p) = workers_amount p"
  by (simp_all add: items_of_def associate_stream_with_next_listener_def Let_def)

lemma waits_associate [simp]:
  "waits_in n h q p \<Longrightarrow> waits_in n h q (associate_stream_with_next_listener i c p)"
  by (simp add: waits_in_def inv_intros)

lemma waits_send:
  assumes "waits_in n h q p"
  shows "waits_in n h (if h' = h then q @ [(h', x)] else q) (send_writable_item (if h' = h then n else k) (h', x) p)"
proof -
  have len: "length (worker_queues p) = workers_amount p" and n: "n < workers_amount p"
    and it: "map (filter (\<lambda>(h', _). h' = h)) (worker_queues p) = (replicate (workers_amount p) [])[n := q]"
    using assms by (simp_all add: waits_in_def pool_inv_D items_of_def)
  have nth: "filter (\<lambda>(h', _). h' = h) (worker_queues p ! j) = (replicate (workers_amount p) [])[n := q] ! j"
    if "j < workers_amount p" for j
    using arg_cong [OF it, of "\<lambda>l. l ! j"] that len by simp
  have "workers_amount (send_writable_item k' y p) = workers_amount p" for k' y
    by (simp add: send_writable_item_def split: option.split)
  moreover have "pool_inv (send_writable_item k' y p)" for k' y
    using assms by (simp add: waits_in_def inv_intros)
  moreover have "items_of h (send_writable_item n (h, x) p) = (replicate (workers_amount p) [])[n := q @ [(h, x)]]"
    using n len nth [OF n] it
    by (simp add: items_of_def send_writable_item_def get_worker_listener_by_index_def list_get_def map_update)
  moreover have "items_of h (send_writable_item k (h', x) p) = items_of h p" if "h' \<noteq> h"
    using that len
    by (auto simp: items_of_def send_writable_item_def get_worker_listener_by_index_def list_get_def map_update
        intro!: nth_equalityI simp: nth_list_update)
  ultimately show ?thesis using assms n by (auto simp: waits_in_def)
qed


lemma waits_pop:
  assumes "waits_in n h q p" "list_get k (worker_queues p) = Some ((h', x) # rest)"
  shows "if h' = h
    then k = n \<and> (\<exists>q'. q = (h, x) # q' \<and> waits_in n h q' (p\<lparr>worker_queues := (worker_queues p)[k := rest]\<rparr>))
    else waits_in n h q (p\<lparr>worker_queues := (worker_queues p)[k := rest]\<rparr>)"
proof -
  let ?p = "p\<lparr>worker_queues := (worker_queues p)[k := rest]\<rparr>"
  have k: "k < length (worker_queues p)" "worker_queues p ! k = (h', x) # rest"
    using assms(2) by (auto simp: list_get_def split: if_splits)
  have len: "length (worker_queues p) = workers_amount p" and n: "n < workers_amount p"
    and it: "map (filter (\<lambda>(h', _). h' = h)) (worker_queues p) = (replicate (workers_amount p) [])[n := q]"
    using assms(1) by (simp_all add: waits_in_def pool_inv_D items_of_def)
  have kth: "filter (\<lambda>(h', _). h' = h) ((h', x) # rest) = (replicate (workers_amount p) [])[n := q] ! k"
    using arg_cong [OF it, of "\<lambda>l. l ! k"] k by simp
  have inv: "pool_inv ?p" using assms(1) by (simp add: waits_in_def pool_inv_def)
  have upd: "items_of h ?p = ((replicate (workers_amount p) [])[n := q])[k := filter (\<lambda>(h', _). h' = h) rest]"
    by (simp add: items_of_def map_update it)
  show ?thesis
  proof (cases "h' = h")
    case True
    then have "k = n" using kth n k len by (cases "k = n") simp_all
    then show ?thesis using True kth n inv upd by (auto simp: waits_in_def)
  next
    case False
    then have "((replicate (workers_amount p) [])[n := q])[k := filter (\<lambda>(h', _). h' = h) rest]
        = (replicate (workers_amount p) [])[n := q]"
      using kth by (simp add: list_update_id)
    then show ?thesis using False n inv upd by (simp add: waits_in_def)
  qed
qed


subsection \<open>What the steps do to one file\<close>

text \<open>A file that could be complete is.\<close>

definition settled :: "file_cell \<Rightarrow> bool" where
  "settled c \<longleftrightarrow> failure c \<noteq> None \<or> \<not> length_known c \<or> written c < file_length c \<or> can_close c"

definition same_length :: "file_cell \<Rightarrow> file_cell \<Rightarrow> bool" where
  "same_length c c' \<longleftrightarrow> associated_worker_index c' = associated_worker_index c
     \<and> file_length c' = file_length c \<and> length_known c' = length_known c"

lemma complete_settled: "complete_if_ready c = (r, c') \<Longrightarrow> settled c'"
proof (cases r)
  case (Inl e)
  then show "complete_if_ready c = (r, c') \<Longrightarrow> settled c'"
    using complete_if_ready_err [of c e c'] by (simp add: settled_def)
next
  case (Inr b)
  then show "complete_if_ready c = (r, c') \<Longrightarrow> settled c'"
    by (auto simp: complete_if_ready_def settled_def failing_def state_fail_def
        split: option.splits if_splits prod.splits sum.splits)
qed

lemma complete_settled_snd [simp]: "settled (snd (complete_if_ready c))"
  by (rule complete_settled [OF prod.collapse [symmetric]])

lemma settle_more [simp]:
  "associated_worker_index (settle r cb c) = associated_worker_index c"
  "associated_worker_index (snd (completion_callback r c)) = associated_worker_index c"
  by (auto simp: settle_def completion_callback_def take_callback_def Let_def
      split: option.split sum.split bool.split)

lemma conclude_more [simp]:
  "settled (snd (conclude rc)) = settled (snd rc)" "same_length c (snd (conclude rc)) = same_length c (snd rc)"
  by (cases rc; simp add: conclude_snd settled_def same_length_def)+

lemma keep_failure_more:
  assumes "\<And>b. fst rc = Ok b \<Longrightarrow> settled (snd rc)"
  shows "settled (snd (keep_failure rc))"
  using assms
  by (cases rc; cases "fst rc") (auto simp: keep_failure_def failing_def state_fail_def settled_def split: option.split)

lemma same_frame_length: "same_frame c c' \<Longrightarrow> same_length c c'"
  by (simp add: same_frame_def same_length_def)

text \<open>What a writer thread's call does; a write that fails leaves an error or was on a complete file.\<close>

definition file_grows :: "bytes \<Rightarrow> file_cell \<Rightarrow> file_cell \<Rightarrow> bool" where
  "file_grows d c c' \<longleftrightarrow> cell_inv c' \<and> (settled c \<longrightarrow> settled c') \<and> same_length c c'
     \<and> (failure c' = None \<longrightarrow> failure c = None
          \<and> (content c' = content c @ d
               \<or> content c' = content c \<and> d \<noteq> [] \<and> length_known c \<and> file_length c = length (content c)))"

lemma unfailed_before: "failure (snd (fw_step x c)) = None \<Longrightarrow> failure c = None"
  using fw_step_failed [of c _ x] by (cases "failure c") (auto simp: frozen_def)

lemma write_settled: "settled (snd (write_on_disk d c))"
proof -
  have "settled (snd (write_core d c))" if "fst (write_core d c) = Ok b" for b
    using that
    by (auto simp: write_core_def and_then_def Let_def split: option.splits if_splits prod.splits sum.splits)
  then show ?thesis by (simp add: write_on_disk_def keep_failure_more)
qed

lemma write_grows:
  assumes inv: "cell_inv c"
  shows "file_grows d c (snd (write_on_disk d c))"
proof -
  let ?rc = "keep_failure (write_core d c)"
  note w = write_core_spec [OF cell_inv_core [OF inv], of d]
  have ok: "cell_inv (snd (write_on_disk d c))"
    "failure (snd (write_on_disk d c)) = None \<longrightarrow> content (snd (write_on_disk d c)) = (if is_ok (fst ?rc) then content c @ d else content c)"
    using concluded_step [OF inv conjunct1 [OF w] conjunct2 [OF w]] by (simp_all add: write_on_disk_def)
  have "same_frame c (snd ?rc)" using w by (simp add: core_ok_def)
  then have sl: "same_length c (snd (write_on_disk d c))" by (simp add: write_on_disk_def same_frame_length)
  have unf: "failure (snd (write_on_disk d c)) = None \<Longrightarrow> failure c = None"
    using unfailed_before [of "Write d" c] by simp
  moreover have "length_known c \<and> file_length c = length (content c)"
    if "failure (snd (write_on_disk d c)) = None" "\<not> is_ok (fst ?rc)"
  proof -
    have "can_close c"
      using that w by (cases "fst ?rc") (auto simp: write_on_disk_def core_ok_def core_result_def)
    then show ?thesis using cell_inv_core [OF inv] unf [OF that(1)] by (simp add: core_inv_def)
  qed
  ultimately show ?thesis
    using ok sl write_settled by (cases "d = []") (auto simp: file_grows_def)
qed

lemma complete_grows:
  assumes "core_inv c0" "same_length c c0" "content c0 = content c" "failure c0 = failure c"
  shows "file_grows [] c (snd (conclude (complete_if_ready c0)))"
proof -
  obtain r c' where rc: "complete_if_ready c0 = (r, c')" by fastforce
  note spec = complete_if_ready_spec [OF rc assms(1)]
  have "same_length c c'" using spec assms(2) by (auto simp: same_frame_def same_length_def)
  moreover have "failure c' = None \<Longrightarrow> failure c0 = None"
    using rc by (cases "failure c0") (auto simp: complete_if_ready_failed)
  ultimately show ?thesis
    using complete_step [OF assms(1)] complete_settled [OF rc] spec assms(3,4) by (simp add: file_grows_def rc)
qed

lemma register_grows: "cell_inv c \<Longrightarrow> file_grows [] c (register_finishing_callback cb c)"
  unfolding register_finishing_callback_def
  by (rule complete_grows) (simp_all add: cell_inv_core same_length_def)

lemma flush_grows:
  assumes inv: "cell_inv c"
  shows "file_grows [] c (snd (handle_flush c))"
proof -
  let ?rc = "and_then (state_flush c) (\<lambda>_. complete_if_ready)"
  note w = flush_core_spec [OF cell_inv_core [OF inv]]
  have "settled (snd ?rc)"
  proof (cases "fst (state_flush c)")
    case (Inl e)
    then have "failure (snd (state_flush c)) \<noteq> None"
      by (auto simp: state_flush_def failing_def state_fail_def split: option.splits prod.splits sum.splits)
    then show ?thesis using Inl by (cases "state_flush c") (simp add: and_then_def settled_def)
  next
    case (Inr u)
    then show ?thesis
      by (cases "state_flush c") (simp add: and_then_def)
  qed
  moreover have "same_length c (snd ?rc)" using w by (simp add: core_ok_def same_frame_length)
  ultimately show ?thesis
    using concluded_step [OF inv conjunct1 [OF w] conjunct2 [OF w]] unfailed_before [of Flush c]
    by (simp add: file_grows_def handle_flush_def map_ok_def)
qed

lemma finishing_grows: "cell_inv c \<Longrightarrow> file_grows [] c (manage_file_finishing_ev c)"
  by (auto simp: manage_file_finishing_ev_def file_grows_def cell_inv_def core_inv_def settled_def same_length_def
      content_def buffered_def split: list.split)

text \<open>The end of the request fixes the length, or records that another one was announced.\<close>

lemma finish_fixes_length:
  assumes inv: "cell_inv c"
  shows "cell_inv (finish_received n c) \<and> settled (finish_received n c)
    \<and> associated_worker_index (finish_received n c) = associated_worker_index c
    \<and> (failure (finish_received n c) = None \<longrightarrow> failure c = None \<and> content (finish_received n c) = content c
         \<and> length_known (finish_received n c) \<and> file_length (finish_received n c) = n)"
proof (cases "length_known c \<and> file_length c \<noteq> n")
  case True
  then have "failure (finish_received n c) \<noteq> None"
    "associated_worker_index (finish_received n c) = associated_worker_index c"
    by (auto simp: finish_received_def state_fail_def take_callback_def split: option.split)
  then show ?thesis using finish_received_step [OF inv] by (auto simp: settled_def)
next
  case False
  let ?c = "if \<not> length_known c then c\<lparr>file_length := n, length_known := True\<rparr> else c"
  have "core_inv ?c" using inv by (auto simp: cell_inv_def core_inv_def)
  moreover have "same_length ?c ?c" by (simp add: same_length_def)
  ultimately have "file_grows [] ?c (finish_received n c)"
    using complete_grows [of ?c ?c] False by (auto simp: finish_received_def set_file_length_def)
  moreover have "settled (finish_received n c)"
    using False by (auto simp: finish_received_def set_file_length_def)
  ultimately show ?thesis using False by (auto simp: file_grows_def same_length_def)
qed

text \<open>An application may use a handle without changing the content of its file.\<close>

fun leaves_content :: "fw_op \<Rightarrow> bool" where
  "leaves_content (Register cb) = True"
| "leaves_content Flush = True"
| "leaves_content _ = False"

lemma use_grows: "cell_inv c \<Longrightarrow> leaves_content x \<Longrightarrow> file_grows [] c (snd (fw_step x c))"
  using register_grows flush_grows by (cases x) simp_all

text \<open>Early packets are put in front; when that is refused without an error the file is complete.\<close>

lemma transfert_prefixes:
  assumes inv: "cell_inv c" and "bs \<noteq> []"
  defines "c' \<equiv> snd (transfert_bytes_from_temp_file bs c)"
  shows "cell_inv c'" "same_length c c'" "failure c' = None \<Longrightarrow> failure c = None \<and> (content c' = bs @ content c
      \<or> content c' = content c \<and> length_known c \<and> file_length c = length (content c))"
proof -
  let ?rc = "keep_failure (transfert_core bs c)"
  note w = transfert_core_spec [OF cell_inv_core [OF inv], of bs]
  have ok: "cell_inv c'"
    "failure c' = None \<longrightarrow> content c' = (if is_ok (fst ?rc) then bs @ content c else content c)"
    using concluded_step [OF inv conjunct1 [OF w] conjunct2 [OF w]]
    by (simp_all add: c'_def transfert_bytes_from_temp_file_def map_ok_def)
  show "cell_inv c'" by (rule ok(1))
  have "same_frame c (snd ?rc)" using w by (simp add: core_ok_def)
  then show "same_length c c'" by (simp add: c'_def transfert_bytes_from_temp_file_def map_ok_def same_frame_length)
  assume f: "failure c' = None"
  then have unf: "failure c = None" using unfailed_before [of "Prepend bs" c] by (simp add: c'_def)
  have "can_close c" if "\<not> is_ok (fst ?rc)"
    using f that w by (cases "fst ?rc") (auto simp: c'_def transfert_bytes_from_temp_file_def map_ok_def core_ok_def core_result_def)
  then show "failure c = None \<and> (content c' = bs @ content c
      \<or> content c' = content c \<and> length_known c \<and> file_length c = length (content c))"
    using ok(2) f unf cell_inv_core [OF inv] by (auto simp: core_inv_def)
qed

end
