(* ===== verification/ServerSteps.thy ===== *)
theory ServerSteps
  imports NetworkTurn MessageTyping IntakeSafety WriterThreads
begin

section \<open>The server as interleaved threads\<close>

text \<open>
  The threads that \<open>run\<close> of \<open>src/server_init/quiche_http3_server.rs\<close> starts share the \<open>network\<close>
  state: the network loop itself, the header processor, the middleware workers, the receiver of
  middleware results, the signal receiver, the response workers, the chunking worker, the writers of
  files, and the application's own threads. \<open>server_step\<close> is one step of one of them; a thread's
  step is one message taken from its channel, one event, one message sent on a stream, one datagram
  batch. Steps of different threads come in any order, and the middleware workers finish in any
  order. What the library, the file system, the clock and the user code answer is not restricted,
  but a fresh UUID names no file yet.
  A panic is a step that does not exist. The label says what a step means for a request.
\<close>

record ('c, 'h, 'm, 'l, 'w, 't, 'key, 'u) host =
  ho_transport :: "('c, 'h) transport"
  ho_intake :: "('c, 'h) intake"
  ho_egress :: "'c egress"
  ho_gate :: "'key gate"
  ho_sessions :: "'t sessions_impl"
  ho_handlers :: "('u, 'm, 'l, 'w) handler_env"
  ho_middleware :: "('m, 'w) middleware_call"
  ho_storage :: path_buf

abbreviation source_of :: "('c, 'h, 'm, 'l, 'w, 't, 'key, 'u) host \<Rightarrow> ('c, 'h) Client \<Rightarrow> scid" where
  "source_of H cl \<equiv> tr_source_id (ho_transport H) (conn cl)"

abbreviation trace_of :: "('c, 'h, 'm, 'l, 'w, 't, 'key, 'u) host \<Rightarrow> ('c, 'h) Client \<Rightarrow> conn_id" where
  "trace_of H cl \<equiv> tr_trace_id (ho_transport H) (conn cl)"

datatype 'm server_label =
    Admission scid
  | Announced conn_id scid stream_id "h3_header list" bool
  | Withdrawn conn_id stream_id
  | Ended conn_id scid stream_id
  | Closed conn_id
  | Routed "'m MiddleWareJob"
  | Unrouted conn_id stream_id
  | Accepted "'m MiddleWareJob" "h3_header list"
  | Refused "'m MiddleWareJob" ErrorResponse
  | Received
  | Taken
  | Checked nat
  | Stored conn_id stream_id bytes
  | Used uuid fw_op
  | Internal

text \<open>What a step of the network loop leaves in the shared state.\<close>

definition put_client ::
  "scid \<Rightarrow> ('c, 'h) Client \<Rightarrow> ('c, 'h, 'm, 'l, 'f, 'w, 't) network \<Rightarrow> ('c, 'h, 'm, 'l, 'f, 'w, 't) network" where
  "put_client k cl nw = nw\<lparr>nw_clients := dm_insert k cl (nw_clients nw)\<rparr>"

definition put_intake ::
  "scid \<Rightarrow> ('c, 'h, 'm, 'l, 'f, 'w) intake_state \<Rightarrow> ('c, 'h, 'm, 'l, 'f, 'w, 't) network
     \<Rightarrow> ('c, 'h, 'm, 'l, 'f, 'w, 't) network" where
  "put_intake k = (\<lambda>(cl, p, v) nw. put_client k cl (nw\<lparr>nw_pipeline := p, nw_verifier := v\<rparr>))"

definition put_loop ::
  "scid \<Rightarrow> ('c, 'h, 'l, 'f, 'w) loop_state \<Rightarrow> ('c, 'h, 'm, 'l, 'f, 'w, 't) network
     \<Rightarrow> ('c, 'h, 'm, 'l, 'f, 'w, 't) network" where
  "put_loop k = (\<lambda>(cl, sv) nw. put_client k cl (nw\<lparr>nw_pipeline := on_buffer (on_server (\<lambda>_. sv)) (nw_pipeline nw)\<rparr>))"

definition put_server ::
  "('l, 'f, 'w) server \<Rightarrow> ('c, 'h, 'm, 'l, 'f, 'w, 't) network \<Rightarrow> ('c, 'h, 'm, 'l, 'f, 'w, 't) network" where
  "put_server sv nw = nw\<lparr>nw_pipeline := on_buffer (on_server (\<lambda>_. sv)) (nw_pipeline nw)\<rparr>"

abbreviation nw_server :: "('c, 'h, 'm, 'l, 'f, 'w, 't) network \<Rightarrow> ('l, 'f, 'w) server" where
  "nw_server nw \<equiv> hp_server (nw_pipeline nw)"

abbreviation nw_buffer :: "('c, 'h, 'm, 'l, 'f, 'w, 't) network \<Rightarrow> ('l, 'f, 'w) ResponseInjectionBuffer" where
  "nw_buffer nw \<equiv> hp_buffer (nw_pipeline nw)"


subsection \<open>What a step means\<close>

fun event_label ::
  "conn_id \<Rightarrow> scid \<Rightarrow> stream_id \<Rightarrow> h3_event \<Rightarrow> InFlightStreamsPathVerifier \<Rightarrow> 'm server_label" where
  "event_label c s i (Headers_Event headers more_frames) v =
     (if extract_path_from_hdr headers = None then Withdrawn c i else Announced c s i headers more_frames)"
| "event_label c s i Finished_Event v = (if in_flight v s i then Ended c s i else Withdrawn c i)"
| "event_label c s i Reset_Event v = Withdrawn c i"
| "event_label c s i ev v = Internal"

text \<open>The job that a header message becomes, if its path is that of a route or a stream.\<close>

definition header_job :: "('u, 'm, 'l, 'w) handler_env \<Rightarrow> HeaderMessage \<Rightarrow> 'm MiddleWareJob option" where
  "header_job he msg =
     (case extract_method_path_content_length (hm_headers msg) of
        (Some method_bytes, Some path, len) \<Rightarrow>
          (case method_parse method_bytes of
             Inl _ \<Rightarrow> None
           | Inr method \<Rightarrow>
               (case rh_get_routes_from_path_and_method path method (he_manager he) of
                  Some (form, _) \<Rightarrow> send_header_work path Regular method len (rf_middlewares form) msg
                | None \<Rightarrow>
                    (case Option.bind (he_streams he) (\<lambda>sessions. dm_get sessions path) of
                       Some stream \<Rightarrow> send_header_work path Stream_Route method len (sf_middlewares stream) msg
                     | None \<Rightarrow> None)))
      | _ \<Rightarrow> None)"

text \<open>A message that names a method and a path that nobody registered gets a 404.\<close>

definition not_found :: "('u, 'm, 'l, 'w) handler_env \<Rightarrow> HeaderMessage \<Rightarrow> bool" where
  "not_found he msg \<longleftrightarrow> header_job he msg = None
     \<and> (\<exists>method_bytes path len method. extract_method_path_content_length (hm_headers msg) = (Some method_bytes, Some path, len)
          \<and> method_parse method_bytes = Ok method)"

definition header_label :: "('u, 'm, 'l, 'w) handler_env \<Rightarrow> HeaderMessage \<Rightarrow> 'm server_label" where
  "header_label he msg =
     (case header_job he msg of
        Some job \<Rightarrow> Routed job
      | None \<Rightarrow> if not_found he msg then Unrouted (hm_conn_id msg) (hm_stream_id msg) else Internal)"

definition verdict_label :: "'m MiddleWareJob \<Rightarrow> ErrorResponse + h3_header list \<Rightarrow> 'm server_label" where
  "verdict_label job decision = (case decision of Inl e \<Rightarrow> Refused job e | Inr headers \<Rightarrow> Accepted job headers)"

text \<open>The job that a worker finishes next.\<close>

definition to_front :: "nat \<Rightarrow> 'a list \<Rightarrow> 'a list" where
  "to_front n xs = xs ! n # take n xs @ drop (Suc n) xs"


subsection \<open>The steps\<close>

inductive server_step ::
  "('c, 'h, 'm, 'l, 'w, 't, 'key, 'u) host \<Rightarrow> 'm server_label
     \<Rightarrow> ('c, 'h, 'm, 'l, 'f, 'w, 't) network \<Rightarrow> ('c, 'h, 'm, 'l, 'f, 'w, 't) network \<Rightarrow> bool" for H where
  srv_admit: "in_header (ho_intake H) pkt = Some hdr \<Longrightarrow>
     admit (ho_intake H) ((ho_gate H)\<lparr>gt_clock := now\<rparr>) hdr from (nw_clients nw) = Some (Admitted k c) \<Longrightarrow>
     server_step H (Admission k) nw (put_client k (client_new k c) nw)"
| srv_reply: "server_step H Internal nw (nw\<lparr>nw_outbox := nw_outbox nw @ [datagram]\<rparr>)"
| srv_recv: "dm_get (nw_clients nw) k = Some cl \<Longrightarrow>
     server_step H Internal nw (put_client k (cl\<lparr>conn := snd (in_recv (ho_intake H) pkt from (conn cl))\<rparr>) nw)"
| srv_open: "dm_get (nw_clients nw) k = Some cl \<Longrightarrow>
     server_step H Internal nw (put_client k (snd (open_h3 (ho_intake H) cl)) nw)"
| srv_timeout: "dm_get (nw_clients nw) k = Some cl \<Longrightarrow>
     server_step H Internal nw (put_client k (cl\<lparr>conn := in_timeout (ho_intake H) (conn cl)\<rparr>) nw)"
| srv_poll: "dm_get (nw_clients nw) k = Some cl \<Longrightarrow>
     with_h3 (in_poll (ho_intake H)) cl = Some (r, cl1) \<Longrightarrow> (\<And>i ev. r = Ok (i, ev) \<Longrightarrow> ev = Data_Event) \<Longrightarrow>
     server_step H Internal nw (put_client k cl1 nw)"
| srv_event: "dm_get (nw_clients nw) k = Some cl \<Longrightarrow>
     with_h3 (in_poll (ho_intake H)) cl = Some (Ok (i, ev), cl1) \<Longrightarrow> ev \<noteq> Data_Event \<Longrightarrow>
     handle_event fuel (ho_transport H) (ho_intake H) (ho_storage H) env i ev (cl1, nw_pipeline nw, nw_verifier nw) = Some st \<Longrightarrow>
     server_step H (event_label (trace_of H cl1) (source_of H cl1) i ev (nw_verifier nw)) nw (put_intake k st nw)"
| srv_body: "dm_get (nw_clients nw) k = Some cl \<Longrightarrow>
     with_h3 (in_recv_body (ho_intake H) i) cl = Some (Some packet, cl1) \<Longrightarrow>
     server_step H (Stored (trace_of H cl1) i packet) nw (put_intake k (cl1, on_requests (store_body_packet (ho_storage H) env i (source_of H cl1)
         (trace_of H cl1) packet) (nw_pipeline nw), nw_verifier nw) nw)"
| srv_body_end: "dm_get (nw_clients nw) k = Some cl \<Longrightarrow>
     with_h3 (in_recv_body (ho_intake H) i) cl = Some (None, cl1) \<Longrightarrow> server_step H Internal nw (put_client k cl1 nw)"
| srv_resets: "dm_get (nw_clients nw) k = Some cl \<Longrightarrow>
     reset_phase (ho_transport H) (source_of H cl) (cl, nw_server nw) = st \<Longrightarrow>
     server_step H Internal nw (put_loop k st nw)"
| srv_flush: "dm_get (nw_clients nw) k = Some cl \<Longrightarrow> flush_if_open fuel (ho_transport H) i cl = Some cl1 \<Longrightarrow>
     server_step H Internal nw (put_client k cl1 nw)"
| srv_send: "dm_get (nw_clients nw) k = Some cl \<Longrightarrow>
     pop_and_send (ho_transport H) fe (source_of H cl) i (cl, nw_server nw) = Some st \<Longrightarrow>
     server_step H Internal nw (put_loop k st nw)"
| srv_transmit: "dm_get (nw_clients nw) k = Some cl \<Longrightarrow>
     transmit fuel (ho_egress H) sock (cl, nw_outbox nw) = Some (cl1, out) \<Longrightarrow>
     server_step H Internal nw (put_client k cl1 (nw\<lparr>nw_outbox := out\<rparr>))"
| srv_collect: "dm_get (nw_clients nw) k = Some cl \<Longrightarrow> in_closed (ho_intake H) (conn cl) \<Longrightarrow>
     nw1 = collect_client (ho_transport H) (ho_intake H) (ho_sessions H) cl nw \<Longrightarrow>
     server_step H (Closed (trace_of H cl)) nw (nw1\<lparr>nw_clients := dm_remove k (nw_clients nw1)\<rparr>)"
| srv_header: "hp_messages (nw_pipeline nw) = msg # rest \<Longrightarrow>
     server_step H (header_label (ho_handlers H) msg) nw
       (nw\<lparr>nw_pipeline := run_header_processor (ho_handlers H) (nw_pipeline nw)\<rparr>)"
| srv_middleware: "n < length (hp_jobs (nw_pipeline nw)) \<Longrightarrow> job = hp_jobs (nw_pipeline nw) ! n \<Longrightarrow>
     run_middlewares (ho_middleware H) (mj_middleware_collection job) (mj_headers job) (sv_app (nw_server nw)) = (decision, w) \<Longrightarrow>
     \<not> dm_contains (files (sv_requests (nw_server nw))) (env_handle env) \<Longrightarrow>
     server_step H (verdict_label job decision) nw
       (nw\<lparr>nw_pipeline := middleware_worker (ho_middleware H) (ho_handlers H) (ho_storage H) env
           ((nw_pipeline nw)\<lparr>hp_jobs := to_front n (hp_jobs (nw_pipeline nw))\<rparr>)\<rparr>)"
| srv_result: "server_step H Internal nw (nw\<lparr>nw_pipeline := handle_middleware_result (nw_pipeline nw)\<rparr>)"
| srv_receive: "server_step H Received nw (nw\<lparr>nw_pipeline := on_buffer receive_signal (nw_pipeline nw)\<rparr>)"
| srv_takes: "ib_step (ho_handlers H) Worker_Takes (nw_buffer nw) b \<Longrightarrow>
     server_step H Taken nw (nw\<lparr>nw_pipeline := (nw_pipeline nw)\<lparr>hp_buffer := b\<rparr>\<rparr>)"
| srv_checks: "ib_step (ho_handlers H) (Worker_Checks n) (nw_buffer nw) b \<Longrightarrow>
     server_step H (Checked n) nw (nw\<lparr>nw_pipeline := (nw_pipeline nw)\<lparr>hp_buffer := b\<rparr>\<rparr>)"
| srv_chunk: "server_step H Internal nw
     (put_server ((nw_server nw)\<lparr>sv_station := snd (run_worker outcome (sv_station (nw_server nw)))\<rparr>) nw)"
| srv_publish: "nw_sessions nw = Some ss \<Longrightarrow>
     server_step H Internal nw (put_server (set_dispatch
       (snd (send_one_or_more_message_on_stream frame awake targets (data_cb :: bytes \<times> stream_id \<Rightarrow> string + (unit capsule \<times> bytes))
          ss (sv_dispatch (nw_server nw)))) (nw_server nw)) nw)"
| srv_writer: "x = Writer_Turn n \<or> x = Finishing_Turn h \<Longrightarrow>
     server_step H Internal nw (put_server ((nw_server nw)\<lparr>sv_requests := thread_step x (sv_requests (nw_server nw))\<rparr>) nw)"
| srv_handle: "server_step H (Used h x) nw
     (put_server ((nw_server nw)\<lparr>sv_requests := thread_step (Use_Handle h x) (sv_requests (nw_server nw))\<rparr>) nw)"
| srv_user: "server_step H Internal nw (put_server ((nw_server nw)\<lparr>sv_app := w\<rparr>) (nw\<lparr>nw_sessions := sessions\<rparr>))"

inductive server_run ::
  "('c, 'h, 'm, 'l, 'w, 't, 'key, 'u) host \<Rightarrow> 'm server_label list
     \<Rightarrow> ('c, 'h, 'm, 'l, 'f, 'w, 't) network \<Rightarrow> ('c, 'h, 'm, 'l, 'f, 'w, 't) network \<Rightarrow> bool" for H where
  srv_refl: "server_run H [] nw nw"
| srv_step: "server_run H ls nw nw1 \<Longrightarrow> server_step H l nw1 nw2 \<Longrightarrow> server_run H (ls @ [l]) nw nw2"

text \<open>The state in which the threads start.\<close>

definition network_new ::
  "string list \<Rightarrow> string list option \<Rightarrow> ('m, 'w, 't) StreamSessions option \<Rightarrow> ('l, 'f, 'w) server
     \<Rightarrow> ('c, 'h, 'm, 'l, 'f, 'w, 't) network" where
  "network_new paths stream_paths sessions sv =
     \<lparr>nw_clients = [], nw_pipeline = pipeline_new sv, nw_verifier = verifier_new paths stream_paths,
      nw_sessions = sessions, nw_outbox = []\<rparr>"

lemma srv_one: "server_step H l nw nw' \<Longrightarrow> server_run H [l] nw nw'"
  using srv_step [OF srv_refl] by fastforce

lemma srv_trans:
  assumes "server_run H ls2 nw1 nw2" "server_run H ls1 nw nw1"
  shows "server_run H (ls1 @ ls2) nw nw2"
  using assms
proof (induction rule: server_run.induct)
  case (srv_step ls nw1 nw2 l nw3)
  then show ?case using server_run.srv_step [of H "ls1 @ ls" nw nw2 l nw3] by simp
qed simp

lemma srv_invariant:
  assumes "server_run H ls nw nw'" "P nw"
    and "\<And>l nw1 nw2. P nw1 \<Longrightarrow> server_step H l nw1 nw2 \<Longrightarrow> P nw2"
  shows "P nw'"
  using assms by (induction rule: server_run.induct) auto

end
