(* ===== verification/RequestLifecycle.thy ===== *)
theory RequestLifecycle
  imports IntakeSafety
begin

section \<open>The life of a request\<close>

text \<open>
  The components put together: the header event of the network loop, the header processor, a
  middleware worker, the body packets, the end of the request, the signal receiver and a response
  worker, in the order in which they run when nothing delays a request.
\<close>

definition receive_body ::
  "path_buf \<Rightarrow> io_env \<Rightarrow> stream_id \<Rightarrow> scid \<Rightarrow> conn_id \<Rightarrow> bytes list \<Rightarrow> ('m, 'l, 'f, 'w) pipeline \<Rightarrow> ('m, 'l, 'f, 'w) pipeline" where
  "receive_body storage env i s c packets = on_requests (fold (store_body_packet storage env i s c) packets)"

definition request_flow ::
  "('c, 'h) transport \<Rightarrow> ('m, 'w) middleware_call \<Rightarrow> ('hd, 'm, 'l, 'w) handler_env \<Rightarrow> path_buf \<Rightarrow> io_env \<Rightarrow> stream_id
     \<Rightarrow> h3_header list \<Rightarrow> bytes list \<Rightarrow> ('c, 'h, 'm, 'l, 'f, 'w) intake_state
     \<Rightarrow> ('l, 'f, 'w) ResponseInjectionBuffer option" where
  "request_flow tr call he storage env i headers packets st =
     (let (cl, p1, v1) = handle_headers_event tr i headers True st;
          p2 = middleware_worker call he storage env (run_header_processor he p1);
          p3 = receive_body storage env i (tr_source_id tr (conn cl)) (tr_trace_id tr (conn cl)) packets p2;
          (_, p4, _) = handle_finished_event tr i (cl, p3, v1)
      in response_worker he (receive_signal (hp_buffer p4)))"

text \<open>A server in which nothing waits and nothing is known of the request.\<close>

definition quiet :: "stream_id \<Rightarrow> conn_id \<Rightarrow> ('m, 'l, 'f, 'w) pipeline \<Rightarrow> bool" where
  "quiet i c p \<longleftrightarrow> hp_messages p = [] \<and> hp_jobs p = [] \<and> ib_channel (hp_buffer p) = [] \<and> ib_jobs (hp_buffer p) = []
     \<and> \<not> ib_live (hp_buffer p) c i \<and> \<not> req_live (sv_requests (hp_server p)) c i \<and> disp_inv (sv_dispatch (hp_server p))"

text \<open>A route without query string that keeps request bodies in memory.\<close>

definition plain_route ::
  "('hd, 'm, 'l, 'w) handler_env \<Rightarrow> string \<Rightarrow> H3Method \<Rightarrow> ('hd, 'm, 'l) RouteForm \<Rightarrow> bool" where
  "plain_route he path m form \<longleftrightarrow> m \<noteq> PUT \<and> parse_args path = (path, None)
     \<and> get_routes_from_path_and_method path m (he_manager he) = Some (form, None)
     \<and> data_management_type form = Some (Storage InMemory)"

definition first_status :: "stream_id \<Rightarrow> scid \<Rightarrow> HeaderRequest" where
  "first_status i s = header_request_new i s [header '':status'' ''100'', header ''x-for'' (nat_to_string (unat i)),
     header ''x-progress'' ''0''] False None None SendHeader100"

lemma reception_status_effect:
  assumes "disp_inv (sv_dispatch sv)" "sv1 = snd (send_reception_status_first i s sv)"
  shows "mail (sv_dispatch sv1) = (mail (sv_dispatch sv))((i, s) := Some (fst (box_of (sv_dispatch sv) i s),
      snd (box_of (sv_dispatch sv) i s) @ [Q_Header (first_status i s)]))"
    and "disp_inv (sv_dispatch sv1)" "sv_requests sv1 = sv_requests sv" "sv_app sv1 = sv_app sv"
proof -
  let ?sv = "set_dispatch (insert_new_channel i s (sv_dispatch sv)) sv"
  have inv: "disp_inv (sv_dispatch ?sv)" using assms(1) by (simp add: disp_inv_insert)
  have mail: "mail (sv_dispatch ?sv) (i, s) = Some (fst (box_of (sv_dispatch sv) i s), snd (box_of (sv_dispatch sv) i s))"
    using mail_opened [OF assms(1)] by simp
  show "mail (sv_dispatch sv1) = (mail (sv_dispatch sv))((i, s) := Some (fst (box_of (sv_dispatch sv) i s),
      snd (box_of (sv_dispatch sv) i s) @ [Q_Header (first_status i s)]))"
    using send_headers_mail(1) [OF inv mail] mail_opened [OF assms(1), of i s]
    by (simp add: assms(2) send_reception_status_first_def Let_def first_status_def)
  show "disp_inv (sv_dispatch sv1)"
    using send_headers_mail(2) [OF inv mail] by (simp add: assms(2) send_reception_status_first_def Let_def)
qed (simp_all add: assms(2) send_reception_status_first_def Let_def)

lemma store_body_packets:
  assumes "dm_get (table rq) (c, i) = Some r" "pq_data_management_type r = Some (Storage InMemory)"
  shows "\<exists>r'. dm_get (table (fold (store_body_packet storage env i s c) packets rq)) (c, i) = Some r'
    \<and> grown (concat packets) r r'"
proof -
  let ?ws = "map (\<lambda>packet. (c, s, i, packet, False)) packets"
  have "fold (store_body_packet storage env i s c) packets rq = fold write_in ?ws rq \<and> dm_contains (table (fold write_in ?ws rq)) (c, i)"
    using assms
  proof (induction packets arbitrary: rq r)
    case (Cons packet packets)
    have step: "store_body_packet storage env i s c packet rq = write_in (c, s, i, packet, False) rq"
      using Cons.prems(1) by (simp add: store_body_packet_def is_request_set_in_table_def is_entry_partial_reponse_set_def
          write_in_def)
    have w: "dm_get (table (write_in (c, s, i, packet, False) rq)) (c, i) = Some (extend_data packet False r)"
      using write_in_memory [OF Cons.prems] by (simp add: write_in_def)
    have "pq_data_management_type (extend_data packet False r) = Some (Storage InMemory)"
      using Cons.prems(2) by (simp add: extend_data_def)
    from Cons.IH [OF w this] show ?case by (simp add: step)
  qed (simp add: dm_contains_def)
  moreover have "packets_of c i ?ws = concat packets" by (induction packets) (simp_all add: packets_of_def)
  ultimately show ?thesis using writes_in_memory [OF assms, of ?ws] by simp
qed


subsection \<open>The steps\<close>

definition header_message :: "stream_id \<Rightarrow> scid \<Rightarrow> conn_id \<Rightarrow> h3_header list \<Rightarrow> HeaderMessage" where
  "header_message i s c headers = \<lparr>hm_stream_id = i, hm_scid = s, hm_conn_id = c, hm_more_frames = True, hm_headers = headers\<rparr>"

definition route_job ::
  "stream_id \<Rightarrow> scid \<Rightarrow> conn_id \<Rightarrow> h3_header list \<Rightarrow> string \<Rightarrow> H3Method \<Rightarrow> usize option \<Rightarrow> 'm list \<Rightarrow> 'm MiddleWareJob" where
  "route_job i s c headers path m len mdws = \<lparr>mj_path = path, mj_method = m, mj_stream_id = i, mj_conn_id = c,
     mj_has_more_frames = True, mj_content_length = len, mj_scid = s, mj_headers = headers,
     mj_middleware_collection = mdws, mj_route_type = Regular\<rparr>"

lemma headers_step:
  assumes "parse_request_headers headers = Some (mb, path, len)" "is_accepted_path v path"
    and "s = tr_source_id tr (conn cl)" "c = tr_trace_id tr (conn cl)"
  shows "handle_headers_event tr i headers True (cl, p, v) =
     (cl, (on_buffer (begin_request c i) p)\<lparr>hp_messages := hp_messages p @ [header_message i s c headers]\<rparr>,
      snd (insert_stream_path_for_conn s i path v))"
    and "in_flight (snd (insert_stream_path_for_conn s i path v)) s i"
  using assms by (simp_all add: handle_headers_event_def Let_def extract_path_from_hdr_def process_header_def
      header_message_def on_buffer_def in_flight_insert)

lemma processor_step:
  assumes "parse_request_headers headers = Some (mb, path, len)" "method_parse mb = Ok m" "plain_route he path m form"
    and "hp_messages p = [header_message i s c headers]" "hp_jobs p = []"
  shows "run_header_processor he p = p\<lparr>hp_messages := [], hp_jobs := [route_job i s c headers path m len (rf_middlewares form)]\<rparr>"
  using assms by (simp add: run_header_processor_def extract_method_path_content_length_def header_message_def
      plain_route_def rh_lookup_eq execute_def send_header_work_def route_job_def)

text \<open>The entry a middleware worker makes for the request.\<close>

definition new_entry_for ::
  "stream_id \<Rightarrow> conn_id \<Rightarrow> h3_header list \<Rightarrow> string \<Rightarrow> H3Method \<Rightarrow> usize option \<Rightarrow> 'l option \<Rightarrow> ('l, 'f) PartialReq" where
  "new_entry_for i c headers path m len sub =
     partial_req_new c i (Some m) (Some (Storage InMemory)) sub None None (Some headers) (Some path) len False"

lemma middleware_step:
  fixes p :: "('m, 'l, 'f, 'w) pipeline"
  assumes "hp_jobs p = [route_job i s c headers path m len (rf_middlewares form)]" "plain_route he path m form"
    and "accepts call (rf_middlewares form) headers (sv_app (hp_server p)) hs w"
    and "\<not> req_live (sv_requests (hp_server p)) c i" "disp_inv (sv_dispatch (hp_server p))"
  shows "\<exists>sv. hp_buffer (middleware_worker call he storage env p) = (hp_buffer p)\<lparr>ib_server := sv,
         ib_channel := ib_channel (hp_buffer p) @ [((i, c), Ready)]\<rparr>
     \<and> dm_get (table (sv_requests sv)) (c, i) = Some (new_entry_for i c hs path m len (rf_event_subscriber form))
     \<and> sv_app sv = w \<and> disp_inv (sv_dispatch sv)
     \<and> mail (sv_dispatch sv) = (mail (sv_dispatch (hp_server p)))((i, s) := Some (fst (box_of (sv_dispatch (hp_server p)) i s),
         snd (box_of (sv_dispatch (hp_server p)) i s) @ [Q_Header (first_status i s)]))"
proof -
  let ?sv = "(hp_server p)\<lparr>sv_app := w\<rparr>"
  let ?rq = "create_new_request_in_table he storage env path i c m hs len True (sv_requests ?sv)"
  let ?sv1 = "?sv\<lparr>sv_requests := ?rq\<rparr>"
  let ?sv2 = "snd (send_reception_status_first i s ?sv1)"
  have absent: "dm_get (table (sv_requests (hp_server p))) (c, i) = None"
    using assms(4) by (simp add: req_live_def dm_contains_def)
  then have unset: "\<not> is_request_set_in_table i c (sv_requests ?sv)"
    by (simp add: is_request_set_in_table_def is_entry_partial_reponse_set_def)
  have run: "run_middlewares call (rf_middlewares form) headers (sv_app (hp_server p)) = (Inr hs, w)"
    using assms(3) by (simp add: run_middlewares_accepts)
  have buffer: "hp_buffer (middleware_worker call he storage env p) = (hp_buffer p)\<lparr>ib_server := ?sv2,
         ib_channel := ib_channel (hp_buffer p) @ [((i, c), Ready)]\<rparr>"
    using assms(1) run unset
    by (simp add: middleware_worker_def route_job_def send_done_def on_buffer_def on_server_def Let_def
        regular_request_partial_response_table_update_def send_signal_def)
  have entry: "dm_get (table ?rq) (c, i) = Some (new_entry_for i c hs path m len (rf_event_subscriber form))"
    using assms(2) absent
    by (simp add: create_new_request_in_table_def plain_route_def add_partial_request_def new_entry_for_def)
  have disp: "sv_dispatch ?sv1 = sv_dispatch (hp_server p)" by simp
  note status = reception_status_effect [of ?sv1 ?sv2 i s, OF _ refl, unfolded disp, OF assms(5)]
  show ?thesis
    by (rule exI [of _ ?sv2]) (use buffer entry status in simp)
qed

lemma event_built:
  assumes "dm_get (table rq) (c, i) = Some (new_entry_for i c hs path m len sub)" "parse_args path = (path, None)"
    and "rq' = fold (store_body_packet storage env i s c) packets rq"
  obtains ev rq'' where "build_route_event c s i OnFinished_Type rq' = (Ok (OnFinished ev), rq'')"
    "fe_path ev = path" "fe_method ev = m" "fe_headers ev = hs" "fe_body ev = concat packets" "\<not> req_live rq'' c i"
proof -
  let ?r = "new_entry_for i c hs path m len sub"
  have dm: "pq_data_management_type ?r = Some (Storage InMemory)" by (simp add: new_entry_for_def partial_req_new_def assms(2))
  obtain r' where r': "dm_get (table rq') (c, i) = Some r'" "grown (concat packets) ?r r'"
    using store_body_packets [OF assms(1) dm] unfolding assms(3) by blast
  have sel: "pq_data_management_type r' = Some (Storage InMemory)" "pq_method r' = Some m" "pq_headers r' = Some hs"
    "pq_path r' = Some path" "pq_body r' = concat packets"
    using r'(2) by (simp_all add: grown_def new_entry_for_def partial_req_new_def assms(2))
  let ?ev = "finished_event_new i c s path m hs (pq_args r') (pq_storage_path r') (pq_file_opened r')
    (pq_body_written_size r') (Some (pq_body r')) (pq_is_end r')"
  note built = build_in_memory [OF r'(1) sel(1-4), of s]
  show thesis
    by (rule that [of ?ev "snd (build_route_event c s i OnFinished_Type rq')"])
      (use built sel(5) in \<open>simp_all add: prod_eq_iff finished_event_new_def\<close>)
qed

lemma finish_buffer:
  "hp_buffer (on_buffer (handle_finished_stream c s i) (receive_body storage env i s c packets p)) =
     (hp_buffer p)\<lparr>ib_server := (hp_server p)\<lparr>sv_requests :=
         fold (store_body_packet storage env i s c) packets (sv_requests (hp_server p))\<rparr>,
       ib_jobs := ib_jobs (hp_buffer p) @ [response_injection_new i s c False]\<rparr>"
  by (simp add: receive_body_def on_requests_def on_server_def on_buffer_def handle_finished_stream_def pool_send_def)

lemma finished_event_step:
  "in_flight v s i \<Longrightarrow> s = tr_source_id tr (conn cl) \<Longrightarrow> c = tr_trace_id tr (conn cl) \<Longrightarrow>
     handle_finished_event tr i (cl, p, v) =
       (cl, on_buffer (handle_finished_stream c s i) p, snd (is_finished_request_a_valid_path s i v))"
  by (simp add: handle_finished_event_def Let_def case_prod_beta)

text \<open>The signal arrives, then a response worker takes the injection of the finished request.\<close>

lemma answer_step:
  assumes "ib_channel b = [((i, c), Ready)]" "ib_live b c i" "ib_jobs b = [response_injection_new i s c False]"
    and "response_preparation_with_route_handler he c s i OnFinished_Type SendAdditionnalHeader (ib_server b) = Some sv"
  shows "\<exists>b'. response_worker he (receive_signal b) = Some b' \<and> ib_server b' = sv \<and> \<not> ib_live b' c i
    \<and> ib_dispatched b' = ib_dispatched b @ [(i, c)] \<and> ib_jobs b' = []"
  using assms
  by (simp add: receive_signal_def response_worker_def register_injection_def register_consume_def Let_def ib_live_def
      response_injection_new_def ri_req_id_def)

lemma flow_served:
  fixes p :: "('m, 'l, 'f, 'w) pipeline"
  assumes "quiet i c p" "s = tr_source_id tr (conn cl)" "c = tr_trace_id tr (conn cl)"
    and "parse_request_headers headers = Some (mb, path, len)" "method_parse mb = Ok m"
    and "plain_route he path m form" "is_accepted_path v path"
    and "accepts call (rf_middlewares form) headers (sv_app (hp_server p)) hs w"
    and "\<forall>ev. fe_path ev = path \<longrightarrow> fe_method ev = m \<longrightarrow>
           dispatch_finished (he_call he) (rm_dispatcher (he_manager he)) ev w \<noteq> None"
  shows "\<exists>b ev answer w' resp low high. request_flow tr call he storage env i headers packets (cl, p, v) = Some b
    \<and> fe_path ev = path \<and> fe_method ev = m \<and> fe_headers ev = hs \<and> fe_body ev = concat packets
    \<and> dispatch_finished (he_call he) (rm_dispatcher (he_manager he)) ev w = Some (answer, w')
    \<and> response_for (he_files he) i s c answer = Some resp
    \<and> mail (sv_dispatch (ib_server b)) = (mail (sv_dispatch (hp_server p)))((i, s) :=
        Some (fst (box_of (sv_dispatch (hp_server p)) i s), snd (box_of (sv_dispatch (hp_server p)) i s)
          @ [Q_Header (first_status i s),
             Q_Header (answer_header m i s SendAdditionnalHeader (fe_is_end ev) low high resp)]))
    \<and> sv_app (ib_server b) = w' \<and> ib_dispatched b = ib_dispatched (hp_buffer p) @ [(i, c)]
    \<and> ib_jobs b = [] \<and> \<not> ib_live b c i \<and> \<not> req_live (sv_requests (ib_server b)) c i"
proof -
  let ?job = "route_job i s c headers path m len (rf_middlewares form)"
  let ?p1 = "(on_buffer (begin_request c i) p)\<lparr>hp_messages := hp_messages p @ [header_message i s c headers]\<rparr>"
  let ?v1 = "snd (insert_stream_path_for_conn s i path v)"
  let ?p2 = "?p1\<lparr>hp_messages := [], hp_jobs := [?job]\<rparr>"
  let ?p3 = "middleware_worker call he storage env ?p2"
  let ?p4 = "receive_body storage env i s c packets ?p3"
  have quiet: "hp_messages p = []" "hp_jobs p = []" "ib_channel (hp_buffer p) = []" "ib_jobs (hp_buffer p) = []"
    "\<not> req_live (sv_requests (hp_server p)) c i" "disp_inv (sv_dispatch (hp_server p))"
    using assms(1) by (simp_all add: quiet_def)
  have headers: "handle_headers_event tr i headers True (cl, p, v) = (cl, ?p1, ?v1)" "in_flight ?v1 s i"
    using headers_step [OF assms(4,7,2,3)] by simp_all
  have processed: "run_header_processor he ?p1 = ?p2"
    using processor_step [OF assms(4-6), of ?p1 i s c] quiet by (simp add: on_buffer_def)
  have server2: "hp_server ?p2 = hp_server p" by (simp add: on_buffer_def begin_request_def)
  obtain sv where sv: "hp_buffer ?p3 = (hp_buffer ?p2)\<lparr>ib_server := sv, ib_channel := ib_channel (hp_buffer ?p2) @ [((i, c), Ready)]\<rparr>"
    "dm_get (table (sv_requests sv)) (c, i) = Some (new_entry_for i c hs path m len (rf_event_subscriber form))"
    "sv_app sv = w" "disp_inv (sv_dispatch sv)"
    "mail (sv_dispatch sv) = (mail (sv_dispatch (hp_server p)))((i, s) := Some (fst (box_of (sv_dispatch (hp_server p)) i s),
         snd (box_of (sv_dispatch (hp_server p)) i s) @ [Q_Header (first_status i s)]))"
    using middleware_step [of ?p2 i s c headers path m len form he call hs w storage env] assms(6,8) quiet(5,6)
    unfolding server2 by auto
  let ?rq = "fold (store_body_packet storage env i s c) packets (sv_requests sv)"
  let ?b = "(hp_buffer p)\<lparr>ib_signal := dm_or_insert (i, c) Pending (ib_signal (hp_buffer p)),
      ib_server := sv\<lparr>sv_requests := ?rq\<rparr>, ib_channel := [((i, c), Ready)], ib_jobs := [response_injection_new i s c False]\<rparr>"
  have buffer: "hp_buffer (on_buffer (handle_finished_stream c s i) ?p4) = ?b"
    unfolding finish_buffer sv(1) using quiet(3,4) by (simp add: on_buffer_def begin_request_def)
  have plain: "parse_args path = (path, None)" "m \<noteq> PUT"
    "rh_get_routes_from_path_and_method path m (he_manager he) = Some (form, None)"
    using assms(6) by (simp_all add: plain_route_def rh_lookup_eq)
  obtain ev rq where ev: "build_route_event c s i OnFinished_Type ?rq = (Ok (OnFinished ev), rq)"
    "fe_path ev = path" "fe_method ev = m" "fe_headers ev = hs" "fe_body ev = concat packets" "\<not> req_live rq c i"
    by (rule event_built [OF sv(2) plain(1) refl])
  obtain answer w' where ran: "dispatch_finished (he_call he) (rm_dispatcher (he_manager he)) ev w = Some (answer, w')"
    using assms(9) ev(2,3) by fastforce
  obtain sv' resp low high where answered:
    "response_preparation_with_route_handler he c s i OnFinished_Type SendAdditionnalHeader (ib_server ?b) = Some sv'"
    "response_for (he_files he) i s c answer = Some resp"
    "mail (sv_dispatch sv') = (mail (sv_dispatch sv))((i, s) := Some (fst (box_of (sv_dispatch sv) i s),
         snd (box_of (sv_dispatch sv) i s) @ [Q_Header (answer_header m i s SendAdditionnalHeader (fe_is_end ev) low high resp)]))"
    "sv_requests sv' = rq" "sv_app sv' = w'"
    using answer_finished_request [of "ib_server ?b" c s i ev rq he form None answer w' SendAdditionnalHeader]
      sv(3,4) ev(1-3) plain(2,3) ran by auto
  have "ib_live ?b c i" by (simp add: ib_live_def)
  then obtain b where b: "response_worker he (receive_signal ?b) = Some b" "ib_server b = sv'" "\<not> ib_live b c i"
    "ib_dispatched b = ib_dispatched (hp_buffer p) @ [(i, c)]" "ib_jobs b = []"
    using answer_step [of ?b i c s he sv'] answered(1) by auto
  have "request_flow tr call he storage env i headers packets (cl, p, v)
      = response_worker he (receive_signal (hp_buffer (on_buffer (handle_finished_stream c s i) ?p4)))"
    by (simp only: request_flow_def headers(1) processed Let_def case_prod_conv assms(2,3) [symmetric]
        finished_event_step [OF headers(2) assms(2,3)])
  then have "request_flow tr call he storage env i headers packets (cl, p, v) = Some b"
    by (simp only: buffer b(1))
  moreover have "mail (sv_dispatch (ib_server b)) = (mail (sv_dispatch (hp_server p)))((i, s) :=
        Some (fst (box_of (sv_dispatch (hp_server p)) i s), snd (box_of (sv_dispatch (hp_server p)) i s)
          @ [Q_Header (first_status i s),
             Q_Header (answer_header m i s SendAdditionnalHeader (fe_is_end ev) low high resp)]))"
    unfolding b(2) answered(3) by (simp add: sv(5) box_of_def)
  ultimately show ?thesis using b(2-5) ev ran answered by blast
qed




subsection \<open>Witness\<close>

definition demo_form :: "(nat, nat, unit) RouteForm" where
  "demo_form = asked_route [1] ''/a'' GET route_config_default (fb_handler 10)"

abbreviation demo_handlers :: "(nat, nat, unit, nat list) handler_env" where
  "demo_handlers \<equiv> demo_he (manager_build demo_builder)"

abbreviation demo_request :: "h3_header list" where
  "demo_request \<equiv> [header '':method'' ''GET'', header '':path'' ''/a'']"

lemma demo_plain_route: "plain_route demo_handlers ''/a'' GET demo_form"
proof -
  have "get_routes_from_path_and_method_b ''/a'' GET (manager_build demo_builder) = Some demo_form"
    using route_lookup_found [OF demo_registered, of "''/a''" GET demo_form] by (simp add: demo_regs_def demo_form_def)
  then have "get_routes_from_path_and_method ''/a'' GET (he_manager demo_handlers) = Some (demo_form, None)"
    by (auto simp: rh_lookup_eq [symmetric] rh_get_routes_from_path_and_method_def get_routes_from_path_and_method_b_def
        parse_args_def demo_he_def split: option.splits)
  then show ?thesis
    by (simp add: plain_route_def parse_args_def demo_form_def asked_route_def data_management_type_def fb_handler_def
        route_form_new_def form_builder_new_def Let_def route_config_default_def data_management_default_def body_storage_default_def)
qed

lemma demo_handled:
  "\<forall>ev. fe_path ev = ''/a'' \<longrightarrow> fe_method ev = GET \<longrightarrow>
     dispatch_finished (he_call demo_handlers) (rm_dispatcher (he_manager demo_handlers)) ev w \<noteq> None"
  by (simp add: demo_he_def dispatch_found [OF demo_registered])
    (simp add: demo_regs_def asked_route_def fb_handler_def route_form_new_def form_builder_new_def Let_def demo_call_def respond_def)

lemma demo_quiet: "quiet 0 ''c'' (pipeline_new (demo_server GET) :: (nat, unit, unit, nat list) pipeline)"
  using demo_server_inv [of GET]
  by (simp add: quiet_def pipeline_new_def injection_buffer_new_def ib_live_def req_live_def demo_server_def demo_requests_def
      add_partial_request_def requests_new_def dm_contains_def)

lemma demo_facts:
  "parse_request_headers demo_request = Some (''GET'', ''/a'', None)" "method_parse ''GET'' = Ok GET"
  "is_accepted_path (verifier_new [''/a''] None) ''/a''"
  "accepts demo_mw_call (rf_middlewares demo_form) demo_request
      (sv_app (hp_server (pipeline_new (demo_server GET) :: (nat, unit, unit, nat list) pipeline)))
      (demo_request @ [header ''x'' ''1'']) [1]"
proof -
  show "parse_request_headers demo_request = Some (''GET'', ''/a'', None)" "method_parse ''GET'' = Ok GET"
    by code_simp+
  show "is_accepted_path (verifier_new [''/a''] None) ''/a''"
    by (simp add: is_accepted_path_def verifier_new_def)
  show "accepts demo_mw_call (rf_middlewares demo_form) demo_request
      (sv_app (hp_server (pipeline_new (demo_server GET) :: (nat, unit, unit, nat list) pipeline)))
      (demo_request @ [header ''x'' ''1'']) [1]"
    by (simp add: demo_form_def asked_route_def Let_def fb_handler_def route_form_new_def form_builder_new_def
        demo_mw_call_def pipeline_new_def injection_buffer_new_def demo_server_def)
qed

lemma demo_ids: "[1] = tr_source_id demo_transport c" "''c'' = tr_trace_id demo_transport c"
  by (simp_all add: demo_transport_def)

lemma demo_flow:
  assumes "''c'' = tr_trace_id tr (conn cl)"
  shows "\<exists>b. request_flow tr demo_mw_call demo_handlers [] demo_env 0 demo_request []
      (cl, pipeline_new (demo_server GET), verifier_new [''/a''] None) = Some b
    \<and> ib_dispatched b = [(0, ''c'')]"
  using flow_served [where cl = cl, OF demo_quiet refl assms demo_facts(1,2) demo_plain_route demo_facts(3,4) demo_handled, of "[]" demo_env "[]"]
  by (auto simp: pipeline_new_def injection_buffer_new_def)


end
