(* ===== verification/ServerSafety.thy ===== *)
theory ServerSafety
  imports ServerSteps RequestLifecycle
begin

section \<open>Properties of every interleaving\<close>

text \<open>
  Every run of the threads of \<open>ServerSteps\<close> is, seen from the injection buffer, a run of
  \<open>Signalling\<close>'s steps; with what the labels record of a request this gives when its handlers may
  run. The second part carries the typing of \<open>MessageTyping\<close> through every step of every thread.
\<close>

subsection \<open>The injection buffer\<close>

fun buffer_labels :: "'m server_label \<Rightarrow> ib_label list" where
  "buffer_labels (Announced c s i headers more_frames) = [Begin c i]"
| "buffer_labels (Withdrawn c i) = [Cancel_Request c i]"
| "buffer_labels (Ended c s i) = [Finished_Stream c s i]"
| "buffer_labels (Closed c) = [Cancel_Connection c]"
| "buffer_labels (Unrouted c i) = [Signal_Rejected (i, c), Elsewhere]"
| "buffer_labels (Accepted job headers) = [Elsewhere, Signal_Ready (mj_stream_id job, mj_conn_id job)]"
| "buffer_labels (Refused job e) = [Elsewhere, Signal_Rejected (mj_stream_id job, mj_conn_id job)]"
| "buffer_labels Received = [Receive]"
| "buffer_labels Taken = [Worker_Takes]"
| "buffer_labels (Checked n) = [Worker_Checks n]"
| "buffer_labels _ = [Elsewhere]"

lemma ib_run_one: "ib_step he l b b' \<Longrightarrow> ib_run he [l] b b'"
  using run_step [OF run_refl] by fastforce

lemmas ib_singles [intro] = step_begin [THEN ib_run_one] step_cancel [THEN ib_run_one] step_close [THEN ib_run_one]
  step_receive [THEN ib_run_one] step_finished [THEN ib_run_one]

lemma ib_run_two: "ib_step he l1 b b1 \<Longrightarrow> ib_step he l2 b1 b2 \<Longrightarrow> ib_run he [l1, l2] b b2"
  using run_step [OF ib_run_one] by fastforce

lemma ib_run_append:
  assumes "ib_run he ls2 b1 b2" "ib_run he ls1 b b1"
  shows "ib_run he (ls1 @ ls2) b b2"
  using assms
proof (induction rule: ib_run.induct)
  case (run_step ls b1 b2 l b3)
  then show ?case using ib_run.run_step [of he "ls1 @ ls" b b2 l b3] by simp
qed simp

lemma ib_elsewhere: "b' = b\<lparr>ib_server := sv\<rparr> \<Longrightarrow> ib_run he [Elsewhere] b b'"
  by (simp add: ib_run_one step_elsewhere)

lemma ib_elsewhere_same [simp, intro]: "ib_run he [Elsewhere] b b"
  by (rule ib_elsewhere [where sv = "ib_server b"]) simp

text \<open>The state as the steps leave it.\<close>

lemma put_simps [simp]:
  "nw_pipeline (put_client k cl nw) = nw_pipeline nw" "nw_verifier (put_client k cl nw) = nw_verifier nw"
  "nw_sessions (put_client k cl nw) = nw_sessions nw" "nw_clients (put_client k cl nw) = dm_insert k cl (nw_clients nw)"
  "nw_pipeline (put_intake k (cl, p, v) nw) = p" "nw_verifier (put_intake k (cl, p, v) nw) = v"
  "nw_clients (put_intake k (cl, p, v) nw) = dm_insert k cl (nw_clients nw)"
  "nw_pipeline (put_loop k (cl, sv) nw) = on_buffer (on_server (\<lambda>_. sv)) (nw_pipeline nw)"
  "nw_verifier (put_loop k (cl, sv) nw) = nw_verifier nw"
  "nw_clients (put_loop k (cl, sv) nw) = dm_insert k cl (nw_clients nw)"
  "nw_pipeline (put_server sv nw) = on_buffer (on_server (\<lambda>_. sv)) (nw_pipeline nw)"
  "nw_verifier (put_server sv nw) = nw_verifier nw" "nw_clients (put_server sv nw) = nw_clients nw"
  by (simp_all add: put_client_def put_intake_def put_loop_def put_server_def)

lemma on_buffer_sel [simp]:
  "hp_buffer (on_buffer f p) = f (hp_buffer p)" "hp_messages (on_buffer f p) = hp_messages p"
  "hp_jobs (on_buffer f p) = hp_jobs p" "hp_results (on_buffer f p) = hp_results p"
  by (simp_all add: on_buffer_def)

lemma on_server_sel [simp]:
  "ib_server (on_server f b) = f (ib_server b)" "ib_channel (on_server f b) = ib_channel b"
  "ib_jobs (on_server f b) = ib_jobs b" "ib_checking (on_server f b) = ib_checking b"
  "ib_signal (on_server f b) = ib_signal b" "ib_dispatched (on_server f b) = ib_dispatched b"
  by (simp_all add: on_server_def)

lemma on_server_elsewhere [simp, intro]: "ib_run he [Elsewhere] b (on_server f b)"
  by (rule ib_elsewhere) (simp add: on_server_def)

text \<open>The header processor by its verdict on the message.\<close>

lemma run_header_processor_eq:
  assumes "hp_messages p = msg # rest"
  shows "run_header_processor he p =
    (case header_job he msg of
       Some job \<Rightarrow> p\<lparr>hp_messages := rest, hp_jobs := hp_jobs p @ [job]\<rparr>
     | None \<Rightarrow> if not_found he msg
         then on_buffer (\<lambda>b. on_server (send_404 he ''/404'' (hm_scid msg) (hm_stream_id msg) SendHeader)
                (send_rejected (hm_stream_id msg, hm_conn_id msg) b)) (p\<lparr>hp_messages := rest\<rparr>)
         else p\<lparr>hp_messages := rest\<rparr>)"
  using assms
  by (auto simp: run_header_processor_def header_job_def not_found_def send_header_work_def execute_def
      split: option.splits sum.splits prod.splits)

lemma header_buffer:
  assumes "hp_messages p = msg # rest"
  shows "ib_run he (buffer_labels (header_label he msg)) (hp_buffer p) (hp_buffer (run_header_processor he p))"
  using assms ib_run_two [OF step_rejected step_elsewhere]
  by (auto simp: run_header_processor_eq header_label_def on_server_def split: option.split)

lemma middleware_buffer:
  assumes "hp_jobs p = job # jobs"
    and "run_middlewares call (mj_middleware_collection job) (mj_headers job) (sv_app (hp_server p)) = (decision, w)"
  shows "ib_run he (buffer_labels (verdict_label job decision)) (hp_buffer p)
    (hp_buffer (middleware_worker call he storage env p))"
proof (cases decision)
  case (Inl e)
  have "ib_run he [Elsewhere, Signal_Rejected (mj_stream_id job, mj_conn_id job)] (hp_buffer p)
      (send_rejected (mj_stream_id job, mj_conn_id job) ((hp_buffer p)\<lparr>ib_server := (hp_server p)\<lparr>sv_app := w\<rparr>\<rparr>))"
    by (rule ib_run_two [OF step_elsewhere step_rejected])
  then show ?thesis using assms Inl
    by (simp add: middleware_worker_def verdict_label_def send_done_def on_buffer_def on_server_def)
next
  case (Inr headers)
  have "\<exists>sv. hp_buffer (middleware_worker call he storage env p)
      = send_signal (mj_stream_id job, mj_conn_id job) ((hp_buffer p)\<lparr>ib_server := sv\<rparr>)"
    using assms Inr
    by (auto simp: middleware_worker_def send_done_def on_buffer_def on_server_def Let_def
        regular_request_partial_response_table_update_def stream_request_partial_response_table_update_def
        send_signal_def split: RouteType.split)
  then obtain sv where "hp_buffer (middleware_worker call he storage env p)
      = send_signal (mj_stream_id job, mj_conn_id job) ((hp_buffer p)\<lparr>ib_server := sv\<rparr>)" ..
  then show ?thesis using ib_run_two [OF step_elsewhere step_ready] Inr by (simp add: verdict_label_def)
qed

lemma event_buffer:
  assumes "handle_event fuel tr ik storage env i ev (cl, p, v) = Some (cl', p', v')" "ev \<noteq> Data_Event"
  shows "ib_run he (buffer_labels (event_label (tr_trace_id tr (conn cl)) (tr_source_id tr (conn cl)) i ev v))
    (hp_buffer p) (hp_buffer p')"
  using assms
  by (cases ev)
    (auto simp: handle_event_def handle_headers_event_def handle_finished_event_def handle_reset_event_def Let_def
      process_header_def case_prod_beta split: option.splits)

lemma receive_result_buffer [intro]: "ib_run he [Elsewhere] (hp_buffer p) (hp_buffer (handle_middleware_result p))"
  by (auto simp: handle_middleware_result_def Let_def split: list.split MiddleWareResult.split)

lemma step_buffer:
  assumes "server_step H l nw nw'"
  shows "ib_run (ho_handlers H) (buffer_labels l) (nw_buffer nw) (nw_buffer nw')"
  using assms
proof cases
  case (srv_event k cl i ev cl1 fuel env st)
  obtain cl2 p2 v2 where "st = (cl2, p2, v2)" by (metis prod_cases3)
  then show ?thesis using srv_event event_buffer by simp
next
  case (srv_middleware n job decision w env)
  then show ?thesis
    using middleware_buffer [of "(nw_pipeline nw)\<lparr>hp_jobs := to_front n (hp_jobs (nw_pipeline nw))\<rparr>" job
        "take n (hp_jobs (nw_pipeline nw)) @ drop (Suc n) (hp_jobs (nw_pipeline nw))" "ho_middleware H" decision w
        "ho_handlers H" "ho_storage H" env]
    by (simp add: to_front_def)
next
  case (srv_collect k cl nw1)
  then show ?thesis by (simp add: collect_client_def Let_def ib_singles)
next
  case (srv_resets k cl st)
  then show ?thesis by (cases st) simp
next
  case (srv_send k cl fe i st)
  then show ?thesis by (cases st) simp
next
  case (srv_header msg rest)
  then show ?thesis by (simp add: header_buffer)
qed (auto simp: on_requests_def put_client_def put_server_def on_buffer_def intro: ib_run_one ib_elsewhere)

lemma run_buffer:
  assumes "server_run H ls nw nw'"
  shows "ib_run (ho_handlers H) (concat (map buffer_labels ls)) (nw_buffer nw) (nw_buffer nw')"
  using assms
proof (induction rule: server_run.induct)
  case (srv_step ls nw nw1 l nw2)
  then show ?case using ib_run_append [OF step_buffer] by simp
qed (simp add: run_refl)


subsection \<open>Where jobs, signals and ends come from\<close>

fun announces :: "conn_id \<Rightarrow> stream_id \<Rightarrow> 'm server_label \<Rightarrow> bool" where
  "announces c i (Announced c' s i' headers more_frames) \<longleftrightarrow> c' = c \<and> i' = i"
| "announces c i _ \<longleftrightarrow> False"

fun accepted_for :: "conn_id \<Rightarrow> stream_id \<Rightarrow> 'm server_label \<Rightarrow> bool" where
  "accepted_for c i (Accepted job headers) \<longleftrightarrow> mj_conn_id job = c \<and> mj_stream_id job = i"
| "accepted_for c i _ \<longleftrightarrow> False"

fun ends :: "conn_id \<Rightarrow> stream_id \<Rightarrow> 'm server_label \<Rightarrow> bool" where
  "ends c i (Ended c' s i') \<longleftrightarrow> c' = c \<and> i' = i"
| "ends c i _ \<longleftrightarrow> False"

fun finishes :: "ReqId \<Rightarrow> ib_label \<Rightarrow> bool" where
  "finishes k (Finished_Stream c s i) \<longleftrightarrow> k = (i, c)"
| "finishes k _ \<longleftrightarrow> False"

lemma label_counts:
  "count_list (concat (map buffer_labels ls)) (Begin c i) = length (filter (announces c i) ls)"
  "count_list (concat (map buffer_labels ls)) (Signal_Ready (i, c)) = length (filter (accepted_for c i) ls)"
  "length (filter (finishes (i, c)) (concat (map buffer_labels ls))) = length (filter (ends c i) ls)"
proof -
  have one: "count_list (buffer_labels l) (Begin c i) = of_bool (announces c i l)"
    "count_list (buffer_labels l) (Signal_Ready (i, c)) = of_bool (accepted_for c i l)"
    "length (filter (finishes (i, c)) (buffer_labels l)) = of_bool (ends c i l)" for l :: "'m server_label"
    by (cases l; auto)+
  show "count_list (concat (map buffer_labels ls)) (Begin c i) = length (filter (announces c i) ls)"
    "count_list (concat (map buffer_labels ls)) (Signal_Ready (i, c)) = length (filter (accepted_for c i) ls)"
    "length (filter (finishes (i, c)) (concat (map buffer_labels ls))) = length (filter (ends c i) ls)"
    by (induction ls) (simp_all add: one)
qed

text \<open>Every dispatch uses up an injection, and every injection comes from the end of a stream.\<close>

definition waiting_injections :: "ReqId \<Rightarrow> ('l, 'f, 'w) ResponseInjectionBuffer \<Rightarrow> nat" where
  "waiting_injections k b = length (filter (\<lambda>ri. ri_req_id ri = k) (ib_jobs b @ ib_checking b))"

lemma ib_step_injections:
  assumes "ib_step he l b b'"
  shows "dispatches k b' + waiting_injections k b' \<le> dispatches k b + waiting_injections k b + of_bool (finishes k l)"
  using assms
proof cases
  case (step_takes ri jobs over b1)
  have "\<not> over \<Longrightarrow> ib_dispatched b1 = ib_dispatched b"
    using step_takes(4) by (auto simp: register_consume_def Let_def split: option.splits RequestDisposition.splits)
  then show ?thesis using step_takes register_consume_effect [OF step_takes(4)]
    by (auto simp: dispatches_def waiting_injections_def)
next
  case (step_checks n ri b1)
  have whole: "ib_checking b = take n (ib_checking b) @ ri # drop (Suc n) (ib_checking b)"
    using step_checks(3,4) by (simp add: id_take_nth_drop)
  have "waiting_injections k b = waiting_injections k b1 + of_bool (ri_req_id ri = k)"
    unfolding waiting_injections_def by (subst whole) (simp add: step_checks(5))
  moreover have "dispatches k b' = dispatches k b"
    "waiting_injections k b' \<le> waiting_injections k b1 + of_bool (ri_req_id ri = k)"
    using step_checks(2,5) by (auto simp: dispatches_def register_retry_def waiting_injections_def split: if_splits)
  ultimately show ?thesis by simp
qed (auto simp: dispatches_def waiting_injections_def begin_request_def cancel_request_def cancel_connection_def
    send_signal_def send_rejected_def handle_finished_stream_def pool_send_def receive_signal_def ri_req_id_def
    response_injection_new_def Let_def split: list.split)

lemma ib_run_injections:
  assumes "ib_run he ls b b'"
  shows "dispatches k b' + waiting_injections k b' \<le> dispatches k b + waiting_injections k b + length (filter (finishes k) ls)"
  using assms
proof (induction rule: ib_run.induct)
  case (run_step ls b b1 l b2)
  then show ?case using ib_step_injections [OF run_step(2), of k] by (cases "finishes k l") simp_all
qed simp


text \<open>Where the messages, the jobs and the records of paths come from.\<close>

definition announced_msg :: "'m server_label list \<Rightarrow> HeaderMessage \<Rightarrow> bool" where
  "announced_msg ls msg \<longleftrightarrow>
     Announced (hm_conn_id msg) (hm_scid msg) (hm_stream_id msg) (hm_headers msg) (hm_more_frames msg) \<in> set ls"

definition path_known :: "(string \<Rightarrow> bool) \<Rightarrow> 'm server_label list \<Rightarrow> scid \<Rightarrow> stream_id \<Rightarrow> bool" where
  "path_known known ls s i \<longleftrightarrow>
     (\<exists>c headers more_frames path. Announced c s i headers more_frames \<in> set ls
        \<and> extract_path_from_hdr headers = Some path \<and> known path)"

definition vetted :: "('u, 'm, 'l, 'w) handler_env \<Rightarrow> 'm server_label list \<Rightarrow> 'm MiddleWareJob \<Rightarrow> bool" where
  "vetted he ls job \<longleftrightarrow> (\<exists>msg. announced_msg ls msg \<and> header_job he msg = Some job)"

definition passed :: "('m, 'w) middleware_call \<Rightarrow> 'm MiddleWareJob \<Rightarrow> h3_header list \<Rightarrow> bool" where
  "passed call job headers \<longleftrightarrow> (\<exists>w w'. accepts call (mj_middleware_collection job) (mj_headers job) w headers w')"

definition step_sources ::
  "('c, 'h, 'm, 'l, 'w, 't, 'key, 'u) host \<Rightarrow> 'm server_label
     \<Rightarrow> ('c, 'h, 'm, 'l, 'f, 'w, 't) network \<Rightarrow> ('c, 'h, 'm, 'l, 'f, 'w, 't) network \<Rightarrow> bool" where
  "step_sources H l nw nw' \<longleftrightarrow>
     (\<forall>msg \<in> set (hp_messages (nw_pipeline nw')). msg \<in> set (hp_messages (nw_pipeline nw)) \<or> announced_msg [l] msg)
   \<and> (\<forall>job \<in> set (hp_jobs (nw_pipeline nw')). job \<in> set (hp_jobs (nw_pipeline nw))
        \<or> (\<exists>msg \<in> set (hp_messages (nw_pipeline nw)). header_job (ho_handlers H) msg = Some job))
   \<and> (\<forall>s i. in_flight (nw_verifier nw') s i \<longrightarrow>
        in_flight (nw_verifier nw) s i \<or> path_known (is_accepted_path (nw_verifier nw)) [l] s i)
   \<and> is_accepted_path (nw_verifier nw') = is_accepted_path (nw_verifier nw)
   \<and> (\<forall>job headers. l = Accepted job headers \<longrightarrow>
        job \<in> set (hp_jobs (nw_pipeline nw)) \<and> passed (ho_middleware H) job headers)
   \<and> (\<forall>c s i. l = Ended c s i \<longrightarrow> in_flight (nw_verifier nw) s i)"

lemma step_sources_quiet:
  assumes "hp_messages (nw_pipeline nw') = hp_messages (nw_pipeline nw)"
    and "set (hp_jobs (nw_pipeline nw')) \<subseteq> set (hp_jobs (nw_pipeline nw))"
    and "\<And>s i. in_flight (nw_verifier nw') s i \<Longrightarrow> in_flight (nw_verifier nw) s i"
    and "is_accepted_path (nw_verifier nw') = is_accepted_path (nw_verifier nw)"
    and "\<And>job headers. l \<noteq> Accepted job headers" "\<And>c s i. l \<noteq> Ended c s i"
  shows "step_sources H l nw nw'"
  using assms unfolding step_sources_def by auto

lemma is_accepted_path_drop [simp]: "is_accepted_path (verifier_remove_connection s v) = is_accepted_path v"
  using is_accepted_path_kept [of "Remove_Connection s"] by simp

lemma middleware_worker_queues [simp]:
  "hp_messages (middleware_worker call he storage env p) = hp_messages p"
  "hp_jobs (middleware_worker call he storage env p) = tl (hp_jobs p)"
  by (auto simp: middleware_worker_def send_done_def Let_def split: list.split prod.split sum.split)

lemma result_queues [simp]:
  "hp_messages (handle_middleware_result p) = hp_messages p" "hp_jobs (handle_middleware_result p) = hp_jobs p"
  by (auto simp: handle_middleware_result_def Let_def split: list.split MiddleWareResult.split)

lemma to_front_set: "n < length xs \<Longrightarrow> set (to_front n xs) = set xs"
  unfolding to_front_def by (metis Un_insert_right id_take_nth_drop list.simps(15) set_append sup_commute)

lemma event_sources:
  assumes "handle_event fuel tr ik storage env i ev (cl, nw_pipeline nw, nw_verifier nw) = Some (cl', p', v')" "ev \<noteq> Data_Event"
  shows "step_sources H (event_label (tr_trace_id tr (conn cl)) (tr_source_id tr (conn cl)) i ev (nw_verifier nw)) nw
    (put_intake k (cl', p', v') nw)"
  using assms
  by (cases ev)
    (auto simp: handle_event_def handle_headers_event_def handle_finished_event_def handle_reset_event_def Let_def
      step_sources_def process_header_def announced_msg_def path_known_def case_prod_beta in_flight_insert split: option.splits)

lemma step_has_sources:
  assumes "server_step H l nw nw'"
  shows "step_sources H l nw nw'"
  using assms
proof cases
  case (srv_event k cl i ev cl1 fuel env st)
  obtain cl2 p2 v2 where "st = (cl2, p2, v2)" by (metis prod_cases3)
  then show ?thesis using srv_event event_sources by simp
next
  case (srv_middleware n job decision w env)
  have "set (tl (to_front n (hp_jobs (nw_pipeline nw)))) \<subseteq> set (hp_jobs (nw_pipeline nw))"
    by (metis list.sel(2) list.set_sel(2) subsetI to_front_set srv_middleware(3))
  then show ?thesis using srv_middleware
    by (auto simp: step_sources_def verdict_label_def passed_def run_middlewares_accepts split: sum.splits)
next
  case (srv_collect k cl nw1)
  then show ?thesis
    by (intro step_sources_quiet) (auto simp: collect_client_def Let_def path_verifier.live_drop_connection)
next
  case (srv_resets k cl st)
  then show ?thesis by (cases st) (auto intro!: step_sources_quiet)
next
  case (srv_send k cl fe i st)
  then show ?thesis by (cases st) (auto intro!: step_sources_quiet)
next
  case (srv_header msg rest)
  then show ?thesis
    by (auto simp: step_sources_def run_header_processor_eq header_label_def split: option.splits if_splits)
qed (auto intro!: step_sources_quiet simp: on_requests_def)


definition traced ::
  "('c, 'h, 'm, 'l, 'w, 't, 'key, 'u) host \<Rightarrow> (string \<Rightarrow> bool) \<Rightarrow> 'm server_label list
     \<Rightarrow> ('c, 'h, 'm, 'l, 'f, 'w, 't) network \<Rightarrow> bool" where
  "traced H known ls nw \<longleftrightarrow> is_accepted_path (nw_verifier nw) = known
   \<and> (\<forall>msg \<in> set (hp_messages (nw_pipeline nw)). announced_msg ls msg)
   \<and> (\<forall>job \<in> set (hp_jobs (nw_pipeline nw)). vetted (ho_handlers H) ls job)
   \<and> (\<forall>s i. in_flight (nw_verifier nw) s i \<longrightarrow> path_known known ls s i)
   \<and> (\<forall>job headers. Accepted job headers \<in> set ls \<longrightarrow>
        vetted (ho_handlers H) ls job \<and> passed (ho_middleware H) job headers)
   \<and> (\<forall>c s i. Ended c s i \<in> set ls \<longrightarrow> path_known known ls s i)"

lemma announced_mono:
  "announced_msg ls msg \<Longrightarrow> announced_msg (ls @ ls') msg" "announced_msg ls' msg \<Longrightarrow> announced_msg (ls @ ls') msg"
  "path_known known ls s i \<Longrightarrow> path_known known (ls @ ls') s i" "path_known known ls' s i \<Longrightarrow> path_known known (ls @ ls') s i"
  "vetted he ls job \<Longrightarrow> vetted he (ls @ ls') job"
  unfolding announced_msg_def path_known_def vetted_def by auto

lemma traced_step:
  assumes "traced H known ls nw" "step_sources H l nw nw'"
  shows "traced H known (ls @ [l]) nw'"
proof -
  have old: "is_accepted_path (nw_verifier nw) = known"
    "\<And>msg. msg \<in> set (hp_messages (nw_pipeline nw)) \<Longrightarrow> announced_msg ls msg"
    "\<And>job. job \<in> set (hp_jobs (nw_pipeline nw)) \<Longrightarrow> vetted (ho_handlers H) ls job"
    "\<And>s i. in_flight (nw_verifier nw) s i \<Longrightarrow> path_known known ls s i"
    "\<And>job headers. Accepted job headers \<in> set ls \<Longrightarrow> vetted (ho_handlers H) ls job \<and> passed (ho_middleware H) job headers"
    "\<And>c s i. Ended c s i \<in> set ls \<Longrightarrow> path_known known ls s i"
    using assms(1) unfolding traced_def by blast+
  have new: "vetted (ho_handlers H) (ls @ [l]) job"
    if "msg \<in> set (hp_messages (nw_pipeline nw))" "header_job (ho_handlers H) msg = Some job" for msg job
    using announced_mono(1) [OF old(2) [OF that(1)], of "[l]"] that(2) unfolding vetted_def by blast
  have "path_known known (ls @ [l]) s i" if "in_flight (nw_verifier nw') s i" for s i
    using assms(2) that old(1,4) announced_mono(3,4) [of known] unfolding step_sources_def by blast
  moreover have "announced_msg (ls @ [l]) msg" if "msg \<in> set (hp_messages (nw_pipeline nw'))" for msg
    using assms(2) that old(2) announced_mono(1,2) unfolding step_sources_def by blast
  moreover have "vetted (ho_handlers H) (ls @ [l]) job" if "job \<in> set (hp_jobs (nw_pipeline nw'))" for job
    using assms(2) that old(3) new announced_mono(5) unfolding step_sources_def by blast
  moreover have "vetted (ho_handlers H) (ls @ [l]) job \<and> passed (ho_middleware H) job headers"
    if "Accepted job headers \<in> set (ls @ [l])" for job headers
    using assms(2) that old(3,5) announced_mono(5) [where he = "ho_handlers H" and ls = ls and ls' = "[l]"] unfolding step_sources_def by auto
  moreover have "path_known known (ls @ [l]) s i" if "Ended c s i \<in> set (ls @ [l])" for c s i
    using assms(2) that old(4,6) announced_mono(3) [of known ls _ _ "[l]"] unfolding step_sources_def by auto
  moreover have "is_accepted_path (nw_verifier nw') = known"
    using assms(2) old(1) unfolding step_sources_def by simp
  ultimately show ?thesis unfolding traced_def by blast
qed

lemma run_traced:
  assumes "server_run H ls nw nw'" "traced H known [] nw"
  shows "traced H known ls nw'"
  using assms by (induction rule: server_run.induct) (auto intro: traced_step step_has_sources)

lemma fresh_traced: "traced H (is_accepted_path (verifier_new paths stream_paths)) [] (network_new paths stream_paths sessions sv)"
  by (simp add: traced_def network_new_def pipeline_new_def in_flight_def verifier_new_def is_accepted_path_def)

text \<open>
  C3. In every interleaving of all the server's threads, from its start, the handlers of a request run at
  most once for each time its headers arrived, at most once for each acceptance of its middlewares
  and at most once for each end of its stream. If they have run at all, then headers of that request
  arrived that name a registered route or stream, every middleware registered for it has accepted
  those headers, one after the other, and the stream that ended had announced a path of the server.
\<close>

theorem handlers_run_only_when_accepted:
  assumes "server_run H ls (network_new paths stream_paths sessions sv) nw"
  shows "dispatches (i, c) (nw_buffer nw) \<le> length (filter (announces c i) ls)
    \<and> dispatches (i, c) (nw_buffer nw) \<le> length (filter (accepted_for c i) ls)
    \<and> dispatches (i, c) (nw_buffer nw) \<le> length (filter (ends c i) ls)
    \<and> (dispatches (i, c) (nw_buffer nw) = 0
       \<or> (\<exists>s headers more_frames job hs w w'. Announced c s i headers more_frames \<in> set ls \<and> Accepted job hs \<in> set ls
            \<and> header_job (ho_handlers H) \<lparr>hm_stream_id = i, hm_scid = s, hm_conn_id = c, hm_more_frames = more_frames,
                 hm_headers = headers\<rparr> = Some job
            \<and> accepts (ho_middleware H) (mj_middleware_collection job) headers w hs w')
         \<and> (\<exists>s c' headers more_frames path. Ended c s i \<in> set ls \<and> Announced c' s i headers more_frames \<in> set ls
              \<and> extract_path_from_hdr headers = Some path
              \<and> is_accepted_path (verifier_new paths stream_paths) path))"
proof -
  let ?nw = "network_new paths stream_paths sessions sv" and ?n = "dispatches (i, c) (nw_buffer nw)"
  have fresh: "dispatches k (nw_buffer ?nw) = 0" "admitted k (nw_buffer ?nw) = 0" "signalled k (nw_buffer ?nw) = 0"
    "waiting_injections k (nw_buffer ?nw) = 0" for k
    by (simp_all add: network_new_def pipeline_new_def injection_buffer_new_def dispatches_def admitted_def signalled_def
        waiting_injections_def)
  note run = run_buffer [OF assms]
  have bounds: "?n \<le> length (filter (announces c i) ls)" "?n \<le> length (filter (accepted_for c i) ls)"
    "?n \<le> length (filter (ends c i) ls)"
    using ib_run_counters(1,2) [OF run, of "(i, c)"] ib_run_injections [OF run, of "(i, c)"]
    by (simp_all add: fresh label_counts)
  have tr: "traced H (is_accepted_path (verifier_new paths stream_paths)) ls nw"
    by (rule run_traced [OF assms fresh_traced])
  have "(\<exists>s headers more_frames job hs w w'. Announced c s i headers more_frames \<in> set ls \<and> Accepted job hs \<in> set ls
            \<and> header_job (ho_handlers H) \<lparr>hm_stream_id = i, hm_scid = s, hm_conn_id = c, hm_more_frames = more_frames,
                 hm_headers = headers\<rparr> = Some job
            \<and> accepts (ho_middleware H) (mj_middleware_collection job) headers w hs w')
         \<and> (\<exists>s c' headers more_frames path. Ended c s i \<in> set ls \<and> Announced c' s i headers more_frames \<in> set ls
              \<and> extract_path_from_hdr headers = Some path \<and> is_accepted_path (verifier_new paths stream_paths) path)"
    if "?n \<noteq> 0"
  proof -
    have "filter (accepted_for c i) ls \<noteq> []" "filter (ends c i) ls \<noteq> []" using that bounds by auto
    then obtain l1 l2 where l: "l1 \<in> set ls" "accepted_for c i l1" "l2 \<in> set ls" "ends c i l2"
      by (meson filter_False)
    from l(2) obtain job hs where l1: "l1 = Accepted job hs" "mj_conn_id job = c" "mj_stream_id job = i" by (cases l1) auto
    from l(4) obtain s' where l2: "l2 = Ended c s' i" by (cases l2) auto
    obtain msg where msg: "announced_msg ls msg" "header_job (ho_handlers H) msg = Some job" "passed (ho_middleware H) job hs"
      using tr l(1) unfolding l1(1) traced_def vetted_def by blast
    have job: "mj_conn_id job = hm_conn_id msg" "mj_stream_id job = hm_stream_id msg" "mj_headers job = hm_headers msg"
      using msg(2) by (auto simp: header_job_def send_header_work_def split: option.splits prod.splits sum.splits)
    have "Announced c (hm_scid msg) i (hm_headers msg) (hm_more_frames msg) \<in> set ls"
      "\<lparr>hm_stream_id = i, hm_scid = hm_scid msg, hm_conn_id = c, hm_more_frames = hm_more_frames msg, hm_headers = hm_headers msg\<rparr> = msg"
      using msg(1) l1(2,3) job(1,2) by (simp_all add: announced_msg_def)
    moreover obtain w w' where "accepts (ho_middleware H) (mj_middleware_collection job) (hm_headers msg) w hs w'"
      using msg(3) job(3) unfolding passed_def by auto
    moreover have "path_known (is_accepted_path (verifier_new paths stream_paths)) ls s' i"
      using tr l(3) unfolding l2 traced_def by blast
    ultimately show ?thesis using msg(2) l(1,3) unfolding l1(1) l2 path_known_def by metis
  qed
  then show ?thesis using bounds by blast
qed


text \<open>The request of \<open>request_served\<close>, event by event: its flow is a run of the threads.\<close>

lemma receive_no_body [simp]: "receive_body storage env i s c [] p = p"
  by (simp add: receive_body_def on_requests_def on_buffer_def on_server_def)

lemma response_worker_takes:
  assumes "response_worker he b = Some b'" "ib_dispatched b' \<noteq> ib_dispatched b"
  shows "ib_step he Worker_Takes b b'"
proof -
  obtain ri jobs where jobs: "ib_jobs b = ri # jobs"
    using assms by (cases "ib_jobs b") (auto simp: response_worker_def)
  then obtain over b1 where consume: "register_consume he ri (b\<lparr>ib_jobs := jobs\<rparr>) = Some (over, b1)"
    using assms(1) by (auto simp: response_worker_def register_injection_def split: option.splits)
  have "over"
  proof (rule ccontr)
    assume "\<not> over"
    then have "b1 = b\<lparr>ib_jobs := jobs\<rparr>"
      using consume by (auto simp: register_consume_def Let_def split: option.splits RequestDisposition.splits)
    then show False using assms jobs consume \<open>\<not> over\<close>
      by (auto simp: response_worker_def register_injection_def register_retry_def split: if_splits)
  qed
  then have "b' = b1" using assms(1) jobs consume by (simp add: response_worker_def register_injection_def)
  then show ?thesis using step_takes [OF jobs consume] \<open>over\<close> by simp
qed

text \<open>The same state after one event, one header, one middleware job, one signal or one injection.\<close>

lemma run_event:
  assumes "dm_get (nw_clients nw) k = Some cl" "with_h3 (in_poll (ho_intake H)) cl = Some (Ok (i, ev), cl1)" "ev \<noteq> Data_Event"
    and "handle_event 0 (ho_transport H) (ho_intake H) (ho_storage H) env i ev (cl1, nw_pipeline nw, nw_verifier nw) = Some (cl', p, v)"
  obtains ls where "server_run H ls nw (put_intake k (cl', p, v) nw)"
  using srv_one [OF srv_event [OF assms]] by blast

lemma run_header:
  assumes "hp_messages (nw_pipeline nw) = [msg]" "hp_jobs (nw_pipeline nw) = []" "header_job (ho_handlers H) msg = Some job"
  obtains ls where "server_run H ls nw (nw\<lparr>nw_pipeline := run_header_processor (ho_handlers H) (nw_pipeline nw)\<rparr>)"
    "hp_jobs (run_header_processor (ho_handlers H) (nw_pipeline nw)) = [job]"
proof -
  have "hp_jobs (run_header_processor (ho_handlers H) (nw_pipeline nw)) = [job]"
    by (simp add: run_header_processor_eq [OF assms(1)] assms(2,3))
  with srv_one [OF srv_header [OF assms(1)]] show thesis by (rule that)
qed

lemma run_middleware:
  assumes "hp_jobs (nw_pipeline nw) = [job]" "\<not> dm_contains (files (sv_requests (nw_server nw))) (env_handle env)"
  obtains ls where "server_run H ls nw (nw\<lparr>nw_pipeline :=
      middleware_worker (ho_middleware H) (ho_handlers H) (ho_storage H) env (nw_pipeline nw)\<rparr>)"
proof -
  obtain decision w where verdict: "run_middlewares (ho_middleware H) (mj_middleware_collection job) (mj_headers job)
      (sv_app (nw_server nw)) = (decision, w)" by fastforce
  have front: "(nw_pipeline nw)\<lparr>hp_jobs := to_front 0 (hp_jobs (nw_pipeline nw))\<rparr> = nw_pipeline nw"
    using assms by (simp add: to_front_def)
  have first: "0 < length (hp_jobs (nw_pipeline nw))" "job = hp_jobs (nw_pipeline nw) ! 0" using assms by simp_all
  show thesis by (rule that [OF srv_one [OF srv_middleware [OF first verdict assms(2), unfolded front]]])
qed

lemma run_answer:
  assumes "response_worker (ho_handlers H) (receive_signal (nw_buffer nw)) = Some b" "ib_dispatched b \<noteq> ib_dispatched (nw_buffer nw)"
  shows "\<exists>ls nw'. server_run H ls nw nw' \<and> nw_buffer nw' = b"
proof -
  let ?nw = "nw\<lparr>nw_pipeline := on_buffer receive_signal (nw_pipeline nw)\<rparr>"
  have "ib_dispatched (receive_signal (nw_buffer nw)) = ib_dispatched (nw_buffer nw)"
    by (simp add: receive_signal_def Let_def split: list.split)
  then have "ib_step (ho_handlers H) Worker_Takes (nw_buffer ?nw) b"
    using response_worker_takes [OF assms(1)] assms(2) by simp
  from srv_step [OF srv_one [OF srv_receive] srv_takes [OF this]] show ?thesis by (intro exI conjI) (assumption, simp)
qed

lemma dispatched_kept:
  "ib_dispatched (hp_buffer (run_header_processor he p)) = ib_dispatched (hp_buffer p)"
  "ib_dispatched (hp_buffer (middleware_worker call he storage env p)) = ib_dispatched (hp_buffer p)"
  by (auto simp: run_header_processor_def execute_def on_server_def send_rejected_def Let_def
      middleware_worker_def send_done_def send_signal_def regular_request_partial_response_table_update_def
      stream_request_partial_response_table_update_def split: list.split option.split prod.split sum.split RouteType.split)

lemma requests_kept: "sv_requests (hp_server (run_header_processor he p)) = sv_requests (hp_server p)"
  by (auto simp: run_header_processor_def execute_def on_buffer_def on_server_def send_rejected_def send_404_def Let_def
      split: list.split option.split prod.split sum.split)

lemma flow_is_run:
  assumes client: "dm_get (nw_clients nw) k = Some cl"
    and polled: "with_h3 (in_poll (ho_intake H)) cl = Some (Ok (i, Headers_Event headers True), cl1)"
      "with_h3 (in_poll (ho_intake H)) cl1 = Some (Ok (i, Finished_Event), cl2)"
    and ids: "source_of H cl1 = s" "trace_of H cl1 = c" "source_of H cl2 = s" "trace_of H cl2 = c"
    and quiet: "hp_messages (nw_pipeline nw) = []" "hp_jobs (nw_pipeline nw) = []"
    and path: "extract_path_from_hdr headers = Some path" "is_accepted_path (nw_verifier nw) path"
    and job: "header_job (ho_handlers H) (header_message i s c headers) = Some job"
    and flow: "request_flow (ho_transport H) (ho_middleware H) (ho_handlers H) (ho_storage H) env i headers []
          (cl1, nw_pipeline nw, nw_verifier nw) = Some b"
    and served: "ib_dispatched b = ib_dispatched (nw_buffer nw) @ [(i, c)]"
    and unused: "\<not> dm_contains (files (sv_requests (nw_server nw))) (env_handle env)"
  shows "\<exists>ls nw'. server_run H ls nw nw' \<and> nw_buffer nw' = b"
proof -
  define p1 where "p1 = process_header i s c headers True (on_buffer (begin_request c i) (nw_pipeline nw))"
  define v1 where "v1 = snd (insert_stream_path_for_conn s i path (nw_verifier nw))"
  define p2 where "p2 = run_header_processor (ho_handlers H) p1"
  define p3 where "p3 = middleware_worker (ho_middleware H) (ho_handlers H) (ho_storage H) env p2"
  define p4 where "p4 = on_buffer (handle_finished_stream c s i) p3"
  define v2 where "v2 = snd (is_finished_request_a_valid_path s i v1)"
  define nw3 where "nw3 = (put_intake k (cl1, p1, v1) nw)\<lparr>nw_pipeline := p3\<rparr>"
  have arrive: "handle_headers_event (ho_transport H) i headers True (cl1, nw_pipeline nw, nw_verifier nw) = (cl1, p1, v1)"
    using ids path by (simp add: handle_headers_event_def p1_def v1_def)
  then obtain ls1 where one: "server_run H ls1 nw (put_intake k (cl1, p1, v1) nw)"
    by (rule_tac run_event [OF client polled(1)]) (simp_all add: handle_event_def)
  have "hp_messages p1 = [header_message i s c headers]" "hp_jobs p1 = []"
    using quiet by (simp_all add: p1_def process_header_def header_message_def)
  then obtain ls2 where two: "server_run H ls2 (put_intake k (cl1, p1, v1) nw) ((put_intake k (cl1, p1, v1) nw)\<lparr>nw_pipeline := p2\<rparr>)"
    and jobs: "hp_jobs p2 = [job]"
    by (rule_tac run_header [of "put_intake k (cl1, p1, v1) nw", OF _ _ job]) (simp_all add: p2_def)
  have kept: "sv_requests (hp_server p2) = sv_requests (nw_server nw)"
    by (simp add: p2_def p1_def requests_kept process_header_def begin_request_def)
  obtain ls3 where three: "server_run H ls3 ((put_intake k (cl1, p1, v1) nw)\<lparr>nw_pipeline := p2\<rparr>) nw3"
    by (rule run_middleware [of "(put_intake k (cl1, p1, v1) nw)\<lparr>nw_pipeline := p2\<rparr>" job env H]) (simp_all add: jobs nw3_def p3_def unused kept)
  have "in_flight v1 s i" using path(2) by (simp add: v1_def in_flight_insert)
  then have finish: "handle_finished_event (ho_transport H) i (cl', p3, v1) = (cl', p4, v2)"
    if "source_of H cl' = s" "trace_of H cl' = c" for cl'
    using that by (simp add: handle_finished_event_def p4_def v2_def Let_def case_prod_beta)
  obtain ls4 where four: "server_run H ls4 nw3 (put_intake k (cl2, p4, v2) nw3)"
    by (rule run_event [of nw3 k cl1 H i Finished_Event cl2 env cl2 p4 v2])
      (simp_all add: nw3_def polled(2) handle_event_def finish ids)
  have "response_worker (ho_handlers H) (receive_signal (nw_buffer (put_intake k (cl2, p4, v2) nw3))) = Some b"
    using flow finish [OF ids(1,2)] by (simp add: request_flow_def arrive ids p2_def [symmetric] p3_def [symmetric])
  moreover have "ib_dispatched (hp_buffer p4) = ib_dispatched (nw_buffer nw)"
    by (simp add: p4_def p3_def p2_def p1_def dispatched_kept process_header_def begin_request_def
        handle_finished_stream_def pool_send_def)
  ultimately obtain ls5 nw' where "server_run H ls5 (put_intake k (cl2, p4, v2) nw3) nw'" "nw_buffer nw' = b"
    using run_answer [of H "put_intake k (cl2, p4, v2) nw3" b] served by auto
  then show ?thesis using srv_trans one two three four by blast
qed


definition demo_arrivals :: "(stream_id \<times> h3_event) list" where
  "demo_arrivals = [(0, Headers_Event demo_request True), (0, Finished_Event)]"

definition demo_egress :: "demo_connection egress" where
  "demo_egress = \<lparr>eg_send = (\<lambda>c. (Send_Done, c)), eg_close = (\<lambda>c. c), eg_path_stats = (\<lambda>_. None)\<rparr>"

abbreviation demo_key :: scid where
  "demo_key \<equiv> replicate 20 66"

definition demo_library :: "(demo_connection, unit) transport" where
  "demo_library = demo_transport\<lparr>tr_source_id := (\<lambda>_. demo_key), tr_send_body := (\<lambda>_ _ _ hc. (Err H3_Done, hc))\<rparr>"

definition demo_host :: "(demo_connection, unit, nat, unit, nat list, registered, byte, nat) host" where
  "demo_host = \<lparr>ho_transport = demo_library,
     ho_intake = demo_intake\<lparr>in_accept := (\<lambda>k _ _. if k = demo_key then Some (False, demo_arrivals) else None)\<rparr>,
     ho_egress = demo_egress, ho_gate = demo_gate,
     ho_sessions = registered_impl,
     ho_handlers = demo_handlers, ho_middleware = demo_mw_call, ho_storage = []\<rparr>"

abbreviation demo_start :: "(demo_connection, unit, nat, unit, unit, nat list, registered) network" where
  "demo_start \<equiv> network_new [''/a''] None None (demo_server GET)"

lemma demo_host_run: "\<exists>ls nw. server_run demo_host ls demo_start nw \<and> ib_dispatched (nw_buffer nw) = [(0, ''c'')]"
proof -
  let ?cl = "client_new demo_key (False, demo_arrivals) :: (demo_connection, unit) Client"
  let ?hdr = "the (demo_header [7])"
  have "validate demo_verify demo_tokens demo_token demo_key (SockV4 1 443) 8000000 = Some (replicate 8 53)"
    using demo_validated by (simp add: validate_def elapsed_def demo_tokens_def)
  moreover have "demo_token \<noteq> []" by (simp add: demo_token_def token_body_def)
  ultimately have "admit (ho_intake demo_host) ((ho_gate demo_host)\<lparr>gt_clock := 8000000\<rparr>) ?hdr (SockV4 1 443) (nw_clients demo_start)
      = Some (Admitted demo_key (False, demo_arrivals))"
    by (simp add: admit_def demo_header_def demo_host_def demo_intake_def demo_gate_def network_new_def)
  moreover have "in_header (ho_intake demo_host) [7] = Some ?hdr" by (simp add: demo_host_def demo_intake_def demo_header_def)
  ultimately have one: "server_run demo_host [Admission demo_key] demo_start (put_client demo_key ?cl demo_start)"
    by (intro srv_one srv_admit)
  let ?nw = "put_client demo_key (?cl\<lparr>http3_conn := Some ()\<rparr>) (put_client demo_key ?cl demo_start)"
  have "snd (open_h3 (ho_intake demo_host) ?cl) = ?cl\<lparr>http3_conn := Some ()\<rparr>"
    by (simp add: open_h3_def demo_host_def demo_intake_def client_new_def)
  then have two: "server_run demo_host [Internal] (put_client demo_key ?cl demo_start) ?nw"
    using srv_one [OF srv_open [of "put_client demo_key ?cl demo_start" demo_key ?cl demo_host]] by simp
  obtain b where b: "request_flow demo_library demo_mw_call demo_handlers [] demo_env 0 demo_request []
      (?cl\<lparr>http3_conn := Some (), conn := (False, [(0, Finished_Event)])\<rparr>, pipeline_new (demo_server GET), verifier_new [''/a''] None) = Some b"
    "ib_dispatched b = [(0, ''c'')]"
    using demo_flow [of demo_library] by (auto simp: demo_library_def demo_transport_def)
  have path: "extract_path_from_hdr demo_request = Some ''/a''" "is_accepted_path (nw_verifier ?nw) ''/a''"
    using demo_facts(3) by (code_simp, simp add: network_new_def)
  have job: "header_job (ho_handlers demo_host) (header_message 0 demo_key ''c'' demo_request) = Some (route_job 0 demo_key ''c'' demo_request
      ''/a'' GET None (rf_middlewares demo_form))"
    using demo_facts(1,2) demo_plain_route
    by (simp add: header_job_def header_message_def extract_method_path_content_length_def plain_route_def rh_lookup_eq
        demo_host_def send_header_work_def route_job_def)
  have unused: "\<not> dm_contains (files (sv_requests (nw_server ?nw))) (env_handle demo_env)"
    by (simp add: network_new_def pipeline_new_def injection_buffer_new_def demo_server_def demo_requests_def
        add_partial_request_def requests_new_def Let_def)
  have "\<exists>ls nw'. server_run demo_host ls ?nw nw' \<and> nw_buffer nw' = b"
    by (rule flow_is_run [of ?nw demo_key "?cl\<lparr>http3_conn := Some ()\<rparr>" demo_host 0 demo_request
          "?cl\<lparr>http3_conn := Some (), conn := (False, [(0, Finished_Event)])\<rparr>" "?cl\<lparr>http3_conn := Some (), conn := (False, [])\<rparr>"
          demo_key "''c''" "''/a''", OF _ _ _ _ _ _ _ _ _ path job _ _ unused])
      (use b in \<open>simp_all add: demo_host_def with_h3_def demo_intake_def demo_poll_def demo_arrivals_def client_new_def
          demo_library_def demo_transport_def network_new_def pipeline_new_def injection_buffer_new_def\<close>)
  then show ?thesis using srv_trans one two b(2) by blast
qed

theorem handlers_run_only_when_accepted_witness:
  "\<exists>ls nw. server_run demo_host ls demo_start nw \<and> 1 \<le> length (filter (announces ''c'' 0) ls)
     \<and> 1 \<le> length (filter (accepted_for ''c'' 0) ls) \<and> 1 \<le> length (filter (ends ''c'' 0) ls)"
proof -
  obtain ls nw where run: "server_run demo_host ls demo_start nw" "ib_dispatched (nw_buffer nw) = [(0, ''c'')]"
    using demo_host_run by blast
  then show ?thesis
    using handlers_run_only_when_accepted [OF run(1), of 0 "''c''"] by (auto simp: dispatches_def)
qed

text \<open>
  C16. Every run of the whole server, in any interleaving of its threads, is on the injection buffer a
  run of the signalling steps: only headers begin a request, only a middleware worker's acceptance
  signals it, and nothing outside the signal receiver and the response workers moves its disposition.
\<close>

theorem system_refines_signalling:
  assumes "server_run H ls nw nw'"
  shows "ib_run (ho_handlers H) (concat (map buffer_labels ls)) (nw_buffer nw) (nw_buffer nw')"
  by (rule run_buffer [OF assms])

theorem system_refines_signalling_witness:
  "\<exists>ls nw. server_run demo_host ls demo_start nw \<and> ib_dispatched (nw_buffer nw) = [(0, ''c'')]
     \<and> ib_run demo_handlers (concat (map buffer_labels ls)) (nw_buffer demo_start) (nw_buffer nw)"
proof -
  obtain ls nw where run: "server_run demo_host ls demo_start nw" "ib_dispatched (nw_buffer nw) = [(0, ''c'')]"
    using demo_host_run by blast
  moreover have "ho_handlers demo_host = demo_handlers" by (simp add: demo_host_def)
  ultimately show ?thesis using system_refines_signalling [OF run(1)] by metis
qed

end
