(* ===== verification/ServerTyping.thy ===== *)
theory ServerTyping
  imports ServerSafety
begin

section \<open>Well-typed messages in every reachable state\<close>

text \<open>
  The typing of \<open>MessageTyping\<close> is kept by every step of every thread: whatever the interleaving,
  a message waits only where its own stream and connection will take it, and what a body is written
  to belongs to its own stream. What the server relies on of the library is \<open>connection_laws\<close>: a
  connection keeps the source id it was accepted with; of the user's stream callbacks, that they
  reach the channels by the stream sessions' sends only (\<open>env_typed\<close>).
\<close>

definition connection_laws :: "('c, 'h, 'm, 'l, 'w, 't, 'key, 'u) host \<Rightarrow> bool" where
  "connection_laws H \<longleftrightarrow>
     (let src = tr_source_id (ho_transport H); ik = ho_intake H in
      (\<forall>k odcid from c. in_accept ik k odcid from = Some c \<longrightarrow> src c = k)
    \<and> (\<forall>pkt from c. src (snd (in_recv ik pkt from c)) = src c)
    \<and> (\<forall>c. src (in_timeout ik c) = src c) \<and> (\<forall>c. src (snd (in_h3_new ik c)) = src c)
    \<and> (\<forall>h c. src (snd (snd (in_poll ik (h, c)))) = src c) \<and> (\<forall>i h c. src (snd (snd (in_recv_body ik i (h, c)))) = src c)
    \<and> (\<forall>c. src (snd (eg_send (ho_egress H) c)) = src c) \<and> (\<forall>c. src (eg_close (ho_egress H) c) = src c))"

lemma connection_lawsD:
  assumes "connection_laws H"
  shows "in_accept (ho_intake H) k odcid from = Some c \<Longrightarrow> tr_source_id (ho_transport H) c = k"
    "tr_source_id (ho_transport H) (snd (in_recv (ho_intake H) pkt from c)) = tr_source_id (ho_transport H) c"
    "tr_source_id (ho_transport H) (in_timeout (ho_intake H) c) = tr_source_id (ho_transport H) c"
    "tr_source_id (ho_transport H) (snd (in_h3_new (ho_intake H) c)) = tr_source_id (ho_transport H) c"
    "tr_source_id (ho_transport H) (snd (snd (in_poll (ho_intake H) hc))) = tr_source_id (ho_transport H) (snd hc)"
    "tr_source_id (ho_transport H) (snd (snd (in_recv_body (ho_intake H) i hc))) = tr_source_id (ho_transport H) (snd hc)"
    "tr_source_id (ho_transport H) (snd (eg_send (ho_egress H) c)) = tr_source_id (ho_transport H) c"
    "tr_source_id (ho_transport H) (eg_close (ho_egress H) c) = tr_source_id (ho_transport H) c"
  using assms unfolding connection_laws_def Let_def by (auto, (cases hc, simp)+)

definition well_typed ::
  "('c, 'h, 'm, 'l, 'w, 't, 'key, 'u) host \<Rightarrow> ('c, 'h, 'm, 'l, 'f, 'w, 't) network \<Rightarrow> bool" where
  "well_typed H nw \<longleftrightarrow> server_typed (nw_server nw)
     \<and> (\<forall>k cl. dm_get (nw_clients nw) k = Some cl \<longrightarrow> client_typed (ho_transport H) (sv_dispatch (nw_server nw)) k cl)"

lemma well_typedD:
  assumes "well_typed H nw"
  shows "server_typed (nw_server nw)" "server_from (sv_dispatch (nw_server nw)) (nw_server nw)"
    "dm_get (nw_clients nw) k = Some cl \<Longrightarrow> client_typed (ho_transport H) (sv_dispatch (nw_server nw)) k cl"
    "dm_get (nw_clients nw) k = Some cl \<Longrightarrow> loop_typed (ho_transport H) k (cl, nw_server nw)"
    "dm_get (nw_clients nw) k = Some cl \<Longrightarrow> tr_source_id (ho_transport H) (conn cl) = k"
  using assms by (auto simp: well_typed_def server_from_def loop_typed_def client_typed_def)

text \<open>A step that replaces the server, and perhaps one connection.\<close>

lemma well_typed_server:
  assumes "well_typed H nw" "server_from (sv_dispatch (nw_server nw)) (nw_server nw')" "nw_clients nw' = nw_clients nw"
  shows "well_typed H nw'"
  using assms unfolding well_typed_def server_from_def by (auto intro: client_typed_grows)

lemma well_typed_client:
  assumes "well_typed H nw" "server_from (sv_dispatch (nw_server nw)) (nw_server nw')"
    and "nw_clients nw' = dm_insert k cl (nw_clients nw)" "client_typed (ho_transport H) (sv_dispatch (nw_server nw')) k cl"
  shows "well_typed H nw'"
  using assms unfolding well_typed_def server_from_def by (auto intro: client_typed_grows split: if_splits)

lemma client_typed_conn:
  "client_typed tr d k cl \<Longrightarrow> tr_source_id tr (conn cl') = tr_source_id tr (conn cl) \<Longrightarrow>
     pending_body_queue cl' = pending_body_queue cl \<Longrightarrow> client_typed tr d k cl'"
  by (simp add: client_typed_def)

lemma well_typed_conn:
  assumes "well_typed H nw" "dm_get (nw_clients nw) k = Some cl"
    and "tr_source_id (ho_transport H) (conn cl') = tr_source_id (ho_transport H) (conn cl)"
    and "pending_body_queue cl' = pending_body_queue cl"
    and "nw_clients nw' = dm_insert k cl' (nw_clients nw)" "sv_station (nw_server nw') = sv_station (nw_server nw)"
  shows "well_typed H nw'"
proof (rule well_typed_client [OF assms(1) _ assms(5)])
  show "server_from (sv_dispatch (nw_server nw)) (nw_server nw')"
    using well_typedD(1) [OF assms(1)] assms(6) by (simp add: server_from_def)
  show "client_typed (ho_transport H) (sv_dispatch (nw_server nw')) k cl'"
    using client_typed_conn [OF well_typedD(3) [OF assms(1,2)] assms(3,4)] assms(6) by simp
qed

lemma with_h3_pending: "with_h3 f cl = Some (r, cl1) \<Longrightarrow> pending_body_queue cl1 = pending_body_queue cl"
  by (auto simp: with_h3_def split: option.splits prod.splits)

lemma with_h3_source:
  assumes "with_h3 f cl = Some (r, cl1)" "\<And>hc. src (snd (snd (f hc))) = src (snd hc)"
  shows "src (conn cl1) = src (conn cl)"
  using with_h3_conn [OF assms(1)] assms(2) by (metis snd_conv)


subsection \<open>The threads\<close>

lemma event_frame:
  assumes "handle_event fuel tr ik storage env i ev (cl, p, v) = Some (cl', p', v')" "ev \<noteq> Data_Event"
    and "\<And>i how e c. tr_source_id tr (tr_stream_shutdown tr i how e c) = tr_source_id tr c"
  shows "tr_source_id tr (conn cl') = tr_source_id tr (conn cl)" "pending_body_queue cl' = pending_body_queue cl"
    "sv_station (hp_server p') = sv_station (hp_server p)"
proof -
  have "tr_source_id tr (conn cl') = tr_source_id tr (conn cl) \<and> pending_body_queue cl' = pending_body_queue cl
      \<and> sv_station (hp_server p') = sv_station (hp_server p)"
    using assms(1,2)
    by (cases ev) (auto simp: handle_event_def handle_headers_event_def handle_finished_event_def handle_reset_event_def
        Let_def assms(3) process_header_def begin_request_def cancel_request_def handle_finished_stream_def pool_send_def
        discard_in_server_def case_prod_beta split: option.splits)
  then show "tr_source_id tr (conn cl') = tr_source_id tr (conn cl)" "pending_body_queue cl' = pending_body_queue cl"
    "sv_station (hp_server p') = sv_station (hp_server p)" by auto
qed

lemma typed_header:
  assumes "server_from d0 (hp_server p)" "bodyless_errors (he_manager he)"
  shows "server_from d0 (hp_server (run_header_processor he p))"
proof (cases "hp_messages p")
  case (Cons msg rest)
  then show ?thesis using assms by (auto simp: run_header_processor_eq send_rejected_def split: option.split)
qed (use assms in \<open>simp add: run_header_processor_def\<close>)

lemma typed_middleware:
  assumes "server_from d0 (hp_server p)"
  shows "server_from d0 (hp_server (middleware_worker call he storage env p))"
  using assms
  by (auto simp: middleware_worker_def send_done_def send_signal_def send_rejected_def Let_def
      regular_request_partial_response_table_update_def stream_request_partial_response_table_update_def
      split: list.split prod.split sum.split RouteType.split)

lemma typed_result:
  "server_from d0 (hp_server p) \<Longrightarrow> server_from d0 (hp_server (handle_middleware_result p))"
  by (auto simp: handle_middleware_result_def Let_def split: list.split MiddleWareResult.split)

lemma typed_discard [simp]: "server_from d0 (discard_in_server c i sv) = server_from d0 sv"
  by (simp add: discard_in_server_def)

lemma typed_receive: "server_from d0 (ib_server b) \<Longrightarrow> server_from d0 (ib_server (receive_signal b))"
  by (auto simp: receive_signal_def Let_def split: list.split)

lemma typed_consume:
  assumes "server_from d0 (ib_server b)" "env_typed he" "register_consume he ri b = Some (over, b')"
  shows "server_from d0 (ib_server b')"
  using assms server_from_preparation [OF assms(1,2)]
  by (auto simp: register_consume_def Let_def split: option.splits RequestDisposition.splits)

lemma typed_injection:
  assumes "ib_step he l b b'" "l = Worker_Takes \<or> (\<exists>n. l = Worker_Checks n)" "server_from d0 (ib_server b)" "env_typed he"
  shows "server_from d0 (ib_server b')"
  using assms(1)
proof cases
  case (step_takes ri jobs over b1)
  then show ?thesis using typed_consume [OF _ assms(4) step_takes(4)] assms(3) by simp
qed (use assms in \<open>auto split: sum.split\<close>)

lemma typed_chunk:
  assumes "server_from d0 sv"
  shows "server_from d0 (sv\<lparr>sv_station := snd (run_worker outcome (sv_station sv))\<rparr>)"
proof -
  have "sender_send c m d = (r, d1) \<Longrightarrow> grows d d1" for c m r and d d1 :: "QueuedRequest dispatch"
    by (metis grows_sender_send snd_conv)
  then have "grows (sv_dispatch sv) (chunk_dispatch_channel (snd (run_worker outcome (sv_station sv))))"
    by (auto simp: run_worker_def Let_def split: list.split option.split prod.split)
  then show ?thesis using assms station_typed_worker by (auto simp: server_from_def intro: grows_trans)
qed

lemma transmit_frame:
  assumes "connection_laws H" "transmit fuel (ho_egress H) sock (cl, out) = Some (cl', out')"
  shows "tr_source_id (ho_transport H) (conn cl') = tr_source_id (ho_transport H) (conn cl)
    \<and> pending_body_queue cl' = pending_body_queue cl"
  using assms(2)
proof (induction fuel arbitrary: cl out)
  case (Suc fuel)
  obtain r c where r: "eg_send (ho_egress H) (conn cl) = (r, c)" by fastforce
  then have src: "tr_source_id (ho_transport H) c = tr_source_id (ho_transport H) (conn cl)"
    using connection_lawsD(7) [OF assms(1), of "conn cl"] by simp
  show ?case
    using Suc.prems src connection_lawsD(8) [OF assms(1), of c] Suc.IH
    by (fastforce simp: r Let_def split: send_result.splits option.splits bool.splits)
qed simp


subsection \<open>Every step\<close>

lemma well_typed_step:
  assumes ok: "transport_ok (ho_transport H) wire ended" and env: "env_typed (ho_handlers H)" and laws: "connection_laws H"
    and wt: "well_typed H nw" and step: "server_step H l nw nw'"
  shows "well_typed H nw'"
  using step
proof cases
  case (srv_admit pkt hdr now "from" k c)
  obtain odcid where "in_accept (ho_intake H) k odcid from = Some c"
    using srv_admit(4) by (auto simp: admit_def Let_def split: if_splits option.splits)
  then have "client_typed (ho_transport H) (sv_dispatch (nw_server nw)) k (client_new k c)"
    using connection_lawsD(1) [OF laws] by (auto simp: client_typed_def client_new_def retry_typed_def pending_new)
  then show ?thesis using srv_admit(2) by (intro well_typed_client [OF wt]) (simp_all add: well_typedD(2) [OF wt])
next
  case (srv_reply datagram)
  then show ?thesis using wt by (simp add: well_typed_def)
next
  case (srv_recv k cl pkt "from")
  show ?thesis by (rule well_typed_conn [OF wt srv_recv(3)]) (use srv_recv(2) connection_lawsD(2) [OF laws] in simp_all)
next
  case (srv_open k cl)
  have "tr_source_id (ho_transport H) (conn (snd (open_h3 (ho_intake H) cl))) = tr_source_id (ho_transport H) (conn cl)
      \<and> pending_body_queue (snd (open_h3 (ho_intake H) cl)) = pending_body_queue cl"
    using connection_lawsD(4) [OF laws, of "conn cl"] by (auto simp: open_h3_def split: prod.split option.split)
  then show ?thesis by (intro well_typed_conn [OF wt srv_open(3)]) (use srv_open(2) in simp_all)
next
  case (srv_timeout k cl)
  show ?thesis by (rule well_typed_conn [OF wt srv_timeout(3)]) (use srv_timeout(2) connection_lawsD(3) [OF laws] in simp_all)
next
  case (srv_poll k cl r cl1)
  show ?thesis
    by (rule well_typed_conn [OF wt srv_poll(3) with_h3_source [OF srv_poll(4)] with_h3_pending [OF srv_poll(4)]])
      (use srv_poll(2) connection_lawsD(5) [OF laws] in simp_all)
next
  case (srv_event k cl i ev cl1 fuel env st)
  obtain cl2 p2 v2 where st: "st = (cl2, p2, v2)" by (metis prod_cases3)
  have shut: "tr_source_id (ho_transport H) (tr_stream_shutdown (ho_transport H) i how e c) = tr_source_id (ho_transport H) c" for i how e c
    using transport_calls(3) [OF ok, of i c how e] by (simp add: only_touches_def)
  note frame = event_frame [OF srv_event(6) [unfolded st] srv_event(5) shut]
  show ?thesis
    by (rule well_typed_conn [OF wt srv_event(3), of cl2])
      (use srv_event(2) st frame with_h3_pending [OF srv_event(4)]
          with_h3_source [OF srv_event(4), of "tr_source_id (ho_transport H)", OF connection_lawsD(5) [OF laws]] in simp_all)
next
  case (srv_body k cl i packet cl1 env)
  show ?thesis
    by (rule well_typed_conn [OF wt srv_body(3) with_h3_source [OF srv_body(4)] with_h3_pending [OF srv_body(4)]])
      (use srv_body(2) connection_lawsD(6) [OF laws] in \<open>simp_all add: on_requests_def\<close>)
next
  case (srv_body_end k cl i cl1)
  show ?thesis
    by (rule well_typed_conn [OF wt srv_body_end(3) with_h3_source [OF srv_body_end(4)] with_h3_pending [OF srv_body_end(4)]])
      (use srv_body_end(2) connection_lawsD(6) [OF laws] in simp_all)
next
  case (srv_resets k cl st)
  obtain cl1 d where fold: "fold (reset_failed_stream (ho_transport H)) (requested_stream_resets (source_of H cl) (sv_dispatch (nw_server nw)))
      (cl, sv_dispatch (nw_server nw)) = (cl1, d)" by fastforce
  have "loop_typed (ho_transport H) k (cl1, set_dispatch d (nw_server nw)) \<and> grows (sv_dispatch (nw_server nw)) d"
    by (rule resets_typed [OF ok well_typedD(4) [OF wt srv_resets(3)] fold])
  then show ?thesis
    using srv_resets fold by (intro well_typed_client [OF wt]) (auto simp: reset_phase_def loop_typed_def server_from_def)
next
  case (srv_flush k cl fuel i cl1)
  have "loop_typed (ho_transport H) k (cl1, nw_server nw)"
    by (rule flush_typed [OF ok well_typedD(4) [OF wt srv_flush(3)] srv_flush(4)])
  then show ?thesis
    using srv_flush well_typedD(2) [OF wt] by (intro well_typed_client [OF wt]) (auto simp: loop_typed_def)
next
  case (srv_send k cl fe i st)
  obtain cl1 sv1 where st: "st = (cl1, sv1)" by fastforce
  have "loop_typed (ho_transport H) k (cl1, sv1) \<and> grows (sv_dispatch (nw_server nw)) (sv_dispatch sv1)"
    using pop_and_send_typed [OF ok well_typedD(4) [OF wt srv_send(3)]] srv_send(4)
    by (simp add: st well_typedD(5) [OF wt srv_send(3)])
  then show ?thesis
    using srv_send(2) by (intro well_typed_client [OF wt]) (auto simp: st loop_typed_def server_from_def)
next
  case (srv_transmit k cl fuel sock cl1 out)
  show ?thesis
    by (rule well_typed_conn [OF wt srv_transmit(3)]) (use srv_transmit(2) transmit_frame [OF laws srv_transmit(4)] in simp_all)
next
  case (srv_collect k cl nw1)
  have "nw_clients nw' = dm_remove k (nw_clients nw)" "sv_station (nw_server nw') = sv_station (nw_server nw)"
    using srv_collect(2,5) collect_client_effect(4) [OF srv_collect(5)] by (simp_all add: collect_client_def Let_def)
  then show ?thesis using wt by (simp add: well_typed_def split: if_splits)
next
  case (srv_header msg rest)
  show ?thesis
    by (rule well_typed_server [OF wt])
      (use srv_header(2) typed_header [OF well_typedD(2) [OF wt], of "ho_handlers H"] env in \<open>simp_all add: env_typed_def\<close>)
next
  case (srv_middleware n job decision w env)
  show ?thesis
    by (rule well_typed_server [OF wt]) (use srv_middleware(2) well_typedD(2) [OF wt] in \<open>simp_all add: typed_middleware\<close>)
next
  case srv_result
  then show ?thesis by (intro well_typed_server [OF wt]) (simp_all add: typed_result well_typedD(2) [OF wt])
next
  case srv_receive
  then show ?thesis by (intro well_typed_server [OF wt]) (simp_all add: typed_receive well_typedD(2) [OF wt])
next
  case (srv_takes b)
  then show ?thesis
    using typed_injection [OF srv_takes(3) _ well_typedD(2) [OF wt] env] by (intro well_typed_server [OF wt]) simp_all
next
  case (srv_checks n b)
  then show ?thesis
    using typed_injection [OF srv_checks(3) _ well_typedD(2) [OF wt] env] by (intro well_typed_server [OF wt]) simp_all
next
  case (srv_chunk outcome)
  then show ?thesis by (intro well_typed_server [OF wt]) (simp_all add: typed_chunk well_typedD(2) [OF wt])
next
  case (srv_publish ss frame awake targets data_cb)
  then show ?thesis
    using server_from_dispatch [OF keeps_publish well_typedD(2) [OF wt]] by (intro well_typed_server [OF wt]) simp_all
next
  case (srv_writer x n h)
  then show ?thesis by (intro well_typed_server [OF wt]) (simp_all add: well_typedD(2) [OF wt])
next
  case (srv_handle h x)
  then show ?thesis by (intro well_typed_server [OF wt]) (simp_all add: well_typedD(2) [OF wt])
next
  case (srv_user w sessions)
  then show ?thesis by (intro well_typed_server [OF wt]) (simp_all add: well_typedD(2) [OF wt])
qed


lemma reachable_typed:
  assumes "transport_ok (ho_transport H) wire ended" "env_typed (ho_handlers H)" "connection_laws H"
    and "server_run H ls (network_new paths stream_paths sessions sv) nw" "station_typed (sv_station sv)"
  shows "well_typed H nw"
proof (rule srv_invariant [OF assms(4), of "well_typed H"])
  show "well_typed H (network_new paths stream_paths sessions sv)"
    using assms(5) by (simp add: well_typed_def network_new_def pipeline_new_def injection_buffer_new_def)
qed (rule well_typed_step [OF assms(1-3)])

lemma typed_header_starts:
  assumes "typed d" "mail d k = Some (lo, hi)" "Q_Header h \<in> set lo \<union> set hi"
  shows "send_body_to_chunking_station fs cs h st \<noteq> None"
  using typed_mail [OF assms] typed_body_starts [of d k "attach_conn_stats cs b" fs st for b]
  by (auto simp: send_body_to_chunking_station_def split: option.splits)

text \<open>
  C4. In every reachable state of the server, whatever the interleaving of its threads: a connection in
  the map is the one its key names; each message on the channels of a stream carries the ids of that
  stream and connection, and the sender of a body attached to it belongs to no other stream, and is
  there, so that starting the body never panics; the sender of every body that waits to be cut into
  packets belongs to its own stream; and each message waiting to be sent again on a stream of a
  connection is for that stream of that connection.
\<close>

theorem reachable_states_well_typed:
  assumes "transport_ok (ho_transport H) wire ended" "env_typed (ho_handlers H)" "connection_laws H"
    and "server_run H ls (network_new paths stream_paths sessions sv) nw" "station_typed (sv_station sv)"
  shows "typed (sv_dispatch (nw_server nw))
    \<and> (\<forall>k lo hi h fs cs st. mail (sv_dispatch (nw_server nw)) k = Some (lo, hi) \<longrightarrow> Q_Header h \<in> set lo \<union> set hi
         \<longrightarrow> send_body_to_chunking_station fs cs h st \<noteq> None)
    \<and> (\<forall>b \<in> set (station_channel (sv_station (nw_server nw))).
         owns (sv_dispatch (nw_server nw)) (cb_sender b) (cb_stream_id b, cb_scid b))
    \<and> (\<forall>k cl. dm_get (nw_clients nw) k = Some cl \<longrightarrow> source_of H cl = k
         \<and> (\<forall>i. \<forall>m \<in> set (pending_of (pending_body_queue cl) i). msg_typed (sv_dispatch (nw_server nw)) (i, k) m))"
proof -
  have wt: "well_typed H nw" by (rule reachable_typed [OF assms])
  then have ty: "typed (sv_dispatch (nw_server nw))" by (simp add: well_typed_def)
  show ?thesis
    using wt typed_header_starts [OF ty] by (simp add: ty well_typed_def station_typed_def client_typed_def retry_typed_def)
qed

subsection \<open>The environment\<close>

text \<open>What the builder makes satisfies \<open>bodyless_errors\<close>, also with configured error forms.\<close>

lemma register_errors:
  "register_all regs b = Some b' \<Longrightarrow> rb_errors b' = rb_errors b"
proof (induction regs arbitrary: b)
  case (Cons x regs)
  have "register x b = Some b1 \<Longrightarrow> rb_errors b1 = rb_errors b" for b1
    by (cases x) (auto simp: add_route_def add_new_route_def global_middleware_def Let_def split: option.splits if_splits)
  then show ?case using Cons by (auto split: Option.bind_splits)
qed simp

lemma bodyless_built:
  "register_all regs manager_builder_new = Some b \<Longrightarrow> bodyless_errors (manager_build b)"
  "bodyless_errors (manager_build b) \<Longrightarrow> bodyless_errors (manager_build (set_error_handler t extra b))"
  by (auto simp: bodyless_errors_def manager_build_def set_error_handler_def error_form_def manager_builder_new_def
      dest!: register_errors split: if_splits)

subsection \<open>Witnesses\<close>

lemma demo_laws_hold:
  "transport_ok (ho_transport demo_host) (\<lambda>_ _. []) (\<lambda>_ _. False)" "env_typed (ho_handlers demo_host)"
  "connection_laws demo_host" "station_typed (sv_station (demo_server GET))"
proof -
  show "transport_ok (ho_transport demo_host) (\<lambda>_ _. []) (\<lambda>_ _. False)"
    by (auto simp: transport_ok_def body_law_def only_touches_def demo_host_def demo_library_def demo_transport_def)
  show "env_typed (ho_handlers demo_host)"
    using bodyless_built(1) [OF demo_registered(1)] by (simp add: env_typed_def callbacks_typed_def demo_host_def demo_he_def)
  show "connection_laws demo_host"
    by (auto simp: connection_laws_def demo_host_def demo_library_def demo_intake_def demo_egress_def demo_poll_def
        split: if_splits list.split)
  show "station_typed (sv_station (demo_server GET))"
    using demo_server_inv [of GET] by (simp add: station_typed_def demo_server_def station_new_def typed_def)
qed


theorem reachable_states_well_typed_witness:
  "\<exists>ls nw. server_run demo_host ls demo_start nw \<and> ib_dispatched (nw_buffer nw) = [(0, ''c'')]
     \<and> typed (sv_dispatch (nw_server nw))"
proof -
  obtain ls nw where run: "server_run demo_host ls demo_start nw" "ib_dispatched (nw_buffer nw) = [(0, ''c'')]"
    using demo_host_run by blast
  then show ?thesis using reachable_states_well_typed [OF demo_laws_hold(1-3) run(1) demo_laws_hold(4)] by blast
qed

end
