(* ===== verification/TurnRuns.thy ===== *)
theory TurnRuns
  imports ServerTyping
begin

section \<open>A pass of the network loop is a run of its steps\<close>

text \<open>
  \<open>network_turn\<close> is the network thread's pass without interruption; the steps of \<open>ServerSteps\<close> are
  its parts. Here every pass that returns is taken apart into those steps, so that what holds of all
  interleavings holds of the loop as it is written.
\<close>

definition reaches ::
  "('c, 'h, 'm, 'l, 'w, 't, 'key, 'u) host \<Rightarrow> ('c, 'h, 'm, 'l, 'f, 'w, 't) network
     \<Rightarrow> ('c, 'h, 'm, 'l, 'f, 'w, 't) network \<Rightarrow> bool" where
  "reaches H nw nw' \<longleftrightarrow> (\<exists>ls. server_run H ls nw nw')"

lemma reaches_refl [simp]: "reaches H nw nw"
  using srv_refl by (auto simp: reaches_def)

lemma reaches_trans [trans]: "reaches H nw nw1 \<Longrightarrow> reaches H nw1 nw2 \<Longrightarrow> reaches H nw nw2"
  using srv_trans unfolding reaches_def by blast

lemma reaches_step [intro]: "server_step H l nw nw' \<Longrightarrow> reaches H nw nw'"
  using srv_one unfolding reaches_def by blast

lemma reaches_invariant:
  assumes "reaches H nw nw'" "P nw" "\<And>l nw1 nw2. P nw1 \<Longrightarrow> server_step H l nw1 nw2 \<Longrightarrow> P nw2"
  shows "P nw'"
  using assms srv_invariant [of H _ nw nw' P] unfolding reaches_def by blast

text \<open>A loop over a list reaches what it computes when each turn does.\<close>

lemma for_each_reaches:
  assumes "for_each f xs s = Some s'" "reaches H nw (g s)"
    and "\<And>x s s'. x \<in> set xs \<Longrightarrow> reaches H nw (g s) \<Longrightarrow> f x s = Some s' \<Longrightarrow> reaches H (g s) (g s')"
  shows "reaches H nw (g s')"
  using for_each_invariant [OF assms(1), where P = "\<lambda>s. reaches H nw (g s)"] assms(2,3) reaches_trans by blast


subsection \<open>Putting a connection back\<close>

lemma dm_insert_insert [simp]: "dm_insert k b (dm_insert k a m) = dm_insert k b m"
  unfolding dm_insert_def by (induction m) auto

lemma dm_insert_same: "dm_get m k = Some v \<Longrightarrow> dm_insert k v m = m"
  unfolding dm_insert_def dm_get_def by (induction m) auto

lemma dm_insert_middle: "k \<notin> fst ` set xs \<Longrightarrow> dm_insert k v (xs @ (k, u) # ys) = xs @ (k, v) # ys"
  unfolding dm_insert_def by (induction xs) auto

lemma dm_remove_middle: "dm_wf (xs @ (k, u) # ys) \<Longrightarrow> dm_remove k (xs @ (k, u) # ys) = xs @ ys"
  unfolding dm_remove_def dm_wf_def by (induction xs) (auto simp: delete_id)

lemma dm_get_middle: "k \<notin> fst ` set xs \<Longrightarrow> dm_get (xs @ (k, u) # ys) k = Some u"
  unfolding dm_get_def by (induction xs) auto

lemma put_put [simp]:
  "put_client k b (put_client k a nw) = put_client k b nw"
  "put_intake k (b, p', v') (put_intake k (a, p, v) nw) = put_intake k (b, p', v') nw"
  "put_client k b (put_intake k (a, p, v) nw) = put_intake k (b, p, v) nw"
  "put_loop k (b, sv') (put_loop k (a, sv) nw) = put_loop k (b, sv') nw"
  "put_client k b (put_loop k (a, sv) nw) = put_loop k (b, sv) nw"
  by (simp_all add: put_client_def put_intake_def put_loop_def on_buffer_def on_server_def)

lemma put_same:
  "dm_get (nw_clients nw) k = Some cl \<Longrightarrow> put_client k cl nw = nw"
  "dm_get (nw_clients nw) k = Some cl \<Longrightarrow> put_intake k (cl, nw_pipeline nw, nw_verifier nw) nw = nw"
  "dm_get (nw_clients nw) k = Some cl \<Longrightarrow> put_loop k (cl, nw_server nw) nw = nw"
  by (simp_all add: put_client_def put_intake_def put_loop_def on_buffer_def on_server_def dm_insert_same)


subsection \<open>Reading\<close>

lemma read_body_reaches:
  "read_body fuel (ho_transport H) (ho_intake H) (ho_storage H) env i (cl, p, v) = Some (cl', p', v') \<Longrightarrow>
     reaches H (put_intake k (cl, p, v) nw) (put_intake k (cl', p', v') nw)"
proof (induction fuel arbitrary: cl p v)
  case (Suc fuel)
  obtain r cl1 where r: "with_h3 (in_recv_body (ho_intake H) i) cl = Some (r, cl1)"
    using Suc.prems by (auto split: option.splits)
  show ?case
  proof (cases r)
    case None
    then show ?thesis using Suc.prems r srv_body_end [of "put_intake k (cl, p, v) nw" k cl H i cl1] by auto
  next
    case (Some packet)
    let ?p = "on_requests (store_body_packet (ho_storage H) env i (source_of H cl1) (trace_of H cl1) packet) p"
    have "reaches H (put_intake k (cl, p, v) nw) (put_intake k (cl1, ?p, v) nw)"
      using srv_body [of "put_intake k (cl, p, v) nw" k cl H i packet cl1 env] r Some by auto
    also have "reaches H (put_intake k (cl1, ?p, v) nw) (put_intake k (cl', p', v') nw)"
      using Suc.IH [of cl1 ?p v] Suc.prems r Some by simp
    finally show ?thesis .
  qed
qed simp

lemma handle_event_reaches:
  assumes "with_h3 (in_poll (ho_intake H)) cl = Some (Ok (i, ev), cl1)"
    and "handle_event fuel (ho_transport H) (ho_intake H) (ho_storage H) env i ev (cl1, p, v) = Some (cl', p', v')"
  shows "reaches H (put_intake k (cl, p, v) nw) (put_intake k (cl', p', v') nw)"
proof (cases "ev = Data_Event")
  case True
  have "reaches H (put_intake k (cl, p, v) nw) (put_intake k (cl1, p, v) nw)"
    using srv_poll [of "put_intake k (cl, p, v) nw" k cl H "Ok (i, ev)" cl1] assms(1) True by auto
  also have "reaches H (put_intake k (cl1, p, v) nw) (put_intake k (cl', p', v') nw)"
    using read_body_reaches assms(2) True by (simp add: handle_event_def)
  finally show ?thesis .
next
  case False
  then show ?thesis using srv_event [of "put_intake k (cl, p, v) nw" k cl H i ev cl1 fuel env "(cl', p', v')"] assms by auto
qed

lemma read_events_reaches:
  "read_events fuel (ho_transport H) (ho_intake H) (ho_storage H) env (cl, p, v) = Some (cl', p', v') \<Longrightarrow>
     reaches H (put_intake k (cl, p, v) nw) (put_intake k (cl', p', v') nw)"
proof (induction fuel arbitrary: cl p v)
  case (Suc fuel)
  obtain r cl1 where r: "with_h3 (in_poll (ho_intake H)) cl = Some (r, cl1)"
    using Suc.prems by (auto split: option.splits)
  show ?case
  proof (cases r)
    case (Inl e)
    then show ?thesis using Suc.prems r srv_poll [of "put_intake k (cl, p, v) nw" k cl H r cl1] by auto
  next
    case (Inr iev)
    obtain i ev where iev: "iev = (i, ev)" by (cases iev)
    obtain cl2 p2 v2 where event: "handle_event fuel (ho_transport H) (ho_intake H) (ho_storage H) env i ev (cl1, p, v) = Some (cl2, p2, v2)"
      and rest: "read_events fuel (ho_transport H) (ho_intake H) (ho_storage H) env (cl2, p2, v2) = Some (cl', p', v')"
      using Suc.prems r Inr iev by (auto split: option.splits)
    from handle_event_reaches [OF _ event] Suc.IH [OF rest] show ?thesis
      using r Inr iev reaches_trans by blast
  qed
qed simp

lemma feed_reaches:
  assumes "feed fuel (ho_transport H) (ho_intake H) (ho_storage H) env pkt from k nw = Some nw'"
  shows "reaches H nw nw'"
proof -
  obtain cl where cl: "dm_get (nw_clients nw) k = Some cl" using assms by (auto simp: feed_def split: option.splits)
  let ?p = "nw_pipeline nw" and ?v = "nw_verifier nw"
  obtain received c where recv: "in_recv (ho_intake H) pkt from (conn cl) = (received, c)" by fastforce
  obtain go cl2 where opened: "open_h3 (ho_intake H) (cl\<lparr>conn := c\<rparr>) = (go, cl2)" by fastforce
  obtain cl' p' v' where fed: "feed_client fuel (ho_transport H) (ho_intake H) (ho_storage H) env pkt from (cl, ?p, ?v) = Some (cl', p', v')"
    and nw': "nw' = put_intake k (cl', p', v') nw"
    using assms cl by (auto simp: feed_def put_intake_def put_client_def)
  have one: "reaches H nw (put_intake k (cl\<lparr>conn := c\<rparr>, ?p, ?v) nw)"
    using srv_recv [OF cl, of H pkt "from"] recv by (auto simp: put_intake_def)
  have two: "reaches H (put_intake k (cl\<lparr>conn := c\<rparr>, ?p, ?v) nw) (put_intake k (cl2, ?p, ?v) nw)"
    using srv_open [of "put_intake k (cl\<lparr>conn := c\<rparr>, ?p, ?v) nw" k "cl\<lparr>conn := c\<rparr>" H] opened by auto
  show ?thesis
  proof (cases "received \<and> go \<and> http3_conn cl2 \<noteq> None")
    case True
    then have "read_events fuel (ho_transport H) (ho_intake H) (ho_storage H) env (cl2, ?p, ?v) = Some (cl', p', v')"
      using fed recv opened by (auto simp: feed_client_def)
    from read_events_reaches [OF this] show ?thesis using one two nw' reaches_trans by blast
  next
    case False
    then have "nw' = put_intake k (cl\<lparr>conn := c\<rparr>, ?p, ?v) nw \<or> nw' = put_intake k (cl2, ?p, ?v) nw"
      using fed recv opened nw' by (auto simp: feed_client_def Let_def split: if_splits)
    then show ?thesis using one two reaches_trans by blast
  qed
qed

lemma receive_datagram_reaches:
  assumes "receive_datagram fuel (ho_transport H) (ho_intake H) ((ho_gate H)\<lparr>gt_clock := now\<rparr>) (ho_storage H) env pkt from reply nw
    = Some (go, nw')"
  shows "reaches H nw nw'"
proof (cases "in_header (ho_intake H) pkt")
  case None
  then show ?thesis using assms by (simp add: receive_datagram_def)
next
  case hdr: (Some hdr)
  then obtain a where a: "admit (ho_intake H) ((ho_gate H)\<lparr>gt_clock := now\<rparr>) hdr from (nw_clients nw) = Some a"
    using assms by (auto simp: receive_datagram_def split: option.splits)
  show ?thesis
  proof (cases a)
    case (Known k)
    then show ?thesis using assms hdr a feed_reaches by (auto simp: receive_datagram_def)
  next
    case (Admitted s c)
    then have "reaches H nw (put_client s (client_new s c) nw)" using srv_admit [OF hdr] a by blast
    moreover have "feed fuel (ho_transport H) (ho_intake H) (ho_storage H) env pkt from s (put_client s (client_new s c) nw) = Some nw'"
      using assms hdr a Admitted by (auto simp: receive_datagram_def put_client_def)
    ultimately show ?thesis using feed_reaches reaches_trans by blast
  next
    case (Replied out)
    then show ?thesis using assms hdr a srv_reply [of H nw "(out, from)"]
      by (auto simp: receive_datagram_def send_reply_def split: option.splits bool.splits)
  next
    case Dropped
    then show ?thesis using assms hdr a by (simp add: receive_datagram_def)
  qed
qed

lemma read_loop_reaches:
  "read_loop fuel (ho_transport H) (ho_intake H) ((ho_gate H)\<lparr>gt_clock := now\<rparr>) (ho_storage H) env reads nw = Some (Ok nw') \<Longrightarrow>
     reaches H nw nw'"
proof (induction reads arbitrary: nw)
  case (Cons r reads)
  show ?case
  proof (cases r)
    case (Read_Datagram pkt source reply)
    then obtain go nw1 where one: "receive_datagram fuel (ho_transport H) (ho_intake H) ((ho_gate H)\<lparr>gt_clock := now\<rparr>)
        (ho_storage H) env pkt source reply nw = Some (go, nw1)"
      using Cons.prems by (auto split: option.splits)
    then show ?thesis
      using Cons Read_Datagram receive_datagram_reaches [OF one] by (cases go) (auto intro: reaches_trans)
  qed (use Cons in auto)
qed simp



subsection \<open>Timers and garbage collection\<close>

lemma expire_timers_reaches:
  assumes "dm_wf (xs @ ys)"
  shows "reaches H (nw\<lparr>nw_clients := expire_timers (ho_intake H) xs @ ys\<rparr>)
    (nw\<lparr>nw_clients := expire_timers (ho_intake H) (xs @ ys)\<rparr>)"
  using assms
proof (induction ys arbitrary: xs)
  case (Cons y ys)
  obtain k cl where y: "y = (k, cl)" by (cases y)
  let ?e = "expire_timers (ho_intake H)"
  let ?nw = "nw\<lparr>nw_clients := ?e xs @ y # ys\<rparr>"
  have fresh: "k \<notin> fst ` set (?e xs)" using Cons.prems by (force simp: dm_wf_def y expire_timers_def)
  have "reaches H ?nw (put_client k (cl\<lparr>conn := in_timeout (ho_intake H) (conn cl)\<rparr>) ?nw)"
    by (rule reaches_step, rule srv_timeout) (simp add: y dm_get_middle [OF fresh])
  also have "put_client k (cl\<lparr>conn := in_timeout (ho_intake H) (conn cl)\<rparr>) ?nw = nw\<lparr>nw_clients := ?e (xs @ [y]) @ ys\<rparr>"
    by (simp add: put_client_def y dm_insert_middle [OF fresh]) (simp add: expire_timers_def)
  also have "reaches H (nw\<lparr>nw_clients := ?e (xs @ [y]) @ ys\<rparr>) (nw\<lparr>nw_clients := ?e ((xs @ [y]) @ ys)\<rparr>)"
    using Cons.prems by (intro Cons.IH) simp
  finally show ?case by simp
qed simp

lemma collect_client_clients:
  "collect_client tr ik us cl (nw\<lparr>nw_clients := cs\<rparr>) = (collect_client tr ik us cl nw)\<lparr>nw_clients := cs\<rparr>"
  "nw_clients (collect_client tr ik us cl nw) = nw_clients nw"
  by (simp_all add: collect_client_def Let_def)

definition still_open :: "('c, 'h, 'm, 'l, 'w, 't, 'key, 'u) host \<Rightarrow> ('c, 'h) client_map \<Rightarrow> ('c, 'h) client_map" where
  "still_open H = filter (\<lambda>(_, cl). \<not> in_closed (ho_intake H) (conn cl))"

lemma collect_closed_reaches:
  assumes "dm_wf (xs @ ys)"
  shows "reaches H (nw\<lparr>nw_clients := still_open H xs @ ys\<rparr>)
    ((fold (\<lambda>(_, cl). collect_client (ho_transport H) (ho_intake H) (ho_sessions H) cl) ys nw)\<lparr>nw_clients := still_open H (xs @ ys)\<rparr>)"
  using assms
proof (induction ys arbitrary: xs nw)
  case (Cons y ys)
  obtain k cl where y: "y = (k, cl)" by (cases y)
  let ?collect = "collect_client (ho_transport H) (ho_intake H) (ho_sessions H)"
  let ?nw = "nw\<lparr>nw_clients := still_open H xs @ y # ys\<rparr>"
  have sub: "set (still_open H xs) \<subseteq> set xs" by (auto simp: still_open_def)
  then have fresh: "k \<notin> fst ` set (still_open H xs)" using Cons.prems by (force simp: dm_wf_def y)
  have wf: "dm_wf (still_open H xs @ (k, cl) # ys)"
    using Cons.prems sub distinct_map_filter [of fst xs] by (auto simp: dm_wf_def y still_open_def)
  have "reaches H ?nw ((?collect cl nw)\<lparr>nw_clients := still_open H (xs @ [y]) @ ys\<rparr>)"
  proof (cases "in_closed (ho_intake H) (conn cl)")
    case True
    have "dm_get (nw_clients ?nw) k = Some cl" by (simp add: y dm_get_middle [OF fresh])
    from srv_collect [OF this True refl]
    have "reaches H ?nw ((?collect cl ?nw)\<lparr>nw_clients := dm_remove k (nw_clients (?collect cl ?nw))\<rparr>)" by blast
    then show ?thesis
      using True dm_remove_middle [OF wf] by (simp add: collect_client_clients y still_open_def)
  next
    case False
    then show ?thesis by (simp add: collect_client_def y still_open_def)
  qed
  also have "reaches H ((?collect cl nw)\<lparr>nw_clients := still_open H (xs @ [y]) @ ys\<rparr>)
      ((fold (\<lambda>(_, cl). ?collect cl) ys (?collect cl nw))\<lparr>nw_clients := still_open H ((xs @ [y]) @ ys)\<rparr>)"
    using Cons.prems by (intro Cons.IH) simp
  finally show ?case by (simp add: y)
qed simp


subsection \<open>Sending\<close>

lemma transmit_client_reaches:
  assumes "transmit_client fuel (ho_egress H) sock k nw = Some nw'"
  shows "reaches H nw nw'"
proof (cases "dm_get (nw_clients nw) k")
  case (Some cl)
  then obtain cl1 out where sent: "transmit fuel (ho_egress H) sock (cl, nw_outbox nw) = Some (cl1, out)"
    and nw': "nw' = put_client k cl1 (nw\<lparr>nw_outbox := out\<rparr>)"
    using assms by (auto simp: transmit_client_def put_client_def)
  then show ?thesis using srv_transmit [OF Some sent] by blast
qed (use assms in \<open>simp add: transmit_client_def\<close>)

definition keeps_well_typed :: "('c, 'h, 'm, 'l, 'w, 't, 'key, 'u) host \<Rightarrow> ('c, 'h, 'm, 'l, 'f, 'w, 't) network \<Rightarrow> bool" where
  "keeps_well_typed H nw \<longleftrightarrow> (\<forall>nw'. reaches H nw nw' \<longrightarrow> well_typed H nw')"

lemma keeps_well_typedD:
  "keeps_well_typed H nw \<Longrightarrow> well_typed H nw" "keeps_well_typed H nw \<Longrightarrow> reaches H nw nw' \<Longrightarrow> keeps_well_typed H nw'"
  unfolding keeps_well_typed_def using reaches_refl reaches_trans by blast+

lemma send_client_reaches:
  assumes kept: "keeps_well_typed H nw" and sent: "send_client fuel (ho_transport H) fe k nw = Some nw'"
  shows "reaches H nw nw'"
proof (cases "dm_get (nw_clients nw) k")
  case (Some cl)
  let ?tr = "ho_transport H" and ?sv = "nw_server nw"
  obtain cl' sv' where round: "send_round fuel ?tr fe (cl, ?sv) = Some (cl', sv')" and nw': "nw' = put_loop k (cl', sv') nw"
    using sent Some by (auto simp: send_client_def put_loop_def put_client_def)
  have src: "source_of H cl = k" using well_typedD(5) [OF keeps_well_typedD(1) [OF kept] Some] .
  obtain cl1 sv1 where reset: "reset_phase ?tr k (cl, ?sv) = (cl1, sv1)" by fastforce
  obtain cl2 where flush: "for_each (flush_if_open fuel ?tr) (tr_writable ?tr (conn cl1)) cl1 = Some cl2"
    and pops: "for_each (pop_and_send ?tr fe k) (tr_writable ?tr (conn cl2)) (cl2, sv1) = Some (cl', sv')"
    using round src reset by (auto simp: send_round_def flush_phase_def Let_def split: Option.bind_splits)
  have one: "reaches H nw (put_loop k (cl1, sv1) nw)"
    using srv_resets [OF Some, of H "(cl1, sv1)"] src reset by auto
  have two: "reaches H nw (put_loop k (cl2, sv1) nw)"
  proof (rule for_each_reaches [where g = "\<lambda>cl. put_loop k (cl, sv1) nw", OF flush one])
    fix j a b assume "flush_if_open fuel ?tr j a = Some b"
    then show "reaches H (put_loop k (a, sv1) nw) (put_loop k (b, sv1) nw)"
      using srv_flush [of "put_loop k (a, sv1) nw" k a fuel H j b] by auto
  qed
  have "reaches H nw (put_loop k (cl', sv') nw)"
  proof (rule for_each_reaches [where g = "\<lambda>st. put_loop k st nw", OF pops two])
    fix j st st' assume here: "reaches H nw (put_loop k st nw)" and pop: "pop_and_send ?tr fe k j st = Some st'"
    obtain a sv where st: "st = (a, sv)" by fastforce
    have get: "dm_get (nw_clients (put_loop k st nw)) k = Some a" by (simp add: st)
    have "source_of H a = k"
      using well_typedD(5) [OF keeps_well_typedD(1) [OF keeps_well_typedD(2) [OF kept here]] get] .
    then have "pop_and_send ?tr fe (source_of H a) j (a, nw_server (put_loop k st nw)) = Some st'" using pop by (simp add: st)
    from srv_send [OF get this] show "reaches H (put_loop k st nw) (put_loop k st' nw)" by (cases st') (auto simp: st)
  qed
  then show ?thesis by (simp add: nw')
qed (use sent in \<open>simp add: send_client_def\<close>)

lemma dm_wf_step:
  "dm_wf (nw_clients nw) \<Longrightarrow> server_step H l nw nw' \<Longrightarrow> dm_wf (nw_clients nw')"
  by (erule server_step.cases)
    (auto simp: put_client_def put_intake_def put_loop_def put_server_def collect_client_clients)

lemma finish_pass_reaches:
  assumes "keeps_well_typed H nw" "dm_wf (nw_clients nw)"
    and "finish_pass fuel (ho_transport H) (ho_intake H) (ho_egress H) sock (ho_sessions H) fe nw = Some nw'"
  shows "reaches H nw nw'"
proof -
  obtain nw1 nw2 where sends: "for_each (send_client fuel (ho_transport H) fe) (map fst (nw_clients nw)) nw = Some nw1"
    and outs: "for_each (transmit_client fuel (ho_egress H) sock) (map fst (nw_clients nw1)) nw1 = Some nw2"
    and nw': "nw' = collect_closed (ho_transport H) (ho_intake H) (ho_sessions H) nw2"
    using assms(3) by (auto simp: finish_pass_def send_all_def transmit_all_def split: option.splits)
  have one: "reaches H nw nw1"
    by (rule for_each_reaches [where g = "\<lambda>nw. nw", OF sends reaches_refl])
      (blast intro: send_client_reaches keeps_well_typedD(2) [OF assms(1)])
  have two: "reaches H nw nw2"
    by (rule for_each_reaches [where g = "\<lambda>nw. nw", OF outs one]) (rule transmit_client_reaches)
  then have "dm_wf (nw_clients nw2)"
    by (rule reaches_invariant [where P = "\<lambda>nw. dm_wf (nw_clients nw)"]) (use assms(2) dm_wf_step in blast)+
  then have "reaches H nw2 nw'"
    using collect_closed_reaches [of "[]" "nw_clients nw2" H nw2] by (simp add: nw' collect_closed_def still_open_def Let_def)
  with two show ?thesis by (rule reaches_trans)
qed

text \<open>
  C15. The loop of \<open>run\<close> as it is written is one of the interleavings: from every state that the server
  can reach, a pass of the network loop that returns, whatever the socket and the library answer, is
  a sequence of the network thread's steps, so that its result is reachable too.
\<close>

theorem network_pass_is_run:
  assumes "transport_ok (ho_transport H) wire ended" "env_typed (ho_handlers H)" "connection_laws H"
    and "server_run H ls (network_new paths stream_paths sessions sv) nw" "station_typed (sv_station sv)"
    and "network_turn fuel (ho_transport H) (ho_intake H) (ho_egress H) sock ((ho_gate H)\<lparr>gt_clock := now\<rparr>) (ho_sessions H)
           (ho_storage H) env fe poll_result nw = Some (Ok nw')"
  shows "\<exists>ls'. server_run H (ls @ ls') (network_new paths stream_paths sessions sv) nw'"
proof -
  let ?start = "network_new paths stream_paths sessions sv"
  have kept: "keeps_well_typed H nw1" if "reaches H ?start nw1" for nw1
    using that reachable_typed [OF assms(1-3) _ assms(5)] reaches_trans unfolding keeps_well_typed_def reaches_def by blast
  have wf: "dm_wf (nw_clients nw1)" if "reaches H ?start nw1" for nw1
    using that by (rule reaches_invariant [where P = "\<lambda>nw. dm_wf (nw_clients nw)"]) (simp add: network_new_def, rule dm_wf_step)
  have start: "reaches H ?start nw" using assms(4) by (auto simp: reaches_def)
  have pass: "reaches H nw nw'" if "reaches H nw nw1"
    "finish_pass fuel (ho_transport H) (ho_intake H) (ho_egress H) sock (ho_sessions H) fe nw1 = Some nw'" for nw1
    using finish_pass_reaches [OF kept wf that(2)] start that(1) reaches_trans by blast
  have "reaches H nw nw'"
  proof (cases poll_result)
    case (Poll_Ready reads)
    then obtain nw1 where "read_loop fuel (ho_transport H) (ho_intake H) ((ho_gate H)\<lparr>gt_clock := now\<rparr>) (ho_storage H) env reads nw
        = Some (Ok nw1)" "finish_pass fuel (ho_transport H) (ho_intake H) (ho_egress H) sock (ho_sessions H) fe nw1 = Some nw'"
      using assms(6) by (auto simp: network_turn_def split: option.splits sum.splits)
    then show ?thesis using read_loop_reaches pass by blast
  next
    case Poll_Timed_Out
    have "reaches H nw (nw\<lparr>nw_clients := expire_timers (ho_intake H) (nw_clients nw)\<rparr>)"
      using expire_timers_reaches [of "[]" "nw_clients nw" H nw] wf [OF start] by (simp add: expire_timers_def)
    then show ?thesis using assms(6) Poll_Timed_Out pass by (auto simp: network_turn_def)
  qed (use assms(6) in \<open>simp_all add: network_turn_def\<close>)
  then show ?thesis using srv_trans assms(4) unfolding reaches_def by blast
qed


text \<open>A pass that accepts a connection and gets a request's headers and end from it.\<close>

abbreviation demo_turn ::
  "(demo_connection, unit, nat, unit, unit, nat list, registered) network
     \<Rightarrow> (ServerRunError + (demo_connection, unit, nat, unit, unit, nat list, registered) network) option" where
  "demo_turn \<equiv> network_turn 3 (ho_transport demo_host) (ho_intake demo_host) (ho_egress demo_host) (\<lambda>_ _. Some True)
     ((ho_gate demo_host)\<lparr>gt_clock := 8000000\<rparr>) (ho_sessions demo_host) (ho_storage demo_host) demo_env
     \<lparr>fe_open = (\<lambda>_. None), fe_length = (\<lambda>_. None)\<rparr> (Poll_Ready [Read_Datagram [7] (SockV4 1 443) (Some True)])"

lemma demo_read: "\<exists>cl p v. read_loop 3 (ho_transport demo_host) (ho_intake demo_host) ((ho_gate demo_host)\<lparr>gt_clock := 8000000\<rparr>)
    (ho_storage demo_host) demo_env [Read_Datagram [7] (SockV4 1 443) (Some True)] demo_start
      = Some (Ok (demo_start\<lparr>nw_clients := [(demo_key, cl)], nw_pipeline := p, nw_verifier := v\<rparr>)) \<and> conn cl = (False, [])"
proof -
  have "validate demo_verify demo_tokens demo_token demo_key (SockV4 1 443) 8000000 = Some (replicate 8 53)"
    using demo_validated by (simp add: validate_def elapsed_def demo_tokens_def)
  moreover have "demo_token \<noteq> []" by (simp add: demo_token_def token_body_def)
  ultimately have admitted: "admit (ho_intake demo_host) ((ho_gate demo_host)\<lparr>gt_clock := 8000000\<rparr>) (the (demo_header [7]))
      (SockV4 1 443) [] = Some (Admitted demo_key (False, demo_arrivals))"
    by (simp add: admit_def demo_header_def demo_host_def demo_intake_def demo_gate_def)
  have header: "in_header (ho_intake demo_host) [7] = Some (the (demo_header [7]))"
    by (simp add: demo_host_def demo_intake_def demo_header_def)
  have path: "extract_path_from_hdr demo_request = Some ''/a''" by code_simp
  let ?nw = "demo_start\<lparr>nw_clients := [(demo_key, client_new demo_key (False, demo_arrivals))]\<rparr>"
  have entered: "receive_datagram 3 (ho_transport demo_host) (ho_intake demo_host) ((ho_gate demo_host)\<lparr>gt_clock := 8000000\<rparr>)
      (ho_storage demo_host) demo_env [7] (SockV4 1 443) (Some True) demo_start
    = map_option (Pair True) (feed 3 (ho_transport demo_host) (ho_intake demo_host) (ho_storage demo_host) demo_env [7]
        (SockV4 1 443) demo_key ?nw)"
    by (simp add: receive_datagram_def header admitted network_new_def dm_insert_def)
  have "\<exists>cl p v. feed 3 (ho_transport demo_host) (ho_intake demo_host) (ho_storage demo_host) demo_env [7]
        (SockV4 1 443) demo_key ?nw
      = Some (demo_start\<lparr>nw_clients := [(demo_key, cl)], nw_pipeline := p, nw_verifier := v\<rparr>) \<and> conn cl = (False, [])"
    by (simp add: network_new_def feed_def dm_insert_def dm_get_def feed_client_def
        demo_host_def demo_intake_def client_new_def open_h3_def with_h3_def demo_poll_def demo_arrivals_def
        handle_event_def handle_headers_event_def handle_finished_event_def path numeral_3_eq_3 Let_def case_prod_beta)
  then show ?thesis unfolding read_loop.simps entered by fastforce
qed

lemma demo_finish:
  assumes "nw_clients nw = [(demo_key, cl)]" "conn cl = (False, [])"
  shows "\<exists>nw'. finish_pass 3 (ho_transport demo_host) (ho_intake demo_host) (ho_egress demo_host) sock (ho_sessions demo_host) fe nw
      = Some nw' \<and> dm_contains (nw_clients nw') demo_key"
proof -
  obtain cl1 d where reset: "fold (reset_failed_stream demo_library) (requested_stream_resets demo_key (sv_dispatch (nw_server nw)))
      (cl, sv_dispatch (nw_server nw)) = (cl1, d)" by fastforce
  have "conn (fst (fold (reset_failed_stream demo_library) js (a, q))) = conn a" for js a and q :: "QueuedRequest dispatch"
    by (induction js arbitrary: a q)
      (simp_all add: reset_failed_stream_def Let_def clean_client_def demo_library_def demo_transport_def)
  then have "conn cl1 = (False, [])" using assms(2) reset by (metis fst_conv)
  then show ?thesis
    using assms reset
    by (simp add: finish_pass_def send_all_def send_client_def send_round_def reset_phase_def flush_phase_def transmit_all_def
        transmit_client_def collect_closed_def collect_client_def demo_host_def demo_egress_def demo_library_def
        demo_transport_def demo_intake_def dm_get_def dm_insert_def dm_contains_def numeral_3_eq_3)
qed

theorem network_pass_is_run_witness:
  "\<exists>nw'. demo_turn demo_start = Some (Ok nw') \<and> dm_contains (nw_clients nw') demo_key
     \<and> (\<exists>ls. server_run demo_host ls demo_start nw')"
proof -
  obtain cl p v where read: "read_loop 3 (ho_transport demo_host) (ho_intake demo_host) ((ho_gate demo_host)\<lparr>gt_clock := 8000000\<rparr>)
    (ho_storage demo_host) demo_env [Read_Datagram [7] (SockV4 1 443) (Some True)] demo_start
      = Some (Ok (demo_start\<lparr>nw_clients := [(demo_key, cl)], nw_pipeline := p, nw_verifier := v\<rparr>))" "conn cl = (False, [])"
    using demo_read by blast
  obtain nw' where "finish_pass 3 (ho_transport demo_host) (ho_intake demo_host) (ho_egress demo_host) (\<lambda>_ _. Some True)
      (ho_sessions demo_host) \<lparr>fe_open = (\<lambda>_. None), fe_length = (\<lambda>_. None)\<rparr>
      (demo_start\<lparr>nw_clients := [(demo_key, cl)], nw_pipeline := p, nw_verifier := v\<rparr>) = Some nw'"
    "dm_contains (nw_clients nw') demo_key"
    using demo_finish [of "demo_start\<lparr>nw_clients := [(demo_key, cl)], nw_pipeline := p, nw_verifier := v\<rparr>" cl] read(2) by auto
  with read(1) have turn: "demo_turn demo_start = Some (Ok nw')" by (simp add: network_turn_def)
  from network_pass_is_run [OF demo_laws_hold(1-3) srv_refl demo_laws_hold(4) turn] show ?thesis
    using turn \<open>dm_contains (nw_clients nw') demo_key\<close> by auto
qed

end
