(* ===== verification/SpareRoutines.thy ===== *)
theory SpareRoutines
  imports HeaderPipeline NetworkSend
begin

section \<open>Routines that no thread calls\<close>

text \<open>
  Public or private functions of the library that the threads of the server do not use: the
  answering of a request by the listener of its route and the progress messages
  (\<open>src/route_handler.rs\<close>, \<open>src/route_handler/request_temp_table.rs\<close>), the event loop of
  \<open>src/event_listener.rs\<close>, the waiting room of
  confirmations (\<open>src/header_queue_processing.rs\<close>), and the static file answers that
  \<open>src/server_init/quiche_http3_server.rs\<close> has kept. f32 arithmetic, the file system and listeners
  are parameters. None is a panic, or a read that blocks for ever.
\<close>

subsection \<open>Answering by the listener of the route\<close>

type_synonym ('l, 'w) listener_call = "'l \<Rightarrow> RouteEvent \<Rightarrow> 'w \<Rightarrow> RequestResponse option \<times> 'w"

definition subscriber_response ::
  "('l, 'w) listener_call \<Rightarrow> 'l option \<Rightarrow> RouteEvent \<Rightarrow> 'w \<Rightarrow> RequestResponse option \<times> 'w" where
  "subscriber_response on_event subscriber ev w =
     (case subscriber of Some event_subscriber \<Rightarrow> on_event event_subscriber ev w | None \<Rightarrow> (None, w))"

definition answer_by_subscriber ::
  "('l, 'w) listener_call \<Rightarrow> ('h, 'm, 'l) RouteForm \<Rightarrow> stream_id \<Rightarrow> scid \<Rightarrow> conn_id \<Rightarrow> HeaderPriority \<Rightarrow> RouteEvent
     \<Rightarrow> ('l, 'f, 'w) server \<Rightarrow> ('l, 'f, 'w) server option" where
  "answer_by_subscriber on_event form i s c header_priority ev sv =
     (let (resp, w) = subscriber_response on_event (rf_event_subscriber form) ev (sv_app sv); sv1 = sv\<lparr>sv_app := w\<rparr> in
      case rf_method form of
        GET \<Rightarrow> answer_route GET i s c header_priority (ev_is_end ev) resp sv1
      | POST \<Rightarrow> answer_route POST i s c header_priority (ev_is_end ev) resp sv1
      | _ \<Rightarrow> Some sv)"

definition response_preparation ::
  "('h, 'm, 'l, 'w) handler_env \<Rightarrow> ('l, 'w) listener_call \<Rightarrow> conn_id \<Rightarrow> scid \<Rightarrow> stream_id \<Rightarrow> EventType \<Rightarrow> HeaderPriority
     \<Rightarrow> ('l, 'f, 'w) server \<Rightarrow> ('l, 'f, 'w) server option" where
  "response_preparation env on_event c s i event_type header_priority sv =
     (case build_route_event c s i event_type (sv_requests sv) of
        (Inl _, rq) \<Rightarrow> Some (sv\<lparr>sv_requests := rq\<rparr>)
      | (Inr ev, rq) \<Rightarrow>
          (let sv1 = set_dispatch (insert_new_channel i s (sv_dispatch sv)) (sv\<lparr>sv_requests := rq\<rparr>) in
           case get_routes_from_path_and_method (ev_path ev) (ev_method ev) (he_manager env) of
             Some (form, _) \<Rightarrow> answer_by_subscriber on_event form i s c header_priority ev sv1
           | None \<Rightarrow> Some sv1))"

text \<open>
  A request for a DELETE route that is prepared this way is taken from the table and never answered:
  no message is queued for any stream.
\<close>

lemma delete_never_answered:
  assumes "build_route_event c s i event_type (sv_requests sv) = (Ok ev, rq)" "ev_method ev = DELETE"
    and "disp_inv (sv_dispatch sv)"
  shows "\<exists>sv'. response_preparation env on_event c s i event_type header_priority sv = Some sv'
    \<and> mail (sv_dispatch sv') = (mail (sv_dispatch sv))((i, s) := Some (box_of (sv_dispatch sv) i s))"
proof -
  let ?sv = "set_dispatch (insert_new_channel i s (sv_dispatch sv)) (sv\<lparr>sv_requests := rq\<rparr>)"
  have "rf_method form = DELETE" if "get_routes_from_path_and_method (ev_path ev) (ev_method ev) (he_manager env) = Some (form, a)"
    for form a
    using that assms(2) by (auto simp: get_routes_from_path_and_method_def split: option.splits prod.splits simp: find_Some_iff)
  then have "response_preparation env on_event c s i event_type header_priority sv = Some ?sv"
    using assms(1) by (auto simp: response_preparation_def answer_by_subscriber_def Let_def subscriber_response_def split: option.splits prod.split)
  then show ?thesis using mail_opened [OF assms(3)] by simp
qed


subsection \<open>Setters and views that nothing uses\<close>

definition set_event_subscriber :: "'l \<Rightarrow> ('h, 'm, 'l) RouteForm \<Rightarrow> ('h, 'm, 'l) RouteForm" where
  "set_event_subscriber event_listener form = form\<lparr>rf_event_subscriber := Some event_listener\<rparr>"

definition set_route_config :: "RouteConfig \<Rightarrow> ('h, 'm, 'l) RouteFormBuilder \<Rightarrow> ('h, 'm, 'l) RouteFormBuilder" where
  "set_route_config route_config b = b\<lparr>fb_config := Some route_config\<rparr>"

definition fb_set_method :: "H3Method \<Rightarrow> ('h, 'm, 'l) RouteFormBuilder \<Rightarrow> ('h, 'm, 'l) RouteFormBuilder" where
  "fb_set_method m b = b\<lparr>fb_method := Some m\<rparr>"

definition fb_set_path :: "string \<Rightarrow> ('h, 'm, 'l) RouteFormBuilder \<Rightarrow> ('h, 'm, 'l) RouteFormBuilder" where
  "fb_set_path path b = b\<lparr>fb_path := Some path\<rparr>"

definition fb_set_scheme :: "string \<Rightarrow> ('h, 'm, 'l) RouteFormBuilder \<Rightarrow> ('h, 'm, 'l) RouteFormBuilder" where
  "fb_set_scheme scheme b = b\<lparr>fb_scheme := Some scheme\<rparr>"

text \<open>A setter that comes last decides; after the first three and the configuration a route can be built.\<close>

lemma set_form_builds:
  "form_build (set_route_config config (fb_set_scheme scheme (fb_set_path path (fb_set_method m b)))) =
     Some \<lparr>rf_method = m, rf_event_subscriber = fb_event_subscriber b, rf_handlers = fb_handlers b,
       rf_middlewares = fb_middlewares b, rf_path = path, rf_config = Some config, rf_scheme = scheme,
       rf_authority = fb_authority b\<rparr>"
  by (simp add: form_build_def set_route_config_def fb_set_scheme_def fb_set_path_def fb_set_method_def)

datatype HeadersColl = HeadersPost "h3_header list" | HeadersGet "h3_header list"

fun get_headers_for_middleware :: "H3Method \<Rightarrow> h3_header list \<Rightarrow> HeadersColl" where
  "get_headers_for_middleware POST headers = HeadersPost headers"
| "get_headers_for_middleware GET headers = HeadersGet headers"
| "get_headers_for_middleware PUT headers = HeadersPost headers"
| "get_headers_for_middleware DELETE headers = HeadersPost headers"

definition coll_path :: "HeadersColl \<Rightarrow> string" where "coll_path headers_coll = ''l''"

definition shown_header :: "h3_header \<Rightarrow> string" where
  "shown_header hdr = ''|'' @ from_utf8_lossy (hname hdr) @ '' = '' @ from_utf8_lossy (hvalue hdr) @ ''|''"

fun join_with :: "string \<Rightarrow> string list \<Rightarrow> string" where
  "join_with sep [] = []"
| "join_with sep [s] = s"
| "join_with sep (s # t # ss) = s @ sep @ join_with sep (t # ss)"

fun coll_display :: "HeadersColl \<Rightarrow> string" where
  "coll_display (HeadersGet headers) = join_with [CHR 10] (map shown_header headers)"
| "coll_display (HeadersPost headers) = join_with [CHR 10] (map shown_header headers)"


subsection \<open>The event loop\<close>

text \<open>
  \<open>EventLoop\<close> of \<open>src/event_listener.rs\<close> is a listener with a thread of its own: \<open>on_event\<close> puts the
  event and the sender of its response into a channel of 100 places and waits. The thread gives the
  waiting events to the user's callback in their order. \<open>pending\<close> are the events of other threads that
  wait; each of them is answered to its own thread. A full channel drops the event with its sender.
\<close>

definition event_capacity :: nat where "event_capacity = 100"

fun run_event_loop :: "(RouteEvent \<Rightarrow> 'w \<Rightarrow> RequestResponse option \<times> 'w) \<Rightarrow> RouteEvent list \<Rightarrow> 'w
    \<Rightarrow> RequestResponse option list \<times> 'w" where
  "run_event_loop cb [] w = ([], w)"
| "run_event_loop cb (ev # evs) w =
     (let (resp, w1) = cb ev w; (resps, w2) = run_event_loop cb evs w1 in (resp # resps, w2))"

definition event_loop_on_event ::
  "(RouteEvent \<Rightarrow> 'w \<Rightarrow> RequestResponse option \<times> 'w) \<Rightarrow> RouteEvent list \<Rightarrow> RouteEvent \<Rightarrow> 'w
     \<Rightarrow> RequestResponse option \<times> 'w" where
  "event_loop_on_event cb pending ev w =
     (if event_capacity \<le> length pending then (None, w)
      else (let (resps, w1) = run_event_loop cb (pending @ [ev]) w in (last resps, w1)))"

lemma run_event_loop_append:
  "run_event_loop cb (evs @ [ev]) w =
     (let (resps, w1) = run_event_loop cb evs w; (resp, w2) = cb ev w1 in (resps @ [resp], w2))"
  by (induction evs arbitrary: w) (simp_all add: Let_def case_prod_beta)

text \<open>An event that fits is answered by the callback after all that waited; the 101st is not answered.\<close>

lemma event_loop_answer:
  "length pending < event_capacity \<Longrightarrow>
     event_loop_on_event cb pending ev w = cb ev (snd (run_event_loop cb pending w))"
  "length pending = event_capacity \<Longrightarrow> fst (event_loop_on_event cb pending ev w) = None"
  by (simp_all add: event_loop_on_event_def run_event_loop_append Let_def case_prod_beta)


subsection \<open>Progress messages\<close>

text \<open>What the f32 operations give: whether a ratio is below 0.98, and its text.\<close>

record 'f f32_ops =
  f32_ratio :: "usize \<Rightarrow> usize \<Rightarrow> 'f"
  f32_percent :: "'f \<Rightarrow> usize"
  f32_below :: "'f \<Rightarrow> bool"
  f32_text :: "'f \<Rightarrow> string"

definition has_something_to_update :: "'f f32_ops \<Rightarrow> 'f ReceptionStatus \<Rightarrow> bool" where
  "has_something_to_update fo st = (case st_percentage_written st of Some p_w \<Rightarrow> f32_below fo p_w | None \<Rightarrow> False)"

definition get_percentage_written_to_string :: "'f f32_ops \<Rightarrow> 'f ReceptionStatus \<Rightarrow> string option" where
  "get_percentage_written_to_string fo st = map_option (f32_text fo) (st_percentage_written st)"

definition reception_body :: "'f f32_ops \<Rightarrow> 'f ReceptionStatus \<Rightarrow> bytes option" where
  "reception_body fo st =
     map_option (\<lambda>progress.
       ascii_bytes (''s??%progress='' @ f32_text fo progress
         @ ''%&written='' @ nat_to_string (case st_written st of Some n \<Rightarrow> n | None \<Rightarrow> 0)
         @ ''%&total='' @ nat_to_string (case st_total st of Some n \<Rightarrow> n | None \<Rightarrow> 0)))
       (st_percentage_written st)"

definition send_reception_status ::
  "'f f32_ops \<Rightarrow> stream_id \<Rightarrow> scid \<Rightarrow> conn_id \<Rightarrow> ('l, 'f, 'w) server \<Rightarrow> (unit + usize) \<times> ('l, 'f, 'w) server" where
  "send_reception_status fo i s c sv =
     (let (infos, rq) = get_reception_status_infos (f32_ratio fo) (f32_percent fo) i c (sv_requests sv);
          sv1 = sv\<lparr>sv_requests := rq\<rparr>
      in case infos of
           None \<Rightarrow> (Ok 0, sv1)
         | Some (reception_status, header_send) \<Rightarrow>
             if has_something_to_update fo reception_status \<and> get_percentage_written_to_string fo reception_status \<noteq> None
             then
               if \<not> header_send then (Err (), sv1)
               else (Ok 0,
                 (case reception_body fo reception_status of
                    Some body \<Rightarrow> set_dispatch (snd (send_to_high_priority_queue i s
                        (Q_BodyProgression (body_request_new i c s 0 body False)) (sv_dispatch sv1))) sv1
                  | None \<Rightarrow> sv1))
             else (Ok 0, sv1))"

definition get_routes_from_path_and_method_and_request_type ::
  "string \<Rightarrow> H3Method \<Rightarrow> ('h, 'm, 'l) RouteManager \<Rightarrow> ('h, 'm, 'l) RouteForm option" where
  "get_routes_from_path_and_method_and_request_type path methode m =
     (case get_routes_from_path path m of
        None \<Rightarrow> None
      | Some coll \<Rightarrow> find (\<lambda>item. rf_method item = methode) coll)"

definition partial_req ::
  "path_buf \<Rightarrow> io_env \<Rightarrow> 'l option \<Rightarrow> conn_id \<Rightarrow> stream_id \<Rightarrow> H3Method \<Rightarrow> DataManagement option \<Rightarrow> h3_header list
     \<Rightarrow> string \<Rightarrow> usize option \<Rightarrow> bool \<Rightarrow> ('l, 'f) requests_state \<Rightarrow> ('l, 'f) requests_state" where
  "partial_req storage env event_subscriber c i method dm headers path len more_frames rq =
     add_partial_request storage env c i method dm event_subscriber headers path len (\<not> more_frames) rq"


subsection \<open>The waiting room of confirmations\<close>

text \<open>
  \<open>ProgressStatus\<close> is one channel with both of its ends, as the list of what waits in it. Reading an
  empty one blocks for ever, because the writing end is never dropped.
\<close>

datatype projection = Pending_Projection | Done_Projection

type_synonym progress_status = "projection list"

definition extract_header :: progress_status where
  "extract_header = [Pending_Projection]"

definition push_back :: "progress_status \<Rightarrow> progress_status list \<Rightarrow> progress_status list" where
  "push_back confirmation room = room @ [confirmation]"

text \<open>One look at every channel: the channels afterwards, the indices that are done, and whether to wake.\<close>

fun look_at_all :: "nat \<Rightarrow> progress_status list \<Rightarrow> (progress_status list \<times> nat list \<times> bool) option" where
  "look_at_all i [] = Some ([], [], False)"
| "look_at_all i ([] # its) = None"
| "look_at_all i ((Pending_Projection # rest) # its) =
     map_option (\<lambda>(q, idx, wake). ((rest @ [Pending_Projection]) # q, idx, True)) (look_at_all (Suc i) its)"
| "look_at_all i ((Done_Projection # rest) # its) =
     map_option (\<lambda>(q, idx, wake). (rest # q, i # idx, wake)) (look_at_all (Suc i) its)"

text \<open>\<open>VecDeque::remove\<close> of an index that is out of range does nothing.\<close>

definition remove_at :: "nat \<Rightarrow> 'a list \<Rightarrow> 'a list" where
  "remove_at i xs = take i xs @ drop (Suc i) xs"

definition check_for_completes :: "progress_status list \<Rightarrow> (progress_status list \<times> nat \<times> bool) option" where
  "check_for_completes room =
     map_option (\<lambda>(q, idx, wake). (fold remove_at idx q, length idx, wake)) (look_at_all 0 room)"

lemma look_at_pending:
  "list_all (\<lambda>it. it \<noteq> [] \<and> hd it = Pending_Projection) its \<Longrightarrow>
     look_at_all i its = Some (map (\<lambda>it. tl it @ [Pending_Projection]) its, [], its \<noteq> [])"
proof (induction its arbitrary: i)
  case (Cons it its)
  then obtain rest where "it = Pending_Projection # rest" by (cases it) auto
  then show ?case using Cons by simp
qed simp

text \<open>
  One completed confirmation is taken out and reported. Two of them at once are both reported, but
  the second removal uses an index from before the first: a third confirmation that is still pending
  is lost, and the second completed one stays with an empty channel, so that the next check blocks
  for ever.
\<close>

theorem two_confirmations_lose_a_third:
  "check_for_completes [[Done_Projection], [Pending_Projection]] = Some ([[Pending_Projection]], 1, True)
   \<and> check_for_completes [[Done_Projection], [Done_Projection], [Pending_Projection]] = Some ([[]], 2, True)
   \<and> check_for_completes [[]] = None"
  by (simp add: check_for_completes_def remove_at_def)


subsection \<open>Static files\<close>

definition hdrs_to_strings :: "h3_header list \<Rightarrow> (string \<times> string) list" where
  "hdrs_to_strings hdrs = map (\<lambda>h. (from_utf8_lossy (hname h), from_utf8_lossy (hvalue h))) hdrs"

text \<open>The components of a path that are names: not the root, not empty, and neither \<open>.\<close> nor \<open>..\<close>.\<close>

definition normal_components :: "string \<Rightarrow> string list" where
  "normal_components path = filter (\<lambda>v. v \<noteq> [] \<and> v \<noteq> ''.'' \<and> v \<noteq> ''..'') (split_on (CHR ''/'') path)"

fun look_for :: "h3_header list \<Rightarrow> string \<times> string option \<Rightarrow> (string \<times> string option) option" where
  "look_for [] found = Some found"
| "look_for (hdr # hdrs) (path, methode) =
     (if hname hdr = '':path'' then (if valid_utf8 (hvalue hdr) then look_for hdrs (hvalue hdr, methode) else None)
      else if hname hdr = '':method'' then look_for hdrs (path, Some (hvalue hdr))
      else look_for hdrs (path, methode))"

definition file_for :: "path_buf \<Rightarrow> string \<Rightarrow> path_buf" where
  "file_for root path = fold (\<lambda>v file_path. path_push file_path v) (normal_components path) root"

definition build_response :: "(path_buf \<Rightarrow> bytes option) \<Rightarrow> path_buf \<Rightarrow> h3_header list \<Rightarrow> (h3_header list \<times> bytes) option" where
  "build_response read root request =
     map_option (\<lambda>(path, methode).
       (let (status, body) =
          (if methode = Some ''GET''
           then (case read (file_for root path) of
                   Some stored \<Rightarrow> (200, stored)
                 | None \<Rightarrow> (404, 10 # ascii_bytes ''Hello Error world'' @ [10]))
           else (405, []))
        in ([header '':status'' (nat_to_string status), header ''server'' ''quiche'',
             header ''content-length'' (nat_to_string (length body))], body)))
       (look_for request ([], None))"

definition handle_request ::
  "('c, 'h) transport \<Rightarrow> (path_buf \<Rightarrow> bytes option) \<Rightarrow> stream_id \<Rightarrow> h3_header list \<Rightarrow> ('c, 'h) Client \<Rightarrow> ('c, 'h) Client option" where
  "handle_request tr read i request cl =
     do {
       (headers, body) \<leftarrow> build_response read [] request;
       (r, cl1) \<leftarrow> with_h3 (tr_send_response tr i headers False) cl;
       case r of
         Inl H3_StreamBlocked \<Rightarrow> Some (store_partial i \<lparr>pr_headers = Some headers, pr_body = body, pr_written = 0\<rparr> cl1)
       | Inl _ \<Rightarrow> Some cl1
       | Inr _ \<Rightarrow>
           do {
             (sent, cl2) \<leftarrow> with_h3 (tr_send_body tr i body True) cl1;
             Some (case body_outcome sent of
                     Some n \<Rightarrow> keep_unsent i body n cl2
                   | None \<Rightarrow> cl2)
           }
     }"

definition response_prep ::
  "('h, 'm, 'l, 'w) handler_env \<Rightarrow> ResponseInjection \<Rightarrow> ('l, 'f, 'w) ResponseInjectionBuffer
     \<Rightarrow> ('l, 'f, 'w) ResponseInjectionBuffer option" where
  "response_prep env ri b = map_option snd (register_injection env ri b)"

text \<open>A path that stays below \<open>root\<close>: \<open>root\<close> followed by names, each without a separator and not \<open>..\<close>.\<close>

inductive below :: "path_buf \<Rightarrow> path_buf \<Rightarrow> bool" for root where
  below_root: "below root root"
| below_name: "below root p \<Longrightarrow> v \<noteq> [] \<Longrightarrow> v \<noteq> ''.'' \<Longrightarrow> v \<noteq> ''..'' \<Longrightarrow> CHR ''/'' \<notin> set v \<Longrightarrow> below root (path_push p v)"

lemma split_on_pieces: "v \<in> set (split_on c s) \<Longrightarrow> c \<notin> set v"
  by (induction c s arbitrary: v rule: split_on.induct) (auto split: if_splits list.splits)

lemma below_fold:
  "below root p \<Longrightarrow> list_all (\<lambda>v. v \<noteq> [] \<and> v \<noteq> ''.'' \<and> v \<noteq> ''..'' \<and> CHR ''/'' \<notin> set v) vs \<Longrightarrow>
     below root (fold (\<lambda>v file_path. path_push file_path v) vs p)"
  by (induction vs arbitrary: p) (auto intro: below_name)

lemma file_for_below: "below root (file_for root path)"
  unfolding file_for_def
  by (rule below_fold [OF below_root]) (auto simp: list_all_iff normal_components_def dest: split_on_pieces)

text \<open>
  C40. Whatever path a request names, with \<open>..\<close> in it or not, the static answer depends on no file
  outside the root: two file systems that agree below the root give the same response.
\<close>

theorem static_answer_stays_below_root:
  assumes "\<And>p. below root p \<Longrightarrow> read p = read' p"
  shows "build_response read root request = build_response read' root request"
proof -
  have "read (file_for root path) = read' (file_for root path)" for path by (rule assms [OF file_for_below])
  then show ?thesis by (simp only: build_response_def)
qed

text \<open>
  A request that climbs out of \<open>www\<close> gets the same answer whether or not the file system holds the
  secret beside it.
\<close>

lemma below_longer: "below root p \<Longrightarrow> length root \<le> length p"
  by (induction rule: below.induct) (auto simp: path_push_def)

lemma static_answer_stays_below_root_witness:
  "build_response (\<lambda>p. if p = ''k'' then Some [1] else None) ''www''
     [header '':method'' ''GET'', header '':path'' ''/../k'']
   = build_response (\<lambda>p. None) ''www'' [header '':method'' ''GET'', header '':path'' ''/../k'']"
  by (rule static_answer_stays_below_root) (auto dest: below_longer)

end
