(* ===== verification/MainDemo.thy ===== *)
theory MainDemo
  imports SpareRoutines NetworkTurn LoopFrames
begin

section \<open>The static file server of \<open>main.rs\<close>\<close>

text \<open>
  Model of \<open>main.rs\<close>: a server of its own, from which the network loop of the library has grown. One
  thread admits datagrams behind a stateless retry whose token is not authenticated, answers every
  request from its headers alone with a file below \<open>examples/root\<close>, keeps what a stream does not
  take and sends it when the stream becomes writable. Names that the library has too end in
  \<open>_main\<close>. The calls of quiche are those of the library's loop; \<open>lb_stop_reading\<close> is
  \<open>stream_shutdown\<close> with its result. Setting up the socket and the configuration are constants
  handed to the operating system and to quiche. None is a panic or a lack of fuel.
\<close>

subsection \<open>State\<close>

record ('c, 'h) Client_main =
  cm_conn :: 'c
  cm_http3_conn :: "'h option"
  cm_partial_responses :: "(stream_id, PartialResponse) dashmap"

type_synonym ('c, 'h) ClientMap_main = "(scid, ('c, 'h) Client_main) dashmap"

record ('c, 'h) library_main =
  lb_transport :: "('c, 'h) transport"
  lb_intake :: "('c, 'h) intake"
  lb_egress :: "'c egress"
  lb_stop_reading :: "stream_id \<Rightarrow> 'c \<Rightarrow> 'c option"
  lb_read :: "path_buf \<Rightarrow> bytes option"

record ('c, 'h) server_main =
  sm_clients :: "('c, 'h) ClientMap_main"
  sm_outbox :: outbox

definition with_h3_main ::
  "('h \<times> 'c \<Rightarrow> 'r \<times> 'h \<times> 'c) \<Rightarrow> ('c, 'h) Client_main \<Rightarrow> ('r \<times> ('c, 'h) Client_main) option" where
  "with_h3_main f cl =
     (case cm_http3_conn cl of
        Some h \<Rightarrow> (let (r, h', c') = f (h, cm_conn cl) in Some (r, cl\<lparr>cm_conn := c', cm_http3_conn := Some h'\<rparr>))
      | None \<Rightarrow> None)"

definition keep_main :: "stream_id \<Rightarrow> PartialResponse \<Rightarrow> ('c, 'h) Client_main \<Rightarrow> ('c, 'h) Client_main" where
  "keep_main i p cl = cl\<lparr>cm_partial_responses := dm_insert i p (cm_partial_responses cl)\<rparr>"

definition forget_main :: "stream_id \<Rightarrow> ('c, 'h) Client_main \<Rightarrow> ('c, 'h) Client_main" where
  "forget_main i cl = cl\<lparr>cm_partial_responses := dm_remove i (cm_partial_responses cl)\<rparr>"


subsection \<open>Tokens\<close>

definition ip_octets :: "socket_addr \<Rightarrow> bytes" where
  "ip_octets src = (case sock_ip src of IpV4 a \<Rightarrow> be_bytes 4 (unat a) | IpV6 a \<Rightarrow> be_bytes 16 (unat a))"

definition mint_token_main :: "scid \<Rightarrow> socket_addr \<Rightarrow> bytes" where
  "mint_token_main dcid src = ascii_bytes ''quiche'' @ ip_octets src @ dcid"

definition validate_token_main :: "socket_addr \<Rightarrow> bytes \<Rightarrow> scid option" where
  "validate_token_main src token =
     (if length token < 6 then None
      else if take 6 token \<noteq> ascii_bytes ''quiche'' then None
      else (let token = drop 6 token; addr = ip_octets src in
            if length token < length addr \<or> take (length addr) token \<noteq> addr then None
            else Some (drop (length addr) token)))"


subsection \<open>Requests\<close>

text \<open>The function of \<open>quiche_http3_server.rs\<close> is a copy of the one here.\<close>

definition build_response_main :: "(path_buf \<Rightarrow> bytes option) \<Rightarrow> path_buf \<Rightarrow> h3_header list \<Rightarrow> (h3_header list \<times> bytes) option" where
  "build_response_main read root request = build_response read root request"

definition handle_request_main ::
  "('c, 'h) library_main \<Rightarrow> stream_id \<Rightarrow> h3_header list \<Rightarrow> path_buf \<Rightarrow> ('c, 'h) Client_main \<Rightarrow> ('c, 'h) Client_main option" where
  "handle_request_main lb i request root cl =
     do {
       _ \<leftarrow> cm_http3_conn cl;
       c1 \<leftarrow> lb_stop_reading lb i (cm_conn cl);
       (headers, body) \<leftarrow> build_response_main (lb_read lb) root request;
       (r, cl1) \<leftarrow> with_h3_main (tr_send_response (lb_transport lb) i headers False) (cl\<lparr>cm_conn := c1\<rparr>);
       case r of
         Inl H3_StreamBlocked \<Rightarrow> Some (keep_main i \<lparr>pr_headers = Some headers, pr_body = body, pr_written = 0\<rparr> cl1)
       | Inl _ \<Rightarrow> Some cl1
       | Inr _ \<Rightarrow>
           do {
             (sent, cl2) \<leftarrow> with_h3_main (tr_send_body (lb_transport lb) i body True) cl1;
             Some (case body_outcome sent of
                     None \<Rightarrow> cl2
                   | Some n \<Rightarrow>
                       if n < length body then keep_main i \<lparr>pr_headers = None, pr_body = body, pr_written = n\<rparr> cl2
                       else cl2)
           }
     }"

definition write_rest_main ::
  "('c, 'h) library_main \<Rightarrow> stream_id \<Rightarrow> PartialResponse \<Rightarrow> ('c, 'h) Client_main \<Rightarrow> ('c, 'h) Client_main option" where
  "write_rest_main lb i resp cl =
     do {
       body \<leftarrow> slice_get (pr_written resp) (length (pr_body resp)) (pr_body resp);
       (sent, cl1) \<leftarrow> with_h3_main (tr_send_body (lb_transport lb) i body True) (keep_main i (resp\<lparr>pr_headers := None\<rparr>) cl);
       Some (case body_outcome sent of
               None \<Rightarrow> forget_main i cl1
             | Some n \<Rightarrow>
                 if pr_written resp + n = length (pr_body resp) then forget_main i cl1
                 else keep_main i (resp\<lparr>pr_headers := None, pr_written := pr_written resp + n\<rparr>) cl1)
     }"

definition handle_writable_main ::
  "('c, 'h) library_main \<Rightarrow> stream_id \<Rightarrow> ('c, 'h) Client_main \<Rightarrow> ('c, 'h) Client_main option" where
  "handle_writable_main lb i cl =
     (if cm_http3_conn cl = None then None
      else case dm_get (cm_partial_responses cl) i of
        None \<Rightarrow> Some cl
      | Some resp \<Rightarrow>
          (case pr_headers resp of
             None \<Rightarrow> write_rest_main lb i resp cl
           | Some headers \<Rightarrow>
               do {
                 (r, cl1) \<leftarrow> with_h3_main (tr_send_response (lb_transport lb) i headers False) cl;
                 if is_ok r then write_rest_main lb i resp cl1 else Some cl1
               }))"


subsection \<open>The events of a connection\<close>

definition handle_event_main ::
  "('c, 'h) library_main \<Rightarrow> stream_id \<Rightarrow> h3_event \<Rightarrow> ('c, 'h) Client_main \<Rightarrow> ('c, 'h) Client_main option" where
  "handle_event_main lb i ev cl =
     (case ev of
        Headers_Event headers more_frames \<Rightarrow> handle_request_main lb i headers ''examples/root'' cl
      | _ \<Rightarrow> Some cl)"

fun poll_events_main ::
  "nat \<Rightarrow> ('c, 'h) library_main \<Rightarrow> ('c, 'h) Client_main \<Rightarrow> ('c, 'h) Client_main option" where
  "poll_events_main 0 lb cl = None"
| "poll_events_main (Suc fuel) lb cl =
     (case with_h3_main (in_poll (lb_intake lb)) cl of
        None \<Rightarrow> None
      | Some (Inl _, cl1) \<Rightarrow> Some cl1
      | Some (Inr (i, ev), cl1) \<Rightarrow>
          (case handle_event_main lb i ev cl1 of
             None \<Rightarrow> None
           | Some cl2 \<Rightarrow> poll_events_main fuel lb cl2))"

definition open_h3_main :: "('c, 'h) library_main \<Rightarrow> ('c, 'h) Client_main \<Rightarrow> bool \<times> ('c, 'h) Client_main" where
  "open_h3_main lb cl =
     (if in_ready (lb_intake lb) (cm_conn cl) \<and> cm_http3_conn cl = None
      then (case in_h3_new (lb_intake lb) (cm_conn cl) of
              (None, c) \<Rightarrow> (False, cl\<lparr>cm_conn := c\<rparr>)
            | (Some h, c) \<Rightarrow> (True, cl\<lparr>cm_conn := c, cm_http3_conn := Some h\<rparr>))
      else (True, cl))"

text \<open>A datagram of a known connection: the streams that are writable come first, then the events.\<close>

definition feed_main ::
  "nat \<Rightarrow> ('c, 'h) library_main \<Rightarrow> bytes \<Rightarrow> socket_addr \<Rightarrow> ('c, 'h) Client_main \<Rightarrow> ('c, 'h) Client_main option" where
  "feed_main fuel lb pkt from cl =
     (let (received, c) = in_recv (lb_intake lb) pkt from (cm_conn cl); cl1 = cl\<lparr>cm_conn := c\<rparr> in
      if \<not> received then Some cl1
      else
        (let (go_on, cl2) = open_h3_main lb cl1 in
         if \<not> go_on \<or> cm_http3_conn cl2 = None then Some cl2
         else
           do {
             cl3 \<leftarrow> for_each (handle_writable_main lb) (tr_writable (lb_transport lb) (cm_conn cl2)) cl2;
             poll_events_main fuel lb cl3
           }))"


subsection \<open>A datagram\<close>

definition client_main_new :: "'c \<Rightarrow> ('c, 'h) Client_main" where
  "client_main_new c = \<lparr>cm_conn = c, cm_http3_conn = None, cm_partial_responses = []\<rparr>"

definition admit_main ::
  "('c, 'h) library_main \<Rightarrow> packet_header \<Rightarrow> socket_addr \<Rightarrow> ('c, 'h) ClientMap_main \<Rightarrow> 'c admission option" where
  "admit_main lb hdr from clients =
     (let ik = lb_intake lb; conn_id = in_conn_id ik (ph_dcid hdr) in
      if \<not> dm_contains clients (ph_dcid hdr) \<and> \<not> dm_contains clients conn_id
      then
        if ph_type hdr \<noteq> Packet_Initial then Some Dropped
        else if \<not> in_version_supported ik (ph_version hdr)
        then map_option Replied (in_negotiate_version ik (ph_scid hdr) (ph_dcid hdr))
        else
          do {
            token \<leftarrow> ph_token hdr;
            if token = []
            then map_option Replied
                   (in_retry ik (ph_scid hdr) (ph_dcid hdr) conn_id (mint_token_main (ph_dcid hdr) from) (ph_version hdr))
            else (case validate_token_main from token of
                    None \<Rightarrow> Some Dropped
                  | Some odcid \<Rightarrow>
                      if length conn_id \<noteq> length (ph_dcid hdr) then Some Dropped
                      else map_option (Admitted (ph_dcid hdr)) (in_accept ik (ph_dcid hdr) odcid from))
          }
      else Some (Known (if dm_contains clients (ph_dcid hdr) then ph_dcid hdr else conn_id)))"

definition feed_key_main ::
  "nat \<Rightarrow> ('c, 'h) library_main \<Rightarrow> bytes \<Rightarrow> socket_addr \<Rightarrow> scid \<Rightarrow> ('c, 'h) server_main \<Rightarrow> ('c, 'h) server_main option" where
  "feed_key_main fuel lb pkt from k sm =
     (case dm_get (sm_clients sm) k of
        None \<Rightarrow> None
      | Some cl \<Rightarrow>
          map_option (\<lambda>cl1. sm\<lparr>sm_clients := dm_insert k cl1 (sm_clients sm)\<rparr>) (feed_main fuel lb pkt from cl))"

text \<open>The result says whether reading goes on; a reply that would block ends it.\<close>

definition receive_datagram_main ::
  "nat \<Rightarrow> ('c, 'h) library_main \<Rightarrow> bytes \<Rightarrow> socket_addr \<Rightarrow> bool option \<Rightarrow> ('c, 'h) server_main
     \<Rightarrow> (bool \<times> ('c, 'h) server_main) option" where
  "receive_datagram_main fuel lb pkt from reply sm =
     (case in_header (lb_intake lb) pkt of
        None \<Rightarrow> Some (True, sm)
      | Some hdr \<Rightarrow>
          (case admit_main lb hdr from (sm_clients sm) of
             None \<Rightarrow> None
           | Some Dropped \<Rightarrow> Some (True, sm)
           | Some (Replied out) \<Rightarrow>
               (case reply of
                  Some True \<Rightarrow> Some (True, sm\<lparr>sm_outbox := sm_outbox sm @ [(out, from)]\<rparr>)
                | Some False \<Rightarrow> Some (False, sm)
                | None \<Rightarrow> None)
           | Some (Admitted s c) \<Rightarrow>
               map_option (Pair True) (feed_key_main fuel lb pkt from s
                 (sm\<lparr>sm_clients := dm_insert s (client_main_new c) (sm_clients sm)\<rparr>))
           | Some (Known k) \<Rightarrow> map_option (Pair True) (feed_key_main fuel lb pkt from k sm)))"


subsection \<open>A pass\<close>

text \<open>Any failure of \<open>recv_from\<close> other than that it would block is a panic.\<close>

fun read_loop_main ::
  "nat \<Rightarrow> ('c, 'h) library_main \<Rightarrow> socket_read list \<Rightarrow> ('c, 'h) server_main \<Rightarrow> ('c, 'h) server_main option" where
  "read_loop_main fuel lb [] sm = Some sm"
| "read_loop_main fuel lb (Read_Interrupted # reads) sm = None"
| "read_loop_main fuel lb (Read_Failed cause # reads) sm = None"
| "read_loop_main fuel lb (Read_Datagram pkt from reply # reads) sm =
     (case receive_datagram_main fuel lb pkt from reply sm of
        None \<Rightarrow> None
      | Some (False, sm1) \<Rightarrow> Some sm1
      | Some (True, sm1) \<Rightarrow> read_loop_main fuel lb reads sm1)"

fun transmit_main ::
  "nat \<Rightarrow> 'c egress \<Rightarrow> (bytes \<Rightarrow> socket_addr \<Rightarrow> bool option) \<Rightarrow> ('c, 'h) Client_main \<times> outbox
     \<Rightarrow> (('c, 'h) Client_main \<times> outbox) option" where
  "transmit_main 0 eg sock st = None"
| "transmit_main (Suc fuel) eg sock (cl, out) =
     (case eg_send eg (cm_conn cl) of
        (Send_Done, c) \<Rightarrow> Some (cl\<lparr>cm_conn := c\<rparr>, out)
      | (Send_Error e, c) \<Rightarrow> Some (cl\<lparr>cm_conn := eg_close eg c\<rparr>, out)
      | (Send_Packet packet to, c) \<Rightarrow>
          (case sock packet to of
             None \<Rightarrow> None
           | Some False \<Rightarrow> Some (cl\<lparr>cm_conn := c\<rparr>, out)
           | Some True \<Rightarrow> transmit_main fuel eg sock (cl\<lparr>cm_conn := c\<rparr>, out @ [(packet, to)])))"

definition transmit_key_main ::
  "nat \<Rightarrow> 'c egress \<Rightarrow> (bytes \<Rightarrow> socket_addr \<Rightarrow> bool option) \<Rightarrow> scid \<Rightarrow> ('c, 'h) server_main \<Rightarrow> ('c, 'h) server_main option" where
  "transmit_key_main fuel eg sock k sm =
     (case dm_get (sm_clients sm) k of
        None \<Rightarrow> Some sm
      | Some cl \<Rightarrow>
          map_option (\<lambda>(cl1, out). \<lparr>sm_clients = dm_insert k cl1 (sm_clients sm), sm_outbox = out\<rparr>)
            (transmit_main fuel eg sock (cl, sm_outbox sm)))"

definition collect_main :: "('c, 'h) library_main \<Rightarrow> ('c, 'h) server_main \<Rightarrow> ('c, 'h) server_main" where
  "collect_main lb sm =
     sm\<lparr>sm_clients := filter (\<lambda>(_, cl). \<not> in_closed (lb_intake lb) (cm_conn cl)) (sm_clients sm)\<rparr>"

text \<open>An interrupted or failed poll is a panic.\<close>

definition turn_main ::
  "nat \<Rightarrow> ('c, 'h) library_main \<Rightarrow> (bytes \<Rightarrow> socket_addr \<Rightarrow> bool option) \<Rightarrow> poll_outcome
     \<Rightarrow> ('c, 'h) server_main \<Rightarrow> ('c, 'h) server_main option" where
  "turn_main fuel lb sock outcome sm =
     do {
       sm1 \<leftarrow> (case outcome of
          Poll_Ready reads \<Rightarrow> read_loop_main fuel lb reads sm
        | Poll_Timed_Out \<Rightarrow>
            Some (sm\<lparr>sm_clients := map (\<lambda>(k, cl). (k, cl\<lparr>cm_conn := in_timeout (lb_intake lb) (cm_conn cl)\<rparr>)) (sm_clients sm)\<rparr>)
        | _ \<Rightarrow> None);
       sm2 \<leftarrow> for_each (transmit_key_main fuel (lb_egress lb) sock) (map fst (sm_clients sm1)) sm1;
       Some (collect_main lb sm2)
     }"


subsection \<open>What its token proves\<close>

lemma length_ip_octets: "length (ip_octets src) = (case sock_ip src of IpV4 a \<Rightarrow> 4 | IpV6 a \<Rightarrow> 16)"
  by (simp add: ip_octets_def split: ip_addr.split)

text \<open>
  The token of \<open>main.rs\<close> holds no secret and no time: the tokens that are accepted from an address
  are exactly the constant, that address and any connection id. So what was minted is accepted with
  its id, and whoever knows his own address can write one.
\<close>

lemma main_token_exact:
  "validate_token_main src token = Some odcid \<longleftrightarrow> token = mint_token_main odcid src"
proof -
  have prefix: "length (ascii_bytes ''quiche'') = 6" by simp
  have "validate_token_main src token = Some odcid \<longleftrightarrow>
      6 \<le> length token \<and> take 6 token = ascii_bytes ''quiche'' \<and> length (ip_octets src) \<le> length (drop 6 token)
      \<and> take (length (ip_octets src)) (drop 6 token) = ip_octets src \<and> drop (length (ip_octets src)) (drop 6 token) = odcid"
    by (simp only: validate_token_main_def Let_def) (simp add: not_less)
  also have "\<dots> \<longleftrightarrow> token = mint_token_main odcid src"
  proof
    assume "token = mint_token_main odcid src"
    then show "6 \<le> length token \<and> take 6 token = ascii_bytes ''quiche'' \<and> length (ip_octets src) \<le> length (drop 6 token)
      \<and> take (length (ip_octets src)) (drop 6 token) = ip_octets src \<and> drop (length (ip_octets src)) (drop 6 token) = odcid"
      using prefix by (simp add: mint_token_main_def)
  qed (metis append_take_drop_id mint_token_main_def)
  finally show ?thesis .
qed

text \<open>
  A datagram opens a connection exactly when its ids are unknown, it is an Initial packet of a
  supported version, its destination id is as long as a retry id, quiche accepts it, and its token is
  one that its sender can write himself.
\<close>

theorem main_admission_by_address:
  "admit_main lb hdr from clients = Some (Admitted k c) \<longleftrightarrow>
     \<not> dm_contains clients (ph_dcid hdr) \<and> \<not> dm_contains clients (in_conn_id (lb_intake lb) (ph_dcid hdr))
     \<and> ph_type hdr = Packet_Initial \<and> in_version_supported (lb_intake lb) (ph_version hdr) \<and> k = ph_dcid hdr
     \<and> length (in_conn_id (lb_intake lb) (ph_dcid hdr)) = length (ph_dcid hdr)
     \<and> (\<exists>odcid. ph_token hdr = Some (mint_token_main odcid from) \<and> in_accept (lb_intake lb) (ph_dcid hdr) odcid from = Some c)"
proof -
  have full: "mint_token_main odcid from \<noteq> []" for odcid
    by (simp add: mint_token_main_def ascii_bytes_def)
  have minted: "validate_token_main from (mint_token_main odcid from) = Some odcid" for odcid
    by (simp add: main_token_exact)
  have accepted: "(\<exists>odcid. validate_token_main from token = Some odcid \<and> in_accept (lb_intake lb) (ph_dcid hdr) odcid from = Some c)
      \<longleftrightarrow> (\<exists>odcid. token = mint_token_main odcid from \<and> in_accept (lb_intake lb) (ph_dcid hdr) odcid from = Some c)" for token
    using minted by (auto simp: main_token_exact)
  show ?thesis
  proof (cases "ph_token hdr")
    case (Some token)
    then show ?thesis
      using accepted [of token, symmetric] full
      by (cases "validate_token_main from token") (auto simp: admit_main_def Let_def dest: sym)
  qed (auto simp: admit_main_def Let_def)
qed


subsection \<open>Answers\<close>

text \<open>
  The documented behaviour of quiche, with the bytes of a stream's body in \<open>wire\<close> and whether it was
  ended in \<open>ended\<close>: headers without the end flag and the stop of reading leave both alone.
\<close>

definition wire_laws ::
  "('c, 'h) library_main \<Rightarrow> ('c \<Rightarrow> stream_id \<Rightarrow> bytes) \<Rightarrow> ('c \<Rightarrow> stream_id \<Rightarrow> bool) \<Rightarrow> bool" where
  "wire_laws lb wire ended \<longleftrightarrow> body_law (lb_transport lb) wire ended
     \<and> (\<forall>i hs h c r h' c'. tr_send_response (lb_transport lb) i hs False (h, c) = (r, h', c') \<longrightarrow>
          wire c' = wire c \<and> ended c' = ended c)
     \<and> (\<forall>i c c'. lb_stop_reading lb i c = Some c' \<longrightarrow> wire c' = wire c \<and> ended c' = ended c)"

text \<open>
  What may happen to a connection: a stream becomes writable, a request arrives, or quiche works
  without being given body bytes.
\<close>

datatype label_main =
    Writes stream_id
  | Answers stream_id
  | Moves

inductive step_main ::
  "('c, 'h) library_main \<Rightarrow> ('c \<Rightarrow> stream_id \<Rightarrow> bytes) \<Rightarrow> ('c \<Rightarrow> stream_id \<Rightarrow> bool) \<Rightarrow> label_main
     \<Rightarrow> ('c, 'h) Client_main \<Rightarrow> ('c, 'h) Client_main \<Rightarrow> bool" for lb wire ended where
  step_writes: "handle_writable_main lb i cl = Some cl' \<Longrightarrow> step_main lb wire ended (Writes i) cl cl'"
| step_answers: "handle_request_main lb i request root cl = Some cl' \<Longrightarrow> step_main lb wire ended (Answers i) cl cl'"
| step_moves: "wire (cm_conn cl') = wire (cm_conn cl) \<Longrightarrow> ended (cm_conn cl') = ended (cm_conn cl) \<Longrightarrow>
     cm_partial_responses cl' = cm_partial_responses cl \<Longrightarrow> step_main lb wire ended Moves cl cl'"

inductive run_main ::
  "('c, 'h) library_main \<Rightarrow> ('c \<Rightarrow> stream_id \<Rightarrow> bytes) \<Rightarrow> ('c \<Rightarrow> stream_id \<Rightarrow> bool) \<Rightarrow> label_main list
     \<Rightarrow> ('c, 'h) Client_main \<Rightarrow> ('c, 'h) Client_main \<Rightarrow> bool" for lb wire ended where
  run_main_refl: "run_main lb wire ended [] cl cl"
| run_main_step: "run_main lb wire ended ls cl cl1 \<Longrightarrow> step_main lb wire ended l cl1 cl2 \<Longrightarrow>
     run_main lb wire ended (ls @ [l]) cl cl2"

text \<open>What a stream shows: the bytes accepted, whether it was ended, and the remainder that is kept.\<close>

definition view_main ::
  "('c \<Rightarrow> stream_id \<Rightarrow> bytes) \<Rightarrow> ('c \<Rightarrow> stream_id \<Rightarrow> bool) \<Rightarrow> stream_id \<Rightarrow> ('c, 'h) Client_main
     \<Rightarrow> bytes \<times> bool \<times> PartialResponse option" where
  "view_main wire ended i cl = (wire (cm_conn cl) i, ended (cm_conn cl) i, dm_get (cm_partial_responses cl) i)"


lemma with_h3_main_Some:
  assumes "with_h3_main f cl = Some (r, cl')"
  obtains h h' where "f (h, cm_conn cl) = (r, h', cm_conn cl')" "cm_partial_responses cl' = cm_partial_responses cl"
  using assms by (auto simp: with_h3_main_def split: option.splits prod.splits)

lemma view_simps [simp]:
  "view_main wire ended i (keep_main j p cl) =
     (if i = j then (wire (cm_conn cl) i, ended (cm_conn cl) i, Some p) else view_main wire ended i cl)"
  "view_main wire ended i (forget_main j cl) =
     (if i = j then (wire (cm_conn cl) i, ended (cm_conn cl) i, None) else view_main wire ended i cl)"
  "cm_conn (keep_main j p cl) = cm_conn cl" "cm_conn (forget_main j cl) = cm_conn cl"
  by (auto simp: view_main_def keep_main_def forget_main_def)

lemma headers_view:
  assumes "wire_laws lb wire ended" "with_h3_main (tr_send_response (lb_transport lb) i hs False) cl = Some (r, cl')"
  shows "view_main wire ended j cl' = view_main wire ended j cl"
  using assms by (auto simp: wire_laws_def view_main_def elim!: with_h3_main_Some)

lemma body_view:
  assumes laws: "wire_laws lb wire ended" and sent: "with_h3_main (tr_send_body (lb_transport lb) i data True) cl = Some (r, cl')"
  shows "j \<noteq> i \<Longrightarrow> view_main wire ended j cl' = view_main wire ended j cl"
    and "dm_get (cm_partial_responses cl') i = dm_get (cm_partial_responses cl) i"
    and "body_outcome r = Some n \<Longrightarrow> n \<le> length data \<and> wire (cm_conn cl') i = wire (cm_conn cl) i @ take n data
      \<and> (ended (cm_conn cl') i \<longrightarrow> ended (cm_conn cl) i \<or> n = length data)"
    and "body_outcome r = Some n \<Longrightarrow> n = length data \<Longrightarrow> data \<noteq> [] \<Longrightarrow> ended (cm_conn cl') i"
    and "\<not> is_ok r \<Longrightarrow> view_main wire ended i cl' = view_main wire ended i cl"
proof -
  have law: "body_law (lb_transport lb) wire ended" using laws by (simp add: wire_laws_def)
  obtain h h' where call: "tr_send_body (lb_transport lb) i data True (h, cm_conn cl) = (r, h', cm_conn cl')"
    and same: "cm_partial_responses cl' = cm_partial_responses cl"
    using sent by (rule with_h3_main_Some)
  note eff = body_lawD [OF law call]
  show "j \<noteq> i \<Longrightarrow> view_main wire ended j cl' = view_main wire ended j cl"
    using eff same by (simp add: view_main_def only_touches_def)
  show "dm_get (cm_partial_responses cl') i = dm_get (cm_partial_responses cl) i" using same by simp
  show "body_outcome r = Some n \<Longrightarrow> n \<le> length data \<and> wire (cm_conn cl') i = wire (cm_conn cl) i @ take n data
      \<and> (ended (cm_conn cl') i \<longrightarrow> ended (cm_conn cl) i \<or> n = length data)"
    using eff by (auto simp: body_outcome_def split: sum.splits h3_error.splits)
  show "body_outcome r = Some n \<Longrightarrow> n = length data \<Longrightarrow> data \<noteq> [] \<Longrightarrow> ended (cm_conn cl') i"
    using eff by (auto simp: body_outcome_def split: sum.splits h3_error.splits)
  show "\<not> is_ok r \<Longrightarrow> view_main wire ended i cl' = view_main wire ended i cl"
    using eff same by (auto simp: view_main_def split: sum.splits)
qed

text \<open>A step for another stream, and a writable stream without a remainder, change nothing of a stream.\<close>

lemma writable_elsewhere:
  assumes laws: "wire_laws lb wire ended" and run: "handle_writable_main lb j cl = Some cl'" and "i \<noteq> j"
  shows "view_main wire ended i cl' = view_main wire ended i cl"
proof -
  have rest: "view_main wire ended i cl2 = view_main wire ended i cl1" if "write_rest_main lb j resp cl1 = Some cl2" for resp cl1 cl2
    using that assms(3) body_view(1) [OF laws, of j _ _ _ _ i]
    by (auto simp: write_rest_main_def bind_eq_Some_conv split: option.splits if_splits)
  show ?thesis
    using run assms(3) rest headers_view [OF laws]
    by (fastforce simp: handle_writable_main_def bind_eq_Some_conv split: option.splits if_splits)
qed

lemma request_parts:
  assumes "handle_request_main lb i request root cl = Some cl'"
  obtains c1 headers body r cl1 where "lb_stop_reading lb i (cm_conn cl) = Some c1"
    and "build_response_main (lb_read lb) root request = Some (headers, body)"
    and "with_h3_main (tr_send_response (lb_transport lb) i headers False) (cl\<lparr>cm_conn := c1\<rparr>) = Some (r, cl1)"
    and "case r of
        Inl e \<Rightarrow> cl' = (if e = H3_StreamBlocked then keep_main i \<lparr>pr_headers = Some headers, pr_body = body, pr_written = 0\<rparr> cl1 else cl1)
      | Inr _ \<Rightarrow> \<exists>sent cl2. with_h3_main (tr_send_body (lb_transport lb) i body True) cl1 = Some (sent, cl2)
          \<and> cl' = (case body_outcome sent of
               None \<Rightarrow> cl2
             | Some n \<Rightarrow> if n < length body then keep_main i \<lparr>pr_headers = None, pr_body = body, pr_written = n\<rparr> cl2 else cl2)"
proof -
  obtain c1 headers body r cl1 where parts: "lb_stop_reading lb i (cm_conn cl) = Some c1"
      "build_response_main (lb_read lb) root request = Some (headers, body)"
      "with_h3_main (tr_send_response (lb_transport lb) i headers False) (cl\<lparr>cm_conn := c1\<rparr>) = Some (r, cl1)"
    using assms by (auto simp: handle_request_main_def bind_eq_Some_conv)
  moreover have "cm_http3_conn cl \<noteq> None" using parts(3) by (auto simp: with_h3_main_def split: option.splits)
  ultimately show thesis
    using that [of c1 headers body r cl1] assms
    by (cases r rule: sum.exhaust [case_names Inl Inr]; cases "projl r")
      (auto simp: handle_request_main_def bind_eq_Some_conv)
qed

lemma request_elsewhere:
  assumes laws: "wire_laws lb wire ended" and run: "handle_request_main lb j request root cl = Some cl'" and "i \<noteq> j"
  shows "view_main wire ended i cl' = view_main wire ended i cl"
  using run
proof (rule request_parts)
  fix c1 headers body r cl1
  assume stop: "lb_stop_reading lb j (cm_conn cl) = Some c1"
    and hdr: "with_h3_main (tr_send_response (lb_transport lb) j headers False) (cl\<lparr>cm_conn := c1\<rparr>) = Some (r, cl1)"
    and rest: "case r of
        Inl e \<Rightarrow> cl' = (if e = H3_StreamBlocked then keep_main j \<lparr>pr_headers = Some headers, pr_body = body, pr_written = 0\<rparr> cl1 else cl1)
      | Inr _ \<Rightarrow> \<exists>sent cl2. with_h3_main (tr_send_body (lb_transport lb) j body True) cl1 = Some (sent, cl2)
          \<and> cl' = (case body_outcome sent of
               None \<Rightarrow> cl2
             | Some n \<Rightarrow> if n < length body then keep_main j \<lparr>pr_headers = None, pr_body = body, pr_written = n\<rparr> cl2 else cl2)"
  have "view_main wire ended i (cl\<lparr>cm_conn := c1\<rparr>) = view_main wire ended i cl"
    using laws stop by (simp add: wire_laws_def view_main_def)
  then have "view_main wire ended i cl1 = view_main wire ended i cl" using headers_view [OF laws hdr] by simp
  then show ?thesis
    using rest assms(3) body_view(1) [OF laws, of j body cl1 _ _ i] by (auto split: sum.splits option.splits if_splits)
qed

text \<open>
  A stream on which a body is being sent: the bytes accepted are a prefix of the body; either the rest
  is kept, or all of it was accepted and the stream ended.
\<close>

definition sending_main ::
  "('c \<Rightarrow> stream_id \<Rightarrow> bytes) \<Rightarrow> ('c \<Rightarrow> stream_id \<Rightarrow> bool) \<Rightarrow> stream_id \<Rightarrow> bytes \<Rightarrow> nat \<Rightarrow> ('c, 'h) Client_main \<Rightarrow> bool" where
  "sending_main wire ended i body n cl \<longleftrightarrow> wire (cm_conn cl) i = take n body
     \<and> (case dm_get (cm_partial_responses cl) i of
          Some p \<Rightarrow> pr_body p = body \<and> pr_written p = n \<and> n < length body \<and> \<not> ended (cm_conn cl) i
        | None \<Rightarrow> n = length body \<and> ended (cm_conn cl) i)"

lemma sending_view: "view_main wire ended i cl' = view_main wire ended i cl \<Longrightarrow>
    sending_main wire ended i body n cl' = sending_main wire ended i body n cl"
  by (simp add: sending_main_def view_main_def split: option.split)

lemma rest_sending:
  assumes laws: "wire_laws lb wire ended" and soft: "no_hard_error (lb_transport lb) i"
    and st: "sending_main wire ended i body n cl" "dm_get (cm_partial_responses cl) i = Some resp"
    and run: "write_rest_main lb i resp cl = Some cl'"
  shows "\<exists>n'. n \<le> n' \<and> sending_main wire ended i body n' cl'"
proof -
  let ?cl = "keep_main i (resp\<lparr>pr_headers := None\<rparr>) cl"
  have resp: "pr_body resp = body" "pr_written resp = n" "n < length body" "\<not> ended (cm_conn cl) i" "wire (cm_conn cl) i = take n body"
    using st by (simp_all add: sending_main_def)
  have "slice_get n (length body) body = Some (drop n body)" using resp(3) by (simp add: slice_get_def)
  then obtain sent cl1 where send: "with_h3_main (tr_send_body (lb_transport lb) i (drop n body) True) ?cl = Some (sent, cl1)"
    and cl': "cl' = (case body_outcome sent of
               None \<Rightarrow> forget_main i cl1
             | Some m \<Rightarrow> if pr_written resp + m = length (pr_body resp) then forget_main i cl1
                 else keep_main i (resp\<lparr>pr_headers := None, pr_written := pr_written resp + m\<rparr>) cl1)"
    using run by (auto simp: write_rest_main_def resp bind_eq_Some_conv)
  have "body_outcome sent \<noteq> None"
    using soft send by (auto simp: no_hard_error_def with_h3_main_def split: option.splits prod.splits dest: spec) (metis fst_conv option.distinct(1))
  then obtain m where m: "body_outcome sent = Some m" by blast
  have eff: "m \<le> length (drop n body)" "wire (cm_conn cl1) i = take (n + m) body" "ended (cm_conn cl1) i \<longleftrightarrow> m = length (drop n body)"
    using body_view(3) [OF laws send m] body_view(4) [OF laws send m] resp by (auto simp: take_add)
  then have "sending_main wire ended i body (n + m) cl'"
    using resp(3) by (auto simp: cl' m sending_main_def keep_main_def forget_main_def resp(1,2))
  then show ?thesis by (intro exI [of _ "n + m"]) simp
qed


lemma writable_sending:
  assumes laws: "wire_laws lb wire ended" and soft: "no_hard_error (lb_transport lb) i"
    and st: "sending_main wire ended i body n cl" and run: "handle_writable_main lb i cl = Some cl'"
  shows "\<exists>n'. n \<le> n' \<and> sending_main wire ended i body n' cl'"
proof (cases "dm_get (cm_partial_responses cl) i")
  case None
  then show ?thesis using st run by (auto simp: handle_writable_main_def split: if_splits)
next
  case (Some resp)
  show ?thesis
  proof (cases "pr_headers resp")
    case None
    then show ?thesis
      using run Some rest_sending [OF laws soft st Some] by (auto simp: handle_writable_main_def split: if_splits)
  next
    case hdrs: (Some headers)
    obtain r cl1 where hdr: "with_h3_main (tr_send_response (lb_transport lb) i headers False) cl = Some (r, cl1)"
      and rest: "cl' = cl1 \<or> write_rest_main lb i resp cl1 = Some cl'"
      using run Some hdrs by (auto simp: handle_writable_main_def bind_eq_Some_conv split: if_splits)
    note same = headers_view [OF laws hdr, of i]
    then have "sending_main wire ended i body n cl1" "dm_get (cm_partial_responses cl1) i = Some resp"
      using st Some sending_view [OF same] by (simp_all add: view_main_def)
    then show ?thesis using rest rest_sending [OF laws soft] by blast
  qed
qed

lemma step_sending:
  assumes laws: "wire_laws lb wire ended" and soft: "no_hard_error (lb_transport lb) i"
    and st: "sending_main wire ended i body n cl" and step: "step_main lb wire ended l cl cl'" and other: "l \<noteq> Answers i"
  shows "\<exists>n'. n \<le> n' \<and> sending_main wire ended i body n' cl'"
  using step
proof cases
  case (step_writes j)
  then show ?thesis
    using writable_sending [OF laws soft st] writable_elsewhere [OF laws, of j cl cl' i] st sending_view by (cases "j = i") blast+
next
  case (step_answers j request root)
  then show ?thesis using request_elsewhere [OF laws step_answers(2), of i] other st sending_view by blast
next
  case step_moves
  then have "view_main wire ended i cl' = view_main wire ended i cl" by (simp add: view_main_def)
  then show ?thesis using st sending_view by blast
qed

lemma run_sending:
  assumes laws: "wire_laws lb wire ended" and soft: "no_hard_error (lb_transport lb) i"
    and "run_main lb wire ended ls cl cl'" "sending_main wire ended i body n cl" "Answers i \<notin> set ls"
  shows "\<exists>n'. n \<le> n' \<and> sending_main wire ended i body n' cl'"
  using assms(3-5)
proof (induction rule: run_main.induct)
  case (run_main_step ls cl cl1 l cl2)
  then obtain n1 where "n \<le> n1" "sending_main wire ended i body n1 cl1" by auto
  then show ?case using step_sending [OF laws soft _ run_main_step(2)] run_main_step(5) order_trans by (metis in_set_conv_decomp)
qed auto

text \<open>The answer to a request starts the sending, if its headers are taken now or later and it has a body.\<close>

lemma request_sending:
  assumes laws: "wire_laws lb wire ended" and soft: "no_hard_error (lb_transport lb) i"
    and fresh: "view_main wire ended i cl = ([], False, None)"
    and run: "handle_request_main lb i request root cl = Some cl'"
    and body: "build_response_main (lb_read lb) root request = Some (headers, body)" "body \<noteq> []"
    and taken: "\<And>hs hc. fst (tr_send_response (lb_transport lb) i hs False hc) \<in> {Ok (), Err H3_StreamBlocked}"
  shows "\<exists>n. sending_main wire ended i body n cl'"
  using run
proof (rule request_parts)
  fix c1 headers' body' r cl1
  assume stop: "lb_stop_reading lb i (cm_conn cl) = Some c1"
    and body': "build_response_main (lb_read lb) root request = Some (headers', body')"
    and hdr: "with_h3_main (tr_send_response (lb_transport lb) i headers' False) (cl\<lparr>cm_conn := c1\<rparr>) = Some (r, cl1)"
    and rest: "case r of
        Inl e \<Rightarrow> cl' = (if e = H3_StreamBlocked then keep_main i \<lparr>pr_headers = Some headers', pr_body = body', pr_written = 0\<rparr> cl1 else cl1)
      | Inr _ \<Rightarrow> \<exists>sent cl2. with_h3_main (tr_send_body (lb_transport lb) i body' True) cl1 = Some (sent, cl2)
          \<and> cl' = (case body_outcome sent of
               None \<Rightarrow> cl2
             | Some n \<Rightarrow> if n < length body' then keep_main i \<lparr>pr_headers = None, pr_body = body', pr_written = n\<rparr> cl2 else cl2)"
  have b: "body' = body" using body body' by simp
  have "view_main wire ended i (cl\<lparr>cm_conn := c1\<rparr>) = view_main wire ended i cl"
    using laws stop by (simp add: wire_laws_def view_main_def)
  then have new: "view_main wire ended i cl1 = ([], False, None)" using headers_view [OF laws hdr, of i] fresh by simp
  have "r \<in> {Ok (), Err H3_StreamBlocked}" using taken hdr by (auto elim!: with_h3_main_Some) (metis fst_conv)+
  then consider "r = Err H3_StreamBlocked" | "r = Ok ()" by blast
  then show ?thesis
  proof cases
    case 1
    then have "sending_main wire ended i body 0 cl'"
      using rest new body(2) by (auto simp: b sending_main_def keep_main_def view_main_def)
    then show ?thesis by blast
  next
    case 2
    then obtain sent cl2 where send: "with_h3_main (tr_send_body (lb_transport lb) i body True) cl1 = Some (sent, cl2)"
      and cl': "cl' = (case body_outcome sent of
               None \<Rightarrow> cl2
             | Some n \<Rightarrow> if n < length body then keep_main i \<lparr>pr_headers = None, pr_body = body, pr_written = n\<rparr> cl2 else cl2)"
      using rest b by auto
    have "body_outcome sent \<noteq> None"
      using soft send by (auto simp: no_hard_error_def elim!: with_h3_main_Some) (metis fst_conv option.distinct(1))
    then obtain n where n: "body_outcome sent = Some n" by blast
    have "n \<le> length body" "wire (cm_conn cl2) i = take n body" "ended (cm_conn cl2) i \<longleftrightarrow> n = length body"
      using body_view(3) [OF laws send n] body_view(4) [OF laws send n] body(2) new by (auto simp: view_main_def)
    then have "sending_main wire ended i body n cl'"
      using body_view(2) [OF laws send] new by (auto simp: cl' n sending_main_def keep_main_def view_main_def)
    then show ?thesis by blast
  qed
qed


text \<open>A stream that has nothing kept is left alone by every step but a request on it.\<close>

lemma quiet_step:
  assumes laws: "wire_laws lb wire ended" and step: "step_main lb wire ended l cl cl'" and "l \<noteq> Answers i"
    and quiet: "dm_get (cm_partial_responses cl) i = None"
  shows "view_main wire ended i cl' = view_main wire ended i cl"
  using step
proof cases
  case (step_writes j)
  then show ?thesis
    using quiet writable_elsewhere [OF laws step_writes(2), of i]
    by (cases "j = i") (auto simp: handle_writable_main_def split: if_splits)
next
  case (step_answers j request root)
  then show ?thesis using assms(3) request_elsewhere [OF laws step_answers(2), of i] by auto
qed (simp add: view_main_def)

lemma quiet_run:
  assumes laws: "wire_laws lb wire ended" and run: "run_main lb wire ended ls cl cl'" and "Answers i \<notin> set ls"
    and quiet: "dm_get (cm_partial_responses cl) i = None"
  shows "view_main wire ended i cl' = view_main wire ended i cl"
  using run assms(3,4)
proof (induction rule: run_main.induct)
  case (run_main_step ls cl cl1 l cl2)
  then have same: "view_main wire ended i cl1 = view_main wire ended i cl" by auto
  then have "dm_get (cm_partial_responses cl1) i = None" using run_main_step.prems by (simp add: view_main_def)
  then show ?case using quiet_step [OF laws run_main_step.hyps(2), of i] run_main_step.prems same by auto
qed simp

text \<open>
  An answer without a body, such as the 405 for anything but GET, ends its stream by an empty send.
  When quiche answers Done to it, nothing is kept, and however the run goes on the stream never ends.
\<close>

theorem main_empty_answer_never_ends:
  assumes "wire_laws lb wire ended" "view_main wire ended i cl = ([], False, None)"
    and "handle_request_main lb i request root cl = Some cl1"
    and "build_response_main (lb_read lb) root request = Some (headers, [])"
    and "\<And>hs hc. fst (tr_send_response (lb_transport lb) i hs False hc) = Ok ()"
    and "\<And>hc. fst (tr_send_body (lb_transport lb) i [] True hc) = Err H3_Done"
    and "run_main lb wire ended ls cl1 cl2" "Answers i \<notin> set ls"
  shows "dm_get (cm_partial_responses cl2) i = None \<and> \<not> ended (cm_conn cl2) i"
proof -
  have "view_main wire ended i cl1 = ([], False, None)"
    using assms(3)
  proof (rule request_parts)
    fix c1 headers' body' r cl'
    assume stop: "lb_stop_reading lb i (cm_conn cl) = Some c1"
      and body': "build_response_main (lb_read lb) root request = Some (headers', body')"
      and hdr: "with_h3_main (tr_send_response (lb_transport lb) i headers' False) (cl\<lparr>cm_conn := c1\<rparr>) = Some (r, cl')"
      and rest: "case r of
          Inl e \<Rightarrow> cl1 = (if e = H3_StreamBlocked then keep_main i \<lparr>pr_headers = Some headers', pr_body = body', pr_written = 0\<rparr> cl' else cl')
        | Inr _ \<Rightarrow> \<exists>sent cl2. with_h3_main (tr_send_body (lb_transport lb) i body' True) cl' = Some (sent, cl2)
            \<and> cl1 = (case body_outcome sent of
                 None \<Rightarrow> cl2
               | Some n \<Rightarrow> if n < length body' then keep_main i \<lparr>pr_headers = None, pr_body = body', pr_written = n\<rparr> cl2 else cl2)"
    have "view_main wire ended i (cl\<lparr>cm_conn := c1\<rparr>) = view_main wire ended i cl"
      using assms(1) stop by (simp add: wire_laws_def view_main_def)
    then have new: "view_main wire ended i cl' = ([], False, None)" using headers_view [OF assms(1) hdr, of i] assms(2) by simp
    have "r = Ok ()" using assms(5) hdr by (auto elim!: with_h3_main_Some) (metis fst_conv)
    then obtain sent where send: "with_h3_main (tr_send_body (lb_transport lb) i [] True) cl' = Some (sent, cl1)"
      using rest assms(4) body' by (auto split: option.splits)
    have "sent = Err H3_Done" using assms(6) send by (auto elim!: with_h3_main_Some) (metis fst_conv)
    then show ?thesis using body_view(5) [OF assms(1) send] new by simp
  qed
  then show ?thesis using quiet_run [OF assms(1,7,8)] by (simp add: view_main_def)
qed


subsection \<open>Witnesses\<close>

text \<open>A connection that carries stream 0 and takes at most eight bytes at once.\<close>

type_synonym wire_state = "bytes \<times> bool"

definition sample_wire :: "wire_state \<Rightarrow> stream_id \<Rightarrow> bytes" where
  "sample_wire c i = (if i = 0 then fst c else [])"

definition sample_ended :: "wire_state \<Rightarrow> stream_id \<Rightarrow> bool" where
  "sample_ended c i \<longleftrightarrow> i = 0 \<and> snd c"

definition sample_send :: "bool \<Rightarrow> stream_id \<Rightarrow> bytes \<Rightarrow> bool \<Rightarrow> unit \<times> wire_state \<Rightarrow> (h3_error + usize) \<times> unit \<times> wire_state" where
  "sample_send blocked i data fin hc =
     (let n = min 8 (length data); (w, e) = snd hc in
      if blocked \<or> i \<noteq> 0 then (Err H3_Done, hc)
      else (Ok n, (), w @ take n data, e \<or> fin \<and> n = length data))"

definition sample_library :: "bool \<Rightarrow> (wire_state, unit) library_main" where
  "sample_library blocked = \<lparr>lb_transport = \<lparr>tr_source_id = (\<lambda>_. [1]), tr_trace_id = (\<lambda>_. ''c''), tr_writable = (\<lambda>_. [0]),
       tr_stream_writable = (\<lambda>_ _ c. (Some True, c)), tr_stream_shutdown = (\<lambda>_ _ _ c. c),
       tr_send_response_with_priority = (\<lambda>_ _ _ _ hc. (Ok (), hc)), tr_send_response = (\<lambda>_ _ _ hc. (Ok (), hc)),
       tr_send_additional_headers = (\<lambda>_ _ _ _ hc. (Ok (), hc)),
       tr_send_body = sample_send blocked\<rparr>,
     lb_intake = \<lparr>in_header = (\<lambda>_. None), in_conn_id = (\<lambda>k. k), in_version_supported = (\<lambda>_. True),
       in_negotiate_version = (\<lambda>_ _. None), in_retry = (\<lambda>_ _ _ _ _. None), in_accept = (\<lambda>_ _ _. None),
       in_recv = (\<lambda>_ _ c. (True, c)), in_ready = (\<lambda>_. True), in_closed = (\<lambda>_. False), in_timeout = (\<lambda>c. c),
       in_h3_new = (\<lambda>c. (Some (), c)), in_poll = (\<lambda>hc. (Err H3_Done, hc)), in_recv_body = (\<lambda>_ hc. (None, hc))\<rparr>,
     lb_egress = \<lparr>eg_send = (\<lambda>c. (Send_Done, c)), eg_close = (\<lambda>c. c), eg_path_stats = (\<lambda>_. None)\<rparr>,
     lb_stop_reading = (\<lambda>_ c. Some c),
     lb_read = (\<lambda>p. if p = ''examples/root/a'' then Some [1, 2, 3, 4, 5, 6, 7, 8, 9, 10] else None)\<rparr>"

definition sample_client :: "(wire_state, unit) Client_main" where
  "sample_client = \<lparr>cm_conn = ([], False), cm_http3_conn = Some (), cm_partial_responses = []\<rparr>"

lemma sample_laws: "wire_laws (sample_library blocked) sample_wire sample_ended"
  by (auto simp: wire_laws_def body_law_def only_touches_def sample_library_def sample_send_def sample_wire_def sample_ended_def
      Let_def split: if_splits)

lemma sample_soft: "no_hard_error (lb_transport (sample_library blocked)) 0"
  by (auto simp: no_hard_error_def sample_library_def sample_send_def body_outcome_def Let_def split: prod.split)

lemma sample_answer:
  "build_response_main (lb_read (sample_library blocked)) ''examples/root'' [header '':method'' ''GET'', header '':path'' ''/a'']
   = Some ([header '':status'' ''200'', header ''server'' ''quiche'', header ''content-length'' ''10''], [1, 2, 3, 4, 5, 6, 7, 8, 9, 10])"
  "build_response_main (lb_read (sample_library blocked)) ''examples/root'' [header '':method'' ''POST'']
   = Some ([header '':status'' ''405'', header ''server'' ''quiche'', header ''content-length'' ''0''], [])"
  by (simp_all add: sample_library_def) code_simp+

lemma sample_sent:
  "handle_request_main (sample_library False) 0 [header '':method'' ''GET'', header '':path'' ''/a''] ''examples/root'' sample_client
   = Some \<lparr>cm_conn = ([1, 2, 3, 4, 5, 6, 7, 8], False), cm_http3_conn = Some (),
       cm_partial_responses = [(0, \<lparr>pr_headers = None, pr_body = [1, 2, 3, 4, 5, 6, 7, 8, 9, 10], pr_written = 8\<rparr>)]\<rparr>"
  "handle_writable_main (sample_library False) 0 \<lparr>cm_conn = ([1, 2, 3, 4, 5, 6, 7, 8], False), cm_http3_conn = Some (),
       cm_partial_responses = [(0, \<lparr>pr_headers = None, pr_body = [1, 2, 3, 4, 5, 6, 7, 8, 9, 10], pr_written = 8\<rparr>)]\<rparr>
   = Some \<lparr>cm_conn = ([1, 2, 3, 4, 5, 6, 7, 8, 9, 10], True), cm_http3_conn = Some (), cm_partial_responses = []\<rparr>"
  "\<exists>cl1. handle_request_main (sample_library True) 0 [header '':method'' ''POST''] ''examples/root'' sample_client = Some cl1"
proof -
  show "handle_request_main (sample_library False) 0 [header '':method'' ''GET'', header '':path'' ''/a''] ''examples/root'' sample_client
   = Some \<lparr>cm_conn = ([1, 2, 3, 4, 5, 6, 7, 8], False), cm_http3_conn = Some (),
       cm_partial_responses = [(0, \<lparr>pr_headers = None, pr_body = [1, 2, 3, 4, 5, 6, 7, 8, 9, 10], pr_written = 8\<rparr>)]\<rparr>"
    by (simp add: handle_request_main_def sample_answer with_h3_main_def sample_client_def)
      (simp add: sample_library_def sample_send_def body_outcome_def keep_main_def dm_insert_def with_h3_main_def)
  show "handle_writable_main (sample_library False) 0 \<lparr>cm_conn = ([1, 2, 3, 4, 5, 6, 7, 8], False), cm_http3_conn = Some (),
       cm_partial_responses = [(0, \<lparr>pr_headers = None, pr_body = [1, 2, 3, 4, 5, 6, 7, 8, 9, 10], pr_written = 8\<rparr>)]\<rparr>
   = Some \<lparr>cm_conn = ([1, 2, 3, 4, 5, 6, 7, 8, 9, 10], True), cm_http3_conn = Some (), cm_partial_responses = []\<rparr>"
    by (simp add: handle_writable_main_def write_rest_main_def dm_get_def slice_get_def with_h3_main_def)
      (simp add: sample_library_def sample_send_def body_outcome_def keep_main_def forget_main_def dm_insert_def dm_remove_def)
  show "\<exists>cl1. handle_request_main (sample_library True) 0 [header '':method'' ''POST''] ''examples/root'' sample_client = Some cl1"
    by (simp add: handle_request_main_def sample_answer with_h3_main_def sample_client_def)
      (simp add: sample_library_def sample_send_def with_h3_main_def)
qed

lemma run_main_one: "step_main lb wire ended l cl cl' \<Longrightarrow> run_main lb wire ended [l] cl cl'"
  using run_main_step [OF run_main_refl] by fastforce


lemma main_empty_answer_never_ends_witness:
  "\<exists>cl1. handle_request_main (sample_library True) 0 [header '':method'' ''POST''] ''examples/root'' sample_client = Some cl1
     \<and> \<not> sample_ended (cm_conn cl1) 0"
proof -
  obtain cl1 where cl1: "handle_request_main (sample_library True) 0 [header '':method'' ''POST''] ''examples/root'' sample_client = Some cl1"
    using sample_sent(3) by blast
  have "dm_get (cm_partial_responses cl1) 0 = None \<and> \<not> sample_ended (cm_conn cl1) 0"
    by (rule main_empty_answer_never_ends [OF sample_laws _ cl1 sample_answer(2) _ _ run_main_refl])
      (simp_all add: view_main_def sample_client_def sample_wire_def sample_ended_def sample_library_def sample_send_def Let_def split: prod.split)
  then show ?thesis using cl1 by blast
qed

end
