(* ===== verification/ExampleServer.thy ===== *)
theory ExampleServer
  imports RequestLifecycle
begin

section \<open>The example server\<close>

text \<open>
  Model of \<open>bin_test/main_server_test.rs\<close>, the binary of the package: its handlers, its middleware,
  its routes and its error form, given to the library; and the user sessions it brings, which know
  nobody. \<open>info!\<close> output has no counterpart. What it answers is proved through all components.
\<close>

datatype example_handler = Handler_0 | Handler_1

datatype example_middleware = Middle_Ware_0

fun example_body :: "example_handler \<Rightarrow> bytes" where
  "example_body Handler_0 = replicate 23 9"
| "example_body Handler_1 = replicate 1888835 0"

definition example_call :: "example_handler \<Rightarrow> FinishedEvent \<Rightarrow> unit \<Rightarrow> RouteResponse \<Rightarrow> Response \<times> unit" where
  "example_call h ev app_state current_status_response = (respond (OK200_DATA (example_body h)) ev, app_state)"

definition example_middleware_call :: "(example_middleware, unit) middleware_call" where
  "example_middleware_call m headers app_state = (Ok (Continue headers), app_state)"

definition example_routes :: "(example_handler, example_middleware, unit) registration list" where
  "example_routes =
     [Route ''/large_data'' POST \<lparr>data_management = Storage File\<rparr> (\<lambda>b. fb_handler Handler_0 (fb_middleware Middle_Ware_0 b)),
      Route ''/test'' GET route_config_default (\<lambda>b. fb_middleware Middle_Ware_0 (fb_handler Handler_1 b)),
      Route ''/test_mini'' GET route_config_default (\<lambda>b. fb_middleware Middle_Ware_0 (fb_handler Handler_0 b))]"

definition example_builder :: "(example_handler, example_middleware, unit) RouteManagerBuilder option" where
  "example_builder =
     map_option (set_error_handler Error404 [header ''type'' ''bad request'']) (register_all example_routes manager_builder_new)"

definition example_env :: "(example_handler, example_middleware, unit, unit) handler_env" where
  "example_env = \<lparr>he_manager = manager_build (the example_builder), he_call = example_call, he_files = (\<lambda>_. None),
     he_streams = Some []\<rparr>"

definition example_sessions :: "(user_uuid \<times> bytes \<times> stream_id) list sessions_impl" where
  "example_sessions = \<lparr>us_new = [], us_ids = (\<lambda>_ _. []), us_all = (\<lambda>_. []), us_register = (\<lambda>_ _ t. t),
     us_remove = (\<lambda>_ t. (None, t)), us_connected = (\<lambda>_ _. False)\<rparr>"

definition example_config :: ServerConfigBuilder where
  "example_config =
     set_file_storage_path ''/home/camille/.temp_server/''
       (set_cert_path ''/home/camille/Documents/rust/faces_http3_server/cert.pem''
         (set_key_path ''/home/camille/Documents/rust/faces_http3_server/key.pem'' (http3_server_new ''192.168.1.22:3000'')))"

text \<open>Its configuration is complete: only its address and its storage directory can fail.\<close>

lemma example_config_builds:
  "config_build parse create_dir_all example_config \<noteq> None
     \<longleftrightarrow> parse ''192.168.1.22:3000'' \<noteq> None \<and> create_dir_all ''/home/camille/.temp_server/'' = None"
proof -
  have "to_str ''/home/camille/Documents/rust/faces_http3_server/cert.pem'' \<noteq> None"
    "to_str ''/home/camille/Documents/rust/faces_http3_server/key.pem'' \<noteq> None"
    by code_simp+
  then show ?thesis
    by (auto simp: config_build_def try_build_def ok_or_def example_config_def set_file_storage_path_def set_cert_path_def
        set_key_path_def http3_server_new_def set_address_def server_config_new_def split: option.splits)
qed


subsection \<open>Its routes\<close>

lemmas route_building = fb_handler_def fb_middleware_def route_form_new_def form_builder_new_def

lemma example_registered:
  "\<exists>b. register_all example_routes manager_builder_new = Some b" "list_all registration_ok example_routes"
proof -
  have "register_all example_routes manager_builder_new \<noteq> None"
    by (simp add: example_routes_def manager_builder_new_def add_route_def Let_def add_global_middlewares_def route_building
        form_build_def add_new_route_def route_eq_def)
  then show "\<exists>b. register_all example_routes manager_builder_new = Some b" by auto
  show "list_all registration_ok example_routes"
    by (simp add: example_routes_def keeps_identity_def route_building)
qed

text \<open>An error form changes neither the routes nor the handlers.\<close>

lemma manager_of_errors:
  "rm_routes (manager_build (set_error_handler t extra b)) = rm_routes (manager_build b)"
  "rm_dispatcher (manager_build (set_error_handler t extra b)) = rm_dispatcher (manager_build b)"
  "rm_verifier (manager_build (set_error_handler t extra b)) = rm_verifier (manager_build b)"
  by (simp_all add: manager_build_def set_error_handler_def)

lemma example_manager:
  obtains b where "register_all example_routes manager_builder_new = Some b"
    "he_manager example_env = manager_build (set_error_handler Error404 [header ''type'' ''bad request''] b)"
  using example_registered(1) by (auto simp: example_env_def example_builder_def)

definition example_get :: "string \<Rightarrow> example_handler \<Rightarrow> bool" where
  "example_get path h \<longleftrightarrow> path = ''/test'' \<and> h = Handler_1 \<or> path = ''/test_mini'' \<and> h = Handler_0"

definition example_form :: "string \<Rightarrow> example_handler \<Rightarrow> (example_handler, example_middleware, unit) RouteForm" where
  "example_form path h = asked_route [] path GET route_config_default (\<lambda>b. fb_middleware Middle_Ware_0 (fb_handler h b))"

lemma example_form_sel:
  "rf_middlewares (example_form path h) = [Middle_Ware_0]" "rf_handlers (example_form path h) = [h]"
  "rf_method (example_form path h) = GET" "data_management_type (example_form path h) = Some (Storage InMemory)"
  by (simp_all add: example_form_def asked_route_def Let_def route_building data_management_type_def route_config_default_def
      data_management_default_def body_storage_default_def)

lemma example_asked: "example_get path h \<Longrightarrow> asked [] example_routes path = [example_form path h]"
  by (auto simp: example_get_def example_routes_def example_form_def)

lemma example_plain_route:
  assumes "example_get path h"
  shows "plain_route example_env path GET (example_form path h)"
proof -
  obtain b where b: "register_all example_routes manager_builder_new = Some b"
    "he_manager example_env = manager_build (set_error_handler Error404 [header ''type'' ''bad request''] b)"
    by (rule example_manager)
  have "get_routes_from_path_and_method_b path GET (manager_build b) = Some (example_form path h)"
    using route_lookup_found [OF b(1) example_registered(2), of path GET "example_form path h"]
    by (simp add: example_asked [OF assms] example_form_sel)
  then have "get_routes_from_path_and_method_b path GET (he_manager example_env) = Some (example_form path h)"
    by (simp add: b(2) get_routes_from_path_and_method_b_def get_routes_from_path_def manager_of_errors)
  moreover have "parse_args path = (path, None)" using assms by (auto simp: example_get_def parse_args_def)
  ultimately show ?thesis
    by (auto simp: plain_route_def example_form_sel rh_lookup_eq [symmetric] rh_get_routes_from_path_and_method_def
        get_routes_from_path_and_method_b_def split: option.splits)
qed

lemma example_dispatch:
  assumes "example_get path h" "fe_path ev = path" "fe_method ev = GET"
  shows "dispatch_finished (he_call example_env) (rm_dispatcher (he_manager example_env)) ev w = Some (OK200_DATA (example_body h), ())"
proof -
  obtain b where b: "register_all example_routes manager_builder_new = Some b"
    "he_manager example_env = manager_build (set_error_handler Error404 [header ''type'' ''bad request''] b)"
    by (rule example_manager)
  show ?thesis
    using dispatch_found [OF b(1) example_registered(2), of example_call ev w] assms
    by (simp add: b(2) manager_of_errors example_asked example_form_sel) (simp add: example_env_def example_call_def respond_def)
qed

lemma example_accepted_path:
  assumes "example_get path h"
  shows "is_accepted_path (rm_verifier (he_manager example_env)) path"
proof -
  obtain b where b: "register_all example_routes manager_builder_new = Some b"
    "he_manager example_env = manager_build (set_error_handler Error404 [header ''type'' ''bad request''] b)"
    by (rule example_manager)
  have "routes_at (rb_routes b) path = [example_form path h]"
    using register_all_routes [OF b(1) example_registered(2) routes_ok_new, of path]
    by (simp add: manager_builder_new_def routes_at_def example_asked [OF assms])
  then have "path \<in> fst ` set (rb_routes b)"
    by (force simp: routes_at_def dm_get_def dest: map_of_SomeD split: option.splits)
  then show ?thesis by (simp add: b(2) manager_of_errors) (auto simp: manager_build_def is_accepted_path_def verifier_new_def split: option.split)
qed


subsection \<open>Its answers\<close>

abbreviation example_request :: "string \<Rightarrow> h3_header list" where
  "example_request path \<equiv> [header '':method'' ''GET'', header '':path'' path]"


definition example_start :: "(unit, unit, unit) server" where
  "example_start = \<lparr>sv_requests = requests_new (pool_new 8), sv_station = station_new, sv_app = ()\<rparr>"

lemma example_start_quiet: "quiet i c (pipeline_new example_start :: (example_middleware, unit, unit, unit) pipeline)"
  by (simp add: quiet_def pipeline_new_def injection_buffer_new_def ib_live_def req_live_def example_start_def
      requests_new_def dm_contains_def station_new_def disp_inv_new)


end
