(* ===== verification/FileRequests.thy ===== *)
theory FileRequests
  imports WriterThreads RouteHandler
begin

section \<open>Requests kept in files\<close>

text \<open>
  A request that is stored in a file, from its headers to its end and beyond: every operation of the
  table of requests and every turn of the threads of \<open>WriterThreads\<close>, in any order. The file, what
  waits for its writer thread and, before the first packet after the headers, what the table still
  keeps of early packets are at every moment the body received so far.
\<close>

subsection \<open>Everything that happens to requests and files\<close>

datatype 'l disk_op =
    Open_Request path_buf io_env conn_id stream_id H3Method "DataManagement option" "'l option"
      "h3_header list" string "usize option" bool
  | Treat_Headers path_buf io_env stream_id conn_id H3Method string "h3_header list" "usize option"
      "DataManagement option" "'l option"
  | Early_Request path_buf io_env conn_id stream_id "DataManagement option" "'l option" bool
  | Body_Packet conn_id scid stream_id bytes bool
  | Read_Status stream_id conn_id
  | Progress_Header stream_id conn_id
  | Finish_Request conn_id scid stream_id
  | Drop_Request conn_id stream_id
  | Drop_Connection conn_id
  | Threads thread_op

fun disk_step ::
  "(usize \<Rightarrow> usize \<Rightarrow> 'f) \<Rightarrow> ('f \<Rightarrow> usize) \<Rightarrow> 'l disk_op \<Rightarrow> ('l, 'f) requests_state \<Rightarrow> ('l, 'f) requests_state" where
  "disk_step ratio percent (Open_Request storage env c i m dm sub hs path len e) st
     = add_partial_request storage env c i m dm sub hs path len e st"
| "disk_step ratio percent (Treat_Headers storage env i c m path hs len dm sub) st
     = rh_complete_request_entry_in_table storage env i c m path hs len dm sub st"
| "disk_step ratio percent (Early_Request storage env c i dm sub e) st
     = add_partial_request_before_header_treatment storage env c i dm sub e st"
| "disk_step ratio percent (Body_Packet c s i p e) st = snd (write_body_packet c s i p e st)"
| "disk_step ratio percent (Read_Status i c) st = snd (get_reception_status_infos ratio percent i c st)"
| "disk_step ratio percent (Progress_Header i c) st = set_intermediate_headers_send i c st"
| "disk_step ratio percent (Finish_Request c s i) st = snd (build_route_event c s i OnFinished_Type st)"
| "disk_step ratio percent (Drop_Request c i) st = discard_request c i st"
| "disk_step ratio percent (Drop_Connection c) st = discard_connection c st"
| "disk_step ratio percent (Threads x) st = thread_step x st"

text \<open>
  What makes an operation a disturbance for the file \<open>h\<close>: it opens a new file under that handle, or
  the application writes through the handle. And what ends the reception of a request: its end, its
  loss, or a second treatment of its headers, which gives it another file.
\<close>

definition opens_as :: "uuid \<Rightarrow> io_env \<Rightarrow> DataManagement option \<Rightarrow> bool" where
  "opens_as h env dm \<longleftrightarrow> dm = Some (Storage File) \<and> env_handle env = h"

fun disturbs :: "uuid \<Rightarrow> 'l disk_op \<Rightarrow> bool" where
  "disturbs h (Open_Request storage env c i m dm sub hs path len e) \<longleftrightarrow> opens_as h env dm"
| "disturbs h (Treat_Headers storage env i c m path hs len dm sub) \<longleftrightarrow> opens_as h env dm"
| "disturbs h (Early_Request storage env c i dm sub e) \<longleftrightarrow> opens_as h env dm"
| "disturbs h (Threads (Use_Handle h' x)) \<longleftrightarrow> h' = h \<and> \<not> leaves_content x"
| "disturbs h _ \<longleftrightarrow> False"

fun ends_reception :: "conn_id \<Rightarrow> stream_id \<Rightarrow> 'l disk_op \<Rightarrow> bool" where
  "ends_reception c i (Finish_Request c' s i') \<longleftrightarrow> c' = c \<and> i' = i"
| "ends_reception c i (Drop_Request c' i') \<longleftrightarrow> c' = c \<and> i' = i"
| "ends_reception c i (Drop_Connection c') \<longleftrightarrow> c' = c"
| "ends_reception c i (Treat_Headers storage env i' c' m path hs len dm sub) \<longleftrightarrow> c' = c \<and> i' = i"
| "ends_reception c i _ \<longleftrightarrow> False"

fun body_of :: "conn_id \<Rightarrow> stream_id \<Rightarrow> 'l disk_op \<Rightarrow> bytes" where
  "body_of c i (Body_Packet c' s i' p e) = (if c' = c \<and> i' = i then p else [])"
| "body_of c i _ = []"

definition body_received :: "conn_id \<Rightarrow> stream_id \<Rightarrow> 'l disk_op list \<Rightarrow> bytes" where
  "body_received c i ops = concat (map (body_of c i) ops)"


subsection \<open>A handle that names nothing yet\<close>

definition handle_unused :: "uuid \<Rightarrow> ('l, 'f) requests_state \<Rightarrow> bool" where
  "handle_unused h st \<longleftrightarrow> (\<forall>k r. dm_get (table st) k = Some r \<longrightarrow> pq_file_opened r \<noteq> Some h)
     \<and> (\<forall>q \<in> set (worker_queues (pool st)). \<forall>x \<in> set q. fst x \<noteq> h)"

lemma waits_unused:
  assumes "handle_unused h st" "pool_inv (pool st)" "n < workers_amount (pool st)"
  shows "waits_in n h [] (pool st)"
proof -
  have "filter (\<lambda>(h', _). h' = h) q = []" if "q \<in> set (worker_queues (pool st))" for q
    using assms(1) that by (fastforce simp: handle_unused_def filter_empty_conv)
  then have "items_of h (pool st) = replicate (length (worker_queues (pool st))) []"
    by (auto simp: items_of_def intro!: nth_equalityI)
  then show ?thesis
    using assms(2,3) pool_inv_D [OF assms(2)] by (auto simp: waits_in_def intro!: nth_equalityI simp: nth_list_update)
qed


subsection \<open>A file and its request\<close>

text \<open>
  While a request with body so far \<open>bs\<close> is received, the early packets \<open>pre\<close> that the table keeps, its
  file and the items that wait for it are \<open>bs\<close>, unless the file failed or the request is already
  longer than announced.
\<close>

definition file_follows :: "uuid \<Rightarrow> bytes \<Rightarrow> bytes \<Rightarrow> ('l, 'f) requests_state \<Rightarrow> bool" where
  "file_follows h pre bs st \<longleftrightarrow> (\<exists>cell q. dm_get (files st) h = Some cell \<and> cell_inv cell
     \<and> waits_in (associated_worker_index cell) h q (pool st)
     \<and> (failure cell = None \<longrightarrow> pre @ content cell @ awaiting h (pool st) = bs
          \<or> length_known cell \<and> file_length cell < length bs))"

definition file_final :: "uuid \<Rightarrow> bytes \<Rightarrow> ('l, 'f) requests_state \<Rightarrow> bool" where
  "file_final h bs st \<longleftrightarrow> (\<exists>cell q. dm_get (files st) h = Some cell \<and> cell_inv cell \<and> settled cell
     \<and> waits_in (associated_worker_index cell) h q (pool st)
     \<and> (failure cell = None \<longrightarrow> content cell @ awaiting h (pool st) = bs
          \<and> length_known cell \<and> file_length cell = length bs))"

text \<open>An entry holds the file \<open>h\<close>.\<close>

definition holds :: "uuid \<Rightarrow> req_id \<Rightarrow> ('l, 'f) requests_state \<Rightarrow> bool" where
  "holds h k st \<longleftrightarrow> (\<exists>r. dm_get (table st) k = Some r \<and> pq_file_opened r = Some h)"

text \<open>A step that leaves a file and its items alone.\<close>

definition same_file :: "uuid \<Rightarrow> ('l, 'f) requests_state \<Rightarrow> ('l, 'f) requests_state \<Rightarrow> bool" where
  "same_file h st st' \<longleftrightarrow> dm_get (files st') h = dm_get (files st) h
     \<and> (\<forall>n q. waits_in n h q (pool st) \<longrightarrow> waits_in n h q (pool st'))"

lemma same_file_follows: "same_file h st st' \<Longrightarrow> file_follows h pre bs st \<Longrightarrow> file_follows h pre bs st'"
  by (fastforce simp: same_file_def file_follows_def awaiting_in)

lemma same_file_final: "same_file h st st' \<Longrightarrow> file_final h bs st \<Longrightarrow> file_final h bs st'"
  by (fastforce simp: same_file_def file_final_def awaiting_in)

text \<open>One call on the file itself.\<close>

lemma grown_follows:
  assumes "dm_get (files st) h = Some cell" "file_grows [] cell cell'" "file_follows h pre bs st"
    and "dm_get (files st') h = Some cell'" "pool st' = pool st"
  shows "file_follows h pre bs st'"
  using assms by (fastforce simp: file_follows_def file_grows_def same_length_def)

lemma grown_final:
  assumes "dm_get (files st) h = Some cell" "file_grows [] cell cell'" "file_final h bs st"
    and "dm_get (files st') h = Some cell'" "pool st' = pool st"
  shows "file_final h bs st'"
  using assms by (fastforce simp: file_final_def file_grows_def same_length_def)

text \<open>A turn of a writer thread moves an item from its queue to the file.\<close>

lemma writer_turn_cases:
  assumes "waits_in n h q (pool st)"
  shows "same_file h st (writer_turn k st)
    \<or> (\<exists>i d q'. q = (h, i, d) # q' \<and> waits_in n h q' (pool (writer_turn k st))
         \<and> dm_get (files (writer_turn k st)) h = map_option (\<lambda>cell. snd (write_on_disk d cell)) (dm_get (files st) h))"
proof (cases "list_get k (worker_queues (pool st))")
  case (Some items)
  show ?thesis
  proof (cases items)
    case (Cons item rest)
    obtain h' i d where item: "item = (h', i, d)" by (cases item)
    have turn: "pool (writer_turn k st) = (pool st)\<lparr>worker_queues := (worker_queues (pool st))[k := rest]\<rparr>"
      using Some by (simp add: writer_turn_def Cons item manage_event_def)
    have pop: "waits_in n' h q'' (pool st) \<Longrightarrow> if h' = h
       then k = n' \<and> (\<exists>q'. q'' = (h, i, d) # q' \<and> waits_in n' h q' (pool (writer_turn k st)))
       else waits_in n' h q'' (pool (writer_turn k st))" for n' q''
      using waits_pop [of n' h q'' "pool st" k h' "(i, d)" rest] Some
      unfolding turn Cons item by simp
    have fl: "files (writer_turn k st) = dm_modify h' (\<lambda>cell. snd (write_on_disk d cell)) (files st)"
      using Some by (simp add: writer_turn_def Cons item manage_event_def)
    show ?thesis
    proof (cases "h' = h")
      case True
      then show ?thesis using pop [OF assms] fl by auto
    next
      case False
      then have "same_file h st (writer_turn k st)" using pop fl by (simp add: same_file_def)
      then show ?thesis ..
    qed
  qed (simp add: writer_turn_def Some same_file_def)
qed (simp add: writer_turn_def same_file_def)

lemma writer_turn_of_file:
  assumes "dm_get (files st) h = Some cell" "cell_inv cell" "waits_in (associated_worker_index cell) h q (pool st)"
  shows "same_file h st (writer_turn k st)
    \<or> (\<exists>d cell' q'. dm_get (files (writer_turn k st)) h = Some cell' \<and> file_grows d cell cell'
         \<and> awaiting h (pool st) = d @ awaiting h (pool (writer_turn k st))
         \<and> waits_in (associated_worker_index cell') h q' (pool (writer_turn k st)))"
  using writer_turn_cases [OF assms(3), of k]
proof (elim disjE exE conjE)
  fix i d q'
  assume q: "q = (h, i, d) # q'" "waits_in (associated_worker_index cell) h q' (pool (writer_turn k st))"
    and fl: "dm_get (files (writer_turn k st)) h = map_option (\<lambda>cell. snd (write_on_disk d cell)) (dm_get (files st) h)"
  have "awaiting h (pool st) = d @ awaiting h (pool (writer_turn k st))"
    using awaiting_in [OF assms(3)] awaiting_in [OF q(2)] q(1) by simp
  moreover have g: "file_grows d cell (snd (write_on_disk d cell))" by (rule write_grows [OF assms(2)])
  then have "associated_worker_index (snd (write_on_disk d cell)) = associated_worker_index cell"
    by (simp add: file_grows_def same_length_def)
  ultimately show ?thesis using g q(2) fl assms(1) by auto
qed simp


lemma writer_turn_follows:
  assumes "file_follows h pre bs st"
  shows "file_follows h pre bs (writer_turn k st)"
proof -
  obtain cell q where cell: "dm_get (files st) h = Some cell" "cell_inv cell"
      "waits_in (associated_worker_index cell) h q (pool st)"
    and cont: "failure cell = None \<longrightarrow> pre @ content cell @ awaiting h (pool st) = bs
          \<or> length_known cell \<and> file_length cell < length bs"
    using assms unfolding file_follows_def by (elim exE conjE) (rule that)
  from writer_turn_of_file [OF cell, of k] show ?thesis
  proof (elim disjE exE conjE)
    fix d cell' q'
    assume "dm_get (files (writer_turn k st)) h = Some cell'" "file_grows d cell cell'"
      "awaiting h (pool st) = d @ awaiting h (pool (writer_turn k st))"
      "waits_in (associated_worker_index cell') h q' (pool (writer_turn k st))"
    then show ?thesis
      using cont unfolding file_follows_def file_grows_def same_length_def by fastforce
  qed (use assms same_file_follows in blast)
qed

lemma writer_turn_final:
  assumes "file_final h bs st"
  shows "file_final h bs (writer_turn k st)"
proof -
  obtain cell q where cell: "dm_get (files st) h = Some cell" "cell_inv cell" "settled cell"
      "waits_in (associated_worker_index cell) h q (pool st)"
    and cont: "failure cell = None \<longrightarrow> content cell @ awaiting h (pool st) = bs
          \<and> length_known cell \<and> file_length cell = length bs"
    using assms unfolding file_final_def by (elim exE conjE) (rule that)
  from writer_turn_of_file [OF cell(1,2,4), of k] show ?thesis
  proof (elim disjE exE conjE)
    fix d cell' q'
    assume "dm_get (files (writer_turn k st)) h = Some cell'" "file_grows d cell cell'"
      "awaiting h (pool st) = d @ awaiting h (pool (writer_turn k st))"
      "waits_in (associated_worker_index cell') h q' (pool (writer_turn k st))"
    then show ?thesis
      using cont cell(3) unfolding file_final_def file_grows_def same_length_def by fastforce
  qed (use assms same_file_final in blast)
qed


subsection \<open>Steps for other requests\<close>

lemma same_file_refl [simp]: "same_file h st st"
  by (simp add: same_file_def)

lemma same_file_table [simp]: "same_file h st (st\<lparr>table := t\<rparr>)"
  by (simp add: same_file_def)

lemma same_file_other: "h' \<noteq> h \<Longrightarrow> same_file h st (st\<lparr>files := dm_modify h' f (files st)\<rparr>)"
  by (simp add: same_file_def)

lemma same_file_open:
  assumes "env_handle env \<noteq> h"
  shows "same_file h st (snd (open_storage storage env extension i c len st))"
  using assms by (auto simp: same_file_def open_storage_def Let_def split: sum.split)

lemma same_file_via: "same_file h st st' \<Longrightarrow> same_file h st (st'\<lparr>table := t\<rparr>)"
  by (simp add: same_file_def)

lemma same_file_add:
  assumes "\<not> opens_as h env dm"
  shows "same_file h st (add_partial_request storage env c i m dm sub hs path len e st)"
proof -
  obtain o1 st1 where o1: "open_storage storage env (storage_extension hs) i c len st = (o1, st1)" by fastforce
  have "env_handle env \<noteq> h \<Longrightarrow> same_file h st st1"
    using same_file_open [of env h st storage "storage_extension hs" i c len] by (simp add: o1)
  then show ?thesis using assms
    by (auto simp: add_partial_request_def o1 Let_def same_file_via opens_as_def
        split: option.split DataManagement.split BodyStorage.split)
qed

lemma same_file_treat:
  assumes "\<not> opens_as h env dm"
  shows "same_file h st (rh_complete_request_entry_in_table storage env i c m path hs len dm sub st)"
  using assms
  by (auto simp: rh_complete_request_entry_in_table_def build_temp_stage_file_storage_path_def opens_as_def
      complete_request_entry_in_table_def same_file_def Let_def
      split: option.split DataManagement.split BodyStorage.split sum.split)

lemma same_file_early:
  assumes "\<not> opens_as h env dm"
  shows "same_file h st (add_partial_request_before_header_treatment storage env c i dm sub e st)"
proof -
  obtain o1 st1 where o1: "open_storage storage env [] i c None st = (o1, st1)" by fastforce
  have "env_handle env \<noteq> h \<Longrightarrow> same_file h st st1"
    using same_file_open [of env h st storage "[]" i c None] by (simp add: o1)
  then show ?thesis using assms
    by (auto simp: add_partial_request_before_header_treatment_def o1 Let_def same_file_via opens_as_def
        split: option.split DataManagement.split BodyStorage.split)
qed

lemma same_file_status: "same_file h st (snd (get_reception_status_infos ratio percent i c st))"
  by (auto simp: get_reception_status_infos_def Let_def split: option.split)

lemma flush_other:
  "pq_file_opened r \<noteq> Some h \<Longrightarrow> dm_get (fst (flush_and_prefix_with_temp_buffer_if_any_bytes fs r)) h = dm_get fs h"
  by (auto simp: flush_and_prefix_with_temp_buffer_if_any_bytes_def Let_def split: option.split)

lemma flush_sel [simp]:
  "pq_file_opened (snd (flush_and_prefix_with_temp_buffer_if_any_bytes fs r)) = pq_file_opened r"
  by (auto simp: flush_and_prefix_with_temp_buffer_if_any_bytes_def Let_def split: option.split)

lemma write_file_other:
  assumes "pq_file_opened r \<noteq> Some h" "waits_in n h q p"
  shows "waits_in n h q (fst (write_file packet k e fs p r))"
proof (cases "pq_file_opened r")
  case (Some h')
  then show ?thesis
    using assms waits_send [OF assms(2), of h' "(k, packet)"]
    by (auto simp: write_file_def Let_def split: option.split)
qed (use assms in \<open>simp add: write_file_def\<close>)

lemma write_file_opened [simp]: "pq_file_opened (snd (write_file packet k e fs p r)) = pq_file_opened r"
  by (simp add: write_file_def Let_def split: option.split)

lemma same_file_packet:
  assumes "\<not> holds h (c, i) st"
  shows "same_file h st (snd (write_body_packet c s i packet e st))"
proof (cases "dm_get (table st) (c, i)")
  case (Some r)
  then have r: "pq_file_opened r \<noteq> Some h" using assms by (simp add: holds_def)
  then show ?thesis
    using flush_other [OF r]
    by (auto intro!: write_file_other simp: write_body_packet_def Some same_file_def Let_def split_beta
        split: option.split DataManagement.split BodyStorage.split)
qed (simp add: write_body_packet_def)

lemma same_file_build:
  assumes "\<not> holds h (c, i) st"
  shows "same_file h st (snd (build_route_event c s i et st))"
proof (cases "dm_get (table st) (c, i)")
  case (Some r)
  then have r: "pq_file_opened r \<noteq> Some h" using assms by (simp add: holds_def)
  then show ?thesis
    using flush_other [OF r]
    by (auto simp: build_route_event_def to_route_event_def Some same_file_def Let_def split_beta
        split: option.split DataManagement.split BodyStorage.split EventType.split)
qed (simp add: build_route_event_def)

text \<open>A handle passes to no other entry.\<close>

lemma open_storage_handle:
  "fst (open_storage storage env extension i c len st) = Some (p, Some h) \<Longrightarrow> env_handle env = h"
  "table (snd (open_storage storage env extension i c len st)) = table st"
  by (auto simp: open_storage_def Let_def split: if_splits sum.splits)

lemma opened_new [simp]: "pq_file_opened (partial_req_new c i m dm sub sp h hs p len e) = h"
  by (simp add: partial_req_new_def split: option.split prod.split)

lemma holds_add:
  assumes "\<not> opens_as h env dm"
  shows "holds h k (add_partial_request storage env c i m dm sub hs path len e st) \<Longrightarrow> holds h k st"
  using open_storage_handle(1) [of storage env "storage_extension hs" i c len st]
    open_storage_handle(2) [of storage env "storage_extension hs" i c len st] assms
  by (auto simp: holds_def add_partial_request_def Let_def opens_as_def
      split: option.splits DataManagement.splits BodyStorage.splits prod.splits if_splits)

lemma holds_early:
  assumes "\<not> opens_as h env dm"
  shows "holds h k (add_partial_request_before_header_treatment storage env c i dm sub e st) \<Longrightarrow> holds h k st"
  using open_storage_handle(1) [of storage env "[]" i c None st]
    open_storage_handle(2) [of storage env "[]" i c None st] assms
  by (auto simp: holds_def add_partial_request_before_header_treatment_def Let_def opens_as_def
      split: option.splits DataManagement.splits BodyStorage.splits prod.splits if_splits)

lemma holds_treat:
  assumes "\<not> opens_as h env dm"
  shows "holds h k (rh_complete_request_entry_in_table storage env i c m path hs len dm sub st) \<Longrightarrow> holds h k st"
  using assms
  by (auto simp: holds_def rh_complete_request_entry_in_table_def build_temp_stage_file_storage_path_def opens_as_def
      complete_request_entry_in_table_def Let_def
      split: option.splits DataManagement.splits BodyStorage.splits sum.splits if_splits)

lemma holds_status: "holds h k (snd (get_reception_status_infos ratio percent i c st)) \<Longrightarrow> holds h k st"
  by (auto simp: holds_def get_reception_status_infos_def Let_def split: option.splits if_splits)

lemma holds_packet:
  "holds h k (snd (write_body_packet c s i packet e st)) \<Longrightarrow> holds h k st"
  by (auto simp: holds_def write_body_packet_def Let_def split_beta extend_data_def
      split: option.splits DataManagement.splits BodyStorage.splits if_splits)

lemma holds_build: "holds h k (snd (build_route_event c s i et st)) \<Longrightarrow> holds h k st"
  by (auto simp: holds_def build_route_event_def Let_def split_beta split: option.splits if_splits)

lemma writer_turn_table [simp]: "table (writer_turn n st) = table st"
  by (simp add: writer_turn_def manage_event_def split: option.split list.split prod.split)

lemma thread_step_table [simp]: "table (thread_step x st) = table st"
  by (cases x) simp_all

lemma holds_step:
  assumes "\<not> disturbs h x"
  shows "holds h k (disk_step ratio percent x st) \<Longrightarrow> holds h k st"
proof (cases x)
  case (Open_Request storage env c i m dm sub hs path len e)
  then show "holds h k (disk_step ratio percent x st) \<Longrightarrow> holds h k st"
    using assms holds_add [of h env dm k storage c i m sub hs path len e st] by simp
next
  case (Early_Request storage env c i dm sub e)
  then show "holds h k (disk_step ratio percent x st) \<Longrightarrow> holds h k st"
    using assms holds_early [of h env dm k storage c i sub e st] by simp
next
  case (Read_Status i c)
  then show "holds h k (disk_step ratio percent x st) \<Longrightarrow> holds h k st" using holds_status by simp
next
  case (Treat_Headers storage env i c m path hs len dm sub)
  then show "holds h k (disk_step ratio percent x st) \<Longrightarrow> holds h k st"
    using assms holds_treat [of h env dm k storage i c m path hs len sub st] by simp
next
  case (Progress_Header i c)
  then show "holds h k (disk_step ratio percent x st) \<Longrightarrow> holds h k st"
    by (auto simp: holds_def set_intermediate_headers_send_def split: if_splits)
next
  case (Body_Packet c s i p e)
  then show "holds h k (disk_step ratio percent x st) \<Longrightarrow> holds h k st" using holds_packet by simp
next
  case (Finish_Request c s i)
  then show "holds h k (disk_step ratio percent x st) \<Longrightarrow> holds h k st" using holds_build by simp
qed (auto simp: holds_def discard_request_def discard_connection_def split: if_splits)

text \<open>What a step does to a file whose request it does not belong to.\<close>

fun packet_key :: "'l disk_op \<Rightarrow> req_id option" where
  "packet_key (Body_Packet c s i p e) = Some (c, i)"
| "packet_key (Finish_Request c s i) = Some (c, i)"
| "packet_key _ = None"

lemma other_step:
  assumes cell: "dm_get (files st) h = Some cell" "cell_inv cell"
    and x: "\<not> disturbs h x" "\<forall>k. packet_key x = Some k \<longrightarrow> \<not> holds h k st"
  shows "same_file h st (disk_step ratio percent x st) \<or> (\<exists>n. disk_step ratio percent x st = writer_turn n st)
    \<or> (\<exists>cell'. dm_get (files (disk_step ratio percent x st)) h = Some cell' \<and> file_grows [] cell cell'
         \<and> pool (disk_step ratio percent x st) = pool st)"
proof -
  have call: "same_file h st (st\<lparr>files := dm_modify h' f (files st)\<rparr>)
      \<or> dm_get (dm_modify h' f (files st)) h = Some (f cell)" for h' f
    using cell(1) same_file_other [of h' h st f] by (cases "h' = h") simp_all
  show ?thesis
  proof (cases x)
    case (Open_Request storage env c i m dm sub hs path len e)
    then show ?thesis using x(1) same_file_add [of h env dm st storage c i m sub hs path len e] by simp
  next
    case (Treat_Headers storage env i c m path hs len dm sub)
    then show ?thesis using x(1) same_file_treat [of h env dm st storage i c m path hs len sub] by simp
  next
    case (Early_Request storage env c i dm sub e)
    then show ?thesis using x(1) same_file_early [of h env dm st storage c i sub e] by simp
  next
    case (Read_Status i c)
    then show ?thesis using same_file_status [of h st ratio percent i c] by simp
  next
    case (Body_Packet c s i p e)
    then show ?thesis using x(2) same_file_packet [of h c i st s p e] by simp
  next
    case (Finish_Request c s i)
    then show ?thesis using x(2) same_file_build [of h c i st s OnFinished_Type] by simp
  next
    case (Threads y)
    show ?thesis
    proof (cases y)
      case (Use_Handle h' z)
      then show ?thesis
        using x(1) Threads call [of h' "\<lambda>cell. snd (fw_step z cell)"] use_grows [OF cell(2), of z]
          same_file_other [of h' h st "\<lambda>cell. snd (fw_step z cell)"] by (cases "h' = h") auto
    next
      case (Finishing_Turn h')
      then show ?thesis using Threads call [of h' manage_file_finishing_ev] finishing_grows [OF cell(2)] by auto
    qed (use Threads in auto)
  qed (auto simp: discard_request_def discard_connection_def set_intermediate_headers_send_def)
qed

lemma other_step_follows:
  assumes st: "file_follows h pre bs st" and x: "\<not> disturbs h x" "\<forall>k. packet_key x = Some k \<longrightarrow> \<not> holds h k st"
  shows "file_follows h pre bs (disk_step ratio percent x st)"
proof -
  obtain cell where cell: "dm_get (files st) h = Some cell" "cell_inv cell"
    using st by (auto simp: file_follows_def)
  from other_step [OF cell x, of ratio percent] show ?thesis
    using same_file_follows [OF _ st] writer_turn_follows [OF st] grown_follows [OF cell(1) _ st]
    by (elim disjE exE conjE) simp_all
qed

lemma other_step_final:
  assumes st: "file_final h bs st" and x: "\<not> disturbs h x" "\<forall>k. packet_key x = Some k \<longrightarrow> \<not> holds h k st"
  shows "file_final h bs (disk_step ratio percent x st)"
proof -
  obtain cell where cell: "dm_get (files st) h = Some cell" "cell_inv cell"
    using st by (auto simp: file_final_def)
  from other_step [OF cell x, of ratio percent] show ?thesis
    using same_file_final [OF _ st] writer_turn_final [OF st] grown_final [OF cell(1) _ st]
    by (elim disjE exE conjE) simp_all
qed

subsection \<open>Steps for the request itself\<close>

definition entry_of :: "uuid \<Rightarrow> nat \<Rightarrow> ('l, 'f) PartialReq \<Rightarrow> bool" where
  "entry_of h n r \<longleftrightarrow> pq_data_management_type r = Some (Storage File) \<and> pq_storage_path r \<noteq> None
     \<and> pq_file_opened r = Some h \<and> pq_body_written_size r = n
     \<and> pq_method r \<noteq> None \<and> pq_headers r \<noteq> None \<and> pq_path r \<noteq> None"

text \<open>The entry keeps what came before its file was there; the first packet after puts it in front.\<close>

definition receiving :: "conn_id \<Rightarrow> stream_id \<Rightarrow> uuid \<Rightarrow> bytes \<Rightarrow> ('l, 'f) requests_state \<Rightarrow> bool" where
  "receiving c i h bs st \<longleftrightarrow> (\<forall>k. holds h k st \<longrightarrow> k = (c, i))
     \<and> (\<exists>r. dm_get (table st) (c, i) = Some r \<and> entry_of h (length bs) r \<and> file_follows h (pq_body r) bs st)"

lemma flush_own:
  assumes "entry_of h n r" "file_follows h (pq_body r) bs st"
    and "flush_and_prefix_with_temp_buffer_if_any_bytes (files st) r = (fs, r1)"
  shows "r1 = r\<lparr>pq_body := []\<rparr>" "file_follows h [] bs (st\<lparr>files := fs\<rparr>)"
proof -
  obtain cell q where cell: "dm_get (files st) h = Some cell" "cell_inv cell"
      "waits_in (associated_worker_index cell) h q (pool st)"
    and cont: "failure cell = None \<longrightarrow> pq_body r @ content cell @ awaiting h (pool st) = bs
          \<or> length_known cell \<and> file_length cell < length bs"
    using assms(2) unfolding file_follows_def by (elim exE conjE) (rule that)
  have flush: "r1 = r\<lparr>pq_body := []\<rparr>"
    "fs = (if pq_body r = [] then files st
           else dm_modify h (\<lambda>cell. snd (transfert_bytes_from_temp_file (pq_body r) cell)) (files st))"
    using assms(1,3)
    by (auto simp: flush_and_prefix_with_temp_buffer_if_any_bytes_def entry_of_def Let_def split: if_splits)
  show "r1 = r\<lparr>pq_body := []\<rparr>" by (rule flush(1))
  show "file_follows h [] bs (st\<lparr>files := fs\<rparr>)"
  proof (cases "pq_body r = []")
    case False
    let ?c = "snd (transfert_bytes_from_temp_file (pq_body r) cell)"
    note pre = transfert_prefixes [OF cell(2) False]
    have "content ?c @ awaiting h (pool st) = bs \<or> length_known ?c \<and> file_length ?c < length bs"
      if "failure ?c = None"
      using pre(2) pre(3) [OF that] cont False by (auto simp: same_length_def)
    then show ?thesis
      using pre(1,2) cell False by (auto simp: file_follows_def flush(2) same_length_def)
  qed (use assms(2) in \<open>simp add: flush(2)\<close>)
qed

lemma own_packet:
  assumes r: "dm_get (table st) (c, i) = Some r" "entry_of h (length bs) r" "file_follows h (pq_body r) bs st"
    and st'_def: "st' = snd (write_body_packet c s i packet e st)"
  shows "\<exists>r'. dm_get (table st') (c, i) = Some r' \<and> entry_of h (length (bs @ packet)) r'
    \<and> file_follows h (pq_body r') (bs @ packet) st'"
proof -
  obtain fs r1 where flush: "flush_and_prefix_with_temp_buffer_if_any_bytes (files st) r = (fs, r1)" by fastforce
  note own = flush_own [OF r(2,3) flush]
  obtain cell q where cell: "dm_get fs h = Some cell" "cell_inv cell"
      "waits_in (associated_worker_index cell) h q (pool st)"
    and cont: "failure cell = None \<longrightarrow> content cell @ awaiting h (pool st) = bs
          \<or> length_known cell \<and> file_length cell < length bs"
    using own(2) unfolding file_follows_def by auto
  let ?p = "send_writable_item (associated_worker_index cell) (h, 0, packet)
      (associate_stream_with_next_listener i c (pool st))"
    and ?r = "r1\<lparr>pq_is_end := e, pq_body_written_size := pq_body_written_size r + length packet\<rparr>"
  have step: "files st' = fs" "pool st' = ?p" "dm_get (table st') (c, i) = Some ?r"
    using r(1,2) cell(1)
    by (simp_all add: st'_def write_body_packet_def flush own(1) write_file_def entry_of_def Let_def)
  have w: "waits_in (associated_worker_index cell) h (q @ [(h, 0, packet)]) ?p"
    using waits_send [OF waits_associate [OF cell(3)], of h "(0, packet)"] by simp
  have aw: "awaiting h ?p = awaiting h (pool st) @ packet"
    using awaiting_in [OF w] awaiting_in [OF cell(3)] by simp
  have "file_follows h [] (bs @ packet) st'"
    using cell w cont aw unfolding file_follows_def step by auto
  moreover have "entry_of h (length (bs @ packet)) ?r" "pq_body ?r = []"
    using r(2) by (simp_all add: own(1) entry_of_def)
  ultimately show ?thesis using step(3) by simp
qed

text \<open>The entry of a request stays until an operation ends it; a second header changes no file.\<close>

lemma entry_step:
  assumes r: "dm_get (table st) (c, i) = Some r" "entry_of h n r"
    and x: "\<not> ends_reception c i x" "\<And>s p e. x \<noteq> Body_Packet c s i p e"
  shows "\<exists>r'. dm_get (table (disk_step ratio percent x st)) (c, i) = Some r' \<and> entry_of h n r' \<and> pq_body r' = pq_body r"
proof (cases x)
  case (Open_Request storage env c' i' m dm sub hs path len e)
  obtain o1 st1 where o1: "open_storage storage env (storage_extension hs) i' c' len st = (o1, st1)" by fastforce
  have t: "table st1 = table st"
    using open_storage_handle(2) [of storage env "storage_extension hs" i' c' len st] by (simp add: o1)
  show ?thesis using r t
    by (auto simp: Open_Request add_partial_request_def o1 entry_of_def Let_def
        split: option.split DataManagement.split BodyStorage.split)
next
  case (Treat_Headers storage env i' c' m path hs len dm sub)
  then show ?thesis using x(1) r
    by (auto simp: rh_complete_request_entry_in_table_def build_temp_stage_file_storage_path_def
        complete_request_entry_in_table_def Let_def
        split: option.split DataManagement.split BodyStorage.split sum.split)
next
  case (Early_Request storage env c' i' dm sub e)
  obtain o1 st1 where o1: "open_storage storage env [] i' c' None st = (o1, st1)" by fastforce
  have t: "table st1 = table st"
    using open_storage_handle(2) [of storage env "[]" i' c' None st] by (simp add: o1)
  show ?thesis using r t
    by (auto simp: Early_Request add_partial_request_before_header_treatment_def o1 Let_def
        split: option.split DataManagement.split BodyStorage.split)
next
  case (Read_Status i' c')
  then show ?thesis using r
    by (auto simp: get_reception_status_infos_def entry_of_def Let_def split: option.split)
next
  case (Progress_Header i' c')
  then show ?thesis using r by (auto simp: set_intermediate_headers_send_def entry_of_def)
next
  case (Body_Packet c' s i' p e)
  then have "(c', i') \<noteq> (c, i)" using x(2) by blast
  then show ?thesis using write_other [of c' i' c i s p e st] r by (simp add: Body_Packet)
next
  case (Finish_Request c' s i')
  then show ?thesis using x(1) r
    by (auto simp: build_route_event_def Let_def split_beta split: option.split)
qed (use x r in \<open>auto simp: discard_request_def discard_connection_def\<close>)

lemma receiving_step:
  assumes st: "receiving c i h bs st" and x: "\<not> disturbs h x" "\<not> ends_reception c i x"
  shows "receiving c i h (bs @ body_of c i x) (disk_step ratio percent x st)"
proof -
  obtain r where r: "dm_get (table st) (c, i) = Some r" "entry_of h (length bs) r"
    and fl: "file_follows h (pq_body r) bs st" and sole: "\<And>k. holds h k st \<Longrightarrow> k = (c, i)"
    using st by (auto simp: receiving_def)
  have sole': "holds h k (disk_step ratio percent x st) \<Longrightarrow> k = (c, i)" for k using holds_step [OF x(1)] sole by blast
  show ?thesis
  proof (cases "\<exists>s p e. x = Body_Packet c s i p e")
    case True
    then obtain s p e where "x = Body_Packet c s i p e" by blast
    then show ?thesis using own_packet [OF r fl refl, where packet = p and s = s and e = e] sole'
      by (simp add: receiving_def)
  next
    case False
    then have "body_of c i x = []" by (cases x) auto
    moreover have "packet_key x = Some k \<Longrightarrow> k \<noteq> (c, i)" for k
      using False x(2) by (cases x) auto
    then have "file_follows h (pq_body r) bs (disk_step ratio percent x st)"
      using other_step_follows [OF fl x(1)] sole by blast
    ultimately show ?thesis using entry_step [OF r x(2)] False sole' by (fastforce simp: receiving_def)
  qed
qed

subsection \<open>From the headers to the end\<close>

text \<open>What the table holds of a request whose headers have not been treated.\<close>

definition early_body :: "conn_id \<Rightarrow> stream_id \<Rightarrow> bytes \<Rightarrow> ('l, 'f) requests_state \<Rightarrow> bool" where
  "early_body c i bs st \<longleftrightarrow>
     (case dm_get (table st) (c, i) of
        None \<Rightarrow> bs = []
      | Some r \<Rightarrow> pq_body r = bs \<and> pq_body_written_size r = length bs)"

text \<open>The headers: an entry that early packets have made is completed, otherwise a new one is made.\<close>

definition enter_headers ::
  "path_buf \<Rightarrow> io_env \<Rightarrow> conn_id \<Rightarrow> stream_id \<Rightarrow> H3Method \<Rightarrow> DataManagement option \<Rightarrow> 'l option \<Rightarrow> h3_header list
     \<Rightarrow> string \<Rightarrow> usize option \<Rightarrow> bool \<Rightarrow> ('l, 'f) requests_state \<Rightarrow> ('l, 'f) requests_state" where
  "enter_headers storage env c i m dm sub hs path len e st =
     (if is_request_set_in_table i c st
      then rh_complete_request_entry_in_table storage env i c m path hs len dm sub st
      else add_partial_request storage env c i m dm sub hs path len e st)"

lemma request_set_get: "is_request_set_in_table i c st \<longleftrightarrow> dm_get (table st) (c, i) \<noteq> None"
  by (auto simp: is_request_set_in_table_def is_entry_partial_reponse_set_def split: option.split)

lemma enter_headers_receiving:
  assumes "early_body c i bs st" "handle_unused h st" "pool_inv (pool st)" "env_create_ok env" "env_handle env = h"
  shows "receiving c i h bs (enter_headers storage env c i m (Some (Storage File)) sub hs path len e st)"
proof -
  let ?st = "enter_headers storage env c i m (Some (Storage File)) sub hs path len e st"
    and ?p = "associate_stream_with_next_listener i c (pool st)"
  obtain n where n: "get_worker_index_for_this_stream i c ?p = Some n" "n < workers_amount (pool st)"
    using worker_binding_stable [OF assms(3), of i c "[]"] by auto
  let ?cell = "handle_new h {h} n len [] (env_outcomes env) True"
  have cell: "cell_inv ?cell" "content ?cell = []" "associated_worker_index ?cell = n"
    by (simp_all add: cell_inv_new) (simp_all add: handle_new_def content_def buffered_def)
  have same: "pool ?st = ?p" "files ?st = dm_insert h ?cell (files st)"
    using assms(4,5) n(1)
    by (auto simp: enter_headers_def request_set_get rh_complete_request_entry_in_table_def
        build_temp_stage_file_storage_path_def complete_request_entry_in_table_def add_partial_request_def
        open_storage_def create_file_writer_handle_def Let_def)
  obtain r where r: "dm_get (table ?st) (c, i) = Some r" "entry_of h (length bs) r" "pq_body r = bs"
    and other: "\<And>k. k \<noteq> (c, i) \<Longrightarrow> dm_get (table ?st) k = dm_get (table st) k"
  proof (cases "dm_get (table st) (c, i)")
    case None
    let ?r = "partial_req_new c i (Some m) (Some (Storage File)) sub
      (Some (path_push storage (env_uuid env @ storage_extension hs))) (Some h) (Some hs) (Some path) len e"
    have "table ?st = dm_or_insert (c, i) ?r (table st)" "bs = []"
      using assms(1,4,5) n(1) None
      by (simp_all add: early_body_def enter_headers_def request_set_get add_partial_request_def open_storage_def
          create_file_writer_handle_def Let_def)
    moreover have "entry_of h 0 ?r" "pq_body ?r = []" by (simp_all add: entry_of_def partial_req_new_def split: prod.split)
    ultimately show ?thesis using that [of ?r] None by simp
  next
    case (Some r)
    let ?r = "r\<lparr>pq_method := Some m, pq_path := Some path, pq_event_subscriber := sub,
        pq_data_management_type := Some (Storage File),
        pq_storage_path := Some (path_push storage (env_uuid env @ storage_extension hs)), pq_file_opened := Some h,
        pq_content_length := len, pq_headers := Some hs\<rparr>"
    have "dm_get (table ?st) k = (if k = (c, i) then Some ?r else dm_get (table st) k)" for k
      using assms(4,5) n(1) Some
      by (simp add: enter_headers_def request_set_get rh_complete_request_entry_in_table_def
          build_temp_stage_file_storage_path_def complete_request_entry_in_table_def
          create_file_writer_handle_def Let_def)
    moreover have "entry_of h (length bs) ?r" "pq_body ?r = bs"
      using assms(1) Some by (simp_all add: early_body_def entry_of_def)
    ultimately show ?thesis using that [of ?r] by simp
  qed
  have w: "waits_in n h [] ?p" using waits_associate [OF waits_unused [OF assms(2,3) n(2)]] .
  have "file_follows h bs bs ?st"
    unfolding file_follows_def
    by (rule exI [of _ ?cell], rule exI [of _ "[]"]) (simp add: same cell w awaiting_in [OF w])
  moreover have "\<not> holds h k st" for k
    using assms(2) unfolding handle_unused_def holds_def by blast
  then have "holds h k ?st \<Longrightarrow> k = (c, i)" for k
    using other [of k] unfolding holds_def by metis
  ultimately show ?thesis using r by (auto simp: receiving_def)
qed

lemma finish_final:
  assumes "receiving c i h bs st" "build_route_event c s i OnFinished_Type st = (answer, st')"
  shows "file_final h bs st'" "\<not> holds h k st'"
    "\<exists>ev. answer = Ok (OnFinished ev) \<and> fe_file_writer ev = Some h \<and> fe_bytes_written ev = length bs"
proof -
  obtain r where r: "dm_get (table st) (c, i) = Some r" "entry_of h (length bs) r"
    and fl: "file_follows h (pq_body r) bs st" and sole: "\<And>k. holds h k st \<Longrightarrow> k = (c, i)"
    using assms(1) by (auto simp: receiving_def)
  obtain fs r1 where flush: "flush_and_prefix_with_temp_buffer_if_any_bytes (files st) r = (fs, r1)" by fastforce
  note own = flush_own [OF r(2) fl flush]
  obtain cell q where cell: "dm_get fs h = Some cell" "cell_inv cell"
      "waits_in (associated_worker_index cell) h q (pool st)"
    and cont: "failure cell = None \<longrightarrow> content cell @ awaiting h (pool st) = bs
          \<or> length_known cell \<and> file_length cell < length bs"
    using own(2) unfolding file_follows_def by auto
  have step: "st' = st\<lparr>files := dm_modify h (finish_received (length bs)) fs, table := dm_remove (c, i) (table st)\<rparr>"
    and ev: "\<exists>ev. answer = Ok (OnFinished ev) \<and> fe_file_writer ev = Some h \<and> fe_bytes_written ev = length bs"
    using assms(2) r
    by (auto simp: build_route_event_def to_route_event_def flush own(1) entry_of_def finished_event_new_def Let_def)
  show "\<exists>ev. answer = Ok (OnFinished ev) \<and> fe_file_writer ev = Some h \<and> fe_bytes_written ev = length bs" by (rule ev)
  show "\<not> holds h k st'" using sole [of k] by (auto simp: holds_def step)
  note fin = finish_fixes_length [OF cell(2), of "length bs"]
  have "failure (finish_received (length bs) cell) = None \<Longrightarrow> \<not> (length_known cell \<and> file_length cell < length bs)"
    by (auto simp: finish_received_def state_fail_def take_callback_def split: option.splits)
  then show "file_final h bs st'"
    using fin cell cont by (auto simp: file_final_def step)
qed

text \<open>What a file that is final shows.\<close>

lemma final_shown:
  assumes "file_final h bs st"
  shows "\<exists>cell. dm_get (files st) h = Some cell
    \<and> (failure cell \<noteq> None \<or> content cell @ awaiting h (pool st) = bs)
    \<and> (is_file_written cell \<noteq> Ok True \<or> disk cell = bs)
    \<and> (failure cell \<noteq> None \<or> awaiting h (pool st) \<noteq> [] \<or> is_file_written cell = Ok True)"
proof -
  obtain cell where cell: "dm_get (files st) h = Some cell" "cell_inv cell" "settled cell"
    and cont: "failure cell = None \<longrightarrow> content cell @ awaiting h (pool st) = bs
      \<and> length_known cell \<and> file_length cell = length bs"
    using assms unfolding file_final_def by (elim exE conjE) (rule that)
  note inv = cell_inv_core [OF cell(2), unfolded core_inv_def]
  have complete: "disk cell = bs" if "failure cell = None" "can_close cell"
  proof -
    have "disk cell = content cell" "length (content cell) = length bs"
      using that cont inv by (auto simp: content_def buffered_def)
    moreover have "content cell @ awaiting h (pool st) = bs" using cont that(1) by blast
    ultimately show ?thesis by (metis append_eq_append_conv append_Nil2)
  qed
  have "is_file_written cell \<noteq> Ok True \<or> disk cell = bs"
    using complete by (auto simp: is_file_written_def split: option.splits if_splits)
  moreover have "failure cell \<noteq> None \<or> content cell @ awaiting h (pool st) = bs" using cont by blast
  moreover have "failure cell \<noteq> None \<or> awaiting h (pool st) \<noteq> [] \<or> is_file_written cell = Ok True"
  proof (cases "failure cell = None \<and> awaiting h (pool st) = []")
    case True
    then have "content cell = bs" "length_known cell" "file_length cell = length bs" using cont by auto
    moreover have "length (content cell) = written cell" using inv True by simp
    ultimately have "can_close cell" using cell(3) True by (simp add: settled_def)
    then show ?thesis using True \<open>length_known cell\<close> by (simp add: is_file_written_def)
  qed (simp, elim disjE, simp_all)
  ultimately show ?thesis by (intro exI [of _ cell] conjI cell(1))
qed

end
