(* ===== verification/ServerFiles.thy ===== *)
theory ServerFiles
  imports ServerSafety FileRequests
begin

section \<open>Request files in the running server\<close>

text \<open>
  Every step of every thread of \<open>ServerSteps\<close> acts on the table of requests and the files as
  operations of \<open>FileRequests\<close>; its label tells the packets that are stored and the calls the
  application makes on a file. So what holds of a request's file in every interleaving of those
  operations holds in every interleaving of the server's threads.
\<close>

subsection \<open>What holds of the table in every reachable state\<close>

definition queued :: "FileWriterPool \<Rightarrow> uuid \<times> usize \<times> bytes \<Rightarrow> bool" where
  "queued p y \<longleftrightarrow> (\<exists>q \<in> set (worker_queues p). y \<in> set q)"

text \<open>An entry without headers keeps all its packets in memory.\<close>

definition early_ok :: "('l, 'f) PartialReq \<Rightarrow> bool" where
  "early_ok r \<longleftrightarrow> (pq_method r = None \<longrightarrow>
     pq_data_management_type r = Some (Storage InMemory) \<and> pq_body_written_size r = length (pq_body r))"

text \<open>And a handle in the table or in a queue names a file.\<close>

definition table_inv :: "('l, 'f) requests_state \<Rightarrow> bool" where
  "table_inv st \<longleftrightarrow> pool_inv (pool st) \<and> (\<forall>h k. holds h k st \<longrightarrow> dm_contains (files st) h)
     \<and> (\<forall>y. queued (pool st) y \<longrightarrow> dm_contains (files st) (fst y))
     \<and> (\<forall>k r. dm_get (table st) k = Some r \<longrightarrow> early_ok r)"

text \<open>The server gives no entry without headers a file.\<close>

fun early_in_memory :: "'l disk_op \<Rightarrow> bool" where
  "early_in_memory (Early_Request storage env c i dm sub e) \<longleftrightarrow> dm = Some (Storage InMemory)"
| "early_in_memory _ \<longleftrightarrow> True"

lemma queued_associate [simp]: "queued (associate_stream_with_next_listener i c p) y = queued p y"
  by (simp add: queued_def associate_stream_with_next_listener_def Let_def)

lemma queued_send:
  assumes "queued (send_writable_item n x p) y"
  shows "queued p y \<or> y = x"
proof (cases "get_worker_listener_by_index n p")
  case (Some k)
  then have "k < length (worker_queues p)" by (auto simp: get_worker_listener_by_index_def list_get_def split: if_splits option.splits)
  then show ?thesis using assms Some
    by (auto simp: queued_def send_writable_item_def dest!: set_update_subset_insert [THEN subsetD] intro: nth_mem)
qed (use assms in \<open>simp add: send_writable_item_def\<close>)

lemma queued_turn:
  assumes "queued (pool (writer_turn n st)) y"
  shows "queued (pool st) y"
proof (cases "list_get n (worker_queues (pool st))")
  case (Some items)
  then have items: "items \<in> set (worker_queues (pool st))" by (auto simp: list_get_def split: if_splits)
  show ?thesis
  proof (cases items)
    case (Cons msg rest)
    then obtain q where "q \<in> set ((worker_queues (pool st))[n := rest])" "y \<in> set q"
      using assms Some by (auto simp: queued_def writer_turn_def manage_event_def split: prod.splits)
    moreover from this(1) have "q = rest \<or> q \<in> set (worker_queues (pool st))"
      using set_update_subset_insert [THEN subsetD] by fastforce
    ultimately show ?thesis using items unfolding Cons queued_def by (metis list.set_intros(2))
  qed (use assms Some in \<open>simp add: writer_turn_def\<close>)
qed (use assms in \<open>simp add: writer_turn_def\<close>)

lemma pool_turn: "pool_inv (pool st) \<Longrightarrow> pool_inv (pool (writer_turn n st))"
  by (auto simp: pool_inv_def writer_turn_def manage_event_def split: option.split list.split prod.split)

text \<open>One operation at a time: the files stay, and what is put into the table or a queue is there.\<close>

lemmas disk_defs = add_partial_request_def open_storage_def rh_complete_request_entry_in_table_def
  build_temp_stage_file_storage_path_def complete_request_entry_in_table_def Let_def
  add_partial_request_before_header_treatment_def get_reception_status_infos_def set_intermediate_headers_send_def
  discard_request_def discard_connection_def build_route_event_def to_route_event_def write_body_packet_def notify_def

lemma files_stay: "dm_contains (files st) h \<Longrightarrow> dm_contains (files (disk_step ratio percent x st)) h"
proof (cases x)
  case (Threads y)
  then show "dm_contains (files st) h \<Longrightarrow> dm_contains (files (disk_step ratio percent x st)) h"
    by (cases y) (auto simp: writer_turn_def manage_event_def split: option.split list.split prod.split)
qed (auto simp: disk_defs flush_and_prefix_with_temp_buffer_if_any_bytes_def
      split: option.split DataManagement.split BodyStorage.split sum.split prod.split if_split EventType.split)

lemma pool_stays: "pool_inv (pool st) \<Longrightarrow> pool_inv (pool (disk_step ratio percent x st))"
proof (cases x)
  case (Threads y)
  then show "pool_inv (pool st) \<Longrightarrow> pool_inv (pool (disk_step ratio percent x st))"
    by (cases y) (auto simp: pool_turn)
qed (auto simp: disk_defs write_file_def inv_intros split_beta
      split: option.split DataManagement.split BodyStorage.split sum.split prod.split if_split EventType.split)

lemma queued_stays:
  "queued (pool (disk_step ratio percent x st)) y \<Longrightarrow> queued (pool st) y \<or> (\<exists>k. holds (fst y) k st)"
proof (cases x)
  case (Threads z)
  then show "queued (pool (disk_step ratio percent x st)) y \<Longrightarrow> queued (pool st) y \<or> (\<exists>k. holds (fst y) k st)"
    by (cases z) (auto dest: queued_turn)
next
  case (Body_Packet c s i p e)
  have "queued (fst (write_file p 0 e fs q r)) y \<Longrightarrow> queued q y \<or> pq_file_opened r = Some (fst y)" for fs q r
    by (auto simp: write_file_def Let_def dest: queued_send split: option.splits)
  then show "queued (pool (disk_step ratio percent x st)) y \<Longrightarrow> queued (pool st) y \<or> (\<exists>k. holds (fst y) k st)"
    by (fastforce simp: Body_Packet write_body_packet_def notify_def Let_def split_beta holds_def
        split: option.splits DataManagement.splits BodyStorage.splits)
qed (auto simp: disk_defs split_beta
      split: option.splits DataManagement.splits BodyStorage.splits sum.splits prod.splits if_splits EventType.splits)

lemma opened_known: "holds h k (disk_step ratio percent x st) \<Longrightarrow>
    holds h k st \<or> dm_contains (files (disk_step ratio percent x st)) h"
proof (cases "disturbs h x")
  case True
  then show "holds h k (disk_step ratio percent x st) \<Longrightarrow>
      holds h k st \<or> dm_contains (files (disk_step ratio percent x st)) h"
  proof (cases x)
    case (Threads y)
    then show "holds h k (disk_step ratio percent x st) \<Longrightarrow>
      holds h k st \<or> dm_contains (files (disk_step ratio percent x st)) h" by (simp add: holds_def)
  qed (auto simp: disk_defs holds_def opens_as_def split: option.splits sum.splits if_splits)
qed (auto dest: holds_step)

lemma write_method [simp]: "pq_method (snd (write_file p k e fs q r)) = pq_method r"
  "pq_method (snd (flush_and_prefix_with_temp_buffer_if_any_bytes fs r)) = pq_method r"
  by (auto simp: write_file_def flush_and_prefix_with_temp_buffer_if_any_bytes_def Let_def split: option.split)

lemma early_new: "early_ok (partial_req_new c i m (Some (Storage InMemory)) sub sp h hs p len e)"
  "early_ok (partial_req_new c i (Some md) dm sub sp h hs (Some pa) len e)"
  by (auto simp: early_ok_def partial_req_new_def split: option.split prod.split)

lemma early_method: "early_ok (r\<lparr>pq_headers := hs, pq_path := p, pq_content_length := len, pq_method := Some md\<rparr>)"
  by (simp add: early_ok_def)

lemma early_stays:
  assumes "early_in_memory x" and ok: "\<And>k r. dm_get (table st) k = Some r \<Longrightarrow> early_ok r"
  shows "dm_get (table (disk_step ratio percent x st)) k = Some r \<Longrightarrow> early_ok r"
proof (cases x)
  case (Body_Packet c s i p e)
  have "early_ok (snd (write_file p 0 e fs q (snd (flush_and_prefix_with_temp_buffer_if_any_bytes fs' r0))))"
    if "dm_get (table st) (c, i) = Some r0" "pq_data_management_type r0 = Some (Storage File)" for fs fs' q r0
    using ok [OF that(1)] that(2) by (auto simp: early_ok_def)
  moreover have "early_ok (extend_data p e r0)" if "dm_get (table st) (c, i) = Some r0" for r0
    using ok [OF that] by (simp add: early_ok_def extend_data_def)
  ultimately show "dm_get (table (disk_step ratio percent x st)) k = Some r \<Longrightarrow> early_ok r"
    using ok
    by (auto simp: Body_Packet write_body_packet_def notify_def Let_def split_beta
        split: option.splits DataManagement.splits BodyStorage.splits if_splits)
next
  case (Open_Request storage env c i m dm sub hs path len e)
  obtain o1 st1 where o1: "open_storage storage env (storage_extension hs) i c len st = (o1, st1)" by fastforce
  have t: "table st1 = table st"
    using open_storage_handle(2) [of storage env "storage_extension hs" i c len st] by (simp add: o1)
  show "dm_get (table (disk_step ratio percent x st)) k = Some r \<Longrightarrow> early_ok r"
    using ok t early_method
    by (auto simp: Open_Request add_partial_request_def o1 Let_def early_new(2)
        split: option.splits DataManagement.splits BodyStorage.splits if_splits) (erule ok)
next
  case (Early_Request storage env c i dm sub e)
  then show "dm_get (table (disk_step ratio percent x st)) k = Some r \<Longrightarrow> early_ok r"
    using assms(1) ok early_new(1)
    by (auto simp: add_partial_request_before_header_treatment_def Let_def split: option.splits if_splits)
qed (use assms in \<open>auto simp: disk_defs early_ok_def split_beta
      split: option.splits DataManagement.splits BodyStorage.splits sum.splits prod.splits if_splits\<close>)

lemma table_inv_new: "0 < n \<Longrightarrow> n < 256 \<Longrightarrow> table_inv (requests_new (pool_new n))"
  using pool_inv_new [of n] by (simp add: table_inv_def requests_new_def holds_def queued_def pool_new_def)

lemma table_inv_step:
  assumes "table_inv st" "early_in_memory x"
  shows "table_inv (disk_step ratio percent x st)"
proof -
  let ?st = "disk_step ratio percent x st"
  have old: "pool_inv (pool st)" "\<And>h k. holds h k st \<Longrightarrow> dm_contains (files st) h"
      "\<And>y. queued (pool st) y \<Longrightarrow> dm_contains (files st) (fst y)"
      "\<And>k r. dm_get (table st) k = Some r \<Longrightarrow> early_ok r"
    using assms(1) unfolding table_inv_def by blast+
  have "dm_contains (files ?st) h" if "holds h k ?st" for h k
    using opened_known [OF that] files_stay [OF old(2)] by blast
  moreover have "dm_contains (files ?st) (fst y)" if "queued (pool ?st) y" for y
    using queued_stays [OF that] files_stay [OF old(2)] files_stay [OF old(3)] by blast
  moreover have "early_ok r" if "dm_get (table ?st) k = Some r" for k r
    using early_stays [OF assms(2) old(4) that] .
  ultimately show ?thesis using pool_stays [OF old(1)] unfolding table_inv_def by blast
qed

lemma fresh_unused:
  assumes "table_inv st" "\<not> dm_contains (files st) h"
  shows "handle_unused h st"
proof -
  have "pq_file_opened r \<noteq> Some h" if "dm_get (table st) k = Some r" for k r
    using assms that unfolding table_inv_def holds_def by blast
  moreover have "fst x \<noteq> h" if "q \<in> set (worker_queues (pool st))" "x \<in> set q" for q x
    using assms that unfolding table_inv_def queued_def by blast
  ultimately show ?thesis unfolding handle_unused_def by blast
qed


subsection \<open>A file while its request is in the table\<close>

text \<open>
  The file \<open>h\<close> belongs to one request only; as long as the entry of the request has it, file and
  waiting items follow the body \<open>bs\<close>.
\<close>

definition tracked :: "conn_id \<Rightarrow> stream_id \<Rightarrow> uuid \<Rightarrow> bytes \<Rightarrow> ('l, 'f) requests_state \<Rightarrow> bool" where
  "tracked c i h bs st \<longleftrightarrow> table_inv st \<and> dm_contains (files st) h
     \<and> (\<forall>k. holds h k st \<longrightarrow> k = (c, i) \<and> receiving c i h bs st)"

definition concluded :: "uuid \<Rightarrow> bytes \<Rightarrow> ('l, 'f) requests_state \<Rightarrow> bool" where
  "concluded h bs st \<longleftrightarrow> table_inv st \<and> dm_contains (files st) h \<and> (\<forall>k. \<not> holds h k st) \<and> file_final h bs st"

text \<open>What ends the reception of a request takes its file out of the table.\<close>

lemma ends_releases:
  assumes "ends_reception c i x" "\<not> disturbs h x"
  shows "\<not> holds h (c, i) (disk_step ratio percent x st)"
proof (cases x)
  case (Treat_Headers storage env i' c' m path hs len dm sub)
  then show ?thesis using assms
    by (auto simp: holds_def disk_defs opens_as_def
        split: option.splits DataManagement.splits BodyStorage.splits sum.splits if_splits)
qed (use assms in \<open>auto simp: holds_def disk_defs split_beta split: option.splits\<close>)

lemma tracked_operation:
  assumes st: "tracked c i h bs st" and x: "\<not> disturbs h x" "early_in_memory x"
  shows "tracked c i h (bs @ body_of c i x) (disk_step ratio percent x st)"
proof -
  have "k = (c, i) \<and> receiving c i h (bs @ body_of c i x) (disk_step ratio percent x st)"
    if after: "holds h k (disk_step ratio percent x st)" for k
  proof -
    have "holds h k st" using holds_step [OF x(1) after] .
    then have k: "k = (c, i)" "receiving c i h bs st" using st unfolding tracked_def by blast+
    then have "\<not> ends_reception c i x" using ends_releases [OF _ x(1)] after by blast
    then show ?thesis using receiving_step [OF k(2) x(1)] k(1) by blast
  qed
  then show ?thesis using st table_inv_step [OF _ x(2)] files_stay unfolding tracked_def by blast
qed

lemma concluded_operation:
  assumes "concluded h bs st" "\<not> disturbs h x" "early_in_memory x"
  shows "concluded h bs (disk_step ratio percent x st)"
  using assms table_inv_step files_stay holds_step other_step_final unfolding concluded_def by meson


subsection \<open>Steps of the server as operations\<close>

abbreviation nw_requests :: "('c, 'h, 'm, 'l, 'f, 'w, 't) network \<Rightarrow> ('l, 'f) requests_state" where
  "nw_requests nw \<equiv> sv_requests (nw_server nw)"

text \<open>The packet that a step stores, and what its label says of an operation.\<close>

fun stored_bytes :: "conn_id \<Rightarrow> stream_id \<Rightarrow> 'm server_label \<Rightarrow> bytes" where
  "stored_bytes c i (Stored c' i' p) = (if c' = c \<and> i' = i then p else [])"
| "stored_bytes c i _ = []"

definition body_stored :: "conn_id \<Rightarrow> stream_id \<Rightarrow> 'm server_label list \<Rightarrow> bytes" where
  "body_stored c i ls = concat (map (stored_bytes c i) ls)"

fun explained :: "'m server_label \<Rightarrow> (uuid, file_cell) dashmap \<Rightarrow> 'l disk_op \<Rightarrow> bool" where
  "explained l fs (Open_Request storage env c i m dm sub hs path len e) \<longleftrightarrow> \<not> dm_contains fs (env_handle env)"
| "explained l fs (Treat_Headers storage env i c m path hs len dm sub) \<longleftrightarrow> \<not> dm_contains fs (env_handle env)"
| "explained l fs (Early_Request storage env c i dm sub e) \<longleftrightarrow> dm = Some (Storage InMemory)"
| "explained l fs (Threads (Use_Handle h x)) \<longleftrightarrow> l = Used h x"
| "explained l fs _ \<longleftrightarrow> True"

definition acts ::
  "(usize \<Rightarrow> usize \<Rightarrow> 'f) \<Rightarrow> ('f \<Rightarrow> usize) \<Rightarrow> 'm server_label \<Rightarrow> ('l, 'f) requests_state \<Rightarrow> ('l, 'f) requests_state \<Rightarrow> bool" where
  "acts ratio percent l st st' \<longleftrightarrow> (\<exists>ops. st' = fold (disk_step ratio percent) ops st
     \<and> list_all (explained l (files st)) ops \<and> (\<forall>c i. body_received c i ops = stored_bytes c i l))"

lemma acts_none: "(\<And>c i. stored_bytes c i l = []) \<Longrightarrow> acts ratio percent l st st"
  unfolding acts_def by (rule exI [of _ "[]"]) (simp add: body_received_def)

lemma acts_one:
  assumes "st' = disk_step ratio percent x st" "explained l (files st) x" "\<And>c i. body_of c i x = stored_bytes c i l"
  shows "acts ratio percent l st st'"
  unfolding acts_def by (rule exI [of _ "[x]"]) (use assms in \<open>simp add: body_received_def\<close>)

text \<open>The operations of the network loop that reach the table.\<close>

lemma start_requests: "start_attached_body fe i h n (cl, sv) = Some (cl', sv') \<Longrightarrow> sv_requests sv' = sv_requests sv"
  by (auto simp: start_attached_body_def Let_def split: option.splits)

lemma opening_requests:
  assumes "send_popped_opening tr i h (cl, sv) = Some (cl', sv')"
  shows "sv_requests sv' = sv_requests sv"
proof -
  obtain r cl1 where r: "send_stream_opening tr i (hr_headers h) cl = Some (r, cl1)"
    using assms by (auto simp: send_popped_opening_def bind_eq_Some_conv)
  show ?thesis
  proof (cases r)
    case (Inl e)
    then show ?thesis using assms r by (cases e) (auto simp: send_popped_opening_def split_beta)
  qed (use assms r in \<open>simp add: send_popped_opening_def\<close>)
qed

lemma popped_requests:
  "send_popped_response tr fe i h n (cl, sv) = Some (cl', sv') \<Longrightarrow> sv_requests sv' = sv_requests sv"
  "send_popped_additional tr fe i h n (cl, sv) = Some (cl', sv') \<Longrightarrow> sv_requests sv' = sv_requests sv"
  "send_popped_body tr s i chunk (cl, sv) = Some (cl', sv') \<Longrightarrow> sv_requests sv' = sv_requests sv"
  subgoal by (auto simp: send_popped_response_def bind_eq_Some_conv split: if_splits dest: start_requests)
  subgoal by (auto simp: send_popped_additional_def bind_eq_Some_conv split: if_splits dest: start_requests)
  subgoal by (simp add: send_popped_body_def Let_def split_beta bind_eq_Some_conv split: if_splits) auto
  done

lemma status_requests:
  "send_popped_status tr i h (cl, sv) = Some (cl', sv') \<Longrightarrow>
     sv_requests sv' = sv_requests sv \<or> (\<exists>c. sv_requests sv' = set_intermediate_headers_send i c (sv_requests sv))"
  by (auto simp: send_popped_status_def bind_eq_Some_conv split: if_splits)

lemma send_popped_requests:
  assumes "send_popped tr fe s i item (cl, sv) = Some (cl', sv')"
  shows "sv_requests sv' = sv_requests sv \<or> (\<exists>c. sv_requests sv' = set_intermediate_headers_send i c (sv_requests sv))"
proof (cases item)
  case (Q_Header h)
  then obtain n where "(case hr_priority_mode h of
         OpenStream \<Rightarrow> send_popped_opening tr i h (cl, sv)
       | SendHeader \<Rightarrow> send_popped_response tr fe i h n (cl, sv)
       | SendHeader100 \<Rightarrow> send_popped_status tr i h (cl, sv)
       | SendAdditionnalHeader \<Rightarrow> send_popped_additional tr fe i h n (cl, sv)
       | SendWithPriority \<Rightarrow> Some (cl, sv)) = Some (cl', sv')"
    using assms by (auto simp: send_popped_header_def bind_eq_Some_conv)
  then show ?thesis
    by (cases "hr_priority_mode h") (simp_all add: opening_requests popped_requests status_requests)
qed (use assms popped_requests(3) in auto)

lemma pop_requests:
  assumes "pop_and_send tr fe s i (cl, sv) = Some (cl', sv')"
  shows "sv_requests sv' = sv_requests sv \<or> (\<exists>c. sv_requests sv' = set_intermediate_headers_send i c (sv_requests sv))"
  using assms
  by (auto simp: pop_and_send_def Let_def split_beta split: option.splits if_splits sum.splits dest!: send_popped_requests)

text \<open>The header phase, a packet, an event and a job of the other threads.\<close>

lemma worker_requests:
  assumes "hp_jobs p = job # jobs"
    and "run_middlewares call (mj_middleware_collection job) (mj_headers job) (sv_app (hp_server p)) = (decision, w)"
  shows "case decision of
      Inl _ \<Rightarrow> sv_requests (hp_server (middleware_worker call he storage env p)) = sv_requests (hp_server p)
    | Inr hs \<Rightarrow> \<exists>m dm sub path len e. sv_requests (hp_server (middleware_worker call he storage env p))
        = enter_headers storage env (mj_conn_id job) (mj_stream_id job) m dm sub hs path len e (sv_requests (hp_server p))"
proof (cases decision)
  case (Inl e)
  then show ?thesis using assms by (simp add: middleware_worker_def send_done_def send_rejected_def)
next
  case (Inr hs)
  let ?rq = "sv_requests (hp_server p)" and ?i = "mj_stream_id job" and ?c = "mj_conn_id job"
  have new: "\<exists>dm sub e. create_new_request_in_table he storage env path ?i ?c m hs len more ?rq
      = add_partial_request storage env ?c ?i m dm sub hs path len e ?rq" for path m len more
    by (auto simp: create_new_request_in_table_def split: option.split prod.split)
  show ?thesis
  proof (cases "is_request_set_in_table ?i ?c ?rq")
    case True
    then show ?thesis using assms Inr
      by (auto simp: middleware_worker_def send_done_def send_signal_def Let_def split_beta enter_headers_def
          regular_request_partial_response_table_update_def stream_request_partial_response_table_update_def
          send_reception_status_first_def split: RouteType.split) blast+
  next
    case False
    then show ?thesis using assms Inr new
      by (auto simp: middleware_worker_def send_done_def send_signal_def Let_def split_beta enter_headers_def
          regular_request_partial_response_table_update_def stream_request_partial_response_table_update_def
          send_reception_status_first_def split: RouteType.split) blast+
  qed
qed

lemma enter_acts:
  assumes "\<not> dm_contains (files st) (env_handle env)" "\<And>c i. stored_bytes c i l = []"
  shows "acts ratio percent l st (enter_headers storage env c i m dm sub hs path len e st)"
proof (cases "is_request_set_in_table i c st")
  case True
  then show ?thesis
    by (intro acts_one [where x = "Treat_Headers storage env i c m path hs len dm sub"])
      (use assms in \<open>simp_all add: enter_headers_def\<close>)
next
  case False
  then show ?thesis
    by (intro acts_one [where x = "Open_Request storage env c i m dm sub hs path len e"])
      (use assms in \<open>simp_all add: enter_headers_def\<close>)
qed

lemma packet_acts: "acts ratio percent (Stored c i packet) st (store_body_packet storage env i s c packet st)"
proof (cases "is_request_set_in_table i c st")
  case True
  then show ?thesis
    by (intro acts_one [where x = "Body_Packet c s i packet False"]) (auto simp: store_body_packet_def)
next
  case False
  let ?early = "Early_Request storage env c i (Some (Storage InMemory)) None False"
  show ?thesis unfolding acts_def
    by (rule exI [of _ "[?early, Body_Packet c s i packet False]"])
      (use False in \<open>auto simp: store_body_packet_def set_request_in_table_def data_management_default_def
        body_storage_default_def body_received_def\<close>)
qed

lemma drop_acts: "(\<And>c i. stored_bytes c i l = []) \<Longrightarrow> acts ratio percent l st (discard_request c j st)"
  by (rule acts_one [where x = "Drop_Request c j"]) simp_all

lemma event_acts:
  assumes "handle_event fuel tr ik storage env i ev (cl, p, v) = Some (cl', p', v')" "ev \<noteq> Data_Event"
    and "\<And>c i. stored_bytes c i l = []"
  shows "acts ratio percent l (sv_requests (hp_server p)) (sv_requests (hp_server p'))"
  using assms
  by (cases ev)
    (auto simp: handle_event_def handle_headers_event_def handle_finished_event_def handle_reset_event_def Let_def
      process_header_def case_prod_beta begin_request_def cancel_request_def discard_in_server_def
      handle_finished_stream_def pool_send_def intro!: acts_none drop_acts split: option.splits)

text \<open>A response worker takes the request out of the table, or drops it.\<close>

lemma answer_requests: "answer_route m i s c pr e resp sv = Some sv' \<Longrightarrow> sv_requests sv' = sv_requests sv"
  by (cases m) (auto simp: answer_route_def Let_def bind_eq_Some_conv split: option.splits)

lemma opened_stream_requests: "sv_requests (snd (open_stream_then_call i s callback sv)) = sv_requests sv"
  by (auto simp: open_stream_then_call_def Let_def split_beta split: sum.split)

lemma preparation_requests:
  assumes "response_preparation_with_route_handler he c s i et pr sv = Some sv'"
  shows "sv_requests sv' = snd (build_route_event c s i et (sv_requests sv))"
  using assms
  by (auto simp: response_preparation_with_route_handler_def Let_def split_beta bind_eq_Some_conv opened_stream_requests
      dest!: answer_requests split: option.splits RouteEvent.splits)

lemma takes_requests:
  assumes "ib_step he Worker_Takes b b'"
  shows "sv_requests (ib_server b') = sv_requests (ib_server b) \<and> ib_dispatched b' = ib_dispatched b
    \<or> (\<exists>c i. sv_requests (ib_server b') = discard_request c i (sv_requests (ib_server b)) \<and> ib_dispatched b' = ib_dispatched b)
    \<or> (\<exists>c s i. sv_requests (ib_server b') = snd (build_route_event c s i OnFinished_Type (sv_requests (ib_server b)))
         \<and> ib_dispatched b' = ib_dispatched b @ [(i, c)])"
proof -
  obtain ri jobs over b1 where jobs: "ib_jobs b = ri # jobs"
    and consume: "register_consume he ri (b\<lparr>ib_jobs := jobs\<rparr>) = Some (over, b1)"
    and b': "b' = (if over then b1 else b1\<lparr>ib_checking := ib_checking b1 @ [ri]\<rparr>)"
    using assms by (auto elim: ib_step.cases)
  show ?thesis using consume unfolding b'
    by (auto simp: register_consume_def Let_def discard_in_server_def ri_req_id_def
        dest!: preparation_requests split: option.splits RequestDisposition.splits) blast+
qed

lemma takes_acts:
  assumes "ib_step he Worker_Takes b b'"
  shows "acts ratio percent Taken (sv_requests (ib_server b)) (sv_requests (ib_server b'))"
  using takes_requests [OF assms]
proof (elim disjE exE conjE)
  fix c s i
  assume "sv_requests (ib_server b') = snd (build_route_event c s i OnFinished_Type (sv_requests (ib_server b)))"
  then show ?thesis by (intro acts_one [where x = "Finish_Request c s i"]) simp_all
qed (simp_all add: acts_none drop_acts)

lemma step_acts:
  assumes "server_step H l nw nw'"
  shows "acts ratio percent l (nw_requests nw) (nw_requests nw')"
  using assms
proof cases
  case (srv_event k cl i ev cl1 fuel env st)
  obtain cl2 p2 v2 where st: "st = (cl2, p2, v2)" by (metis prod_cases3)
  have "stored_bytes c j l = []" for c j using srv_event(1) by (cases ev) (auto split: if_splits)
  then show ?thesis using event_acts [OF srv_event(6) [unfolded st] srv_event(5), of l] srv_event(2) by (simp add: st)
next
  case (srv_body k cl i packet cl1 env)
  then show ?thesis by (simp add: on_requests_def packet_acts)
next
  case (srv_resets k cl st)
  then show ?thesis by (cases st) (auto simp: reset_phase_def Let_def split_beta intro!: acts_none)
next
  case (srv_send k cl fe i st)
  obtain cl1 sv1 where st: "st = (cl1, sv1)" by fastforce
  from pop_requests [OF srv_send(4) [unfolded st]] show ?thesis
  proof (elim disjE exE)
    fix c assume "sv_requests sv1 = set_intermediate_headers_send i c (nw_requests nw)"
    then show ?thesis using srv_send(1,2) by (intro acts_one [where x = "Progress_Header i c"]) (simp_all add: st)
  qed (use srv_send(1,2) st in \<open>simp add: acts_none\<close>)
next
  case (srv_collect k cl nw1)
  have "nw_requests nw' = discard_connection (trace_of H cl) (nw_requests nw)"
    using srv_collect by (simp add: collect_client_def cancel_connection_def Let_def)
  then show ?thesis using srv_collect(1) by (intro acts_one [where x = "Drop_Connection (trace_of H cl)"]) simp_all
next
  case (srv_header msg rest)
  then show ?thesis by (auto simp: requests_kept header_label_def intro!: acts_none split: option.split)
next
  case (srv_middleware n job decision w env)
  let ?p = "(nw_pipeline nw)\<lparr>hp_jobs := to_front n (hp_jobs (nw_pipeline nw))\<rparr>"
  have "hp_jobs ?p = job # take n (hp_jobs (nw_pipeline nw)) @ drop (Suc n) (hp_jobs (nw_pipeline nw))"
    using srv_middleware by (simp add: to_front_def)
  from worker_requests [OF this, of "ho_middleware H" decision w "ho_handlers H" "ho_storage H" env]
  show ?thesis using srv_middleware
    by (cases decision) (auto simp: verdict_label_def intro!: acts_none enter_acts)
next
  case srv_result
  then show ?thesis
    by (auto simp: handle_middleware_result_def send_error_def Let_def intro!: acts_none
        split: list.split MiddleWareResult.split option.split prod.split)
next
  case srv_receive
  then show ?thesis
    by (auto simp: receive_signal_def discard_in_server_def Let_def intro!: acts_none drop_acts split: list.split)
next
  case (srv_takes b)
  then show ?thesis using takes_acts by simp
next
  case (srv_checks n b)
  then have "ib_server b = ib_server (nw_buffer nw)" by (auto elim!: ib_step.cases split: sum.split)
  then show ?thesis using srv_checks by (simp add: acts_none)
next
  case (srv_writer x n h)
  then show ?thesis by (intro acts_one [where x = "Threads x"]) auto
next
  case (srv_handle h x)
  then show ?thesis by (intro acts_one [where x = "Threads (Use_Handle h x)"]) auto
qed (simp_all add: acts_none put_client_def put_server_def on_buffer_def on_server_def)



subsection \<open>From the acceptance of a request to its end and beyond\<close>

lemma explained_disk:
  assumes "explained l fs x" "dm_contains fs h" "\<forall>z. l = Used h z \<longrightarrow> leaves_content z"
  shows "\<not> disturbs h x \<and> early_in_memory x"
proof (cases x)
  case (Threads y)
  then show ?thesis using assms by (cases y) auto
qed (use assms in \<open>auto simp: opens_as_def\<close>)

lemma acts_ops:
  assumes "acts ratio percent l st st'" "dm_contains (files st) h" "\<forall>z. l = Used h z \<longrightarrow> leaves_content z"
  obtains ops where "st' = fold (disk_step ratio percent) ops st"
    "list_all (\<lambda>x. \<not> disturbs h x \<and> early_in_memory x) ops" "\<And>c i. body_received c i ops = stored_bytes c i l"
proof -
  obtain ops where ops: "st' = fold (disk_step ratio percent) ops st" "list_all (explained l (files st)) ops"
    "\<And>c i. body_received c i ops = stored_bytes c i l"
    using assms(1) unfolding acts_def by blast
  show thesis
    by (rule that [OF ops(1) _ ops(3)]) (use ops(2) explained_disk [OF _ assms(2,3)] in \<open>auto simp: list_all_iff\<close>)
qed

lemma table_inv_acts:
  assumes "acts ratio percent l st st'" "table_inv st"
  shows "table_inv st'"
proof -
  obtain ops where ops: "st' = fold (disk_step ratio percent) ops st" "list_all (explained l (files st)) ops"
    using assms(1) unfolding acts_def by blast
  have "early_in_memory x" if "explained l (files st) x" for x using that by (cases x) auto
  with ops(2) have "list_all early_in_memory ops" by (auto simp: list_all_iff)
  then show ?thesis using assms(2) unfolding ops(1)
    by (induction ops arbitrary: st) (auto intro: table_inv_step)
qed

lemma tracked_ops:
  "tracked c i h bs st \<Longrightarrow> list_all (\<lambda>x. \<not> disturbs h x \<and> early_in_memory x) ops \<Longrightarrow>
     tracked c i h (bs @ body_received c i ops) (fold (disk_step ratio percent) ops st)"
proof (induction ops arbitrary: bs st)
  case (Cons x ops)
  then show ?case using Cons.IH [OF tracked_operation [OF Cons.prems(1)]] by (simp add: body_received_def)
qed (simp add: body_received_def)

lemma concluded_ops:
  "concluded h bs st \<Longrightarrow> list_all (\<lambda>x. \<not> disturbs h x \<and> early_in_memory x) ops \<Longrightarrow>
     concluded h bs (fold (disk_step ratio percent) ops st)"
  by (induction ops arbitrary: st) (auto intro: concluded_operation)

lemma tracked_run:
  assumes "server_run H ls nw nw'" "tracked c i h bs (nw_requests nw)" "\<forall>z. Used h z \<in> set ls \<longrightarrow> leaves_content z"
  shows "tracked c i h (bs @ body_stored c i ls) (nw_requests nw')"
  using assms
proof (induction rule: server_run.induct)
  case (srv_step ls nw nw1 l nw2)
  have one: "tracked c i h (bs @ body_stored c i ls) (nw_requests nw1)" using srv_step by auto
  then have known: "dm_contains (files (nw_requests nw1)) h" by (simp add: tracked_def)
  have use: "\<forall>z. l = Used h z \<longrightarrow> leaves_content z" using srv_step.prems(2) by auto
  obtain ops where "nw_requests nw2 = fold (disk_step (\<lambda>_ _. undefined) (\<lambda>_. 0)) ops (nw_requests nw1)"
    "list_all (\<lambda>x. \<not> disturbs h x \<and> early_in_memory x) ops" "\<And>c i. body_received c i ops = stored_bytes c i l"
    by (rule acts_ops [OF step_acts [OF srv_step.hyps(2), of "\<lambda>_ _. undefined" "\<lambda>_. 0"] known use]) (rule that)
  then show ?case using tracked_ops [OF one, of ops "\<lambda>_ _. undefined" "\<lambda>_. 0"] by (simp add: body_stored_def)
qed (simp add: body_stored_def)

lemma concluded_run:
  assumes "server_run H ls nw nw'" "concluded h bs (nw_requests nw)" "\<forall>z. Used h z \<in> set ls \<longrightarrow> leaves_content z"
  shows "concluded h bs (nw_requests nw')"
  using assms
proof (induction rule: server_run.induct)
  case (srv_step ls nw nw1 l nw2)
  have one: "concluded h bs (nw_requests nw1)" using srv_step by auto
  then have known: "dm_contains (files (nw_requests nw1)) h" by (simp add: concluded_def)
  have use: "\<forall>z. l = Used h z \<longrightarrow> leaves_content z" using srv_step.prems(2) by auto
  obtain ops where "nw_requests nw2 = fold (disk_step (\<lambda>_ _. undefined) (\<lambda>_. 0)) ops (nw_requests nw1)"
    "list_all (\<lambda>x. \<not> disturbs h x \<and> early_in_memory x) ops"
    by (rule acts_ops [OF step_acts [OF srv_step.hyps(2), of "\<lambda>_ _. undefined" "\<lambda>_. 0"] known use]) (rule that)
  then show ?case using concluded_ops [OF one] by simp
qed simp

text \<open>What the table keeps of a body before the headers are accepted.\<close>

definition kept_early :: "conn_id \<Rightarrow> stream_id \<Rightarrow> ('l, 'f) requests_state \<Rightarrow> bytes" where
  "kept_early c i st = (case dm_get (table st) (c, i) of None \<Rightarrow> [] | Some r \<Rightarrow> pq_body r)"

definition headers_awaited :: "conn_id \<Rightarrow> stream_id \<Rightarrow> ('l, 'f) requests_state \<Rightarrow> bool" where
  "headers_awaited c i st \<longleftrightarrow> (case dm_get (table st) (c, i) of None \<Rightarrow> True | Some r \<Rightarrow> pq_method r = None)"

text \<open>Acceptance is the only step that gives an entry a file, and only by opening one.\<close>

lemma accepted_enters:
  assumes "server_step H (Accepted job hs) nw nw'"
  obtains env m dm sub path len e where "\<not> dm_contains (files (nw_requests nw)) (env_handle env)"
    "nw_requests nw' = enter_headers (ho_storage H) env (mj_conn_id job) (mj_stream_id job) m dm sub hs path len e (nw_requests nw)"
  using assms
proof cases
  case (srv_middleware n job' decision w env)
  let ?p = "(nw_pipeline nw)\<lparr>hp_jobs := to_front n (hp_jobs (nw_pipeline nw))\<rparr>"
  have d: "job' = job" "decision = Inr hs" using srv_middleware(1) by (auto simp: verdict_label_def split: sum.splits)
  have "hp_jobs ?p = job # take n (hp_jobs (nw_pipeline nw)) @ drop (Suc n) (hp_jobs (nw_pipeline nw))"
    using srv_middleware d by (simp add: to_front_def)
  from worker_requests [OF this, of "ho_middleware H" decision w "ho_handlers H" "ho_storage H" env]
  show thesis using srv_middleware d that by auto
next
  case (srv_event k cl i ev cl1 fuel env st)
  then show thesis by (cases ev) (auto split: if_splits)
next
  case (srv_header msg rest)
  then show thesis by (auto simp: header_label_def split: option.splits if_splits)
qed

lemma entered_opens:
  assumes "handle_unused h st" "holds h (c, i) (enter_headers storage env c i m dm sub hs path len e st)"
  shows "dm = Some (Storage File) \<and> env_handle env = h \<and> env_create_ok env"
proof -
  have none: "\<not> holds h k st" for k using assms(1) unfolding handle_unused_def holds_def by blast
  have "opens_as h env dm"
  proof (rule ccontr)
    assume "\<not> opens_as h env dm"
    from holds_add [OF this] holds_treat [OF this] have "holds h (c, i) st"
      using assms(2) by (cases "is_request_set_in_table i c st") (simp_all add: enter_headers_def)
    then show False using none by blast
  qed
  moreover have "env_create_ok env"
  proof (rule ccontr)
    assume "\<not> env_create_ok env"
    then show False using assms(2) none [of "(c, i)"] calculation
      by (auto simp: enter_headers_def request_set_get disk_defs opens_as_def holds_def split: if_splits)
  qed
  ultimately show ?thesis by (simp add: opens_as_def)
qed

lemma accepted_tracked:
  assumes step: "server_step H (Accepted job hs) nw nw1" and inv: "table_inv (nw_requests nw)"
    and fresh: "\<not> dm_contains (files (nw_requests nw)) h"
    and opened: "holds h (mj_conn_id job, mj_stream_id job) (nw_requests nw1)"
    and early: "headers_awaited (mj_conn_id job) (mj_stream_id job) (nw_requests nw)"
  shows "tracked (mj_conn_id job) (mj_stream_id job) h
    (kept_early (mj_conn_id job) (mj_stream_id job) (nw_requests nw)) (nw_requests nw1)"
proof -
  let ?c = "mj_conn_id job" and ?i = "mj_stream_id job"
  obtain env m dm sub path len e where
    enter: "nw_requests nw1 = enter_headers (ho_storage H) env ?c ?i m dm sub hs path len e (nw_requests nw)"
    by (rule accepted_enters [OF step])
  note unused = fresh_unused [OF inv fresh]
  have env: "dm = Some (Storage File)" "env_handle env = h" "env_create_ok env"
    using entered_opens [OF unused opened [unfolded enter]] by simp_all
  have eb: "early_body ?c ?i (kept_early ?c ?i (nw_requests nw)) (nw_requests nw)"
  proof (cases "dm_get (table (nw_requests nw)) (?c, ?i)")
    case (Some r)
    then have "early_ok r" using inv unfolding table_inv_def by blast
    then show ?thesis using Some early by (simp add: early_body_def kept_early_def headers_awaited_def early_ok_def)
  qed (simp add: early_body_def kept_early_def)
  have pi: "pool_inv (pool (nw_requests nw))" using inv by (simp add: table_inv_def)
  have rec: "receiving ?c ?i h (kept_early ?c ?i (nw_requests nw)) (nw_requests nw1)"
    unfolding enter env(1) by (rule enter_headers_receiving [OF eb unused pi env(3,2)])
  have inv1: "table_inv (nw_requests nw1)"
    by (rule table_inv_acts [OF step_acts [OF step, of "\<lambda>_ _. undefined" "\<lambda>_. 0"] inv])
  then have "dm_contains (files (nw_requests nw1)) h" using opened unfolding table_inv_def by blast
  then show ?thesis using rec inv1 unfolding tracked_def receiving_def by blast
qed

text \<open>A worker that runs the handlers of a request ends its reception.\<close>

lemma taken_concluded:
  assumes step: "server_step H Taken nw nw'" and st: "tracked c i h bs (nw_requests nw)" "holds h (c, i) (nw_requests nw)"
    and ran: "ib_dispatched (nw_buffer nw') = ib_dispatched (nw_buffer nw) @ [(i, c)]"
  shows "concluded h bs (nw_requests nw')"
    "\<exists>s ev. fst (build_route_event c s i OnFinished_Type (nw_requests nw)) = Ok (OnFinished ev)
       \<and> nw_requests nw' = snd (build_route_event c s i OnFinished_Type (nw_requests nw))
       \<and> fe_file_writer ev = Some h \<and> fe_bytes_written ev = length bs"
proof -
  have "ib_step (ho_handlers H) Worker_Takes (nw_buffer nw) (nw_buffer nw')"
    using step
  proof cases
    case (srv_event k cl j ev cl1 fuel env st)
    then show ?thesis by (cases ev) (auto split: if_splits)
  next
    case (srv_header msg rest)
    then show ?thesis by (auto simp: header_label_def split: option.splits if_splits)
  next
    case (srv_middleware n job decision w env)
    then show ?thesis by (auto simp: verdict_label_def split: sum.splits)
  qed simp_all
  from takes_requests [OF this] obtain s where
    fin: "nw_requests nw' = snd (build_route_event c s i OnFinished_Type (nw_requests nw))"
    using ran by auto
  obtain answer where event: "build_route_event c s i OnFinished_Type (nw_requests nw) = (answer, nw_requests nw')"
    using fin by (cases "build_route_event c s i OnFinished_Type (nw_requests nw)") simp
  have rec: "receiving c i h bs (nw_requests nw)" using st unfolding tracked_def by blast
  note final = finish_final [OF rec event]
  have "table_inv (nw_requests nw)" "dm_contains (files (nw_requests nw)) h" using st(1) unfolding tracked_def by blast+
  moreover have "nw_requests nw' = disk_step (\<lambda>_ _. undefined) (\<lambda>_. 0) (Finish_Request c s i) (nw_requests nw)"
    by (simp add: fin)
  ultimately have "table_inv (nw_requests nw')" "dm_contains (files (nw_requests nw')) h"
    using table_inv_step [of "nw_requests nw" "Finish_Request c s i"] files_stay [of "nw_requests nw" h _ _ "Finish_Request c s i"] by simp_all
  then show "concluded h bs (nw_requests nw')" using final(1,2) unfolding concluded_def by blast
  show "\<exists>s ev. fst (build_route_event c s i OnFinished_Type (nw_requests nw)) = Ok (OnFinished ev)
       \<and> nw_requests nw' = snd (build_route_event c s i OnFinished_Type (nw_requests nw))
       \<and> fe_file_writer ev = Some h \<and> fe_bytes_written ev = length bs"
    using final(3) event by (intro exI [of _ s]) auto
qed

lemma table_inv_run:
  assumes "server_run H ls nw nw'" "table_inv (nw_requests nw)"
  shows "table_inv (nw_requests nw')"
  using assms(1,2)
proof (rule srv_invariant)
  fix l nw1 nw2
  assume "table_inv (nw_requests nw1)" "server_step H l nw1 nw2"
  then show "table_inv (nw_requests nw2)"
    using table_inv_acts [OF step_acts [of H l nw1 nw2 "\<lambda>_ _. undefined" "\<lambda>_. 0"]] by blast
qed

text \<open>
  C8. In every run of the whole server a request stored in a file is written whole. A middleware
  worker accepts it and opens its file; then all threads take steps in any order, the application
  writing through that file's handle excepted; a response worker takes the request and runs its
  handlers; and again all threads go on. The finished event names the file and its number of bytes, and
  from then on, unless the file reports a failure, the file followed by the packets that wait for its
  writer thread is exactly what the table kept of the body before the headers were accepted and every
  packet the network loop stored since; a file reported written has all of it on disk, and without
  failure it is reported written as soon as nothing waits.
\<close>

theorem server_file_exact:
  assumes "server_run H ls0 start nw" "nw_requests start = requests_new (pool_new n)" "0 < n" "n < 256"
    and "server_step H (Accepted job hs) nw nw1" "c = mj_conn_id job" "i = mj_stream_id job"
    and "headers_awaited c i (nw_requests nw)" "\<not> dm_contains (files (nw_requests nw)) h" "holds h (c, i) (nw_requests nw1)"
    and "server_run H ls nw1 nw2" "holds h (c, i) (nw_requests nw2)"
    and "server_step H Taken nw2 nw3" "ib_dispatched (nw_buffer nw3) = ib_dispatched (nw_buffer nw2) @ [(i, c)]"
    and "server_run H later nw3 nw4" "\<forall>z. Used h z \<in> set (ls @ later) \<longrightarrow> leaves_content z"
    and "body = kept_early c i (nw_requests nw) @ body_stored c i ls"
  shows "(\<exists>s ev. fst (build_route_event c s i OnFinished_Type (nw_requests nw2)) = Ok (OnFinished ev)
       \<and> nw_requests nw3 = snd (build_route_event c s i OnFinished_Type (nw_requests nw2))
       \<and> fe_file_writer ev = Some h \<and> fe_bytes_written ev = length body)
    \<and> (\<exists>cell. dm_get (files (nw_requests nw4)) h = Some cell
       \<and> (failure cell \<noteq> None \<or> content cell @ awaiting h (pool (nw_requests nw4)) = body)
       \<and> (is_file_written cell \<noteq> Ok True \<or> disk cell = body)
       \<and> (failure cell \<noteq> None \<or> awaiting h (pool (nw_requests nw4)) \<noteq> [] \<or> is_file_written cell = Ok True))"
proof -
  have "table_inv (nw_requests nw)"
    by (rule table_inv_run [OF assms(1)]) (simp add: assms(2) table_inv_new [OF assms(3,4)])
  then have "tracked c i h (kept_early c i (nw_requests nw)) (nw_requests nw1)"
    using accepted_tracked [OF assms(5) _ assms(9)] assms(6-8,10) by simp
  from tracked_run [OF assms(11) this] have "tracked c i h body (nw_requests nw2)"
    using assms(16,17) by simp
  note taken = taken_concluded [OF assms(13) this assms(12,14)]
  have "concluded h body (nw_requests nw4)"
    by (rule concluded_run [OF assms(15) taken(1)]) (use assms(16) in simp)
  then have "file_final h body (nw_requests nw4)" by (simp add: concluded_def)
  then show ?thesis using taken(2) final_shown by (intro conjI)
qed

subsection \<open>Witness\<close>

text \<open>An upload of four bytes, two before and two after the headers are accepted.\<close>

definition upload_handlers :: "(nat, nat, unit, nat list) handler_env" where
  "upload_handlers = demo_he (manager_build (the (register_all
     [Route ''/a'' POST \<lparr>data_management = Storage File\<rparr> (fb_handler 10)] manager_builder_new)))"

definition upload_host :: "(demo_connection, unit, nat, unit, nat list, registered, byte, nat) host" where
  "upload_host = demo_host\<lparr>ho_intake := demo_intake\<lparr>in_recv_body := (\<lambda>_ hc. (Some [1, 2], hc))\<rparr>,
     ho_handlers := upload_handlers\<rparr>"

definition upload_job :: "nat MiddleWareJob" where
  "upload_job = \<lparr>mj_path = ''/a'', mj_method = POST, mj_stream_id = 4, mj_conn_id = ''c'', mj_has_more_frames = True,
     mj_content_length = None, mj_scid = demo_key, mj_headers = [], mj_middleware_collection = [], mj_route_type = Regular\<rparr>"

definition upload_client :: "(demo_connection, unit) Client" where
  "upload_client = (client_new demo_key (False, []))\<lparr>http3_conn := Some ()\<rparr>"

definition upload_start :: "(demo_connection, unit, nat, unit, unit, nat list, registered) network" where
  "upload_start = \<lparr>nw_clients = [(demo_key, upload_client)],
     nw_pipeline = \<lparr>hp_buffer = \<lparr>ib_signal = [((4, ''c''), Pending)], ib_channel = [],
        ib_server = \<lparr>sv_requests = requests_new (pool_new 2), sv_station = station_new, sv_app = []\<rparr>,
        ib_jobs = [response_injection_new 4 demo_key ''c'' False], ib_checking = [], ib_dispatched = []\<rparr>,
       hp_messages = [], hp_jobs = [upload_job], hp_results = []\<rparr>,
     nw_verifier = verifier_new [''/a''] None, nw_sessions = None, nw_outbox = []\<rparr>"

text \<open>Its steps: a packet is stored, the job is accepted, the signal is received, the request is taken, a writer turns.\<close>

abbreviation upload_packet :: "(nat, unit, unit, nat list) pipeline \<Rightarrow> (nat, unit, unit, nat list) pipeline" where
  "upload_packet \<equiv> on_requests (store_body_packet [] demo_env 4 demo_key ''c'' [1, 2])"

definition upload_0 :: "(nat, unit, unit, nat list) pipeline" where
  "upload_0 = upload_packet (nw_pipeline upload_start)"

definition upload_1 :: "(nat, unit, unit, nat list) pipeline" where
  "upload_1 = middleware_worker demo_mw_call upload_handlers [] demo_env (upload_0\<lparr>hp_jobs := to_front 0 (hp_jobs upload_0)\<rparr>)"

definition upload_2 :: "(nat, unit, unit, nat list) pipeline" where
  "upload_2 = on_buffer receive_signal (upload_packet upload_1)"

definition upload_taken :: "(bool \<times> (unit, unit, nat list) ResponseInjectionBuffer) option" where
  "upload_taken = register_consume upload_handlers (response_injection_new 4 demo_key ''c'' False)
     ((hp_buffer upload_2)\<lparr>ib_jobs := []\<rparr>)"

definition upload_3 :: "(nat, unit, unit, nat list) pipeline" where
  "upload_3 = upload_2\<lparr>hp_buffer := snd (the upload_taken)\<rparr>"

definition upload_4 :: "(nat, unit, unit, nat list) pipeline" where
  "upload_4 = on_requests (thread_step (Writer_Turn 0)) upload_3"

abbreviation upload_at :: "(nat, unit, unit, nat list) pipeline
    \<Rightarrow> (demo_connection, unit, nat, unit, unit, nat list, registered) network" where
  "upload_at p \<equiv> upload_start\<lparr>nw_pipeline := p\<rparr>"

lemma upload_sel [simp]:
  "dm_get (nw_clients upload_start) demo_key = Some upload_client"
  "with_h3 (in_recv_body (ho_intake upload_host) i) upload_client = Some (Some [1, 2], upload_client)"
  "ho_storage upload_host = []" "ho_handlers upload_host = upload_handlers" "ho_middleware upload_host = demo_mw_call"
  "tr_source_id (ho_transport upload_host) x = demo_key" "tr_trace_id (ho_transport upload_host) x = ''c''"
  by (simp_all add: upload_start_def dm_get_def upload_host_def demo_host_def with_h3_def upload_client_def client_new_def
      demo_library_def demo_transport_def)

lemma upload_stores: "server_step upload_host (Stored ''c'' 4 [1, 2]) (upload_at p) (upload_at (upload_packet p))"
proof -
  have "put_intake demo_key (upload_client, upload_packet p, nw_verifier (upload_at p)) (upload_at p) = upload_at (upload_packet p)"
    by (simp add: put_intake_def put_client_def dm_insert_def upload_start_def)
  then show ?thesis
    using srv_body [of "upload_at p" demo_key upload_client upload_host 4 "[1, 2]" upload_client demo_env] by simp
qed

lemma upload_0_value:
  "(hp_jobs upload_0, files (sv_requests (hp_server upload_0)), headers_awaited ''c'' 4 (sv_requests (hp_server upload_0)),
    kept_early ''c'' 4 (sv_requests (hp_server upload_0))) = ([upload_job], [], True, [1, 2])"
  by code_simp

lemma upload_1_value:
  "map_option pq_file_opened (dm_get (table (sv_requests (hp_server upload_1))) (''c'', 4)) = Some (Some 0)"
  by code_simp

lemma upload_2_value:
  "(sv_requests (hp_server upload_2), ib_jobs (hp_buffer upload_2), ib_dispatched (hp_buffer upload_2))
   = (\<lparr>table = [((''c'', 4), (partial_req_new ''c'' 4 (Some POST) (Some (Storage File)) None (Some ''u'') (Some 0) (Some [])
          (Some ''/a'') None False)\<lparr>pq_body_written_size := 4\<rparr>)],
        files = [(0, (handle_new 0 {0} 0 None [] [] True)\<lparr>written := 2, fwriter := Some [], disk := [1, 2]\<rparr>)],
        pool = \<lparr>pool_stream_map = [((4, ''c''), 0)], workers_amount = 2, current_channel_available = 1,
          worker_queues = [[(0, 0, [1, 2])], []]\<rparr>,
        notified = []\<rparr>, [response_injection_new 4 demo_key ''c'' False], [])"
  by code_simp

lemma upload_taken_value:
  "map_option (\<lambda>(over, b). (over, ib_dispatched b)) upload_taken = Some (True, [(4, ''c'')])"
  by code_simp

lemma upload_accepts: "server_step upload_host (Accepted upload_job []) (upload_at upload_0) (upload_at upload_1)"
  using srv_middleware [of 0 "upload_at upload_0" upload_job upload_host "Inr []" "[]" demo_env] upload_0_value
  by (simp add: upload_1_def upload_job_def verdict_label_def upload_0_def on_requests_def upload_start_def)

lemma upload_takes: "server_step upload_host Taken (upload_at upload_2) (upload_at upload_3)"
proof -
  obtain b where b: "upload_taken = Some (True, b)" using upload_taken_value by (auto simp: map_option_eq_Some)
  have jobs: "ib_jobs (hp_buffer upload_2) = [response_injection_new 4 demo_key ''c'' False]" using upload_2_value by simp
  have "ib_step upload_handlers Worker_Takes (hp_buffer upload_2) b"
    using step_takes [OF jobs b [unfolded upload_taken_def]] by simp
  then show ?thesis using srv_takes [of upload_host "upload_at upload_2" b] by (simp add: upload_3_def b)
qed

lemmas writer_eval = write_body_packet_def flush_and_prefix_with_temp_buffer_if_any_bytes_def write_file_def
  Let_def writer_turn_def manage_event_def list_get_def send_writable_item_def get_worker_listener_by_index_def
  notify_def associate_stream_with_next_listener_def dm_contains_def dm_get_def dm_insert_def dm_modify_def
  dm_remove_def build_route_event_def to_route_event_def manage_file_finishing_ev_def

lemma demo_path: "parse_args ''/a'' = (''/a'', None)"
  by code_simp

lemma upload_written:
  "map_option failure (dm_get (files (thread_step (Writer_Turn 0)
     (snd (build_route_event ''c'' s 4 OnFinished_Type (sv_requests (hp_server upload_2)))))) 0) = Some None"
  "awaiting 0 (pool (thread_step (Writer_Turn 0)
     (snd (build_route_event ''c'' s 4 OnFinished_Type (sv_requests (hp_server upload_2)))))) = []"
  using upload_2_value
  by (simp_all add: partial_req_new_def demo_path writer_eval fw_eval awaiting_def items_of_def handle_new_def)

theorem server_file_exact_witness:
  "\<exists>cell. dm_get (files (sv_requests (hp_server upload_4))) 0 = Some cell \<and> is_file_written cell = Ok True
     \<and> disk cell = [1, 2, 1, 2]"
proof -
  let ?at = upload_at
  have start: "nw_requests upload_start = requests_new (pool_new 2)" by (simp add: upload_start_def)
  have early: "headers_awaited ''c'' 4 (nw_requests (?at upload_0))" "\<not> dm_contains (files (nw_requests (?at upload_0))) 0"
      "kept_early ''c'' 4 (nw_requests (?at upload_0)) = [1, 2]"
    using upload_0_value by simp_all
  have stored: "server_run upload_host [Stored ''c'' 4 [1, 2]] upload_start (?at upload_0)"
    using srv_one [OF upload_stores [of "nw_pipeline upload_start"]] by (simp add: upload_0_def)
  have opened: "holds 0 (''c'', 4) (nw_requests (?at upload_1))" "holds 0 (''c'', 4) (nw_requests (?at upload_2))"
    using upload_1_value upload_2_value by (auto simp: holds_def map_option_eq_Some dm_get_def)
  have received: "server_run upload_host [Stored ''c'' 4 [1, 2], Received] (?at upload_1) (?at upload_2)"
    using srv_step [OF srv_one [OF upload_stores [of upload_1]] srv_receive] by (simp add: upload_2_def)
  obtain b where b: "upload_taken = Some (True, b)" "ib_dispatched b = [(4, ''c'')]"
    using upload_taken_value by (auto simp: map_option_eq_Some)
  have ran: "ib_dispatched (nw_buffer (?at upload_3)) = ib_dispatched (nw_buffer (?at upload_2)) @ [(4, ''c'')]"
    using upload_2_value by (simp add: upload_3_def b)
  have turned: "server_run upload_host [Internal] (?at upload_3) (?at upload_4)"
    using srv_one [OF srv_writer [of "Writer_Turn 0" 0 0 upload_host "?at upload_3"]]
    by (simp add: upload_4_def on_requests_def put_server_def on_buffer_def on_server_def)
  have body: "[1, 2, 1, 2] = kept_early ''c'' 4 (nw_requests (?at upload_0)) @ body_stored ''c'' 4 [Stored ''c'' 4 [1, 2], Received]"
    using early(3) by (simp add: body_stored_def)
  have ids: "''c'' = mj_conn_id upload_job" "4 = mj_stream_id upload_job" by (simp_all add: upload_job_def)
  from server_file_exact [OF stored start _ _ upload_accepts ids early(1,2) opened(1) received opened(2) upload_takes ran turned _ body]
  obtain s where "sv_requests (hp_server upload_3) = snd (build_route_event ''c'' s 4 OnFinished_Type (sv_requests (hp_server upload_2)))"
    and cell: "\<exists>cell. dm_get (files (sv_requests (hp_server upload_4))) 0 = Some cell
       \<and> (failure cell \<noteq> None \<or> content cell @ awaiting 0 (pool (sv_requests (hp_server upload_4))) = [1, 2, 1, 2])
       \<and> (is_file_written cell \<noteq> Ok True \<or> disk cell = [1, 2, 1, 2])
       \<and> (failure cell \<noteq> None \<or> awaiting 0 (pool (sv_requests (hp_server upload_4))) \<noteq> [] \<or> is_file_written cell = Ok True)"
    by auto
  then have "sv_requests (hp_server upload_4)
      = thread_step (Writer_Turn 0) (snd (build_route_event ''c'' s 4 OnFinished_Type (sv_requests (hp_server upload_2))))"
    by (simp add: upload_4_def on_requests_def)
  with upload_written [of s] cell show ?thesis by (auto simp: map_option_eq_Some)
qed

end
